(* ===== verification/Prelude.thy ===== *)
theory Prelude
  imports Main "HOL-Library.Word"
begin

unbundle bit_operations_syntax

text \<open>
  Shared vocabulary of the development: machine integers, byte strings, the two ways a Go
  function can fail, and the generic list lemmas that more than one component uses.

  A Go \<open>string\<close> is a HOL \<open>string\<close>, whose characters are bytes; a Go \<open>[]byte\<close> is a list of
  8 bit words; \<open>bytes_of\<close> is the conversion \<open>[]byte(s)\<close> and \<open>string_of\<close> the conversion
  \<open>string(b)\<close>. A result \<open>(T, error)\<close> is a sum: \<open>Inl\<close> carries the error, \<open>Inr\<close> the value.
  Every component declares a datatype of its own errors.
\<close>

section \<open>Machine integers and bytes\<close>

type_synonym u8 = "8 word"
type_synonym u32 = "32 word"
type_synonym u64 = "64 word"
type_synonym bytes = "8 word list"

definition bytes_of :: "string \<Rightarrow> bytes" where
  "bytes_of s = map of_char s"

definition string_of :: "bytes \<Rightarrow> string" where
  "string_of b = map (\<lambda>w. char_of (unat w)) b"

definition max_int64 :: int where
  "max_int64 = 2 ^ 63 - 1"

definition min_int64 :: int where
  "min_int64 = - (2 ^ 63)"

text \<open>Two's complement wrap-around of an integer to 64 bits.\<close>

definition wrap64 :: "int \<Rightarrow> int" where
  "wrap64 n = (n + 2 ^ 63) mod 2 ^ 64 - 2 ^ 63"

section \<open>Failing functions\<close>

definition bindE :: "'e + 'a \<Rightarrow> ('a \<Rightarrow> 'e + 'b) \<Rightarrow> 'e + 'b" where
  "bindE m f = case_sum Inl f m"

definition ofOption :: "'e \<Rightarrow> 'a option \<Rightarrow> 'e + 'a" where
  "ofOption e m = (case m of None \<Rightarrow> Inl e | Some x \<Rightarrow> Inr x)"

definition is_ok :: "'e + 'a \<Rightarrow> bool" where
  "is_ok r = (case r of Inl _ \<Rightarrow> False | Inr _ \<Rightarrow> True)"

named_theorems result_simps "when a composed result is an error and when it is a value"

section \<open>Lemmas on results\<close>

lemma bindE_Inl [simp]: "bindE (Inl e) f = Inl e"
  by (simp add: bindE_def)

lemma bindE_Inr [simp]: "bindE (Inr x) f = f x"
  by (simp add: bindE_def)

lemma bindE_eq_Inr [result_simps]: "bindE m f = Inr y \<longleftrightarrow> (\<exists>x. m = Inr x \<and> f x = Inr y)"
  by (cases m) auto

lemma bindE_eq_Inl [result_simps]:
  "bindE m f = Inl e \<longleftrightarrow> m = Inl e \<or> (\<exists>x. m = Inr x \<and> f x = Inl e)"
  by (cases m) auto

lemma ofOption_simps [simp]: "ofOption e None = Inl e" "ofOption e (Some x) = Inr x"
  by (simp_all add: ofOption_def)

lemma ofOption_eq [result_simps]:
  "ofOption e m = Inr x \<longleftrightarrow> m = Some x"
  "ofOption e m = Inl e' \<longleftrightarrow> m = None \<and> e' = e"
  by (cases m; auto)+

lemma is_ok_simps [simp]: "is_ok (Inr x)" "\<not> is_ok (Inl e)"
  by (simp_all add: is_ok_def)

lemma is_ok_iff: "is_ok r \<longleftrightarrow> (\<exists>x. r = Inr x)"
  by (cases r) auto

section \<open>Lemmas on bytes and strings\<close>

lemma length_bytes_of [simp]: "length (bytes_of s) = length s"
  by (simp add: bytes_of_def)

lemma bytes_of_append [simp]: "bytes_of (s @ t) = bytes_of s @ bytes_of t"
  by (simp add: bytes_of_def)

lemma bytes_of_Nil [simp]: "bytes_of [] = []"
  by (simp add: bytes_of_def)

lemma bytes_of_Cons [simp]: "bytes_of (c # s) = of_char c # bytes_of s"
  by (simp add: bytes_of_def)

lemma unat_of_char [simp]: "unat (of_char c :: u8) = of_char c"
proof -
  have "of_char c < (256::nat)" by simp
  moreover have "(of_char c :: u8) = of_nat (of_char c)"
    by (simp add: of_nat_of_char)
  ultimately show ?thesis by (simp add: unat_of_nat take_bit_eq_mod)
qed

lemma string_of_bytes_of [simp]: "string_of (bytes_of s) = s"
  by (induction s) (simp_all add: string_of_def)

lemma of_char_char_of_unat [simp]: "(of_char (char_of (unat w)) :: u8) = w"
proof -
  have "unat w < 256" using unsigned_less [of w, where 'a = nat] by simp
  then have "(of_char (char_of (unat w)) :: nat) = unat w"
    by simp
  then have "unat (of_char (char_of (unat w)) :: u8) = unat w"
    by simp
  then show ?thesis by (simp only: word_unat_eq_iff)
qed

lemma bytes_of_string_of [simp]: "bytes_of (string_of b) = b"
  by (induction b) (simp_all add: string_of_def)

lemma bytes_of_inj [simp]: "bytes_of s = bytes_of t \<longleftrightarrow> s = t"
  by (metis string_of_bytes_of)

lemma length_string_of [simp]: "length (string_of b) = length b"
  by (simp add: string_of_def)

section \<open>Lemmas on wrap-around\<close>

lemma of_nat_u64_inj: "m < 2 ^ 64 \<Longrightarrow> n < 2 ^ 64 \<Longrightarrow> (of_nat m :: u64) = of_nat n \<longleftrightarrow> m = n"
  by (simp add: word_of_nat_eq_iff take_bit_nat_eq_self)

lemma wrap64_id: "min_int64 \<le> n \<Longrightarrow> n \<le> max_int64 \<Longrightarrow> wrap64 n = n"
  by (simp add: wrap64_def min_int64_def max_int64_def)

lemma wrap64_bounds: "min_int64 \<le> wrap64 n \<and> wrap64 n \<le> max_int64"
proof -
  have "0 \<le> (n + 2 ^ 63) mod 2 ^ 64" "(n + 2 ^ 63) mod 2 ^ 64 < (2::int) ^ 64"
    by simp_all
  then show ?thesis
    by (simp add: wrap64_def min_int64_def max_int64_def)
qed

section \<open>Lemmas on lists\<close>

lemma append_eq_same_length:
  "length a = length b \<Longrightarrow> a @ xs = b @ ys \<longleftrightarrow> a = b \<and> xs = ys"
  by simp

lemma map_of_zip_nth:
  "distinct ks \<Longrightarrow> length ks = length vs \<Longrightarrow> i < length ks \<Longrightarrow> map_of (zip ks vs) (ks ! i) = Some (vs ! i)"
  by (simp add: map_of_zip_nth)

lemma list_all_concat: "list_all P (concat xss) \<longleftrightarrow> list_all (list_all P) xss"
  by (induction xss) auto

lemma dropWhile_id: "(xs \<noteq> [] \<Longrightarrow> \<not> P (hd xs)) \<Longrightarrow> dropWhile P xs = xs"
  by (cases xs) auto

end
