(* ===== verification/Codec.thy ===== *)
theory Codec
  imports Prelude
begin

text \<open>
  The textual encodings of the Go standard library that the packages use, as they behave in
  Go: \<open>encoding/hex\<close>, \<open>strconv\<close>'s decimal formatting and parsing, \<open>encoding/binary\<close>'s big
  endian layout and \<open>encoding/base64\<close>. The base64 decoders skip carriage returns and line feeds
  and do not look at the unused low bits of the last symbol, exactly as Go's do.
  The locale \<open>codec\<close> states the round trip every client relies on.
\<close>

section \<open>The interface of an encoding\<close>

locale codec =
  fixes enc :: "'a \<Rightarrow> string"
    and dec :: "string \<Rightarrow> 'a option"
  assumes dec_enc: "dec (enc x) = Some x"
begin

lemma enc_inj: "enc x = enc y \<longleftrightarrow> x = y"
  by (metis dec_enc option.inject)

lemma dec_surj: "\<exists>s. dec s = Some x"
  using dec_enc by blast

end

section \<open>Hexadecimal\<close>

definition hex_digit :: "nat \<Rightarrow> char" where
  "hex_digit n = (if n < 10 then char_of (48 + n) else char_of (87 + n))"

definition hex_val :: "char \<Rightarrow> nat option" where
  "hex_val c = (let n = of_char c :: nat in
     if 48 \<le> n \<and> n \<le> 57 then Some (n - 48)
     else if 97 \<le> n \<and> n \<le> 102 then Some (n - 87)
     else if 65 \<le> n \<and> n \<le> 70 then Some (n - 55)
     else None)"

fun hex_encode :: "bytes \<Rightarrow> string" where
  "hex_encode [] = []"
| "hex_encode (b # bs) = hex_digit (unat b div 16) # hex_digit (unat b mod 16) # hex_encode bs"

fun hex_decode :: "string \<Rightarrow> bytes option" where
  "hex_decode [] = Some []"
| "hex_decode [c] = None"
| "hex_decode (c # d # cs) =
     (case (hex_val c, hex_val d) of
        (Some x, Some y) \<Rightarrow>
          (case hex_decode cs of
             None \<Rightarrow> None
           | Some bs \<Rightarrow> Some (of_nat (16 * x + y) # bs))
      | _ \<Rightarrow> None)"

text \<open>The characters \<open>hex.EncodeToString\<close> writes.\<close>

definition is_lower_hex :: "char \<Rightarrow> bool" where
  "is_lower_hex c = (let n = of_char c :: nat in (48 \<le> n \<and> n \<le> 57) \<or> (97 \<le> n \<and> n \<le> 102))"

section \<open>Decimal\<close>

definition is_digit :: "char \<Rightarrow> bool" where
  "is_digit c = (let n = of_char c :: nat in 48 \<le> n \<and> n \<le> 57)"

fun utoa :: "nat \<Rightarrow> string" where
  "utoa n = (if n < 10 then [char_of (48 + n)] else utoa (n div 10) @ [char_of (48 + n mod 10)])"

declare utoa.simps [simp del]

text \<open>\<open>strconv.Itoa\<close> and \<open>strconv.FormatInt\<close> in base 10.\<close>

definition itoa :: "int \<Rightarrow> string" where
  "itoa i = (if i < 0 then CHR ''-'' # utoa (nat (- i)) else utoa (nat i))"

definition dec_val :: "string \<Rightarrow> nat" where
  "dec_val s = foldl (\<lambda>a c. 10 * a + (of_char c - 48)) 0 s"

text \<open>\<open>strconv.ParseUint(s, 10, bits)\<close>.\<close>

definition parse_uint :: "nat \<Rightarrow> string \<Rightarrow> nat option" where
  "parse_uint bits s =
     (if s = [] \<or> \<not> list_all is_digit s then None
      else if dec_val s < 2 ^ bits then Some (dec_val s) else None)"

text \<open>\<open>strconv.ParseInt(s, 10, bits)\<close>; \<open>strconv.Atoi\<close> is the 64 bit instance.\<close>

definition parse_int :: "nat \<Rightarrow> string \<Rightarrow> int option" where
  "parse_int bits s =
     (let neg = (s \<noteq> [] \<and> hd s = CHR ''-'');
          rest = (if s \<noteq> [] \<and> (hd s = CHR ''-'' \<or> hd s = CHR ''+'') then tl s else s)
      in case parse_uint bits rest of
           None \<Rightarrow> None
         | Some u \<Rightarrow>
             if neg then (if u \<le> 2 ^ (bits - 1) then Some (- int u) else None)
             else (if u < 2 ^ (bits - 1) then Some (int u) else None))"

definition atoi :: "string \<Rightarrow> int option" where
  "atoi s = parse_int 64 s"

section \<open>Big endian\<close>

definition be64 :: "u64 \<Rightarrow> bytes" where
  "be64 w = [ucast (drop_bit 56 w), ucast (drop_bit 48 w), ucast (drop_bit 40 w),
             ucast (drop_bit 32 w), ucast (drop_bit 24 w), ucast (drop_bit 16 w),
             ucast (drop_bit 8 w), ucast w]"

definition be32_decode :: "u8 \<Rightarrow> u8 \<Rightarrow> u8 \<Rightarrow> u8 \<Rightarrow> u32" where
  "be32_decode a b c d =
     push_bit 24 (ucast a) OR push_bit 16 (ucast b) OR push_bit 8 (ucast c) OR ucast d"

section \<open>Base64\<close>

definition b64_std :: string where
  "b64_std = ''ABCDEFGHIJKLMNOPQRSTUVWXYZabcdefghijklmnopqrstuvwxyz0123456789+/''"

definition b64_url :: string where
  "b64_url = ''ABCDEFGHIJKLMNOPQRSTUVWXYZabcdefghijklmnopqrstuvwxyz0123456789-_''"

fun index_of :: "char \<Rightarrow> string \<Rightarrow> nat option" where
  "index_of c [] = None"
| "index_of c (x # xs) = (if x = c then Some 0 else map_option Suc (index_of c xs))"

fun b64_encode :: "string \<Rightarrow> bool \<Rightarrow> bytes \<Rightarrow> string" where
  "b64_encode al pad [] = []"
| "b64_encode al pad [a] =
     [al ! (unat a div 4), al ! (unat a mod 4 * 16)] @ (if pad then ''=='' else [])"
| "b64_encode al pad [a, b] =
     [al ! (unat a div 4), al ! (unat a mod 4 * 16 + unat b div 16), al ! (unat b mod 16 * 4)]
     @ (if pad then ''='' else [])"
| "b64_encode al pad (a # b # c # bs) =
     [al ! (unat a div 4), al ! (unat a mod 4 * 16 + unat b div 16),
      al ! (unat b mod 16 * 4 + unat c div 64), al ! (unat c mod 64)] @ b64_encode al pad bs"

definition b64_byte1 :: "nat \<Rightarrow> nat \<Rightarrow> u8" where
  "b64_byte1 x y = of_nat (x * 4 + y div 16)"

definition b64_byte2 :: "nat \<Rightarrow> nat \<Rightarrow> u8" where
  "b64_byte2 y z = of_nat (y mod 16 * 16 + z div 4)"

definition b64_byte3 :: "nat \<Rightarrow> nat \<Rightarrow> u8" where
  "b64_byte3 z w = of_nat (z mod 4 * 64 + w)"

fun b64_quanta :: "string \<Rightarrow> bool \<Rightarrow> string \<Rightarrow> bytes option" where
  "b64_quanta al pad [] = Some []"
| "b64_quanta al pad [a] = None"
| "b64_quanta al pad [a, b] =
     (if pad then None
      else case (index_of a al, index_of b al) of
             (Some x, Some y) \<Rightarrow> Some [b64_byte1 x y] | _ \<Rightarrow> None)"
| "b64_quanta al pad [a, b, c] =
     (if pad then None
      else case (index_of a al, index_of b al, index_of c al) of
             (Some x, Some y, Some z) \<Rightarrow> Some [b64_byte1 x y, b64_byte2 y z] | _ \<Rightarrow> None)"
| "b64_quanta al pad (a # b # c # d # rest) =
     (case (index_of a al, index_of b al) of
        (Some x, Some y) \<Rightarrow>
          (if pad \<and> c = CHR ''='' then
             (if d = CHR ''='' \<and> rest = [] then Some [b64_byte1 x y] else None)
           else case index_of c al of
             None \<Rightarrow> None
           | Some z \<Rightarrow>
               (if pad \<and> d = CHR ''='' then
                  (if rest = [] then Some [b64_byte1 x y, b64_byte2 y z] else None)
                else case index_of d al of
                  None \<Rightarrow> None
                | Some w \<Rightarrow>
                    (case b64_quanta al pad rest of
                       None \<Rightarrow> None
                     | Some bs \<Rightarrow> Some ([b64_byte1 x y, b64_byte2 y z, b64_byte3 z w] @ bs))))
      | _ \<Rightarrow> None)"

definition strip_newlines :: "string \<Rightarrow> string" where
  "strip_newlines s = filter (\<lambda>c. c \<noteq> CHR 0x0A \<and> c \<noteq> CHR 0x0D) s"

definition b64_decode :: "string \<Rightarrow> bool \<Rightarrow> string \<Rightarrow> bytes option" where
  "b64_decode al pad s = b64_quanta al pad (strip_newlines s)"

section \<open>Hexadecimal: round trip and shape\<close>

lemma hex_val_digit [simp]: "n < 16 \<Longrightarrow> hex_val (hex_digit n) = Some n"
  by (auto simp: hex_val_def hex_digit_def Let_def)

lemma is_lower_hex_digit [simp]: "n < 16 \<Longrightarrow> is_lower_hex (hex_digit n)"
  by (auto simp: is_lower_hex_def hex_digit_def Let_def)

lemma unat_u8_less [simp]: "unat (b :: u8) < 256"
  using unsigned_less [of b, where 'a = nat] by simp

lemma unat_u8_div16 [simp]: "unat (b :: u8) div 16 < 16"
  by (simp add: less_mult_imp_div_less)

lemma hex_decode_encode: "hex_decode (hex_encode bs) = Some bs"
  by (induction bs) auto

interpretation hex: codec hex_encode hex_decode
  by unfold_locales (rule hex_decode_encode)

lemma hex_encode_lower: "list_all is_lower_hex (hex_encode bs)"
  by (induction bs) auto

lemma length_hex_encode [simp]: "length (hex_encode bs) = 2 * length bs"
  by (induction bs) auto

lemma hex_encode_Nil_iff [simp]: "hex_encode bs = [] \<longleftrightarrow> bs = []"
  by (cases bs) auto

lemma length_hex_decode: "hex_decode s = Some bs \<Longrightarrow> length s = 2 * length bs"
  by (induction s arbitrary: bs rule: hex_decode.induct) (auto split: option.splits)

lemma is_lower_hex_not [simp]:
  "\<not> is_lower_hex CHR ''-''" "\<not> is_lower_hex CHR 0x0A" "\<not> is_lower_hex CHR '' ''"
  by (simp_all add: is_lower_hex_def)

lemma is_lower_hex_ascii: "is_lower_hex c \<Longrightarrow> 48 \<le> (of_char c :: nat) \<and> (of_char c :: nat) \<le> 102"
  by (auto simp: is_lower_hex_def Let_def)

section \<open>Decimal: round trip and shape\<close>

lemma dec_val_append: "dec_val (s @ [c]) = 10 * dec_val s + (of_char c - 48)"
  by (simp add: dec_val_def)

lemma utoa_not_Nil [simp]: "utoa n \<noteq> []"
  by (subst utoa.simps) simp

lemma is_digit_char_of [simp]: "n < 10 \<Longrightarrow> is_digit (char_of (48 + n :: nat))"
  by (simp add: is_digit_def Let_def)

lemma utoa_digits: "list_all is_digit (utoa n)"
proof (induction n rule: utoa.induct)
  case (1 n)
  then show ?case by (subst utoa.simps) simp
qed

lemma dec_val_utoa [simp]: "dec_val (utoa n) = n"
proof (induction n rule: utoa.induct)
  case (1 n)
  show ?case
  proof (cases "n < 10")
    case True
    then show ?thesis by (subst utoa.simps) (simp add: dec_val_def)
  next
    case False
    with "1" have "dec_val (utoa (n div 10)) = n div 10" by simp
    moreover have "(48 + n mod 10) mod 256 - 48 = n mod 10" by simp
    ultimately show ?thesis
      using False by (subst utoa.simps) (simp add: dec_val_append)
  qed
qed

lemma parse_uint_utoa [simp]: "n < 2 ^ bits \<Longrightarrow> parse_uint bits (utoa n) = Some n"
  using utoa_digits [of n] by (simp add: parse_uint_def)

lemma parse_uint_bound: "parse_uint bits s = Some n \<Longrightarrow> n < 2 ^ bits"
  by (auto simp: parse_uint_def split: if_splits)

lemma utoa_inj [simp]: "utoa m = utoa n \<longleftrightarrow> m = n"
  by (metis dec_val_utoa)

lemma is_digit_not [simp]:
  "\<not> is_digit CHR ''-''" "\<not> is_digit CHR ''+''" "\<not> is_digit CHR '',''" "\<not> is_digit CHR '':''"
  "\<not> is_digit CHR ''$''"
  by (simp_all add: is_digit_def)

lemma hd_utoa_digit: "is_digit (hd (utoa n))"
  using utoa_digits [of n] by (cases "utoa n") auto

lemma parse_int_itoa: "- (2 ^ 63) \<le> i \<Longrightarrow> i < 2 ^ 63 \<Longrightarrow> parse_int 64 (itoa i) = Some i"
proof (cases "i < 0")
  case True
  assume lo: "- (2 ^ 63) \<le> i"
  with True have b: "nat (- i) \<le> 2 ^ 63" by simp
  then have "parse_uint 64 (utoa (nat (- i))) = Some (nat (- i))" by simp
  with True b show ?thesis by (simp add: parse_int_def itoa_def Let_def)
next
  case False
  assume hi: "i < 2 ^ 63"
  with False have b: "nat i < 2 ^ 63" by simp
  then have "parse_uint 64 (utoa (nat i)) = Some (nat i)" by simp
  moreover have "hd (utoa (nat i)) \<noteq> CHR ''-''" "hd (utoa (nat i)) \<noteq> CHR ''+''"
    using hd_utoa_digit [of "nat i"] by auto
  ultimately show ?thesis
    using False b by (simp add: parse_int_def itoa_def Let_def)
qed

lemma atoi_itoa [simp]: "0 \<le> i \<Longrightarrow> i < 2 ^ 63 \<Longrightarrow> atoi (itoa i) = Some i"
  by (simp add: atoi_def parse_int_itoa)

lemma itoa_digits: "0 \<le> i \<Longrightarrow> list_all is_digit (itoa i)"
  by (simp add: itoa_def utoa_digits)

lemma itoa_not_Nil [simp]: "itoa i \<noteq> []"
  by (simp add: itoa_def)

section \<open>Big endian: injectivity\<close>

lemma length_be64 [simp]: "length (be64 w) = 8"
  by (simp add: be64_def)

lemma bit_from_byte:
  "(ucast (drop_bit (8 * k) (a::u64)) :: u8) = ucast (drop_bit (8 * k) b) \<Longrightarrow>
   n div 8 = k \<Longrightarrow> bit a n = bit b n"
proof -
  assume e: "(ucast (drop_bit (8 * k) a) :: u8) = ucast (drop_bit (8 * k) b)" and k: "n div 8 = k"
  have "bit (ucast (drop_bit (8 * k) a) :: u8) (n mod 8) = bit (ucast (drop_bit (8 * k) b) :: u8) (n mod 8)"
    by (simp add: e)
  moreover have "8 * k + n mod 8 = n" using k by auto
  ultimately show ?thesis by (simp add: bit_simps)
qed

lemma be64_inj [simp]: "be64 a = be64 b \<longleftrightarrow> a = b"
proof
  assume eq: "be64 a = be64 b"
  show "a = b"
  proof (rule bit_word_eqI)
    fix n :: nat
    assume "n < LENGTH(64)"
    then have "n div 8 \<in> {0, 1, 2, 3, 4, 5, 6, 7}" by auto
    then have "(ucast (drop_bit (8 * (n div 8)) a) :: u8) = ucast (drop_bit (8 * (n div 8)) b)"
      using eq by (auto simp: be64_def)
    then show "bit a n = bit b n" by (rule bit_from_byte) simp
  qed
qed simp

section \<open>Base64: round trip\<close>

definition b64_alphabet :: "string \<Rightarrow> bool" where
  "b64_alphabet al \<longleftrightarrow> length al = 64 \<and> distinct al \<and> CHR ''='' \<notin> set al \<and> CHR ''$'' \<notin> set al
     \<and> CHR 0x0A \<notin> set al \<and> CHR 0x0D \<notin> set al"

lemma b64_std_alphabet [simp]: "b64_alphabet b64_std"
  by (simp add: b64_alphabet_def b64_std_def)

lemma b64_url_alphabet [simp]: "b64_alphabet b64_url"
  by (simp add: b64_alphabet_def b64_url_def)

lemma index_of_nth: "distinct xs \<Longrightarrow> n < length xs \<Longrightarrow> index_of (xs ! n) xs = Some n"
proof (induction xs arbitrary: n)
  case (Cons x xs)
  then show ?case by (cases n) auto
qed simp

lemma b64_index [simp]: "b64_alphabet al \<Longrightarrow> n < 64 \<Longrightarrow> index_of (al ! n) al = Some n"
  by (simp add: b64_alphabet_def index_of_nth)

lemma b64_sym_ne [simp]: "b64_alphabet al \<Longrightarrow> n < 64 \<Longrightarrow> al ! n \<noteq> CHR ''=''"
  by (metis b64_alphabet_def nth_mem)

lemma b64_byte1_id [simp]:
  "y < 16 \<Longrightarrow> b64_byte1 (unat a div 4) (unat a mod 4 * 16 + y) = a"
proof -
  assume "y < 16"
  then have "unat a div 4 * 4 + (unat a mod 4 * 16 + y) div 16 = unat a" by simp
  then show ?thesis by (simp add: b64_byte1_def del: of_nat_add of_nat_mult)
qed

lemma b64_byte1_last [simp]: "b64_byte1 (unat a div 4) (unat a mod 4 * 16) = a"
  using b64_byte1_id [of 0 a] by simp

lemma b64_byte2_id [simp]:
  "z < 4 \<Longrightarrow> b64_byte2 (x * 16 + unat b div 16) (unat b mod 16 * 4 + z) = b"
proof -
  assume "z < 4"
  then have "(x * 16 + unat b div 16) mod 16 * 16 + (unat b mod 16 * 4 + z) div 4 = unat b"
    by (simp add: mod_mult_self3)
  then show ?thesis by (simp add: b64_byte2_def del: of_nat_add of_nat_mult)
qed

lemma b64_byte2_last [simp]: "b64_byte2 (x * 16 + unat b div 16) (unat b mod 16 * 4) = b"
  using b64_byte2_id [of 0 x b] by simp

lemma b64_byte3_id [simp]: "b64_byte3 (x * 4 + unat c div 64) (unat c mod 64) = c"
proof -
  have "unat c div 64 < 4" by (simp add: less_mult_imp_div_less)
  then have "(x * 4 + unat c div 64) mod 4 * 64 + unat c mod 64 = unat c"
    by (simp add: mod_mult_self3)
  then show ?thesis by (simp add: b64_byte3_def del: of_nat_add of_nat_mult)
qed

lemma unat_u8_div [simp]: "unat (b :: u8) div 4 < 64" "unat (b :: u8) div 64 < 4"
  by (simp_all add: less_mult_imp_div_less)

lemma nat_block_bound:
  "k * m \<le> (n::nat) \<Longrightarrow> y < m \<Longrightarrow> 0 < k \<Longrightarrow> x mod k * m + y < n"
proof -
  assume a: "k * m \<le> n" "y < m" "0 < k"
  then have "x mod k + 1 \<le> k" by (simp add: Suc_leI)
  then have "(x mod k + 1) * m \<le> k * m" by (rule mult_le_mono1)
  with a show ?thesis by simp
qed

lemma b64_sym_bounds [simp]:
  "unat (a :: u8) mod 4 * 16 < 64" "unat (b :: u8) mod 16 * 4 < 64"
  "unat (a :: u8) mod 4 * 16 + unat (b :: u8) div 16 < 64"
  "unat (a :: u8) mod 16 * 4 + unat (b :: u8) div 64 < 64"
  using nat_block_bound [of 4 16 64 0 "unat a"] nat_block_bound [of 16 4 64 0 "unat b"]
    nat_block_bound [of 4 16 64 "unat b div 16" "unat a"]
    nat_block_bound [of 16 4 64 "unat b div 64" "unat a"]
  by simp_all

lemma b64_quanta_encode:
  assumes al: "b64_alphabet al"
  shows "b64_quanta al pad (b64_encode al pad bs) = Some bs"
  using al
proof (induction al pad bs rule: b64_encode.induct)
  case (1 al pad)
  show ?case by simp
next
  case (2 al pad a)
  then show ?case by (cases pad) simp_all
next
  case (3 al pad a b)
  then show ?case by (cases pad) simp_all
next
  case (4 al pad a b c bs)
  then show ?case by simp
qed

lemma b64_encode_set:
  "b64_alphabet al \<Longrightarrow> set (b64_encode al pad bs) \<subseteq> set al \<union> (if pad then {CHR ''=''} else {})"
  by (induction al pad bs rule: b64_encode.induct) (auto simp: b64_alphabet_def)

lemma strip_newlines_encode: "b64_alphabet al \<Longrightarrow> strip_newlines (b64_encode al pad bs) = b64_encode al pad bs"
  using b64_encode_set [of al pad bs]
  by (auto simp: strip_newlines_def b64_alphabet_def intro!: filter_True split: if_splits)

lemma b64_decode_encode: "b64_alphabet al \<Longrightarrow> b64_decode al pad (b64_encode al pad bs) = Some bs"
  by (simp add: b64_decode_def strip_newlines_encode b64_quanta_encode)

interpretation b64std: codec "b64_encode b64_std True" "b64_decode b64_std True"
  by unfold_locales (simp add: b64_decode_encode)

interpretation b64rawstd: codec "b64_encode b64_std False" "b64_decode b64_std False"
  by unfold_locales (simp add: b64_decode_encode)

interpretation b64rawurl: codec "b64_encode b64_url False" "b64_decode b64_url False"
  by unfold_locales (simp add: b64_decode_encode)

end
