(* ===== verification/GoStrings.thy ===== *)
theory GoStrings
  imports Codec
begin

text \<open>
  The parts of Go's \<open>strings\<close> and \<open>unicode/utf8\<close> packages the components use. A string is a
  sequence of bytes; ranging over it, trimming it and mapping it go through its runes, and a
  byte that starts no valid encoding is the rune U+FFFD of width one, as in Go.
\<close>

section \<open>UTF-8\<close>

definition rune_error :: nat where
  "rune_error = 0xFFFD"

text \<open>\<open>utf8.DecodeRuneInString\<close>: the rune at the start of the string and its width.\<close>

fun decode_rune :: "string \<Rightarrow> nat \<times> nat" where
  "decode_rune [] = (rune_error, 0)"
| "decode_rune (c # cs) =
     (let b0 = of_char c :: nat;
          at = (\<lambda>i. if i < length cs then of_char (cs ! i) else (0::nat));
          cont = (\<lambda>b::nat. 0x80 \<le> b \<and> b \<le> 0xBF)
      in if b0 < 0x80 then (b0, 1)
         else if 0xC2 \<le> b0 \<and> b0 \<le> 0xDF then
           (if cont (at 0) then (b0 mod 32 * 64 + at 0 mod 64, 2) else (rune_error, 1))
         else if 0xE0 \<le> b0 \<and> b0 \<le> 0xEF then
           (if (if b0 = 0xE0 then 0xA0 else 0x80) \<le> at 0 \<and> at 0 \<le> (if b0 = 0xED then 0x9F else 0xBF)
               \<and> cont (at 1)
            then (b0 mod 16 * 4096 + at 0 mod 64 * 64 + at 1 mod 64, 3) else (rune_error, 1))
         else if 0xF0 \<le> b0 \<and> b0 \<le> 0xF4 then
           (if (if b0 = 0xF0 then 0x90 else 0x80) \<le> at 0 \<and> at 0 \<le> (if b0 = 0xF4 then 0x8F else 0xBF)
               \<and> cont (at 1) \<and> cont (at 2)
            then (b0 mod 8 * 262144 + at 0 mod 64 * 4096 + at 1 mod 64 * 64 + at 2 mod 64, 4)
            else (rune_error, 1))
         else (rune_error, 1))"

declare decode_rune.simps(2) [simp del]

lemma decode_rune_width: "s \<noteq> [] \<Longrightarrow> 0 < snd (decode_rune s)"
  by (cases s) (simp_all add: decode_rune.simps Let_def)

text \<open>Ranging over a string: each rune with the bytes it was read from.\<close>

function runes :: "string \<Rightarrow> (nat \<times> string) list" where
  "runes s =
     (if s = [] then []
      else (fst (decode_rune s), take (snd (decode_rune s)) s) # runes (drop (snd (decode_rune s)) s))"
  by pat_completeness auto
termination
  by (relation "measure length") (simp_all add: decode_rune_width)

declare runes.simps [simp del]

text \<open>\<open>utf8.EncodeRune\<close>: surrogates and values past U+10FFFF are written as U+FFFD.\<close>

definition encode_rune :: "nat \<Rightarrow> string" where
  "encode_rune r0 =
     (let r = (if (0xD800 \<le> r0 \<and> r0 \<le> 0xDFFF) \<or> 0x10FFFF < r0 then rune_error else r0)
      in if r < 0x80 then [char_of r]
         else if r < 0x800 then [char_of (0xC0 + r div 64), char_of (0x80 + r mod 64)]
         else if r < 0x10000 then
           [char_of (0xE0 + r div 4096), char_of (0x80 + r div 64 mod 64), char_of (0x80 + r mod 64)]
         else
           [char_of (0xF0 + r div 262144), char_of (0x80 + r div 4096 mod 64),
            char_of (0x80 + r div 64 mod 64), char_of (0x80 + r mod 64)])"

definition valid_rune :: "nat \<Rightarrow> bool" where
  "valid_rune r \<longleftrightarrow> r \<le> 0x10FFFF \<and> \<not> (0xD800 \<le> r \<and> r \<le> 0xDFFF)"

definition is_ascii :: "char \<Rightarrow> bool" where
  "is_ascii c \<longleftrightarrow> (of_char c :: nat) < 0x80"

section \<open>Trimming, splitting, joining\<close>

text \<open>\<open>unicode.IsSpace\<close>.\<close>

definition is_space :: "nat \<Rightarrow> bool" where
  "is_space r \<longleftrightarrow> (9 \<le> r \<and> r \<le> 13) \<or> r = 0x20 \<or> r = 0x85 \<or> r = 0xA0 \<or> r = 0x1680
     \<or> (0x2000 \<le> r \<and> r \<le> 0x200A) \<or> r = 0x2028 \<or> r = 0x2029 \<or> r = 0x202F \<or> r = 0x205F \<or> r = 0x3000"

definition trim_both :: "('a \<Rightarrow> bool) \<Rightarrow> 'a list \<Rightarrow> 'a list" where
  "trim_both P xs = rev (dropWhile P (rev (dropWhile P xs)))"

text \<open>\<open>strings.TrimSpace\<close>.\<close>

definition trim_space :: "string \<Rightarrow> string" where
  "trim_space s = concat (map snd (trim_both (\<lambda>x. is_space (fst x)) (runes s)))"

text \<open>\<open>strings.Split(s, sep)\<close> for a separator of one byte.\<close>

fun split_on :: "char \<Rightarrow> string \<Rightarrow> string list" where
  "split_on c [] = [[]]"
| "split_on c (x # xs) =
     (if x = c then [] # split_on c xs
      else (x # hd (split_on c xs)) # tl (split_on c xs))"

fun join_with :: "char \<Rightarrow> string list \<Rightarrow> string" where
  "join_with c [] = []"
| "join_with c [p] = p"
| "join_with c (p # q # ps) = p @ [c] @ join_with c (q # ps)"

text \<open>\<open>s[:strings.LastIndex(s, sep)]\<close>, for a separator that occurs.\<close>

definition before_last :: "char \<Rightarrow> string \<Rightarrow> string" where
  "before_last c s = rev (tl (dropWhile (\<lambda>x. x \<noteq> c) (rev s)))"

text \<open>\<open>strings.HasPrefix\<close>, \<open>strings.TrimPrefix\<close>, \<open>strings.Cut\<close> for one byte.\<close>

definition has_prefix :: "string \<Rightarrow> string \<Rightarrow> bool" where
  "has_prefix s p \<longleftrightarrow> take (length p) s = p"

definition trim_prefix :: "string \<Rightarrow> string \<Rightarrow> string" where
  "trim_prefix s p = (if has_prefix s p then drop (length p) s else s)"

definition cut_at :: "char \<Rightarrow> string \<Rightarrow> (string \<times> string) option" where
  "cut_at c s = (if c \<in> set s
     then Some (takeWhile (\<lambda>x. x \<noteq> c) s, tl (dropWhile (\<lambda>x. x \<noteq> c) s)) else None)"

section \<open>Case\<close>

text \<open>
  \<open>strings.ToLower\<close> and \<open>strings.ToUpper\<close>: byte by byte on ASCII; otherwise every rune is mapped
  through Unicode's table, the argument, and written back, an invalid byte as U+FFFD.
\<close>

definition ascii_lower :: "char \<Rightarrow> char" where
  "ascii_lower c = (let n = of_char c :: nat in if 65 \<le> n \<and> n \<le> 90 then char_of (n + 32) else c)"

definition ascii_upper :: "char \<Rightarrow> char" where
  "ascii_upper c = (let n = of_char c :: nat in if 97 \<le> n \<and> n \<le> 122 then char_of (n - 32) else c)"

definition map_runes :: "(nat \<Rightarrow> nat) \<Rightarrow> string \<Rightarrow> string" where
  "map_runes f s = concat (map (\<lambda>(r, _). encode_rune (f r)) (runes s))"

definition to_lower :: "(nat \<Rightarrow> nat) \<Rightarrow> string \<Rightarrow> string" where
  "to_lower lo s = (if list_all is_ascii s then map ascii_lower s else map_runes lo s)"

definition to_upper :: "(nat \<Rightarrow> nat) \<Rightarrow> string \<Rightarrow> string" where
  "to_upper up s = (if list_all is_ascii s then map ascii_upper s else map_runes up s)"

section \<open>Lemmas: runes\<close>

lemma runes_Nil [simp]: "runes [] = []"
  by (simp add: runes.simps)

lemma concat_runes: "concat (map snd (runes s)) = s"
proof (induction s rule: runes.induct)
  case (1 s)
  then show ?case by (cases "s = []") (simp_all add: runes.simps [of s])
qed

lemma runes_ascii_Cons: "is_ascii c \<Longrightarrow> runes (c # s) = (of_char c, [c]) # runes s"
  by (simp add: runes.simps [of "c # s"] is_ascii_def decode_rune.simps Let_def)

lemma runes_ascii: "list_all is_ascii s \<Longrightarrow> runes s = map (\<lambda>c. (of_char c, [c])) s"
  by (induction s) (simp_all add: runes_ascii_Cons)

lemma encode_rune_ascii [simp]: "r < 0x80 \<Longrightarrow> encode_rune r = [char_of r]"
  by (simp add: encode_rune_def)

lemma low_part: "q < m \<Longrightarrow> (k * m + q) mod m = (q :: nat)"
  by simp

lemma split64:
  fixes r :: nat
  shows "r = r div 64 * 64 + r mod 64"
    and "r div 64 = r div 4096 * 64 + r div 64 mod 64"
    and "r div 4096 = r div 262144 * 64 + r div 4096 mod 64"
proof -
  show "r = r div 64 * 64 + r mod 64" by simp
  have "r div 4096 = r div 64 div 64" by (simp add: div_mult2_eq [symmetric])
  then show "r div 64 = r div 4096 * 64 + r div 64 mod 64" by simp
  have "r div 262144 = r div 4096 div 64" by (simp add: div_mult2_eq [symmetric])
  then show "r div 4096 = r div 262144 * 64 + r div 4096 mod 64" by simp
qed

lemma encode_rune_valid:
  "valid_rune r \<Longrightarrow> encode_rune r =
     (if r < 0x80 then [char_of r]
      else if r < 0x800 then [char_of (0xC0 + r div 64), char_of (0x80 + r mod 64)]
      else if r < 0x10000 then
        [char_of (0xE0 + r div 4096), char_of (0x80 + r div 64 mod 64), char_of (0x80 + r mod 64)]
      else
        [char_of (0xF0 + r div 262144), char_of (0x80 + r div 4096 mod 64),
         char_of (0x80 + r div 64 mod 64), char_of (0x80 + r mod 64)])"
proof -
  assume "valid_rune r"
  then have n: "((0xD800 \<le> r \<and> r \<le> 0xDFFF) \<or> 0x10FFFF < r) = False"
    by (auto simp: valid_rune_def)
  show ?thesis unfolding encode_rune_def n by (simp only: if_False Let_def)
qed

lemma decode_encode_2:
  assumes "0x80 \<le> r" "r < 0x800"
  shows "decode_rune (encode_rune r @ s) = (r, 2)"
proof -
  define x y where "x = r div 64" and "y = r mod 64"
  have e: "encode_rune r = [char_of (0xC0 + x), char_of (0x80 + y)]"
    using assms by (simp add: encode_rune_def Let_def x_def y_def)
  have r: "r = x * 64 + y" by (simp add: x_def y_def)
  have b: "2 \<le> x" "x < 32" "y < 64" using assms by (simp_all add: x_def y_def)
  have "(0xC0 + x) mod 32 = x" "(0x80 + y) mod 64 = y"
    using low_part [of x 32 6] low_part [of y 64 2] b by simp_all
  then show ?thesis
    using b by (simp add: e decode_rune.simps Let_def r [symmetric])
qed

lemma decode_encode_3:
  assumes "0x800 \<le> r" "r < 0x10000" "valid_rune r"
  shows "decode_rune (encode_rune r @ s) = (r, 3)"
proof -
  define x y z where "x = r div 4096" and "y = r div 64 mod 64" and "z = r mod 64"
  have e: "encode_rune r = [char_of (0xE0 + x), char_of (0x80 + y), char_of (0x80 + z)]"
    using assms by (simp add: encode_rune_valid x_def y_def z_def)
  have r: "r = x * 4096 + y * 64 + z"
    unfolding x_def y_def z_def using split64(1,2) [of r] by linarith
  have b: "x < 16" "y < 64" "z < 64"
    using assms by (simp_all add: x_def y_def z_def)
  have c: "x = 0 \<Longrightarrow> 32 \<le> y" "x = 13 \<Longrightarrow> y \<le> 31"
    using assms b r by (auto simp: valid_rune_def)
  have "(0xE0 + x) mod 16 = x" "(0x80 + y) mod 64 = y" "(0x80 + z) mod 64 = z"
    using low_part [of x 16 14] low_part [of y 64 2] low_part [of z 64 2] b by simp_all
  then show ?thesis
    using b c by (simp add: e decode_rune.simps Let_def r [symmetric])
qed

lemma decode_encode_4:
  assumes "0x10000 \<le> r" "r \<le> 0x10FFFF"
  shows "decode_rune (encode_rune r @ s) = (r, 4)"
proof -
  define x y z w where "x = r div 262144" and "y = r div 4096 mod 64" and "z = r div 64 mod 64"
    and "w = r mod 64"
  have e: "encode_rune r = [char_of (0xF0 + x), char_of (0x80 + y), char_of (0x80 + z), char_of (0x80 + w)]"
    using assms by (simp add: encode_rune_def Let_def x_def y_def z_def w_def)
  have r: "r = x * 262144 + y * 4096 + z * 64 + w"
    unfolding x_def y_def z_def w_def using split64 [of r] by linarith
  have b: "x < 5" "y < 64" "z < 64" "w < 64"
    using assms by (simp_all add: x_def y_def z_def w_def)
  have c: "x = 0 \<Longrightarrow> 16 \<le> y" "x = 4 \<Longrightarrow> y \<le> 15"
    using assms b r by auto
  have "(0xF0 + x) mod 8 = x" "(0x80 + y) mod 64 = y" "(0x80 + z) mod 64 = z" "(0x80 + w) mod 64 = w"
    using low_part [of x 8 30] low_part [of y 64 2] low_part [of z 64 2] low_part [of w 64 2] b
    by simp_all
  then show ?thesis
    using b c by (simp add: e decode_rune.simps Let_def r [symmetric])
qed

lemma decode_encode_rune:
  assumes "valid_rune r"
  shows "decode_rune (encode_rune r @ s) = (r, length (encode_rune r))"
proof -
  consider "r < 0x80" | "0x80 \<le> r" "r < 0x800" | "0x800 \<le> r" "r < 0x10000" | "0x10000 \<le> r"
    by linarith
  then show ?thesis
  proof cases
    case 1
    then show ?thesis by (simp add: decode_rune.simps Let_def)
  next
    case 2
    then show ?thesis using decode_encode_2 [OF 2, of s] assms by (simp add: encode_rune_valid)
  next
    case 3
    then show ?thesis using decode_encode_3 [OF 3 assms, of s] assms by (simp add: encode_rune_valid)
  next
    case 4
    with assms have "r \<le> 0x10FFFF" by (simp add: valid_rune_def)
    then show ?thesis using decode_encode_4 [OF 4, of s] 4 assms by (simp add: encode_rune_valid)
  qed
qed

lemma encode_rune_not_Nil [simp]: "encode_rune r \<noteq> []"
  by (simp add: encode_rune_def Let_def)

lemma runes_encode_Cons:
  "valid_rune r \<Longrightarrow> runes (encode_rune r @ s) = (r, encode_rune r) # runes s"
  by (simp add: runes.simps [of "encode_rune r @ s"] decode_encode_rune)

text \<open>A string written rune by rune ranges over exactly those runes.\<close>

lemma runes_encode:
  "list_all valid_rune rs \<Longrightarrow> runes (concat (map encode_rune rs)) = map (\<lambda>r. (r, encode_rune r)) rs"
  by (induction rs) (simp_all add: runes_encode_Cons)

lemma three_byte_bound:
  "b0 mod 16 * 4096 + a mod 64 * 64 + b mod 64 < (65536::nat)"
proof -
  have "b0 mod 16 \<le> 15" "a mod 64 \<le> 63" "b mod 64 \<le> 63" by simp_all
  then show ?thesis by linarith
qed

section \<open>Lemmas: trimming\<close>

lemma concat_map_singleton: "concat (map (\<lambda>c. [c]) s) = s"
  by (induction s) auto

lemma trim_both_id:
  "xs \<noteq> [] \<Longrightarrow> \<not> P (hd xs) \<Longrightarrow> \<not> P (last xs) \<Longrightarrow> trim_both P xs = xs"
  by (simp add: trim_both_def dropWhile_id hd_rev)

lemma trim_both_map: "trim_both P (map f xs) = map f (trim_both (\<lambda>x. P (f x)) xs)"
  by (simp add: trim_both_def rev_map dropWhile_map comp_def)

lemma trim_both_idem: "trim_both P (trim_both P xs) = trim_both P xs"
proof (cases "trim_both P xs = []")
  case True
  then show ?thesis by (simp only: True) (simp add: trim_both_def)
next
  case False
  define ys where "ys = dropWhile P xs"
  have t: "trim_both P xs = rev (dropWhile P (rev ys))" by (simp add: trim_both_def ys_def)
  with False have ne: "dropWhile P (rev ys) \<noteq> []" by simp
  then have l: "\<not> P (last (trim_both P xs))"
    by (simp add: t last_rev hd_dropWhile)
  obtain zs where zs: "rev ys = zs @ dropWhile P (rev ys)"
    by (metis takeWhile_dropWhile_id)
  then have "ys = trim_both P xs @ rev zs"
    by (metis t rev_append rev_rev_ident)
  with False have "hd (trim_both P xs) = hd ys" by (metis hd_append2)
  moreover have "ys \<noteq> []" using ne by auto
  ultimately have "\<not> P (hd (trim_both P xs))" by (simp add: ys_def hd_dropWhile)
  with False l show ?thesis by (simp add: trim_both_id)
qed

lemma trim_space_ascii:
  "list_all is_ascii s \<Longrightarrow> trim_space s = trim_both (\<lambda>c. is_space (of_char c)) s"
  by (simp add: trim_space_def runes_ascii trim_both_map comp_def concat_map_singleton)

lemma trim_space_id:
  "list_all is_ascii s \<Longrightarrow> s \<noteq> [] \<Longrightarrow> \<not> is_space (of_char (hd s)) \<Longrightarrow> \<not> is_space (of_char (last s))
   \<Longrightarrow> trim_space s = s"
  by (simp add: trim_space_ascii trim_both_id)

lemma dropWhile_pad: "list_all P a \<Longrightarrow> ys \<noteq> [] \<Longrightarrow> \<not> P (hd ys) \<Longrightarrow> dropWhile P (a @ ys) = ys"
  by (induction a) (auto simp: dropWhile_id)

lemma trim_both_pad:
  assumes "list_all P a" "list_all P b" "xs \<noteq> []" "\<not> P (hd xs)" "\<not> P (last xs)"
  shows "trim_both P (a @ xs @ b) = xs"
proof -
  have "dropWhile P (a @ xs @ b) = xs @ b" using assms by (intro dropWhile_pad) auto
  moreover have "dropWhile P (rev b @ rev xs) = rev xs" using assms by (intro dropWhile_pad) (auto simp: hd_rev list_all_iff)
  ultimately show ?thesis by (simp add: trim_both_def)
qed

lemma trim_space_pad:
  assumes "list_all (\<lambda>c. is_ascii c \<and> is_space (of_char c)) (a @ b)" "list_all is_ascii s" "s \<noteq> []"
    "\<not> is_space (of_char (hd s))" "\<not> is_space (of_char (last s))"
  shows "trim_space (a @ s @ b) = s"
proof -
  have "list_all is_ascii (a @ s @ b)" using assms(1,2) by (auto simp: list_all_iff)
  then show ?thesis
    using assms by (simp add: trim_space_ascii) (rule trim_both_pad, auto simp: list_all_iff)
qed

lemma trim_space_Nil [simp]: "trim_space [] = []"
  by (simp add: trim_space_def trim_both_def)

lemma set_trim_both: "set (trim_both P xs) \<subseteq> set xs"
  unfolding trim_both_def by (auto dest!: set_dropWhileD)

lemma lower_hex_plain:
  "is_lower_hex c \<Longrightarrow> is_ascii c \<and> \<not> is_space (of_char c)"
  by (auto simp: is_lower_hex_def is_ascii_def is_space_def Let_def)

lemma digit_plain: "is_digit c \<Longrightarrow> is_ascii c \<and> \<not> is_space (of_char c)"
  by (auto simp: is_digit_def is_ascii_def is_space_def Let_def)

lemma ascii_hex: "list_all is_ascii (hex_encode bs)"
  using hex_encode_lower [of bs] by (auto simp: list_all_iff lower_hex_plain)

lemma trim_hex [simp]: "trim_space (hex_encode bs) = hex_encode bs"
proof (cases "hex_encode bs = []")
  case False
  then have "is_lower_hex (hd (hex_encode bs))" "is_lower_hex (last (hex_encode bs))"
    using hex_encode_lower [of bs] by (metis hd_in_set last_in_set list_all_iff)+
  then show ?thesis using False by (intro trim_space_id ascii_hex) (auto dest: lower_hex_plain)
qed simp

section \<open>Lemmas: splitting and joining\<close>

lemma split_on_not_Nil [simp]: "split_on c s \<noteq> []"
  by (cases s) auto

lemma split_on_none: "c \<notin> set p \<Longrightarrow> split_on c p = [p]"
  by (induction p) auto

lemma split_on_append: "c \<notin> set p \<Longrightarrow> split_on c (p @ c # s) = p # split_on c s"
  by (induction p) auto

lemma split_join:
  "ps \<noteq> [] \<Longrightarrow> \<forall>p \<in> set ps. c \<notin> set p \<Longrightarrow> split_on c (join_with c ps) = ps"
  by (induction c ps rule: join_with.induct) (auto simp: split_on_none split_on_append)

lemma join_Cons: "ps \<noteq> [] \<Longrightarrow> join_with c (p # ps) = p @ c # join_with c ps"
  by (cases ps) auto

lemma join_split [simp]: "join_with c (split_on c s) = s"
proof (induction s)
  case (Cons x xs)
  obtain q qs where q: "split_on c xs = q # qs" by (metis neq_Nil_conv split_on_not_Nil)
  with Cons show ?case by (cases qs) auto
qed simp

lemma split_on_inj: "split_on c s = split_on c t \<longleftrightarrow> s = t"
  by (metis join_split)

lemma split_on_sep: "p \<in> set (split_on c s) \<Longrightarrow> c \<notin> set p"
proof (induction s arbitrary: p)
  case (Cons x xs)
  then show ?case
    by (cases "split_on c xs") (auto split: if_splits)
qed simp

lemma before_last_append: "c \<notin> set t \<Longrightarrow> before_last c (b @ c # t) = b"
proof -
  assume "c \<notin> set t"
  then have "dropWhile (\<lambda>x. x \<noteq> c) (rev t @ c # rev b) = c # rev b"
    by (subst dropWhile_append2) auto
  then show ?thesis by (simp add: before_last_def)
qed

lemma before_last_join:
  "ps \<noteq> [] \<Longrightarrow> c \<notin> set t \<Longrightarrow> before_last c (join_with c (ps @ [t])) = join_with c ps"
proof -
  assume a: "ps \<noteq> []" "c \<notin> set t"
  have "qs \<noteq> [] \<Longrightarrow> join_with c (qs @ [t]) = join_with c qs @ c # t" for qs
  proof (induction qs)
    case (Cons q qs)
    then show ?case by (cases qs) auto
  qed simp
  with a show ?thesis by (simp add: before_last_append)
qed

lemma trim_prefix_append [simp]: "trim_prefix (p @ s) p = s"
  by (simp add: trim_prefix_def has_prefix_def)

lemma has_prefix_append [simp]: "has_prefix (p @ s) p"
  by (simp add: has_prefix_def)

lemma has_prefix_iff: "has_prefix s p \<longleftrightarrow> (\<exists>t. s = p @ t)"
  by (metis append_take_drop_id has_prefix_append has_prefix_def)

lemma cut_at_append: "c \<notin> set p \<Longrightarrow> cut_at c (p @ c # s) = Some (p, s)"
  by (induction p) (auto simp: cut_at_def)

lemma cut_at_eq: "cut_at c s = Some (a, b) \<longleftrightarrow> s = a @ c # b \<and> c \<notin> set a"
proof
  assume e: "cut_at c s = Some (a, b)"
  then have "c \<in> set s" and ab: "a = takeWhile (\<lambda>x. x \<noteq> c) s" "b = tl (dropWhile (\<lambda>x. x \<noteq> c) s)"
    by (auto simp: cut_at_def split: if_splits)
  then have "dropWhile (\<lambda>x. x \<noteq> c) s = c # b"
    by (metis (mono_tags, lifting) dropWhile_eq_Nil_conv hd_dropWhile list.exhaust_sel)
  with ab have "s = a @ c # b" by (metis takeWhile_dropWhile_id)
  moreover have "c \<notin> set a" using ab set_takeWhileD by metis
  ultimately show "s = a @ c # b \<and> c \<notin> set a" by simp
qed (auto simp: cut_at_append)

end
