(* ===== verification/Hashes.thy ===== *)
theory Hashes
  imports Codec
begin

text \<open>
  The hash functions of Go's standard library the packages call: \<open>crypto/sha256\<close>,
  \<open>crypto/sha1\<close> and \<open>crypto/hmac\<close> over them, written out from FIPS 180-4 and FIPS 198-1 so
  that every digest in the model is a definite byte string. No lemma of the development assumes
  that they are injective: where a property rests on collision resistance, the theorem says
  that breaking it exhibits two different inputs with one digest.
\<close>

section \<open>Padding and blocks\<close>

definition rotr32 :: "nat \<Rightarrow> u32 \<Rightarrow> u32" where
  "rotr32 n x = drop_bit n x OR push_bit (32 - n) x"

definition rotl32 :: "nat \<Rightarrow> u32 \<Rightarrow> u32" where
  "rotl32 n x = push_bit n x OR drop_bit (32 - n) x"

text \<open>A one bit, zeros, and the message length in bits, up to a multiple of 64 bytes.\<close>

definition md_pad :: "bytes \<Rightarrow> bytes" where
  "md_pad m = m @ [0x80] @ replicate ((119 - length m mod 64) mod 64) 0
                @ be64 (of_nat (8 * length m))"

function chunks :: "nat \<Rightarrow> 'a list \<Rightarrow> 'a list list" where
  "chunks k xs = (if xs = [] \<or> k = 0 then [] else take k xs # chunks k (drop k xs))"
  by pat_completeness auto
termination
  by (relation "measure (\<lambda>(k, xs). length xs)") auto

declare chunks.simps [simp del]

fun words_of :: "bytes \<Rightarrow> u32 list" where
  "words_of (a # b # c # d # rest) = be32_decode a b c d # words_of rest"
| "words_of _ = []"

definition be32 :: "u32 \<Rightarrow> bytes" where
  "be32 w = [ucast (drop_bit 24 w), ucast (drop_bit 16 w), ucast (drop_bit 8 w), ucast w]"

section \<open>SHA-256\<close>

definition sha256_k :: "u32 list" where
  "sha256_k =
    [1116352408, 1899447441, 3049323471, 3921009573, 961987163, 1508970993,
     2453635748, 2870763221, 3624381080, 310598401, 607225278, 1426881987,
     1925078388, 2162078206, 2614888103, 3248222580, 3835390401, 4022224774,
     264347078, 604807628, 770255983, 1249150122, 1555081692, 1996064986,
     2554220882, 2821834349, 2952996808, 3210313671, 3336571891, 3584528711,
     113926993, 338241895, 666307205, 773529912, 1294757372, 1396182291,
     1695183700, 1986661051, 2177026350, 2456956037, 2730485921, 2820302411,
     3259730800, 3345764771, 3516065817, 3600352804, 4094571909, 275423344,
     430227734, 506948616, 659060556, 883997877, 958139571, 1322822218,
     1537002063, 1747873779, 1955562222, 2024104815, 2227730452, 2361852424,
     2428436474, 2756734187, 3204031479, 3329325298]"

type_synonym sha256_state = "u32 \<times> u32 \<times> u32 \<times> u32 \<times> u32 \<times> u32 \<times> u32 \<times> u32"

definition sha256_init :: sha256_state where
  "sha256_init = (1779033703, 3144134277, 1013904242, 2773480762,
                  1359893119, 2600822924, 528734635, 1541459225)"

text \<open>
  The message schedule, kept newest first: the word of round \<open>t\<close> is computed from those of
  rounds \<open>t - 2\<close>, \<open>t - 7\<close>, \<open>t - 15\<close> and \<open>t - 16\<close>.
\<close>

definition sha256_next :: "u32 list \<Rightarrow> u32" where
  "sha256_next ws =
     (let w2 = ws ! 1; w15 = ws ! 14 in
      (rotr32 17 w2 XOR rotr32 19 w2 XOR drop_bit 10 w2) + ws ! 6
      + (rotr32 7 w15 XOR rotr32 18 w15 XOR drop_bit 3 w15) + ws ! 15)"

fun extend_schedule :: "(u32 list \<Rightarrow> u32) \<Rightarrow> nat \<Rightarrow> u32 list \<Rightarrow> u32 list" where
  "extend_schedule f 0 ws = ws"
| "extend_schedule f (Suc n) ws = extend_schedule f n (f ws # ws)"

fun sha256_round :: "sha256_state \<Rightarrow> u32 \<times> u32 \<Rightarrow> sha256_state" where
  "sha256_round (a, b, c, d, e, f, g, h) (k, w) =
     (let t1 = h + (rotr32 6 e XOR rotr32 11 e XOR rotr32 25 e)
                 + ((e AND f) XOR (NOT e AND g)) + k + w;
          t2 = (rotr32 2 a XOR rotr32 13 a XOR rotr32 22 a)
                 + ((a AND b) XOR (a AND c) XOR (b AND c))
      in (t1 + t2, a, b, c, d + t1, e, f, g))"

fun sha256_add :: "sha256_state \<Rightarrow> sha256_state \<Rightarrow> sha256_state" where
  "sha256_add (a, b, c, d, e, f, g, h) (a', b', c', d', e', f', g', h') =
     (a + a', b + b', c + c', d + d', e + e', f + f', g + g', h + h')"

definition sha256_block :: "sha256_state \<Rightarrow> bytes \<Rightarrow> sha256_state" where
  "sha256_block st blk =
     sha256_add st
       (foldl sha256_round st
          (zip sha256_k (rev (extend_schedule sha256_next 48 (rev (words_of blk))))))"

fun sha256_out :: "sha256_state \<Rightarrow> bytes" where
  "sha256_out (a, b, c, d, e, f, g, h) =
     be32 a @ be32 b @ be32 c @ be32 d @ be32 e @ be32 f @ be32 g @ be32 h"

definition sha256 :: "bytes \<Rightarrow> bytes" where
  "sha256 m = sha256_out (foldl sha256_block sha256_init (chunks 64 (md_pad m)))"

section \<open>SHA-1\<close>

type_synonym sha1_state = "u32 \<times> u32 \<times> u32 \<times> u32 \<times> u32"

definition sha1_init :: sha1_state where
  "sha1_init = (0x67452301, 0xefcdab89, 0x98badcfe, 0x10325476, 0xc3d2e1f0)"

definition sha1_next :: "u32 list \<Rightarrow> u32" where
  "sha1_next ws = rotl32 1 (ws ! 2 XOR ws ! 7 XOR ws ! 13 XOR ws ! 15)"

definition sha1_fk :: "nat \<Rightarrow> u32 \<Rightarrow> u32 \<Rightarrow> u32 \<Rightarrow> u32" where
  "sha1_fk t b c d =
     (if t < 20 then ((b AND c) XOR (NOT b AND d)) + 0x5a827999
      else if t < 40 then (b XOR c XOR d) + 0x6ed9eba1
      else if t < 60 then ((b AND c) XOR (b AND d) XOR (c AND d)) + 0x8f1bbcdc
      else (b XOR c XOR d) + 0xca62c1d6)"

fun sha1_round :: "sha1_state \<Rightarrow> nat \<times> u32 \<Rightarrow> sha1_state" where
  "sha1_round (a, b, c, d, e) (t, w) = (rotl32 5 a + sha1_fk t b c d + e + w, a, rotl32 30 b, c, d)"

fun sha1_add :: "sha1_state \<Rightarrow> sha1_state \<Rightarrow> sha1_state" where
  "sha1_add (a, b, c, d, e) (a', b', c', d', e') = (a + a', b + b', c + c', d + d', e + e')"

definition sha1_block :: "sha1_state \<Rightarrow> bytes \<Rightarrow> sha1_state" where
  "sha1_block st blk =
     sha1_add st
       (foldl sha1_round st
          (zip [0..<80] (rev (extend_schedule sha1_next 64 (rev (words_of blk))))))"

fun sha1_out :: "sha1_state \<Rightarrow> bytes" where
  "sha1_out (a, b, c, d, e) = be32 a @ be32 b @ be32 c @ be32 d @ be32 e"

definition sha1 :: "bytes \<Rightarrow> bytes" where
  "sha1 m = sha1_out (foldl sha1_block sha1_init (chunks 64 (md_pad m)))"

section \<open>HMAC\<close>

definition hmac_key :: "(bytes \<Rightarrow> bytes) \<Rightarrow> bytes \<Rightarrow> bytes" where
  "hmac_key H key =
     (let k = (if 64 < length key then H key else key) in k @ replicate (64 - length k) 0)"

definition hmac :: "(bytes \<Rightarrow> bytes) \<Rightarrow> bytes \<Rightarrow> bytes \<Rightarrow> bytes" where
  "hmac H key m =
     (let k = hmac_key H key
      in H (map (\<lambda>b. b XOR 0x5c) k @ H (map (\<lambda>b. b XOR 0x36) k @ m)))"

definition hmac_sha256 :: "bytes \<Rightarrow> bytes \<Rightarrow> bytes" where
  "hmac_sha256 key m = hmac sha256 key m"

definition hmac_sha1 :: "bytes \<Rightarrow> bytes \<Rightarrow> bytes" where
  "hmac_sha1 key m = hmac sha1 key m"

section \<open>Lengths\<close>

lemma length_be32 [simp]: "length (be32 w) = 4"
  by (simp add: be32_def)

lemma length_sha256_out [simp]: "length (sha256_out st) = 32"
  by (cases st rule: sha256_out.cases) simp

lemma length_sha256 [simp]: "length (sha256 m) = 32"
  by (simp add: sha256_def)

lemma length_sha1_out [simp]: "length (sha1_out st) = 20"
  by (cases st rule: sha1_out.cases) simp

lemma length_sha1 [simp]: "length (sha1 m) = 20"
  by (simp add: sha1_def)

lemma length_hmac_sha256 [simp]: "length (hmac_sha256 key m) = 32"
  by (simp add: hmac_sha256_def hmac_def Let_def)

lemma length_hmac_sha1 [simp]: "length (hmac_sha1 key m) = 20"
  by (simp add: hmac_sha1_def hmac_def Let_def)

end
