(* ===== verification/Interpolation.thy ===== *)
theory Interpolation
  imports Main
begin

text \<open>
  Polynomials over a field as coefficient lists, constant term first, and what secret sharing
  needs of them: a polynomial with as many roots as coefficients is zero, the Lagrange form
  reproduces a polynomial from its values, and the coefficients are determined by the values.
  The locale \<open>byte_field\<close> is the interface between an implementation's byte arithmetic and
  this theory: the operations a splitting scheme calls, and the law that they are those of a
  field of characteristic two, read through an embedding.
\<close>

section \<open>Evaluation and division by a linear factor\<close>

fun horner :: "'a::comm_ring_1 list \<Rightarrow> 'a \<Rightarrow> 'a" where
  "horner [] x = 0"
| "horner (c # cs) x = c + x * horner cs x"

fun quot :: "'a::comm_ring_1 \<Rightarrow> 'a list \<Rightarrow> 'a list" where
  "quot r [] = []"
| "quot r [c] = []"
| "quot r (c # d # cs) = horner (d # cs) r # quot r (d # cs)"

definition is_poly :: "nat \<Rightarrow> ('a::comm_ring_1 \<Rightarrow> 'a) \<Rightarrow> bool" where
  "is_poly n f \<longleftrightarrow> (\<exists>cs. length cs = n \<and> f = horner cs)"

lemma length_quot [simp]: "length (quot r cs) = length cs - 1"
  by (induction r cs rule: quot.induct) auto

lemma horner_quot: "horner cs x = horner cs r + (x - r) * horner (quot r cs) x"
proof (induction r cs rule: quot.induct)
  case (3 r c d cs)
  have "horner (c # d # cs) x = c + x * horner (d # cs) x" by simp
  also have "\<dots> = c + x * (horner (d # cs) r + (x - r) * horner (quot r (d # cs)) x)"
    by (simp only: "3.IH" [symmetric])
  also have "\<dots> = horner (c # d # cs) r + (x - r) * horner (quot r (c # d # cs)) x"
    by (simp add: algebra_simps)
  finally show ?case .
qed simp_all

lemma quot_zero:
  "horner cs r = 0 \<Longrightarrow> list_all (\<lambda>c. c = 0) (quot r cs) \<Longrightarrow> list_all (\<lambda>c. c = 0) cs"
  by (induction r cs rule: quot.induct) auto

text \<open>As many distinct roots as coefficients: every coefficient is zero.\<close>

lemma roots_zero:
  fixes cs :: "'a::idom list"
  shows "length cs \<le> length rs \<Longrightarrow> distinct rs \<Longrightarrow> \<forall>r \<in> set rs. horner cs r = 0 \<Longrightarrow>
    list_all (\<lambda>c. c = 0) cs"
proof (induction rs arbitrary: cs)
  case (Cons r rs)
  have "horner (quot r cs) s = 0" if "s \<in> set rs" for s
  proof -
    have "s \<noteq> r" "horner cs s = 0" "horner cs r = 0" using Cons.prems that by auto
    then show ?thesis using horner_quot [of cs s r] by simp
  qed
  then have "list_all (\<lambda>c. c = 0) (quot r cs)"
    using Cons.prems by (intro Cons.IH) auto
  moreover have "horner cs r = 0" using Cons.prems by simp
  ultimately show ?case by (rule quot_zero [rotated])
qed simp

lemma horner_zeros: "list_all (\<lambda>c. c = 0) cs \<Longrightarrow> horner cs x = 0"
  by (induction cs) auto

section \<open>Polynomial functions are closed under sums and products with linear factors\<close>

lemma horner_map2_add:
  "length cs = length ds \<Longrightarrow> horner (map2 (+) cs ds) x = horner cs x + horner ds x"
  by (induction cs ds rule: list_induct2) (auto simp: algebra_simps)

lemma horner_map2_minus:
  "length cs = length ds \<Longrightarrow> horner (map2 (-) cs ds) x = horner cs x - horner ds x"
  by (induction cs ds rule: list_induct2) (auto simp: right_diff_distrib)

lemma horner_scale: "horner (map ((*) k) cs) x = k * horner cs x"
  by (induction cs) (auto simp: algebra_simps)

lemma horner_append_zeros: "horner (cs @ replicate n 0) x = horner cs x"
proof (induction cs)
  case Nil
  then show ?case by (simp add: horner_zeros list_all_iff)
qed simp

lemma is_polyI: "length cs = n \<Longrightarrow> (\<And>x. f x = horner cs x) \<Longrightarrow> is_poly n f"
  unfolding is_poly_def by (intro exI [of _ cs]) auto

lemma is_polyE: "is_poly n f \<Longrightarrow> (\<And>cs. length cs = n \<Longrightarrow> f = horner cs \<Longrightarrow> thesis) \<Longrightarrow> thesis"
  unfolding is_poly_def by blast

lemma is_poly_add:
  assumes "is_poly n f" "is_poly n g"
  shows "is_poly n (\<lambda>x. f x + g x)"
proof -
  obtain cs ds where "length cs = n" "f = horner cs" "length ds = n" "g = horner ds"
    using assms by (metis is_polyE)
  then show ?thesis by (intro is_polyI [of "map2 (+) cs ds"]) (simp_all add: horner_map2_add)
qed

lemma is_poly_scale: "is_poly n f \<Longrightarrow> is_poly n (\<lambda>x. k * f x)"
  by (erule is_polyE, rule is_polyI [of "map ((*) k) cs" for cs]) (auto simp: horner_scale)

lemma is_poly_mono:
  assumes "is_poly m f" "m \<le> n"
  shows "is_poly n f"
proof -
  obtain cs where "length cs = m" "f = horner cs" using assms(1) by (rule is_polyE)
  with assms(2) show ?thesis
    by (intro is_polyI [of "cs @ replicate (n - m) 0"]) (simp_all add: horner_append_zeros)
qed

lemma is_poly_linear: "is_poly n f \<Longrightarrow> is_poly (Suc n) (\<lambda>x. (x - r) * f x)"
proof -
  assume "is_poly n f"
  then obtain cs where cs: "length cs = n" "f = horner cs" by (rule is_polyE)
  have "is_poly (Suc n) (horner (0 # cs))" using cs by (intro is_polyI [of "0 # cs"]) simp_all
  moreover have "is_poly (Suc n) f" using \<open>is_poly n f\<close> by (rule is_poly_mono) simp
  then have "is_poly (Suc n) (\<lambda>x. (- r) * f x)" by (rule is_poly_scale)
  ultimately have "is_poly (Suc n) (\<lambda>x. horner (0 # cs) x + (- r) * f x)" by (rule is_poly_add)
  moreover have "(\<lambda>x. horner (0 # cs) x + (- r) * f x) = (\<lambda>x. (x - r) * f x)"
    by (rule ext) (simp add: cs algebra_simps)
  ultimately show ?thesis by simp
qed

lemma is_poly_prod: "is_poly (Suc (length rs)) (\<lambda>x. prod_list (map (\<lambda>r. x - r) rs))"
proof (induction rs)
  case Nil
  show ?case by (intro is_polyI [of "[1]"]) simp_all
next
  case (Cons r rs)
  then show ?case using is_poly_linear [of "Suc (length rs)" _ r] by simp
qed

lemma is_poly_sum_list:
  "(\<And>a. a \<in> set as \<Longrightarrow> is_poly n (f a)) \<Longrightarrow> is_poly n (\<lambda>x. sum_list (map (\<lambda>a. f a x) as))"
proof (induction as)
  case Nil
  show ?case by (intro is_polyI [of "replicate n 0"]) (simp_all add: horner_zeros list_all_iff)
qed (simp add: is_poly_add)

section \<open>The Lagrange form\<close>

text \<open>The basis polynomial of the point \<open>x\<close> among the points \<open>xs\<close>, at \<open>z\<close>.\<close>

definition lagrange_basis :: "'a::field list \<Rightarrow> 'a \<Rightarrow> 'a \<Rightarrow> 'a" where
  "lagrange_basis xs x z =
     prod_list (map (\<lambda>y. z - y) (filter (\<lambda>y. y \<noteq> x) xs))
     * inverse (prod_list (map (\<lambda>y. x - y) (filter (\<lambda>y. y \<noteq> x) xs)))"

definition lagrange :: "('a::field \<times> 'a) list \<Rightarrow> 'a \<Rightarrow> 'a" where
  "lagrange ps z = sum_list (map (\<lambda>p. snd p * lagrange_basis (map fst ps) (fst p) z) ps)"

lemma prod_list_diff_nonzero:
  fixes x :: "'a::field"
  shows "x \<notin> set ys \<Longrightarrow> prod_list (map (\<lambda>y. x - y) ys) \<noteq> 0"
  by (induction ys) auto

lemma basis_self: "lagrange_basis xs x x = 1"
  using prod_list_diff_nonzero [of x "filter (\<lambda>y. y \<noteq> x) xs"] by (simp add: lagrange_basis_def)

lemma basis_other: "y \<in> set xs \<Longrightarrow> y \<noteq> x \<Longrightarrow> lagrange_basis xs x y = 0"
  by (auto simp: lagrange_basis_def prod_list_zero_iff)

lemma is_poly_basis:
  assumes "distinct xs" "x \<in> set xs"
  shows "is_poly (length xs) (lagrange_basis xs x)"
proof -
  define ys where "ys = filter (\<lambda>y. y \<noteq> x) xs"
  have "ys = remove1 x xs"
    using assms by (simp add: ys_def distinct_remove1_removeAll removeAll_filter_not_eq eq_commute)
  then have "length ys + 1 = length xs"
    using assms by (simp add: length_remove1) (metis length_pos_if_in_set Suc_pred)
  then have "is_poly (length xs) (\<lambda>z. prod_list (map (\<lambda>y. z - y) ys))"
    using is_poly_prod [of ys] by simp
  then have "is_poly (length xs) (\<lambda>z. inverse (prod_list (map (\<lambda>y. x - y) ys)) * prod_list (map (\<lambda>y. z - y) ys))"
    by (rule is_poly_scale)
  moreover have "lagrange_basis xs x =
      (\<lambda>z. inverse (prod_list (map (\<lambda>y. x - y) ys)) * prod_list (map (\<lambda>y. z - y) ys))"
    by (rule ext) (simp add: lagrange_basis_def ys_def)
  ultimately show ?thesis by simp
qed

lemma is_poly_lagrange:
  fixes ps :: "('a::field \<times> 'a) list"
  assumes "distinct (map fst ps)"
  shows "is_poly (length ps) (lagrange ps)"
proof -
  have "is_poly (length ps) (\<lambda>z. snd p * lagrange_basis (map fst ps) (fst p) z)" if "p \<in> set ps" for p
    using is_poly_scale [OF is_poly_basis [OF assms, of "fst p"]] that by simp
  then show ?thesis unfolding lagrange_def by (rule is_poly_sum_list)
qed

lemma sum_list_none: "p \<notin> set ps \<Longrightarrow> sum_list (map (\<lambda>q. if q = p then v else 0) ps) = (0 :: 'b::comm_monoid_add)"
  by (induction ps) auto

lemma sum_list_single:
  "distinct ps \<Longrightarrow> p \<in> set ps \<Longrightarrow> sum_list (map (\<lambda>q. if q = p then v else 0) ps) = (v :: 'b::comm_monoid_add)"
  by (induction ps) (auto simp: sum_list_none)

lemma lagrange_at:
  fixes ps :: "('a::field \<times> 'a) list"
  assumes "distinct (map fst ps)" "p \<in> set ps"
  shows "lagrange ps (fst p) = snd p"
proof -
  have "lagrange ps (fst p) = sum_list (map (\<lambda>q. if q = p then snd p else 0) ps)"
    unfolding lagrange_def
  proof (intro arg_cong [where f = sum_list] map_cong refl)
    fix q
    assume q: "q \<in> set ps"
    show "snd q * lagrange_basis (map fst ps) (fst q) (fst p) = (if q = p then snd p else 0)"
    proof (cases "q = p")
      case False
      with assms q have "fst q \<noteq> fst p" by (auto simp: distinct_map inj_on_def)
      with assms False show ?thesis by (simp add: basis_other)
    qed (simp add: basis_self)
  qed
  also have "\<dots> = snd p"
    using assms by (intro sum_list_single) (simp_all add: distinct_map)
  finally show ?thesis .
qed

section \<open>Reconstruction and uniqueness\<close>

lemma coeffs_unique:
  fixes cs ds :: "'a::idom list"
  assumes "length cs = length ds" "length cs \<le> length rs" "distinct rs"
    and "\<forall>r \<in> set rs. horner cs r = horner ds r"
  shows "cs = ds"
proof -
  have "list_all (\<lambda>c. c = 0) (map2 (-) cs ds)"
    using assms by (intro roots_zero [of _ rs]) (auto simp: horner_map2_minus)
  then have "\<forall>i < length cs. cs ! i - ds ! i = 0"
    using assms(1) by (simp add: list_all_length)
  then show ?thesis using assms(1) by (simp add: nth_equalityI)
qed

text \<open>Enough values of a polynomial give it back, at every point.\<close>

lemma lagrange_reconstruct:
  fixes ps :: "('a::field \<times> 'a) list"
  assumes "distinct (map fst ps)" "length cs \<le> length ps" "\<forall>p \<in> set ps. horner cs (fst p) = snd p"
  shows "lagrange ps z = horner cs z"
proof -
  obtain ls where ls: "length ls = length ps" "lagrange ps = horner ls"
    using is_poly_lagrange [OF assms(1)] by (rule is_polyE)
  define cs' where "cs' = cs @ replicate (length ps - length cs) 0"
  have "cs' = ls"
  proof (rule coeffs_unique [of _ _ "map fst ps"])
    show "\<forall>r \<in> set (map fst ps). horner cs' r = horner ls r"
      using assms lagrange_at [OF assms(1)] by (auto simp: cs'_def horner_append_zeros simp flip: ls(2))
  qed (use assms ls in \<open>simp_all add: cs'_def\<close>)
  then show ?thesis using ls by (simp add: cs'_def horner_append_zeros flip: \<open>cs' = ls\<close>)
qed

lemma interpolation_exists:
  fixes ps :: "('a::field \<times> 'a) list"
  assumes "distinct (map fst ps)"
  shows "\<exists>cs. length cs = length ps \<and> (\<forall>p \<in> set ps. horner cs (fst p) = snd p)"
  using is_poly_lagrange [OF assms] lagrange_at [OF assms] by (metis is_polyE)

lemma horner_0 [simp]: "cs \<noteq> [] \<Longrightarrow> horner cs 0 = hd cs"
  by (cases cs) auto

lemma horner_butlast: "cs \<noteq> [] \<Longrightarrow> last cs = 0 \<Longrightarrow> horner (butlast cs) x = horner cs x"
proof -
  assume "cs \<noteq> []" "last cs = 0"
  then have "cs = butlast cs @ replicate 1 0" by (metis append_butlast_last_id One_nat_def replicate_0 replicate_Suc)
  then show ?thesis by (metis horner_append_zeros)
qed

text \<open>
  One value fewer than coefficients, and a leading coefficient that is not zero: the value at
  zero of the polynomial through those points is the one value the constant term cannot have,
  and it can have every other.
\<close>

lemma constant_term_excluded:
  fixes ps :: "('a::field \<times> 'a) list"
  assumes d: "distinct (map fst ps)" and z: "0 \<notin> set (map fst ps)" and l: "length ps = n"
  shows "(\<exists>cs. length cs = Suc n \<and> hd cs = s \<and> last cs \<noteq> 0 \<and> (\<forall>p \<in> set ps. horner cs (fst p) = snd p))
         \<longleftrightarrow> s \<noteq> lagrange ps 0"
proof
  assume "\<exists>cs. length cs = Suc n \<and> hd cs = s \<and> last cs \<noteq> 0 \<and> (\<forall>p \<in> set ps. horner cs (fst p) = snd p)"
  then obtain cs where cs: "length cs = Suc n" "hd cs = s" "last cs \<noteq> 0"
    "\<forall>p \<in> set ps. horner cs (fst p) = snd p" by blast
  then have ne: "cs \<noteq> []" by auto
  show "s \<noteq> lagrange ps 0"
  proof
    assume s: "s = lagrange ps 0"
    obtain ls where ls: "length ls = n" "lagrange ps = horner ls"
      using is_poly_lagrange [OF d] l by (auto elim: is_polyE)
    have e: "\<forall>r \<in> set (0 # map fst ps). horner cs r = horner (ls @ [0]) r"
      using cs ne s lagrange_at [OF d] horner_append_zeros [of ls 1] ls by auto
    have "cs = ls @ [0]"
      using cs ls d z l e by (intro coeffs_unique [of _ _ "0 # map fst ps"]) auto
    with cs show False by simp
  qed
next
  assume s: "s \<noteq> lagrange ps 0"
  have "distinct (map fst ((0, s) # ps))" using d z by simp
  then obtain cs where cs: "length cs = Suc n" "horner cs 0 = s" "\<forall>p \<in> set ps. horner cs (fst p) = snd p"
    using interpolation_exists [of "(0, s) # ps"] l by auto
  then have ne: "cs \<noteq> []" by auto
  have "last cs \<noteq> 0"
  proof
    assume "last cs = 0"
    then have "\<forall>p \<in> set ps. horner (butlast cs) (fst p) = snd p"
      using cs ne by (simp add: horner_butlast)
    then have "lagrange ps 0 = horner (butlast cs) 0"
      using cs l by (intro lagrange_reconstruct [OF d]) simp_all
    then show False using s cs ne \<open>last cs = 0\<close> by (simp add: horner_butlast)
  qed
  then show "\<exists>cs. length cs = Suc n \<and> hd cs = s \<and> last cs \<noteq> 0 \<and> (\<forall>p \<in> set ps. horner cs (fst p) = snd p)"
    using cs ne by (intro exI [of _ cs]) auto
qed

section \<open>The interface of a byte arithmetic\<close>

locale byte_field =
  fixes add_b :: "'b \<Rightarrow> 'b \<Rightarrow> 'b"
    and mul_b :: "'b \<Rightarrow> 'b \<Rightarrow> 'b"
    and inv_b :: "'b \<Rightarrow> 'b"
    and zero_b :: 'b
    and one_b :: 'b
    and emb :: "'b \<Rightarrow> 'f::field"
  assumes emb_add: "emb (add_b a b) = emb a + emb b"
    and emb_mul: "emb (mul_b a b) = emb a * emb b"
    and emb_inv: "emb (inv_b a) = inverse (emb a)"
    and emb_zero: "emb zero_b = 0"
    and emb_one: "emb one_b = 1"
    and emb_inj: "emb a = emb b \<Longrightarrow> a = b"
    and char_two: "(x :: 'f) + x = 0"
begin

lemma emb_eq [simp]: "emb a = emb b \<longleftrightarrow> a = b"
  using emb_inj by blast

lemma emb_eq_zero: "emb a = 0 \<longleftrightarrow> a = zero_b"
  using emb_eq [of a zero_b] by (simp add: emb_zero)

lemma minus_is_plus: "(x :: 'f) - y = x + y"
proof -
  have "x - y = x - y + (y + y)" by (simp add: char_two)
  then show ?thesis by (simp add: algebra_simps)
qed

text \<open>Horner's rule from the last coefficient down is evaluation.\<close>

lemma emb_evaluate:
  "emb (foldl (\<lambda>y c. add_b (mul_b y x) c) zero_b (rev cs)) = horner (map emb cs) (emb x)"
  by (induction cs) (simp_all add: emb_zero emb_add emb_mul mult.commute add.commute)

text \<open>The two products of a Lagrange coefficient at zero, accumulated over the other points.\<close>

lemma emb_basis_loop:
  "foldl (\<lambda>(n, d) y. if y = x then (n, d) else (mul_b n y, mul_b d (add_b x y))) (n0, d0) ys = (n, d) \<Longrightarrow>
   emb n = emb n0 * prod_list (map (\<lambda>y. 0 - y) (filter (\<lambda>y. y \<noteq> emb x) (map emb ys)))
   \<and> emb d = emb d0 * prod_list (map (\<lambda>y. emb x - y) (filter (\<lambda>y. y \<noteq> emb x) (map emb ys)))"
  by (induction ys arbitrary: n0 d0) (auto simp: emb_mul emb_add minus_is_plus mult.assoc)

lemma emb_basis:
  assumes "foldl (\<lambda>(n, d) y. if y = x then (n, d) else (mul_b n y, mul_b d (add_b x y))) (one_b, one_b) ys = (n, d)"
  shows "emb (mul_b n (inv_b d)) = lagrange_basis (map emb ys) (emb x) 0"
  using emb_basis_loop [OF assms] by (simp add: emb_mul emb_inv emb_one lagrange_basis_def)

lemma emb_dot:
  "emb (foldl (\<lambda>acc p. add_b acc (mul_b (fst p) (snd p))) a ps)
     = emb a + sum_list (map (\<lambda>p. emb (fst p) * emb (snd p)) ps)"
  by (induction ps arbitrary: a) (simp_all add: emb_mul emb_add add.assoc)

end

end
