(* ===== verification/GF256.thy ===== *)
theory GF256
  imports Prelude Interpolation
begin

text \<open>
  Arithmetic of \<open>shamir/shamir.go\<close>: the branch-free multiplication in GF(2^8) modulo
  \<open>x^8 + x^4 + x^3 + x + 1\<close>, inversion by exponentiation and Horner evaluation.
  The type \<open>gf256\<close> wraps a byte; its operations are the code's, and the instance
  \<open>gf256 :: field\<close> is the theorem that the code's \<open>mul\<close>, \<open>inverse\<close> and exclusive or
  are the operations of a field. The interface \<open>byte_field\<close> of \<open>Interpolation\<close> is interpreted on the
  code's operations at the end.
\<close>

section \<open>The code\<close>

text \<open>\<open>mul\<close>: eight rounds, the conditionals written as masks.\<close>

fun mul_loop :: "nat \<Rightarrow> u8 \<Rightarrow> u8 \<Rightarrow> u8 \<Rightarrow> u8" where
  "mul_loop 0 p a b = p"
| "mul_loop (Suc i) p a b =
     (let p = p XOR (a AND - (b AND 1));
          high = drop_bit 7 a;
          a = push_bit 1 a;
          a = a XOR (0x1b AND - high);
          b = drop_bit 1 b
      in mul_loop i p a b)"

definition mul :: "u8 \<Rightarrow> u8 \<Rightarrow> u8" where
  "mul a b = mul_loop 8 0 a b"

text \<open>\<open>inverse\<close>: square and multiply along the bits of the constant 254.\<close>

fun inverse_loop :: "nat list \<Rightarrow> u8 \<Rightarrow> u8 \<Rightarrow> u8" where
  "inverse_loop [] res pow = res"
| "inverse_loop (e # es) res pow =
     inverse_loop es
       (if drop_bit e (254::nat) AND 1 = 1 then mul res pow else res) (mul pow pow)"

definition gf_inverse :: "u8 \<Rightarrow> u8" where
  "gf_inverse a = inverse_loop [0..<8] 1 a"

text \<open>\<open>evaluate\<close>: Horner's rule from the last coefficient down; the constant term is first.\<close>

definition evaluate :: "bytes \<Rightarrow> u8 \<Rightarrow> u8" where
  "evaluate coefficients x = foldl (\<lambda>y c. mul y x XOR c) 0 (rev coefficients)"

section \<open>Multiplication as a sum of shifted copies\<close>

text \<open>One step of the loop on \<open>a\<close>: multiplication by the indeterminate.\<close>

definition xtime :: "u8 \<Rightarrow> u8" where
  "xtime a = push_bit 1 a XOR (if bit a 7 then 0x1b else 0)"

lemma mask_bit0: "- (b AND 1 :: u8) = (if bit b 0 then -1 else 0)"
proof -
  have "b AND 1 = (if bit b 0 then 1 else 0)"
    by (rule bit_word_eqI) (auto simp: bit_simps intro: gr0I)
  then show ?thesis by simp
qed

lemma mask_bit7: "- (drop_bit 7 a :: u8) = (if bit a 7 then -1 else 0)"
proof -
  have "drop_bit 7 a = (if bit a 7 then 1 else 0)"
  proof (rule bit_word_eqI)
    fix n :: nat
    show "bit (drop_bit 7 a) n = bit (if bit a 7 then 1 else 0 :: u8) n"
      by (cases "n = 0") (auto simp: bit_simps dest: bit_imp_le_length)
  qed
  then show ?thesis by simp
qed

lemma mul_loop_Suc:
  "mul_loop (Suc i) p a b =
     mul_loop i (p XOR (if bit b 0 then a else 0)) (xtime a) (drop_bit 1 b)"
  by (simp add: Let_def mask_bit0 mask_bit7 xtime_def)

declare mul_loop.simps(2) [simp del]

fun xpow :: "nat \<Rightarrow> u8 \<Rightarrow> u8" where
  "xpow 0 a = a"
| "xpow (Suc n) a = xpow n (xtime a)"

lemma mul_loop_p: "mul_loop n p a b = p XOR mul_loop n 0 a b"
proof (induction n arbitrary: p a b)
  case (Suc n)
  show ?case
    using Suc [of "p XOR (if bit b 0 then a else 0)" "xtime a" "drop_bit 1 b"]
      Suc [of "if bit b 0 then a else 0" "xtime a" "drop_bit 1 b"]
    by (simp add: mul_loop_Suc xor.assoc)
qed simp

lemma mul_loop_step:
  "mul_loop (Suc i) 0 a b = (if bit b 0 then a else 0) XOR mul_loop i 0 (xtime a) (drop_bit 1 b)"
  by (subst mul_loop_p) (simp add: mul_loop_Suc, subst mul_loop_p, simp)

lemma xtime_xor: "xtime (a XOR b) = xtime a XOR xtime b"
  by (simp add: xtime_def bit_simps push_bit_xor xor.assoc xor.left_commute xor.commute)

lemma xtime_0 [simp]: "xtime 0 = 0"
  by (simp add: xtime_def)

lemma mul_loop_xor_left: "mul_loop n 0 (a XOR a') b = mul_loop n 0 a b XOR mul_loop n 0 a' b"
proof (induction n arbitrary: a a' b)
  case (Suc n)
  show ?case
    by (simp add: mul_loop_step xtime_xor Suc xor.assoc xor.left_commute xor.commute)
qed simp

lemma drop_bit_xor_word: "drop_bit n (a XOR b :: u8) = drop_bit n a XOR drop_bit n b"
  by (rule drop_bit_xor)

lemma mul_loop_xor_right: "mul_loop n 0 a (b XOR b') = mul_loop n 0 a b XOR mul_loop n 0 a b'"
proof (induction n arbitrary: a b b')
  case (Suc n)
  show ?case
    by (simp add: mul_loop_step drop_bit_xor_word Suc bit_simps xor.assoc xor.left_commute xor.commute)
qed simp

lemma mul_xor_left: "mul (a XOR a') b = mul a b XOR mul a' b"
  by (simp add: mul_def mul_loop_xor_left)

lemma mul_xor_right: "mul a (b XOR b') = mul a b XOR mul a b'"
  by (simp add: mul_def mul_loop_xor_right)

lemma mul_loop_xtime: "mul_loop n 0 (xtime a) b = xtime (mul_loop n 0 a b)"
proof (induction n arbitrary: a b)
  case (Suc n)
  show ?case by (simp add: mul_loop_step Suc xtime_xor)
qed simp

lemma mul_xtime_left: "mul (xtime a) b = xtime (mul a b)"
  by (simp add: mul_def mul_loop_xtime)

lemma mul_zero_left [simp]: "mul 0 b = 0"
proof -
  have "mul_loop n 0 0 b = 0" for n by (induction n arbitrary: b) (simp_all add: mul_loop_step)
  then show ?thesis by (simp add: mul_def)
qed

lemma mul_loop_zero_right [simp]: "mul_loop n 0 a 0 = 0"
  by (induction n arbitrary: a) (simp_all add: mul_loop_step)

lemma mul_zero_right [simp]: "mul a 0 = 0"
  by (simp add: mul_def)

lemma mul_one_right [simp]: "mul a 1 = a"
  by (simp add: mul_def numeral_eq_Suc mul_loop_step)

section \<open>Induction over the bits of a byte\<close>

lemma bit_guarded: "bit (if q then x else (0 :: u8)) n \<longleftrightarrow> q \<and> bit x n"
  by simp

lemma bit_byte_powers:
  "n < 8 \<Longrightarrow> bit (2 ^ k :: u8) n \<longleftrightarrow> k = n"
  by (auto simp: bit_simps)

lemma byte_sum:
  "(b :: u8) = (if bit b 0 then 2 ^ 0 else 0) XOR (if bit b 1 then 2 ^ 1 else 0)
     XOR (if bit b 2 then 2 ^ 2 else 0) XOR (if bit b 3 then 2 ^ 3 else 0)
     XOR (if bit b 4 then 2 ^ 4 else 0) XOR (if bit b 5 then 2 ^ 5 else 0)
     XOR (if bit b 6 then 2 ^ 6 else 0) XOR (if bit b 7 then 2 ^ 7 else 0)" (is "_ = ?r")
proof (rule bit_word_eqI)
  fix n :: nat
  assume n: "n < LENGTH(8)"
  then have l: "n < 8" by simp
  have c: "n = 0 \<or> n = 1 \<or> n = 2 \<or> n = 3 \<or> n = 4 \<or> n = 5 \<or> n = 6 \<or> n = 7"
    using l by linarith
  have r: "bit ?r n \<longleftrightarrow> ((bit b 0 \<and> 0 = n) \<noteq> ((bit b 1 \<and> 1 = n) \<noteq> ((bit b 2 \<and> 2 = n)
     \<noteq> ((bit b 3 \<and> 3 = n) \<noteq> ((bit b 4 \<and> 4 = n) \<noteq> ((bit b 5 \<and> 5 = n) \<noteq> ((bit b 6 \<and> 6 = n)
     \<noteq> (bit b 7 \<and> 7 = n))))))))"
    by (simp only: bit_xor_iff bit_guarded bit_byte_powers [OF l])
  show "bit b n = bit ?r n"
    unfolding r using c by (elim disjE) simp_all
qed

lemma xtime_pow_one:
  "(xtime ^^ 0) 1 = 2 ^ 0" "(xtime ^^ 1) 1 = 2 ^ 1" "(xtime ^^ 2) 1 = 2 ^ 2" "(xtime ^^ 3) 1 = 2 ^ 3"
  "(xtime ^^ 4) 1 = 2 ^ 4" "(xtime ^^ 5) 1 = 2 ^ 5" "(xtime ^^ 6) 1 = 2 ^ 6" "(xtime ^^ 7) 1 = 2 ^ 7"
  by (simp_all add: eval_nat_numeral xtime_def)

lemma byte_induct [case_names zero basis xor]:
  assumes z: "P (0 :: u8)"
    and b: "\<And>i. P ((xtime ^^ i) 1)"
    and x: "\<And>a b. P a \<Longrightarrow> P b \<Longrightarrow> P (a XOR b)"
  shows "P w"
proof -
  have p: "P (if q then (xtime ^^ i) 1 else 0)" for q i
    using z b by simp
  show ?thesis
    by (subst byte_sum [of w], unfold xtime_pow_one [symmetric]) (intro x p)
qed

section \<open>The ring laws\<close>

lemma mul_xtime_pow_left: "mul ((xtime ^^ i) a) b = (xtime ^^ i) (mul a b)"
  by (induction i) (simp_all add: mul_xtime_left)

lemma xtime_pow_0 [simp]: "(xtime ^^ i) 0 = 0"
  by (induction i) simp_all

lemma xtime_pow_xor: "(xtime ^^ i) (a XOR b) = (xtime ^^ i) a XOR (xtime ^^ i) b"
  by (induction i) (simp_all add: xtime_xor)

lemma mul_sum:
  "mul a b = (if bit b 0 then (xtime ^^ 0) a else 0) XOR (if bit b 1 then (xtime ^^ 1) a else 0)
     XOR (if bit b 2 then (xtime ^^ 2) a else 0) XOR (if bit b 3 then (xtime ^^ 3) a else 0)
     XOR (if bit b 4 then (xtime ^^ 4) a else 0) XOR (if bit b 5 then (xtime ^^ 5) a else 0)
     XOR (if bit b 6 then (xtime ^^ 6) a else 0) XOR (if bit b 7 then (xtime ^^ 7) a else 0)"
  by (simp add: mul_def eval_nat_numeral mul_loop_step bit_drop_bit_eq xor.assoc)

lemma mul_one_left [simp]: "mul 1 b = b"
  unfolding mul_sum xtime_pow_one by (rule byte_sum [symmetric])

lemma mul_comm: "mul a b = mul b a"
proof (induction a rule: byte_induct)
  case (basis i)
  show ?case
  proof (induction b rule: byte_induct)
    case (basis j)
    have "(xtime ^^ i) ((xtime ^^ j) 1) = (xtime ^^ j) ((xtime ^^ i) 1)"
      by (simp only: funpow_add [THEN fun_cong, symmetric, unfolded comp_def] add.commute)
    then show ?case by (simp add: mul_xtime_pow_left)
  qed (simp_all add: mul_xor_left mul_xor_right)
qed (simp_all add: mul_xor_left mul_xor_right)

lemma mul_assoc: "mul (mul a b) c = mul a (mul b c)"
  by (induction a rule: byte_induct) (simp_all add: mul_xtime_pow_left mul_xor_left)

lemma mul_two: "mul 2 b = xtime b"
proof -
  have "mul (xtime 1) b = xtime b" by (simp add: mul_xtime_left)
  then show ?thesis by (simp add: xtime_def)
qed

section \<open>Bytes as a commutative ring\<close>

typedef gf256 = "UNIV :: u8 set"
  morphisms byte_of gf ..

setup_lifting type_definition_gf256

instantiation gf256 :: comm_ring_1
begin

lift_definition zero_gf256 :: gf256 is 0 .
lift_definition one_gf256 :: gf256 is 1 .
lift_definition plus_gf256 :: "gf256 \<Rightarrow> gf256 \<Rightarrow> gf256" is "\<lambda>a b. a XOR b" .
lift_definition minus_gf256 :: "gf256 \<Rightarrow> gf256 \<Rightarrow> gf256" is "\<lambda>a b. a XOR b" .
lift_definition uminus_gf256 :: "gf256 \<Rightarrow> gf256" is "\<lambda>a. a" .
lift_definition times_gf256 :: "gf256 \<Rightarrow> gf256 \<Rightarrow> gf256" is mul .

instance
proof
  fix a b c :: gf256
  show "a * b * c = a * (b * c)" by transfer (rule mul_assoc)
  show "a * b = b * a" by transfer (rule mul_comm)
  show "1 * a = a" by transfer simp
  show "a + b + c = a + (b + c)" by transfer (rule xor.assoc)
  show "a + b = b + a" by transfer (rule xor.commute)
  show "0 + a = a" by transfer simp
  show "- a + a = 0" by transfer simp
  show "a - b = a + - b" by transfer simp
  show "(a + b) * c = a * c + b * c" by transfer (rule mul_xor_left)
  show "(0 :: gf256) \<noteq> 1" by transfer simp
qed

end

lemma gf_double [simp]: "(a :: gf256) + a = 0"
  by transfer simp

lemma gf_two [simp]: "(2 :: gf256) = 0"
  using gf_double [of 1] by (simp only: one_add_one)

lemma gf_minus: "(a :: gf256) - b = a + b"
  by transfer simp

lemma gf_square_add: "(a + b :: gf256) ^ 2 = a ^ 2 + b ^ 2"
proof -
  have "(a + b) ^ 2 = a ^ 2 + b ^ 2 + (a * b + a * b)"
    by (simp add: power2_eq_square algebra_simps)
  then show ?thesis by simp
qed

lemma gf_frobenius: "(a + b :: gf256) ^ (2 ^ n) = a ^ (2 ^ n) + b ^ (2 ^ n)"
proof (induction n)
  case (Suc n)
  then show ?case
    by (simp add: power_mult mult.commute [of 2] gf_square_add)
qed simp

section \<open>Every element satisfies \<open>a ^ 256 = a\<close>\<close>

lemma gf_xtime: "gf (xtime a) = gf 2 * gf a"
  by (simp add: times_gf256_def gf_inverse mul_two)

lemma gf_xtime_pow: "gf ((xtime ^^ i) 1) = gf 2 ^ i"
proof (induction i)
  case 0
  show ?case by (simp add: one_gf256_def)
next
  case (Suc i)
  then show ?case by (simp add: gf_xtime)
qed

lemma gf_xor: "gf (a XOR b) = gf a + gf b"
  by (simp add: plus_gf256_def gf_inverse)

lemma gf_mul: "gf (mul a b) = gf a * gf b"
  by (simp add: times_gf256_def gf_inverse)

lemma gf_0: "gf 0 = 0" and gf_1: "gf 1 = 1"
  by (simp_all add: zero_gf256_def one_gf256_def)

text \<open>Eight squarings of the indeterminate, with the code's \<open>mul\<close>, return to it.\<close>

lemma mul_squares:
  "mul 2 2 = 4" "mul 4 4 = 16" "mul 16 16 = 0x1b" "mul 0x1b 0x1b = 0x5e" "mul 0x5e 0x5e = 0xe4"
  "mul 0xe4 0xe4 = 0x4d" "mul 0x4d 0x4d = 0xfa" "mul 0xfa 0xfa = 2"
  by code_simp+

lemma gf_square: "mul a a = b \<Longrightarrow> gf a ^ (2 * n) = gf b ^ n"
  by (auto simp: power_mult power2_eq_square gf_mul)

lemma gf_x_256: "gf 2 ^ 256 = gf 2"
proof -
  have "gf 2 ^ (2 * 128) = gf 4 ^ (2 * 64)" using gf_square [OF mul_squares(1), of 128] by simp
  also have "\<dots> = gf 16 ^ (2 * 32)" using gf_square [OF mul_squares(2), of 64] by simp
  also have "\<dots> = gf 0x1b ^ (2 * 16)" using gf_square [OF mul_squares(3), of 32] by simp
  also have "\<dots> = gf 0x5e ^ (2 * 8)" using gf_square [OF mul_squares(4), of 16] by simp
  also have "\<dots> = gf 0xe4 ^ (2 * 4)" using gf_square [OF mul_squares(5), of 8] by simp
  also have "\<dots> = gf 0x4d ^ (2 * 2)" using gf_square [OF mul_squares(6), of 4] by simp
  also have "\<dots> = gf 0xfa ^ (2 * 1)" using gf_square [OF mul_squares(7), of 2] by simp
  also have "\<dots> = gf 2 ^ 1" using gf_square [OF mul_squares(8), of 1] by simp
  finally show ?thesis by simp
qed

lemma gf_256: "(a :: gf256) ^ 256 = a"
proof (cases a)
  case (gf w)
  have "gf w ^ 256 = gf w" for w
  proof (induction w rule: byte_induct)
    case zero
    then show ?case by (simp add: gf_0)
  next
    case (basis i)
    have "(gf 2 ^ i) ^ 256 = (gf 2 ^ 256) ^ i"
      by (simp only: power_mult [symmetric] mult.commute)
    then show ?case by (simp only: gf_xtime_pow gf_x_256)
  next
    case (xor a b)
    then show ?case using gf_frobenius [of "gf a" "gf b" 8] by (simp add: gf_xor)
  qed
  with gf show ?thesis by simp
qed

section \<open>The only idempotents are 0 and 1, so every other element has an inverse\<close>

lemma mul_square_xor: "mul (a XOR b) (a XOR b) = mul a a XOR mul b b"
  by (simp add: mul_xor_left mul_xor_right mul_comm [of b a] xor.assoc xor.left_commute)

lemma mul_square_guarded: "mul (if q then x else 0) (if q then x else 0) = (if q then mul x x else 0)"
  by simp

lemma mul_basis_squares:
  "mul (2 ^ 0) (2 ^ 0) = 1" "mul (2 ^ 1) (2 ^ 1) = 4" "mul (2 ^ 2) (2 ^ 2) = 16" "mul (2 ^ 3) (2 ^ 3) = 64"
  "mul (2 ^ 4) (2 ^ 4) = 0x1b" "mul (2 ^ 5) (2 ^ 5) = 0x6c" "mul (2 ^ 6) (2 ^ 6) = 0xab"
  "mul (2 ^ 7) (2 ^ 7) = 0x9a"
  by code_simp+

lemma mul_idempotent:
  assumes "mul y y = y"
  shows "y = 0 \<or> y = 1"
proof -
  have sq: "mul y y = (if bit y 0 then 1 else 0) XOR (if bit y 1 then 4 else 0)
     XOR (if bit y 2 then 16 else 0) XOR (if bit y 3 then 64 else 0)
     XOR (if bit y 4 then 0x1b else 0) XOR (if bit y 5 then 0x6c else 0)
     XOR (if bit y 6 then 0xab else 0) XOR (if bit y 7 then 0x9a else 0)" (is "_ = ?r")
    by (subst (1 2) byte_sum [of y]) (simp only: mul_square_xor mul_square_guarded mul_basis_squares)
  have b: "bit y n = bit ?r n" for n using assms sq by simp
  note bits = b [unfolded bit_xor_iff bit_guarded]
  have "bit y 1 = (bit y 4 \<noteq> (bit y 6 \<noteq> bit y 7))" using bits [of 1] by simp
  moreover have "bit y 2 = (bit y 1 \<noteq> bit y 5)" using bits [of 2] by simp
  moreover have "bit y 3 = (bit y 4 \<noteq> (bit y 5 \<noteq> (bit y 6 \<noteq> bit y 7)))" using bits [of 3] by simp
  moreover have "bit y 4 = (bit y 2 \<noteq> (bit y 4 \<noteq> bit y 7))" using bits [of 4] by simp
  moreover have "bit y 5 = (bit y 5 \<noteq> bit y 6)" using bits [of 5] by simp
  moreover have "bit y 6 = (bit y 3 \<noteq> bit y 5)" using bits [of 6] by simp
  moreover have "bit y 0 = (bit y 0 \<noteq> (bit y 4 \<noteq> bit y 6))" using bits [of 0] by simp
  ultimately have "\<not> bit y 1 \<and> \<not> bit y 2 \<and> \<not> bit y 3 \<and> \<not> bit y 4 \<and> \<not> bit y 5 \<and> \<not> bit y 6 \<and> \<not> bit y 7"
    by argo
  then show ?thesis
    by (subst (1 2) byte_sum [of y]) simp
qed

lemma gf_idempotent: "(a :: gf256) * a = a \<Longrightarrow> a = 0 \<or> a = 1"
  by transfer (rule mul_idempotent)

lemma gf_255: "(a :: gf256) \<noteq> 0 \<Longrightarrow> a ^ 255 = 1"
proof -
  assume a: "a \<noteq> 0"
  have "a ^ 255 * a ^ 255 = a ^ 256 * a ^ 254" by (simp flip: power_add)
  also have "\<dots> = a ^ 255" by (simp only: gf_256) (simp flip: power_Suc)
  finally have "a ^ 255 * a ^ 255 = a ^ 255" .
  then have "a ^ 255 = 0 \<or> a ^ 255 = 1"
    by (rule gf_idempotent)
  moreover have "a ^ 255 \<noteq> 0"
  proof
    assume "a ^ 255 = 0"
    then have "a * a ^ 255 = 0" by simp
    moreover have "a * a ^ 255 = a ^ 256" by (simp flip: power_Suc)
    ultimately show False using a by (simp only: gf_256)
  qed
  ultimately show ?thesis by simp
qed

text \<open>The exponent the square-and-multiply loop accumulates.\<close>

fun inverse_exponent :: "nat list \<Rightarrow> nat \<Rightarrow> nat \<Rightarrow> nat" where
  "inverse_exponent [] m k = m"
| "inverse_exponent (e # es) m k =
     inverse_exponent es (if drop_bit e (254::nat) AND 1 = 1 then m + k else m) (k + k)"

lemma inverse_loop_exponent:
  "gf res = x ^ m \<Longrightarrow> gf pow = x ^ k \<Longrightarrow> gf (inverse_loop es res pow) = x ^ inverse_exponent es m k"
  by (induction es arbitrary: res pow m k) (simp_all add: gf_mul power_add)

lemma inverse_exponent_254: "inverse_exponent [0..<8] 0 1 = 254"
  by code_simp

lemma gf_inverse_pow: "gf (gf_inverse a) = gf a ^ 254"
  using inverse_loop_exponent [of 1 "gf a" 0 a 1 "[0..<8]"]
  by (simp add: gf_inverse_def gf_1 inverse_exponent_254 [unfolded One_nat_def])

instantiation gf256 :: field
begin

lift_definition inverse_gf256 :: "gf256 \<Rightarrow> gf256" is gf_inverse .
lift_definition divide_gf256 :: "gf256 \<Rightarrow> gf256 \<Rightarrow> gf256" is "\<lambda>a b. mul a (gf_inverse b)" .

instance
proof
  fix a b :: gf256
  show "inverse a * a = 1" if "a \<noteq> 0"
  proof (cases a)
    case (gf w)
    have "inverse a = gf (gf_inverse w)" by (simp add: gf inverse_gf256_def gf_inverse)
    then have "inverse a * a = a ^ 255" by (simp add: gf gf_inverse_pow flip: power_Suc2)
    with that show ?thesis by (simp add: gf_255)
  qed
  show "a div b = a * inverse b" by transfer simp
  show "inverse (0 :: gf256) = 0" by transfer code_simp
qed

end

section \<open>The code's operations as a byte arithmetic\<close>

lemma gf_eq [simp]: "gf a = gf b \<longleftrightarrow> a = b"
  by (simp add: gf_inject)

lemma gf_inv: "gf (gf_inverse a) = inverse (gf a)"
  by (simp add: inverse_gf256_def gf_inverse)

lemma gf_inverse_one [simp]: "gf_inverse 1 = 1"
  by code_simp

interpretation gf8: byte_field "(XOR)" mul gf_inverse "0 :: u8" 1 gf
  by unfold_locales (simp_all add: gf_xor gf_mul gf_inv gf_0 gf_1 flip: gf_minus)

lemma evaluate_horner: "gf (evaluate cs x) = horner (map gf cs) (gf x)"
  unfolding evaluate_def by (rule gf8.emb_evaluate)

section \<open>The reference: polynomials over GF(2)\<close>

text \<open>
  The textbook product: multiply the two bytes as polynomials over GF(2), without carries and
  without reduction, then subtract multiples of \<open>x^8 + x^4 + x^3 + x + 1\<close> from the top.
\<close>

definition carryless_product :: "u8 \<Rightarrow> u8 \<Rightarrow> 16 word" where
  "carryless_product a b = foldl (\<lambda>w i. w XOR (if bit b i then push_bit i (ucast a) else 0)) 0 [0..<8]"

definition reduce_step :: "16 word \<Rightarrow> nat \<Rightarrow> 16 word" where
  "reduce_step w i = w XOR (if bit w (i + 8) then push_bit i 0x11b else 0)"

definition reduce_poly :: "16 word \<Rightarrow> u8" where
  "reduce_poly w = ucast (foldl reduce_step w [6, 5, 4, 3, 2, 1, 0])"

lemma reduce_step_xor: "reduce_step (v XOR w) i = reduce_step v i XOR reduce_step w i"
  by (simp add: reduce_step_def bit_xor_iff xor.assoc xor.left_commute xor.commute)

lemma reduce_fold_xor: "foldl reduce_step (v XOR w) is = foldl reduce_step v is XOR foldl reduce_step w is"
  by (induction "is" arbitrary: v w) (simp_all add: reduce_step_xor)

lemma reduce_poly_xor: "reduce_poly (v XOR w) = reduce_poly v XOR reduce_poly w"
  unfolding reduce_poly_def reduce_fold_xor by (rule unsigned_xor_eq)

lemma foldl_xor:
  fixes f g h :: "nat \<Rightarrow> 16 word"
  assumes "\<And>i. h i = f i XOR g i"
  shows "foldl (\<lambda>w i. w XOR h i) (u XOR v) is
    = foldl (\<lambda>w i. w XOR f i) u is XOR foldl (\<lambda>w i. w XOR g i) v is"
proof (induction "is" arbitrary: u v)
  case (Cons a "is")
  have "(u XOR v) XOR h a = (u XOR f a) XOR (v XOR g a)"
    by (simp add: assms xor.assoc xor.left_commute)
  then show ?case using Cons [of "u XOR f a" "v XOR g a"] by simp
qed simp

lemma carryless_xor_right:
  "carryless_product a (b XOR c) = carryless_product a b XOR carryless_product a c"
  unfolding carryless_product_def
  by (subst foldl_xor [symmetric]) (auto simp: bit_xor_iff)

lemma carryless_xor_left:
  "carryless_product (a XOR b) c = carryless_product a c XOR carryless_product b c"
  unfolding carryless_product_def
  by (subst foldl_xor [symmetric]) (auto simp: push_bit_xor unsigned_xor_eq)

lemma reference_zero: "reduce_poly (carryless_product 0 b) = 0" "reduce_poly (carryless_product a 0) = 0"
proof -
  have z: "reduce_poly 0 = 0" by code_simp
  have "foldl (\<lambda>w i. w XOR (if bit b i then push_bit i (ucast (0 :: u8)) else 0)) (0 :: 16 word) is = 0" for "is"
    by (induction "is") simp_all
  then show "reduce_poly (carryless_product 0 b) = 0" using z by (simp add: carryless_product_def)
  have "foldl (\<lambda>w i. w XOR (if bit (0 :: u8) i then push_bit i (ucast a) else 0)) (0 :: 16 word) is = 0" for "is"
    by (induction "is") simp_all
  then show "reduce_poly (carryless_product a 0) = 0" using z by (simp add: carryless_product_def)
qed

lemma byte_induct8 [case_names zero basis xor]:
  assumes z: "P (0 :: u8)"
    and b: "\<And>i. i < 8 \<Longrightarrow> P (2 ^ i)"
    and x: "\<And>a b. P a \<Longrightarrow> P b \<Longrightarrow> P (a XOR b)"
  shows "P w"
proof -
  have p: "P (if q then 2 ^ i else 0)" if "i < 8" for q i
    using z b [OF that] by simp
  show ?thesis by (subst byte_sum [of w]) (intro x p; simp)
qed

text \<open>The powers of the indeterminate that a product of two bytes can reach, reduced.\<close>

lemma reduce_powers:
  "reduce_poly 1 = 1"
  "reduce_poly 2 = 2"
  "reduce_poly 4 = 4"
  "reduce_poly 8 = 8"
  "reduce_poly 16 = 16"
  "reduce_poly 32 = 32"
  "reduce_poly 64 = 64"
  "reduce_poly 128 = 128"
  "reduce_poly 256 = 27"
  "reduce_poly 512 = 54"
  "reduce_poly 1024 = 108"
  "reduce_poly 2048 = 216"
  "reduce_poly 4096 = 171"
  "reduce_poly 8192 = 77"
  "reduce_poly 16384 = 154"
  by (simp_all add: reduce_poly_def reduce_step_def)

lemma xtime_pow_Suc: "(xtime ^^ (n + 1)) 1 = xtime ((xtime ^^ n) 1)"
  by simp

lemma xtime_pow_high:
  "(xtime ^^ 8) 1 = 27"
  "(xtime ^^ 9) 1 = 54"
  "(xtime ^^ 10) 1 = 108"
  "(xtime ^^ 11) 1 = 216"
  "(xtime ^^ 12) 1 = 171"
  "(xtime ^^ 13) 1 = 77"
  "(xtime ^^ 14) 1 = 154"
  using xtime_pow_Suc [of 7] xtime_pow_Suc [of 8] xtime_pow_Suc [of 9] xtime_pow_Suc [of 10]
    xtime_pow_Suc [of 11] xtime_pow_Suc [of 12] xtime_pow_Suc [of 13]
  by (simp_all add: xtime_pow_one(8) xtime_def)

lemma below_15: "k < 15 \<Longrightarrow> k < 8 \<or> k = 8 \<or> k = 9 \<or> k = 10 \<or> k = 11 \<or> k = 12 \<or> k = 13 \<or> k = (14::nat)"
  by linarith

lemma below_8: "k < 8 \<Longrightarrow> k = 0 \<or> k = 1 \<or> k = 2 \<or> k = 3 \<or> k = 4 \<or> k = 5 \<or> k = 6 \<or> k = (7::nat)"
  by linarith

lemma byte_power_xtime: "k < 8 \<Longrightarrow> (xtime ^^ k) 1 = 2 ^ k"
  using xtime_pow_one by (elim below_8 [elim_format] disjE) (simp_all only:)

lemma reduce_power: "k < 15 \<Longrightarrow> reduce_poly (2 ^ k) = (xtime ^^ k) 1"
  by (elim below_15 [elim_format] below_8 [elim_format] disjE)
     (simp_all add: byte_power_xtime reduce_powers xtime_pow_high del: funpow.simps)

lemma ucast_power: "i < 8 \<Longrightarrow> ucast (2 ^ i :: u8) = (2 ^ i :: 16 word)"
  by (elim below_8 [elim_format] disjE) simp_all

lemma carryless_sum:
  "carryless_product a b = (if bit b 0 then push_bit 0 (ucast a) else 0) XOR (if bit b 1 then push_bit 1 (ucast a) else 0)
     XOR (if bit b 2 then push_bit 2 (ucast a) else 0) XOR (if bit b 3 then push_bit 3 (ucast a) else 0)
     XOR (if bit b 4 then push_bit 4 (ucast a) else 0) XOR (if bit b 5 then push_bit 5 (ucast a) else 0)
     XOR (if bit b 6 then push_bit 6 (ucast a) else 0) XOR (if bit b 7 then push_bit 7 (ucast a) else 0)"
proof -
  have u: "[0..<8] = [0, 1, 2, 3, 4, 5, 6, 7 :: nat]" by (simp add: upt_rec)
  show ?thesis
    unfolding carryless_product_def u by (simp only: foldl_Cons foldl_Nil xor.assoc xor.left_neutral)
qed

lemma carryless_power:
  assumes "i < 8" "j < 8"
  shows "carryless_product (2 ^ i) (2 ^ j) = 2 ^ (i + j)"
proof -
  have "carryless_product (2 ^ i) (2 ^ j) = push_bit j (ucast (2 ^ i :: u8))"
    unfolding carryless_sum using assms(2)
    by (elim below_8 [elim_format] disjE) (simp_all add: bit_byte_powers)
  then show ?thesis
    by (simp add: ucast_power [OF assms(1)] push_bit_eq_mult power_add)
qed

lemma mul_reference: "mul a b = reduce_poly (carryless_product a b)"
proof (induction a rule: byte_induct8)
  case (basis i)
  show ?case
  proof (induction b rule: byte_induct8)
    case (basis j)
    have "mul (2 ^ i) (2 ^ j) = (xtime ^^ i) ((xtime ^^ j) 1)"
      unfolding byte_power_xtime [OF \<open>i < 8\<close>, symmetric] byte_power_xtime [OF \<open>j < 8\<close>, symmetric]
      by (simp only: mul_xtime_pow_left mul_one_left)
    also have "\<dots> = (xtime ^^ (i + j)) 1" by (simp only: funpow_add comp_def)
    also have "\<dots> = reduce_poly (2 ^ (i + j))"
      using \<open>i < 8\<close> \<open>j < 8\<close> by (intro reduce_power [symmetric]) simp
    finally show ?case by (simp only: carryless_power [OF \<open>i < 8\<close> \<open>j < 8\<close>])
  qed (simp_all add: reference_zero mul_xor_right carryless_xor_right reduce_poly_xor)
qed (simp_all add: reference_zero mul_xor_left carryless_xor_left reduce_poly_xor)

text \<open>
  C40: the branch-free loop of \<open>mul\<close> computes, for all 65536 pairs of bytes, the product of the two
  polynomials over GF(2) reduced modulo \<open>0x11b\<close>, the AES field that the package documents.
\<close>

theorem mul_is_aes_field_product: "mul a b = reduce_poly (carryless_product a b)"
  by (rule mul_reference)

text \<open>
  exponentiation to 254 is inversion: the product of a non-zero byte and its \<open>inverse\<close> is 1,
  and the inverse of zero is zero.
\<close>

theorem inverse_is_inverse: "mul a (gf_inverse a) = (if a = 0 then 0 else 1)"
proof -
  have "gf (mul a (gf_inverse a)) = gf (if a = 0 then 0 else 1)"
    by (simp add: gf_mul gf_inv gf_0 gf_1 gf8.emb_eq_zero del: gf_eq)
  then show ?thesis by simp
qed

end
