(* ===== verification/Shamir.thy ===== *)
theory Shamir
  imports Prelude Codec GoStrings Hashes GF256
begin

text \<open>
  \<open>shamir/shamir.go\<close>: the share record, its text form with a checksum, \<open>Split\<close> and \<open>Combine\<close>.
  Randomness is an explicit list of bytes that \<open>rand.Read\<close> consumes, and a read that asks for
  more bytes than are left is the read error of the code. The arithmetic is that of \<open>GF256\<close>;
  the lemmas about it come through the interpretation of \<open>byte_field\<close>.
\<close>

section \<open>Shares and their text form\<close>

datatype shamir_error =
    EmptySecret | SecretTooLong nat | ThresholdBelowTwo | ThresholdExceedsTotal | TooManyShares
  | EntropyFailed | NotEnoughShares | ShareVersion | ShareSet | DuplicateIndex | ShareIndex
  | ShareLength | MalformedShare

definition share_version :: string where
  "share_version = ''ky2''"

definition set_id_bytes :: nat where
  "set_id_bytes = 16"

definition max_secret_bytes :: nat where
  "max_secret_bytes = 2 ^ 20"

record Share =
  Threshold :: int
  SetID :: bytes
  Index :: u8
  Value :: bytes

definition share_checksum :: "string \<Rightarrow> string" where
  "share_checksum body = hex_encode (take 2 (sha256 (bytes_of body)))"

definition share_body :: "Share \<Rightarrow> string" where
  "share_body s = share_version
     @ ''-'' @ itoa (Threshold s)
     @ ''-'' @ hex_encode (SetID s)
     @ ''-'' @ itoa (uint (Index s))
     @ ''-'' @ hex_encode (Value s)"

definition share_string :: "Share \<Rightarrow> string" where
  "share_string s = (let body = share_body s in body @ ''-'' @ share_checksum body)"

definition parse_share :: "string \<Rightarrow> shamir_error + Share" where
  "parse_share s =
     (let encoded = trim_space s; parts = split_on (CHR ''-'') encoded in
      if length parts \<noteq> 6 then Inl ShareVersion
      else if parts ! 0 \<noteq> share_version then Inl ShareVersion
      else
        let body = before_last (CHR ''-'') encoded in
        if parts ! 5 \<noteq> share_checksum body then Inl MalformedShare
        else case atoi (parts ! 1) of
          None \<Rightarrow> Inl MalformedShare
        | Some threshold \<Rightarrow>
            if threshold < 2 \<or> threshold > 255 then Inl MalformedShare
            else case hex_decode (parts ! 2) of
              None \<Rightarrow> Inl MalformedShare
            | Some id_bytes \<Rightarrow>
                if length id_bytes \<noteq> set_id_bytes then Inl MalformedShare
                else case atoi (parts ! 3) of
                  None \<Rightarrow> Inl MalformedShare
                | Some index \<Rightarrow>
                    if index < 1 \<or> index > 255 then Inl ShareIndex
                    else case hex_decode (parts ! 4) of
                      None \<Rightarrow> Inl MalformedShare
                    | Some value \<Rightarrow>
                        if value = [] then Inl ShareLength
                        else Inr \<lparr>Threshold = threshold, SetID = id_bytes,
                                  Index = word_of_int index, Value = value\<rparr>)"

section \<open>Splitting\<close>

text \<open>
  The rejection loop of \<open>Split\<close>: draw \<open>threshold - 1\<close> coefficients until the leading one is not
  zero. It consumes randomness on every turn, so on a finite supply it ends, with the read error
  if every draw was rejected. The threshold is at least two here.
\<close>

function draw_coefficients :: "nat \<Rightarrow> bytes \<Rightarrow> (bytes \<times> bytes) option" where
  "draw_coefficients n rnd =
     (if n = 0 \<or> length rnd < n then None
      else if last (take n rnd) \<noteq> 0 then Some (take n rnd, drop n rnd)
      else draw_coefficients n (drop n rnd))"
  by pat_completeness auto
termination by (relation "measure (\<lambda>(n, rnd). length rnd)") auto

declare draw_coefficients.simps [simp del]

text \<open>One byte of the secret: its polynomial is evaluated at every share's index.\<close>

definition set_column :: "bytes \<Rightarrow> nat \<Rightarrow> Share list \<Rightarrow> Share list" where
  "set_column coefficients byte_index shares =
     map (\<lambda>s. s\<lparr>Value := (Value s)[byte_index := evaluate coefficients (Index s)]\<rparr>) shares"

fun split_loop :: "nat \<Rightarrow> nat \<Rightarrow> bytes \<Rightarrow> bytes \<Rightarrow> Share list \<Rightarrow> shamir_error + Share list" where
  "split_loop threshold byte_index [] rnd shares = Inr shares"
| "split_loop threshold byte_index (secret_byte # secret) rnd shares =
     (case draw_coefficients (threshold - 1) rnd of
        None \<Rightarrow> Inl EntropyFailed
      | Some (tail, rnd') \<Rightarrow>
          split_loop threshold (Suc byte_index) secret rnd'
            (set_column (secret_byte # tail) byte_index shares))"

definition split :: "bytes \<Rightarrow> int \<Rightarrow> int \<Rightarrow> bytes \<Rightarrow> shamir_error + Share list" where
  "split secret threshold count rnd =
     (if secret = [] then Inl EmptySecret
      else if length secret > max_secret_bytes then Inl (SecretTooLong (length secret))
      else if threshold < 2 then Inl ThresholdBelowTwo
      else if threshold > count then Inl ThresholdExceedsTotal
      else if count > 255 then Inl TooManyShares
      else if length rnd < set_id_bytes then Inl EntropyFailed
      else
        let shares = map (\<lambda>i. \<lparr>Threshold = threshold, SetID = take set_id_bytes rnd,
                               Index = of_nat (i + 1), Value = replicate (length secret) 0\<rparr>)
                       [0..<nat count]
        in split_loop (nat threshold) 0 secret (drop set_id_bytes rnd) shares)"

section \<open>Combining\<close>

text \<open>The per-share checks, in the order of the code; \<open>seen\<close> holds the indices met so far.\<close>

fun check_shares :: "nat \<Rightarrow> u8 list \<Rightarrow> Share list \<Rightarrow> shamir_error option" where
  "check_shares width seen [] = None"
| "check_shares width seen (s # ss) =
     (if Index s = 0 then Some ShareIndex
      else if Index s \<in> set seen then Some DuplicateIndex
      else if length (Value s) \<noteq> width then Some ShareLength
      else check_shares width (Index s # seen) ss)"

text \<open>The inner loop over the other shares, which skips position \<open>i\<close>.\<close>

definition basis_loop :: "u8 list \<Rightarrow> nat \<Rightarrow> u8 \<times> u8" where
  "basis_loop xs i =
     foldl (\<lambda>(numerator, denominator) j.
              if i = j then (numerator, denominator)
              else (mul numerator (xs ! j), mul denominator (xs ! i XOR xs ! j)))
       (1, 1) [0..<length xs]"

definition basis_at :: "u8 list \<Rightarrow> nat \<Rightarrow> u8" where
  "basis_at xs i = (let (numerator, denominator) = basis_loop xs i in mul numerator (gf_inverse denominator))"

definition combine_byte :: "Share list \<Rightarrow> bytes \<Rightarrow> nat \<Rightarrow> u8" where
  "combine_byte shares basis b =
     foldl (\<lambda>acc p. acc XOR mul (fst p) (snd p)) 0 (zip (map (\<lambda>s. Value s ! b) shares) basis)"

definition combine :: "Share list \<Rightarrow> shamir_error + bytes" where
  "combine shares =
     (if length shares < 2 then Inl NotEnoughShares
      else
        let width = length (Value (shares ! 0)) in
        if width = 0 then Inl ShareLength
        else if width > max_secret_bytes then Inl ShareLength
        else case check_shares width [] shares of
          Some e \<Rightarrow> Inl e
        | None \<Rightarrow>
            let threshold = Threshold (shares ! 0); set_id = SetID (shares ! 0) in
            if \<not> list_all (\<lambda>s. Threshold s = threshold \<and> SetID s = set_id) shares then Inl ShareSet
            else if threshold < 2 \<or> threshold > 255 then Inl MalformedShare
            else if int (length shares) < threshold then Inl NotEnoughShares
            else
              let basis = map (basis_at (map Index shares)) [0..<length shares]
              in Inr (map (combine_byte shares basis) [0..<width]))"

section \<open>The text form\<close>

text \<open>The shares \<open>ParseShare\<close> can return.\<close>

definition share_wf :: "Share \<Rightarrow> bool" where
  "share_wf s \<longleftrightarrow> 2 \<le> Threshold s \<and> Threshold s \<le> 255 \<and> length (SetID s) = set_id_bytes
     \<and> Index s \<noteq> 0 \<and> Value s \<noteq> []"

definition share_parts :: "Share \<Rightarrow> string list" where
  "share_parts s = [share_version, itoa (Threshold s), hex_encode (SetID s), itoa (uint (Index s)),
     hex_encode (Value s)]"

lemma share_body_join: "share_body s = join_with (CHR ''-'') (share_parts s)"
  by (simp add: share_body_def share_parts_def)

lemma share_string_join:
  "share_string s = join_with (CHR ''-'') (share_parts s @ [share_checksum (share_body s)])"
  by (simp add: share_string_def Let_def share_body_def share_parts_def)

lemma hex_no_dash: "CHR ''-'' \<notin> set (hex_encode bs)"
  using hex_encode_lower [of bs] by (auto simp: list_all_iff is_lower_hex_def)

lemma itoa_no_dash: "0 \<le> i \<Longrightarrow> CHR ''-'' \<notin> set (itoa i)"
  using itoa_digits [of i] by (auto simp: list_all_iff is_digit_def)

lemma share_parts_no_dash: "share_wf s \<Longrightarrow> p \<in> set (share_parts s) \<Longrightarrow> CHR ''-'' \<notin> set p"
  by (auto simp: share_parts_def share_version_def hex_no_dash itoa_no_dash share_wf_def)

lemma checksum_no_dash [simp]: "CHR ''-'' \<notin> set (share_checksum b)"
  by (simp add: share_checksum_def hex_no_dash)

lemma checksum_not_Nil [simp]: "share_checksum b \<noteq> []"
proof -
  have "sha256 (bytes_of b) \<noteq> []" by (metis length_sha256 list.size(3) zero_neq_numeral)
  then show ?thesis by (simp add: share_checksum_def)
qed

lemma ascii_itoa: "0 \<le> i \<Longrightarrow> list_all is_ascii (itoa i)"
  using itoa_digits [of i] by (auto simp: list_all_iff digit_plain)

lemma share_string_ascii: "share_wf s \<Longrightarrow> list_all is_ascii (share_string s)"
  by (simp add: share_string_def share_body_def share_checksum_def share_wf_def share_version_def Let_def
      ascii_hex ascii_itoa, simp add: is_ascii_def)

lemma last_checksum: "\<not> is_space (of_char (last (share_checksum b)))"
  using hex_encode_lower [of "take 2 (sha256 (bytes_of b))"] last_in_set [OF checksum_not_Nil [of b]]
  by (auto simp: share_checksum_def list_all_iff lower_hex_plain)

lemma trim_share_string: "share_wf s \<Longrightarrow> trim_space (share_string s) = share_string s"
  by (rule trim_space_id, erule share_string_ascii)
     (simp_all add: share_string_def Let_def last_checksum, simp_all add: share_body_def share_version_def is_space_def)

lemma parts_share_string:
  "share_wf s \<Longrightarrow>
   split_on (CHR ''-'') (share_string s) = share_parts s @ [share_checksum (share_body s)]"
  unfolding share_string_join by (rule split_join) (auto dest: share_parts_no_dash)

lemma body_share_string: "before_last (CHR ''-'') (share_string s) = share_body s"
  by (simp add: share_string_def Let_def before_last_append)

section \<open>Drawing coefficients\<close>

lemma draw_coefficients_Some:
  "draw_coefficients n rnd = Some (tail, rnd') \<Longrightarrow> length tail = n \<and> tail \<noteq> [] \<and> last tail \<noteq> 0"
proof (induction n rnd rule: draw_coefficients.induct)
  case (1 n rnd)
  show ?case
    using "1.prems" "1.IH" by (auto simp: draw_coefficients.simps [of n rnd] split: if_splits)
qed

lemma draw_coefficients_step:
  "length tail = n \<Longrightarrow> tail \<noteq> [] \<Longrightarrow> last tail \<noteq> 0 \<Longrightarrow> draw_coefficients n (tail @ rnd) = Some (tail, rnd)"
  by (subst draw_coefficients.simps) auto

lemma draw_coefficients_reject:
  "length junk = n \<Longrightarrow> junk \<noteq> [] \<Longrightarrow> last junk = 0 \<Longrightarrow> draw_coefficients n (junk @ rnd) = draw_coefficients n rnd"
  by (subst draw_coefficients.simps) auto

text \<open>Every polynomial the loop used, and the values it left in the shares.\<close>

definition with_values :: "nat \<Rightarrow> bytes list \<Rightarrow> Share \<Rightarrow> Share" where
  "with_values i css s = s\<lparr>Value := take i (Value s) @ map (\<lambda>cs. evaluate cs (Index s)) css\<rparr>"

lemma with_values_column:
  "\<forall>s \<in> set shares. i < length (Value s) \<Longrightarrow>
   map (with_values (Suc i) css) (set_column cs i shares) = map (with_values i (cs # css)) shares"
  unfolding set_column_def map_map
  by (intro map_cong refl) (simp add: with_values_def take_Suc_conv_app_nth)

lemma split_loop_values:
  assumes "split_loop t i secret rnd shares = Inr shares'" "2 \<le> t"
    and "\<forall>s \<in> set shares. length (Value s) = i + length secret"
  shows "\<exists>css. length css = length secret
     \<and> (\<forall>k < length secret. length (css ! k) = t \<and> hd (css ! k) = secret ! k \<and> last (css ! k) \<noteq> 0)
     \<and> shares' = map (with_values i css) shares"
  using assms
proof (induction t i secret rnd shares rule: split_loop.induct)
  case (1 t i rnd shares)
  then have "shares' = map (with_values i []) shares"
    by (auto simp: with_values_def intro!: map_idI [symmetric])
  then show ?case by (intro exI [of _ "[]"]) simp
next
  case (2 t i b secret rnd shares)
  obtain tail rnd' where d: "draw_coefficients (t - 1) rnd = Some (tail, rnd')"
    and l: "split_loop t (Suc i) secret rnd' (set_column (b # tail) i shares) = Inr shares'"
    using "2.prems"(1) by (auto split: option.splits)
  have tail: "length tail = t - 1" "tail \<noteq> []" "last tail \<noteq> 0"
    using draw_coefficients_Some [OF d] by auto
  have "\<forall>s \<in> set (set_column (b # tail) i shares). length (Value s) = Suc i + length secret"
    using "2.prems"(3) by (auto simp: set_column_def)
  with "2.IH" [OF d refl l] "2.prems"(2) obtain css where css: "length css = length secret"
    "\<forall>k < length secret. length (css ! k) = t \<and> hd (css ! k) = secret ! k \<and> last (css ! k) \<noteq> 0"
    "shares' = map (with_values (Suc i) css) (set_column (b # tail) i shares)"
    by blast
  have "shares' = map (with_values i ((b # tail) # css)) shares"
    unfolding css(3) using "2.prems"(3) by (intro with_values_column) auto
  moreover have "\<forall>k < Suc (length secret). length (((b # tail) # css) ! k) = t
      \<and> hd (((b # tail) # css) ! k) = (b # secret) ! k \<and> last (((b # tail) # css) ! k) \<noteq> 0"
    using css(2) tail "2.prems"(2) by (auto simp: nth_Cons split: nat.splits)
  ultimately show ?case
    using css(1) by (intro exI [of _ "(b # tail) # css"]) simp
qed

text \<open>What \<open>Split\<close> returns: one polynomial per byte, evaluated at the indices \<open>1, 2, ...\<close>.\<close>

definition share_at :: "int \<Rightarrow> bytes \<Rightarrow> bytes list \<Rightarrow> nat \<Rightarrow> Share" where
  "share_at threshold set_id css i =
     \<lparr>Threshold = threshold, SetID = set_id, Index = of_nat (i + 1),
      Value = map (\<lambda>cs. evaluate cs (of_nat (i + 1))) css\<rparr>"

definition split_ready :: "bytes \<Rightarrow> int \<Rightarrow> int \<Rightarrow> bool" where
  "split_ready secret threshold count \<longleftrightarrow> secret \<noteq> [] \<and> length secret \<le> max_secret_bytes
     \<and> 2 \<le> threshold \<and> threshold \<le> count \<and> count \<le> 255"

lemma split_ready_of: "split secret threshold count rnd = Inr shares \<Longrightarrow>
    split_ready secret threshold count \<and> set_id_bytes \<le> length rnd"
  by (auto simp: split_def split_ready_def split: if_splits)

lemma split_values:
  assumes "split secret threshold count rnd = Inr shares"
  obtains css where "length css = length secret"
    "\<forall>k < length secret. length (css ! k) = nat threshold \<and> hd (css ! k) = secret ! k \<and> last (css ! k) \<noteq> 0"
    "shares = map (share_at threshold (take set_id_bytes rnd) css) [0..<nat count]"
proof -
  define init where "init = map (\<lambda>i. \<lparr>Threshold = threshold, SetID = take set_id_bytes rnd,
     Index = of_nat (i + 1) :: u8, Value = replicate (length secret) 0\<rparr>) [0..<nat count]"
  have r: "split_ready secret threshold count" using split_ready_of [OF assms] by simp
  have l: "split_loop (nat threshold) 0 secret (drop set_id_bytes rnd) init = Inr shares"
    using assms by (auto simp: split_def init_def Let_def split: if_splits)
  have "\<forall>s \<in> set init. length (Value s) = 0 + length secret" by (auto simp: init_def)
  then have "\<exists>css. length css = length secret
     \<and> (\<forall>k < length secret. length (css ! k) = nat threshold \<and> hd (css ! k) = secret ! k \<and> last (css ! k) \<noteq> 0)
     \<and> shares = map (with_values 0 css) init"
    using r by (intro split_loop_values [OF l]) (auto simp: split_ready_def)
  then obtain css where "length css = length secret"
    "\<forall>k < length secret. length (css ! k) = nat threshold \<and> hd (css ! k) = secret ! k \<and> last (css ! k) \<noteq> 0"
    "shares = map (with_values 0 css) init"
    by blast
  then show thesis
    by (intro that [of css]) (auto simp: init_def share_at_def with_values_def)
qed

lemma unat_index: "i < 255 \<Longrightarrow> unat (of_nat (i + 1) :: u8) = i + 1"
  by (simp add: unat_of_nat take_bit_eq_mod del: of_nat_Suc of_nat_add)

lemma of_nat_index_inj:
  assumes "i < 255" "j < 255" "(of_nat (i + 1) :: u8) = of_nat (j + 1)"
  shows "i = j"
  using arg_cong [OF assms(3), of unat] assms(1,2) by (simp only: unat_index)

lemma of_nat_index_nonzero: "i < 255 \<Longrightarrow> (of_nat (i + 1) :: u8) \<noteq> 0"
  by (metis unat_index unat_0 add_is_0 zero_neq_one)

section \<open>Combining: the checks\<close>

lemma check_shares_None:
  "check_shares width seen ss = None \<longleftrightarrow>
     distinct (map Index ss) \<and> set (map Index ss) \<inter> insert 0 (set seen) = {}
     \<and> list_all (\<lambda>s. length (Value s) = width) ss"
  by (induction width seen ss rule: check_shares.induct) auto

definition combinable :: "Share list \<Rightarrow> bool" where
  "combinable shares \<longleftrightarrow> 2 \<le> length shares
     \<and> distinct (map Index shares)
     \<and> (\<forall>s \<in> set shares. Index s \<noteq> 0 \<and> length (Value s) = length (Value (hd shares))
          \<and> Threshold s = Threshold (hd shares) \<and> SetID s = SetID (hd shares))
     \<and> 0 < length (Value (hd shares)) \<and> length (Value (hd shares)) \<le> max_secret_bytes
     \<and> 2 \<le> Threshold (hd shares) \<and> Threshold (hd shares) \<le> 255
     \<and> Threshold (hd shares) \<le> int (length shares)"

definition interpolated :: "Share list \<Rightarrow> bytes" where
  "interpolated shares =
     map (combine_byte shares (map (basis_at (map Index shares)) [0..<length shares]))
       [0..<length (Value (hd shares))]"

lemma combine_eq_ok: "combine shares = Inr secret \<longleftrightarrow> combinable shares \<and> secret = interpolated shares"
proof (cases "length shares < 2")
  case False
  then have "shares \<noteq> []" by auto
  with False have ne: "shares ! 0 = hd shares" "2 \<le> length shares" by (simp_all add: hd_conv_nth)
  have chk: "check_shares (length (Value (hd shares))) [] shares = None \<longleftrightarrow>
      distinct (map Index shares) \<and> (\<forall>s \<in> set shares. Index s \<noteq> 0 \<and> length (Value s) = length (Value (hd shares)))"
    by (auto simp: check_shares_None list_all_iff)
  show ?thesis
  proof (cases "check_shares (length (Value (hd shares))) [] shares")
    case None
    with chk have "distinct (map Index shares) \<and> (\<forall>s \<in> set shares. Index s \<noteq> 0 \<and> length (Value s) = length (Value (hd shares)))"
      by simp
    with None ne False show ?thesis
      unfolding combine_def combinable_def interpolated_def Let_def list_all_iff by auto
  next
    case (Some e)
    with chk have "\<not> combinable shares" by (auto simp: combinable_def)
    with Some ne False show ?thesis by (simp add: combine_def Let_def)
  qed
qed (simp add: combine_def combinable_def)

section \<open>Combining: the interpolation\<close>

lemma basis_loop_points:
  assumes "distinct xs" "i < length xs"
  shows "basis_loop xs i =
    foldl (\<lambda>(n, d) y. if y = xs ! i then (n, d) else (mul n y, mul d (xs ! i XOR y))) (1, 1) xs"
proof -
  have "foldl (\<lambda>(n, d) y. if y = xs ! i then (n, d) else (mul n y, mul d (xs ! i XOR y))) (1, 1) (map ((!) xs) [0..<length xs])
      = basis_loop xs i"
    unfolding basis_loop_def foldl_map
    using assms by (intro foldl_cong refl) (auto simp: nth_eq_iff_index_eq)
  then show ?thesis by (simp add: map_nth)
qed

lemma gf_basis:
  assumes "distinct xs" "i < length xs"
  shows "gf (basis_at xs i) = lagrange_basis (map gf xs) (gf (xs ! i)) 0"
proof -
  obtain n d where nd: "basis_loop xs i = (n, d)" by fastforce
  show ?thesis
    using gf8.emb_basis [of "xs ! i" xs n d] nd basis_loop_points [OF assms]
    by (simp add: basis_at_def)
qed

definition points :: "nat \<Rightarrow> Share list \<Rightarrow> (gf256 \<times> gf256) list" where
  "points b shares = map (\<lambda>s. (gf (Index s), gf (Value s ! b))) shares"

lemma gf_combine_byte:
  assumes "distinct (map Index shares)"
  shows "gf (combine_byte shares (map (basis_at (map Index shares)) [0..<length shares]) b)
     = lagrange (points b shares) 0"
proof -
  have z: "zip (map (\<lambda>s. Value s ! b) shares) (map (basis_at (map Index shares)) [0..<length shares])
      = map (\<lambda>i. (Value (shares ! i) ! b, basis_at (map Index shares) i)) [0..<length shares]"
    by (rule nth_equalityI) simp_all
  have p: "map fst (points b shares) = map gf (map Index shares)" by (simp add: points_def)
  have "gf (combine_byte shares (map (basis_at (map Index shares)) [0..<length shares]) b)
      = sum_list (map (\<lambda>i. gf (Value (shares ! i) ! b) * gf (basis_at (map Index shares) i)) [0..<length shares])"
    unfolding combine_byte_def gf8.emb_dot z by (simp add: gf_0 comp_def)
  also have "\<dots> = sum_list (map (\<lambda>i. gf (Value (shares ! i) ! b)
       * lagrange_basis (map fst (points b shares)) (gf (Index (shares ! i))) 0) [0..<length shares])"
    using assms unfolding p
    by (intro arg_cong [where f = sum_list] map_cong refl) (simp add: gf_basis [OF assms])
  also have "\<dots> = lagrange (points b shares) 0"
    unfolding lagrange_def
    by (rule arg_cong [where f = sum_list], rule nth_equalityI) (simp_all add: points_def)
  finally show ?thesis .
qed

lemma distinct_points: "distinct (map Index shares) \<Longrightarrow> distinct (map fst (points b shares))"
  by (simp add: points_def comp_def distinct_map inj_on_def)

text \<open>Shares that lie on one polynomial per byte, of few enough coefficients, give its constant terms.\<close>

lemma interpolated_constant:
  assumes "distinct (map Index shares)" "length cs \<le> length shares" "cs \<noteq> []"
    and "\<forall>s \<in> set shares. Value s ! b = evaluate cs (Index s)"
  shows "combine_byte shares (map (basis_at (map Index shares)) [0..<length shares]) b = hd cs"
proof -
  have "lagrange (points b shares) 0 = horner (map gf cs) 0"
    using assms by (intro lagrange_reconstruct distinct_points) (auto simp: points_def evaluate_horner)
  also have "\<dots> = gf (hd cs)" using assms(3) by (simp add: hd_map)
  finally show ?thesis using gf_combine_byte [OF assms(1), of b] by simp
qed

section \<open>Splitting and combining\<close>

lemma share_at_sel [simp]:
  "Threshold (share_at t sid css i) = t" "SetID (share_at t sid css i) = sid"
  "Index (share_at t sid css i) = of_nat (i + 1)"
  "Value (share_at t sid css i) = map (\<lambda>cs. evaluate cs (of_nat (i + 1))) css"
  by (simp_all add: share_at_def)

lemma Index_share_at_inj:
  "i < 255 \<Longrightarrow> j < 255 \<Longrightarrow> Index (share_at t sid css i) = Index (share_at t sid css j) \<longleftrightarrow> i = j"
  using of_nat_index_inj [of i j] by (auto simp del: of_nat_add)

lemma distinct_indices:
  assumes "set sub \<subseteq> set (map (share_at t sid css) [0..<n])" "n \<le> 255" "distinct sub"
  shows "distinct (map Index sub)"
proof -
  have "a = b" if ab: "a \<in> set sub" "b \<in> set sub" "Index a = Index b" for a b
  proof -
    have "a \<in> share_at t sid css ` {0..<n}" "b \<in> share_at t sid css ` {0..<n}"
      using assms(1) ab(1,2) by auto
    then obtain i j where "i < n" "j < n" and ij: "a = share_at t sid css i" "b = share_at t sid css j"
      by (auto simp del: share_at_sel)
    then show ?thesis using ab(3) assms(2) Index_share_at_inj [of i j] by simp
  qed
  then show ?thesis using assms(3) by (simp add: distinct_map inj_on_def)
qed

lemma split_distinct: "split secret threshold count rnd = Inr shares \<Longrightarrow> distinct shares"
proof -
  assume sp: "split secret threshold count rnd = Inr shares"
  then obtain css where sh: "shares = map (share_at threshold (take set_id_bytes rnd) css) [0..<nat count]"
    by (rule split_values)
  have "nat count \<le> 255" using split_ready_of [OF sp] by (simp add: split_ready_def nat_le_iff)
  then have "inj_on (share_at threshold (take set_id_bytes rnd) css) {0..<nat count}"
    using Index_share_at_inj by (intro inj_onI) (metis atLeastLessThan_iff less_le_trans)
  then show ?thesis by (simp add: sh distinct_map)
qed

text \<open>Every selection of distinct shares of one split passes all checks but the last.\<close>

lemma selection_shape:
  assumes "split secret threshold count rnd = Inr shares" "set sub \<subseteq> set shares" "distinct sub"
  obtains css where "length css = length secret"
    "\<forall>k < length secret. length (css ! k) = nat threshold \<and> hd (css ! k) = secret ! k \<and> last (css ! k) \<noteq> 0"
    "distinct (map Index sub)"
    "\<forall>s \<in> set sub. Index s \<noteq> 0 \<and> Threshold s = threshold \<and> SetID s = take set_id_bytes rnd
       \<and> Value s = map (\<lambda>cs. evaluate cs (Index s)) css"
proof -
  obtain css where css: "length css = length secret"
    "\<forall>k < length secret. length (css ! k) = nat threshold \<and> hd (css ! k) = secret ! k \<and> last (css ! k) \<noteq> 0"
    and sh: "shares = map (share_at threshold (take set_id_bytes rnd) css) [0..<nat count]"
    using assms(1) by (rule split_values)
  have n: "nat count \<le> 255" using split_ready_of [OF assms(1)] by (simp add: split_ready_def nat_le_iff)
  have sub: "set sub \<subseteq> set (map (share_at threshold (take set_id_bytes rnd) css) [0..<nat count])"
    using assms(2) by (simp add: sh)
  have nz: "Index (share_at threshold (take set_id_bytes rnd) css i) \<noteq> 0" if "i < nat count" for i
    using of_nat_index_nonzero [of i] that n by (simp del: of_nat_add)
  show thesis
    using css distinct_indices [OF sub n assms(3)] sub nz by (intro that [of css]) (auto simp del: of_nat_add)
qed

lemma selection_combinable:
  assumes "split secret threshold count rnd = Inr shares" "set sub \<subseteq> set shares" "distinct sub"
    "threshold \<le> int (length sub)"
  shows "combinable sub"
proof -
  have r: "split_ready secret threshold count" using split_ready_of [OF assms(1)] by simp
  then have ne: "2 \<le> length sub" using assms(4) by (simp add: split_ready_def)
  then have h: "hd sub \<in> set sub" by (intro hd_in_set) auto
  obtain css where css: "length css = length secret" "distinct (map Index sub)"
    "\<forall>s \<in> set sub. Index s \<noteq> 0 \<and> Threshold s = threshold \<and> SetID s = take set_id_bytes rnd
       \<and> Value s = map (\<lambda>cs. evaluate cs (Index s)) css"
    using assms(1-3) by (rule selection_shape)
  then have "Value (hd sub) = map (\<lambda>cs. evaluate cs (Index (hd sub))) css" "Threshold (hd sub) = threshold"
    "SetID (hd sub) = take set_id_bytes rnd" using h by auto
  with css r ne assms(4) show ?thesis by (simp add: combinable_def split_ready_def)
qed

text \<open>A concrete split, for the instances: one byte, two of three, the slope 5.\<close>

definition example_shares :: "Share list" where
  "example_shares =
     [\<lparr>Threshold = 2, SetID = replicate 16 7, Index = 1, Value = [0x2f]\<rparr>,
      \<lparr>Threshold = 2, SetID = replicate 16 7, Index = 2, Value = [0x20]\<rparr>,
      \<lparr>Threshold = 2, SetID = replicate 16 7, Index = 3, Value = [0x25]\<rparr>]"

lemma example_values:
  "evaluate [0x2a, 5] 1 = 0x2f" "evaluate [0x2a, 5] 2 = 0x20" "evaluate [0x2a, 5] 3 = 0x25"
  by code_simp+

lemma split_example: "split [0x2a] 2 3 (replicate 16 7 @ [5]) = Inr example_shares"
proof -
  have d: "draw_coefficients (Suc 0) [5] = Some ([5], [])"
    using draw_coefficients_step [of "[5]" "Suc 0" "[]"] by simp
  have u: "[0..<3] = [0, 1, 2]" by (simp add: upt_rec)
  show ?thesis
    by (simp add: split_def max_secret_bytes_def set_id_bytes_def u d set_column_def example_shares_def
        example_values)
qed

lemma combine_of_split:
  assumes "split secret threshold count rnd = Inr shares"
    and "set sub \<subseteq> set shares" "distinct sub" "threshold \<le> int (length sub)"
  shows "combine sub = Inr secret"
proof -
  obtain css where css: "length css = length secret"
    "\<forall>k < length secret. length (css ! k) = nat threshold \<and> hd (css ! k) = secret ! k \<and> last (css ! k) \<noteq> 0"
    "distinct (map Index sub)"
    "\<forall>s \<in> set sub. Index s \<noteq> 0 \<and> Threshold s = threshold \<and> SetID s = take set_id_bytes rnd
       \<and> Value s = map (\<lambda>cs. evaluate cs (Index s)) css"
    using assms(1-3) by (rule selection_shape)
  have r: "split_ready secret threshold count" using split_ready_of [OF assms(1)] by simp
  then have t: "2 \<le> threshold" by (simp add: split_ready_def)
  then have "sub \<noteq> []" using assms(4) by auto
  then have w: "length (Value (hd sub)) = length secret" using css by simp
  have "interpolated sub = secret"
  proof (rule nth_equalityI)
    fix b
    assume "b < length (interpolated sub)"
    then have b: "b < length secret" by (simp add: interpolated_def w)
    then have "length (css ! b) = nat threshold" "hd (css ! b) = secret ! b" "css ! b \<noteq> []"
      using css t by force+
    then show "interpolated sub ! b = secret ! b"
      using interpolated_constant [of sub "css ! b" b] css b t assms(4) by (auto simp: interpolated_def w)
  qed (simp add: interpolated_def w)
  with selection_combinable [OF assms] show ?thesis by (simp add: combine_eq_ok)
qed

text \<open>
  C1: any selection of at least \<open>threshold\<close> distinct shares of one split, in any order and with
  any further shares of it, combines to the secret that was split.
\<close>

theorem combine_split:
  assumes "split secret threshold count rnd = Inr shares"
    and "set sub \<subseteq> set shares" "distinct sub" "threshold \<le> int (length sub)"
  shows "combine sub = Inr secret"
  using combine_of_split [OF assms] .

lemma combine_split_witness:
  "combine [\<lparr>Threshold = 2, SetID = replicate 16 7, Index = 3, Value = [0x25]\<rparr>,
            \<lparr>Threshold = 2, SetID = replicate 16 7, Index = 1, Value = [0x2f]\<rparr>] = Inr [0x2a]"
  by (rule combine_split [of "[0x2a]" 2 3 "replicate 16 7 @ [5]"
        example_shares])
     (simp_all add: split_example example_shares_def)

text \<open>
  fewer distinct shares of a split than its threshold are refused with
  \<open>ErrNotEnoughShares\<close>; no wrong secret is returned.
\<close>

theorem combine_too_few:
  assumes "split secret threshold count rnd = Inr shares"
    and "set sub \<subseteq> set shares" "distinct sub" "int (length sub) < threshold"
  shows "combine sub = Inl NotEnoughShares"
proof (cases "length sub < 2")
  case False
  obtain css where css: "length css = length secret" "distinct (map Index sub)"
    "\<forall>s \<in> set sub. Index s \<noteq> 0 \<and> Threshold s = threshold \<and> SetID s = take set_id_bytes rnd
       \<and> Value s = map (\<lambda>cs. evaluate cs (Index s)) css"
    using assms(1-3) by (rule selection_shape)
  have "sub ! 0 \<in> set sub" using False by (intro nth_mem) auto
  then have h: "Threshold (sub ! 0) = threshold" "SetID (sub ! 0) = take set_id_bytes rnd"
    "length (Value (sub ! 0)) = length secret" using css by auto
  have "check_shares (length secret) [] sub = None"
    using css by (auto simp: check_shares_None list_all_iff)
  with h False css assms(4) split_ready_of [OF assms(1)] show ?thesis
    by (auto simp: combine_def Let_def split_ready_def list_all_iff)
qed (simp add: combine_def)

lemma combine_too_few_witness:
  "combine [\<lparr>Threshold = 2, SetID = replicate 16 7, Index = 3, Value = [0x25]\<rparr>] = Inl NotEnoughShares"
  by (rule combine_too_few [of "[0x2a]" 2 3 "replicate 16 7 @ [5]"
        example_shares])
     (simp_all add: split_example example_shares_def)

text \<open>
  \<open>Combine\<close> returns a secret exactly for lists of at least two shares with distinct non-zero
  indices, one length between one byte and the limit, one set and one threshold between 2 and
  255 that the number of shares reaches; the secret then has the length of the shares.
\<close>

theorem combine_accepts:
  "(\<exists>secret. combine shares = Inr secret \<and> length secret = length (Value (hd shares))) \<longleftrightarrow> combinable shares"
  by (simp add: combine_eq_ok interpolated_def)

text \<open>
  shares that pass the per-share checks but carry two different set identifiers or
  thresholds are refused with \<open>ErrShareSet\<close>, however many there are.
\<close>

theorem combine_mixed_sets:
  assumes "a \<in> set shares" "b \<in> set shares" "SetID a \<noteq> SetID b \<or> Threshold a \<noteq> Threshold b"
    and "distinct (map Index shares)" "0 < width" "width \<le> max_secret_bytes"
    and "list_all (\<lambda>s. Index s \<noteq> 0 \<and> length (Value s) = width) shares"
  shows "combine shares = Inl ShareSet"
proof -
  have ne: "shares \<noteq> []" "\<not> length shares < 2"
    using assms(1-3) by (auto simp: numeral_2_eq_2 less_Suc_eq length_Suc_conv)
  then have "shares ! 0 \<in> set shares" by (intro nth_mem) simp
  then have w: "length (Value (shares ! 0)) = width" using assms(7) by (simp add: list_all_iff)
  have "check_shares width [] shares = None"
    using assms(4,7) by (auto simp: check_shares_None list_all_iff)
  moreover have "\<not> list_all (\<lambda>s. Threshold s = Threshold (shares ! 0) \<and> SetID s = SetID (shares ! 0)) shares"
    using assms(1-3) by (metis (mono_tags, lifting) list_all_iff)
  ultimately show ?thesis using ne w assms(5,6) by (simp add: combine_def Let_def)
qed

lemma combine_mixed_sets_witness:
  "combine [\<lparr>Threshold = 2, SetID = replicate 16 7, Index = 1, Value = [1]\<rparr>,
            \<lparr>Threshold = 2, SetID = replicate 16 8, Index = 2, Value = [2]\<rparr>] = Inl ShareSet"
  by (rule combine_mixed_sets [of "\<lparr>Threshold = 2, SetID = replicate 16 7, Index = 1, Value = [1]\<rparr>" _
        "\<lparr>Threshold = 2, SetID = replicate 16 8, Index = 2, Value = [2]\<rparr>" 1])
     (simp_all add: max_secret_bytes_def)

section \<open>What the randomness can produce\<close>

text \<open>Splitting with a chosen polynomial per byte: the draws that produce it.\<close>

lemma split_loop_chosen:
  assumes "length css = length secret" "2 \<le> t" "\<forall>s \<in> set shares. length (Value s) = i + length secret"
    and "\<forall>k < length secret. length (css ! k) = t \<and> hd (css ! k) = secret ! k \<and> last (css ! k) \<noteq> 0"
  shows "split_loop t i secret (concat (map tl css)) shares = Inr (map (with_values i css) shares)"
  using assms
proof (induction secret arbitrary: i css shares)
  case Nil
  then show ?case by (auto simp: with_values_def intro!: map_idI [symmetric])
next
  case (Cons b secret)
  then obtain cs css' where c: "css = cs # css'" by (cases css) auto
  have cs: "length cs = t" "hd cs = b" "last cs \<noteq> 0" using Cons.prems(4) by (auto simp: c)
  then have ne: "tl cs \<noteq> []" "cs = b # tl cs" using Cons.prems(2) by (cases cs; auto)+
  then have d: "draw_coefficients (t - 1) (tl cs @ concat (map tl css')) = Some (tl cs, concat (map tl css'))"
    using cs by (intro draw_coefficients_step) (auto simp: last_tl)
  have "split_loop t i (b # secret) (concat (map tl css)) shares
      = split_loop t (Suc i) secret (concat (map tl css')) (set_column cs i shares)"
    using d ne(2) [symmetric] by (simp add: c)
  also have "\<dots> = Inr (map (with_values (Suc i) css') (set_column cs i shares))"
    using Cons.prems by (intro Cons.IH) (auto simp: c set_column_def)
  also have "map (with_values (Suc i) css') (set_column cs i shares) = map (with_values i css) shares"
    unfolding c using Cons.prems(3) by (intro with_values_column) auto
  finally show ?case .
qed

lemma split_chosen:
  assumes r: "split_ready secret threshold count" and sid: "length sid = set_id_bytes"
    and css: "length css = length secret"
      "\<forall>k < length secret. length (css ! k) = nat threshold \<and> hd (css ! k) = secret ! k \<and> last (css ! k) \<noteq> 0"
  shows "split secret threshold count (sid @ concat (map tl css))
           = Inr (map (share_at threshold sid css) [0..<nat count])"
proof -
  have t: "2 \<le> nat threshold" using r by (auto simp: split_ready_def le_nat_iff)
  define init where "init = map (\<lambda>i. \<lparr>Threshold = threshold, SetID = sid,
     Index = of_nat (i + 1) :: u8, Value = replicate (length secret) 0\<rparr>) [0..<nat count]"
  have "split secret threshold count (sid @ concat (map tl css))
      = split_loop (nat threshold) 0 secret (concat (map tl css)) init"
    using r sid by (auto simp: split_def split_ready_def Let_def init_def)
  also have "\<dots> = Inr (map (with_values 0 css) init)"
    using css t by (intro split_loop_chosen) (auto simp: init_def)
  also have "map (with_values 0 css) init = map (share_at threshold sid css) [0..<nat count]"
    by (simp add: init_def with_values_def share_at_def)
  finally show ?thesis .
qed

section \<open>What fewer shares than the threshold say\<close>

text \<open>The byte the formula of \<open>Combine\<close> gives at position \<open>b\<close> when it is applied to too few shares.\<close>

definition excluded_byte :: "Share list \<Rightarrow> nat \<Rightarrow> u8" where
  "excluded_byte held b = combine_byte held (map (basis_at (map Index held)) [0..<length held]) b"

lemma map_gf_surj: "\<exists>bs. cs = map gf bs"
  by (rule exI [of _ "map byte_of cs"]) (simp add: comp_def byte_of_inverse)

lemma points_agree:
  "(\<forall>p \<in> set (points b held). horner (map gf cs) (fst p) = snd p)
     \<longleftrightarrow> (\<forall>h \<in> set held. evaluate cs (Index h) = Value h ! b)"
  by (auto simp: points_def simp flip: evaluate_horner)

lemma gf_last: "cs \<noteq> [] \<Longrightarrow> last (map gf cs) \<noteq> 0 \<longleftrightarrow> last cs \<noteq> 0"
  by (simp add: last_map gf8.emb_eq_zero)

lemma coefficients_exist_iff:
  assumes "distinct (map Index held)" "0 \<notin> set (map Index held)" "Suc (length held) = t"
  shows "(\<exists>cs. length cs = t \<and> hd cs = x \<and> last cs \<noteq> 0 \<and> (\<forall>h \<in> set held. evaluate cs (Index h) = Value h ! b))
     \<longleftrightarrow> x \<noteq> excluded_byte held b"
proof -
  have z: "0 \<notin> set (map fst (points b held))"
  proof
    assume "0 \<in> set (map fst (points b held))"
    then obtain h where "h \<in> set held" "gf (Index h) = 0" by (auto simp: points_def)
    then show False using assms(2) by (auto simp: gf8.emb_eq_zero)
  qed
  have l: "length (points b held) = length held" by (simp add: points_def)
  have "(\<exists>cs. length cs = t \<and> hd cs = x \<and> last cs \<noteq> 0 \<and> (\<forall>h \<in> set held. evaluate cs (Index h) = Value h ! b))
      \<longleftrightarrow> (\<exists>cs. length (map gf cs) = t \<and> hd (map gf cs) = gf x \<and> last (map gf cs) \<noteq> 0
             \<and> (\<forall>p \<in> set (points b held). horner (map gf cs) (fst p) = snd p))"
    unfolding points_agree
  proof (intro ex_cong1 conj_cong)
    fix cs :: bytes
    assume "length (map gf cs) = t"
    then have "cs \<noteq> []" using assms(3) by auto
    then show "hd cs = x \<longleftrightarrow> hd (map gf cs) = gf x" "last cs \<noteq> 0 \<longleftrightarrow> last (map gf cs) \<noteq> 0"
      by (simp_all add: hd_map gf_last)
  qed simp_all
  also have "\<dots> \<longleftrightarrow> (\<exists>cs. length cs = Suc (length held) \<and> hd cs = gf x \<and> last cs \<noteq> 0
             \<and> (\<forall>p \<in> set (points b held). horner cs (fst p) = snd p))"
    using assms(3) map_gf_surj by (metis (no_types, lifting))
  also have "\<dots> \<longleftrightarrow> gf x \<noteq> lagrange (points b held) 0"
    by (rule constant_term_excluded [OF distinct_points [OF assms(1)] z l])
  also have "\<dots> \<longleftrightarrow> x \<noteq> excluded_byte held b"
    using gf_combine_byte [OF assms(1), of b] by (simp add: excluded_byte_def flip: gf_eq)
  finally show ?thesis .
qed

text \<open>
  C17: what \<open>threshold - 1\<close> shares of a split say about the secret. Whatever their values, they
  are shares of a secret of their length exactly when that secret differs, at every position, from
  the byte the formula of \<open>Combine\<close> gives for them there. So each position has 255 possible
  values and one impossible one: the comment on \<open>Share\<close> that a share reveals nothing about the
  secret is not exact, because the leading coefficient is drawn non-zero.
\<close>

theorem threshold_minus_one_shares:
  assumes "split_ready secret threshold count" "length sid = set_id_bytes"
    and "int (length held) = threshold - 1" "distinct (map Index held)"
    and "list_all (\<lambda>h. 1 \<le> uint (Index h) \<and> uint (Index h) \<le> count \<and> Threshold h = threshold
           \<and> SetID h = sid \<and> length (Value h) = length secret) held"
  shows "(\<exists>rnd shares. split secret threshold count rnd = Inr shares \<and> set held \<subseteq> set shares)
     \<longleftrightarrow> list_all (\<lambda>b. secret ! b \<noteq> excluded_byte held b) [0..<length secret]"
proof -
  have held: "1 \<le> uint (Index h)" "uint (Index h) \<le> count" "Threshold h = threshold" "SetID h = sid"
    "length (Value h) = length secret" if "h \<in> set held" for h
    using assms(5) that by (auto simp: list_all_iff)
  have z: "0 \<notin> set (map Index held)" using held(1) by fastforce
  have t: "Suc (length held) = nat threshold" using assms(3) by auto
  note iff = coefficients_exist_iff [OF assms(4) z t]
  show ?thesis
  proof
    assume "\<exists>rnd shares. split secret threshold count rnd = Inr shares \<and> set held \<subseteq> set shares"
    then obtain rnd shares where s: "split secret threshold count rnd = Inr shares" "set held \<subseteq> set shares"
      by blast
    have "distinct held" using assms(4) by (simp add: distinct_map)
    with s obtain css where css: "length css = length secret"
      "\<forall>k < length secret. length (css ! k) = nat threshold \<and> hd (css ! k) = secret ! k \<and> last (css ! k) \<noteq> 0"
      "\<forall>h \<in> set held. Index h \<noteq> 0 \<and> Threshold h = threshold \<and> SetID h = take set_id_bytes rnd
         \<and> Value h = map (\<lambda>cs. evaluate cs (Index h)) css"
      by (rule selection_shape)
    have "secret ! b \<noteq> excluded_byte held b" if "b < length secret" for b
      using iff [of "secret ! b" b] css that by fastforce
    then show "list_all (\<lambda>b. secret ! b \<noteq> excluded_byte held b) [0..<length secret]"
      by (simp add: list_all_iff)
  next
    assume "list_all (\<lambda>b. secret ! b \<noteq> excluded_byte held b) [0..<length secret]"
    then have "\<forall>b < length secret. \<exists>cs. length cs = nat threshold \<and> hd cs = secret ! b \<and> last cs \<noteq> 0
        \<and> (\<forall>h \<in> set held. evaluate cs (Index h) = Value h ! b)"
      using iff by (simp add: list_all_iff)
    then obtain f where f: "\<forall>b < length secret. length (f b) = nat threshold \<and> hd (f b) = secret ! b
        \<and> last (f b) \<noteq> 0 \<and> (\<forall>h \<in> set held. evaluate (f b) (Index h) = Value h ! b)"
      by metis
    define css where "css = map f [0..<length secret]"
    have sp: "split secret threshold count (sid @ concat (map tl css))
        = Inr (map (share_at threshold sid css) [0..<nat count])"
      using f by (intro split_chosen assms(1,2)) (auto simp: css_def)
    have "h \<in> set (map (share_at threshold sid css) [0..<nat count])" if h: "h \<in> set held" for h
    proof -
      define i where "i = unat (Index h) - 1"
      have "int 1 \<le> int (unat (Index h))" using held(1) [OF h] by simp
      then have i: "i + 1 = unat (Index h)" by (simp only: of_nat_le_iff i_def)
      then have ix: "Index h = of_nat (i + 1)" by (simp only: i of_nat_unat ucast_id)
      have "Value h = map (\<lambda>cs. evaluate cs (Index h)) css"
        using f h held(5) [OF h] by (intro nth_equalityI) (auto simp: css_def)
      then have "h = share_at threshold sid css i"
        using held(3,4) [OF h] ix by (simp add: share_at_def)
      moreover have "int (i + 1) \<le> count" using held(2) [OF h] by (simp only: i of_nat_unat)
      then have "i < nat count" by linarith
      ultimately show ?thesis by auto
    qed
    with sp show "\<exists>rnd shares. split secret threshold count rnd = Inr shares \<and> set held \<subseteq> set shares"
      by blast
  qed
qed

lemma threshold_minus_one_shares_witness:
  "\<not> (\<exists>rnd shares. split [0x2f] 2 3 rnd = Inr shares
        \<and> set [\<lparr>Threshold = 2, SetID = replicate 16 7, Index = 1, Value = [0x2f]\<rparr>] \<subseteq> set shares)"
proof -
  have "excluded_byte [\<lparr>Threshold = 2, SetID = replicate 16 7, Index = 1, Value = [0x2f]\<rparr>] 0 = 0x2f"
    by (simp add: excluded_byte_def combine_byte_def basis_at_def basis_loop_def gf_inverse_one)
  then show ?thesis
    using threshold_minus_one_shares [of "[0x2f]" 2 3 "replicate 16 7"
        "[\<lparr>Threshold = 2, SetID = replicate 16 7, Index = 1, Value = [0x2f]\<rparr>]"]
    by (simp add: split_ready_def max_secret_bytes_def set_id_bytes_def)
qed

lemma draw_coefficients_nonzero:
  assumes "0 < n" "n \<le> length rnd" "0 \<notin> set rnd"
  shows "draw_coefficients n rnd = Some (take n rnd, drop n rnd)"
proof -
  have "last (take n rnd) \<in> set rnd"
    using assms by (intro in_set_takeD [OF last_in_set]) auto
  then show ?thesis
    using assms by (subst draw_coefficients.simps) auto
qed

lemma split_loop_returns:
  "2 \<le> t \<Longrightarrow> length secret * (t - 1) \<le> length rnd \<Longrightarrow> 0 \<notin> set rnd \<Longrightarrow>
   \<exists>shares'. split_loop t i secret rnd shares = Inr shares'"
proof (induction secret arbitrary: i rnd shares)
  case (Cons b secret)
  have "draw_coefficients (t - 1) rnd = Some (take (t - 1) rnd, drop (t - 1) rnd)"
    using Cons.prems by (intro draw_coefficients_nonzero) auto
  moreover have "0 \<notin> set (drop (t - 1) rnd)" using Cons.prems(3) by (meson in_set_dropD)
  ultimately show ?case using Cons.IH [of "drop (t - 1) rnd"] Cons.prems by simp
qed simp

lemma split_shares_wf:
  assumes "split secret threshold count rnd = Inr shares"
  shows "int (length shares) = count \<and> list_all share_wf shares"
proof -
  obtain css where css: "length css = length secret"
    "shares = map (share_at threshold (take set_id_bytes rnd) css) [0..<nat count]"
    using assms by (rule split_values)
  have r: "split_ready secret threshold count" "set_id_bytes \<le> length rnd" using split_ready_of [OF assms] by auto
  have "(of_nat (i + 1) :: u8) \<noteq> 0" if "i < nat count" for i
    using that r by (intro of_nat_index_nonzero) (auto simp: split_ready_def)
  then show ?thesis
    using r css by (auto simp: share_wf_def split_ready_def list_all_iff simp del: of_nat_add)
qed

lemma split_produces:
  assumes "split_ready secret threshold count"
    and "set_id_bytes + length secret * nat (threshold - 1) \<le> length rnd"
    and "0 \<notin> set (drop set_id_bytes rnd)"
  shows "\<exists>shares. split secret threshold count rnd = Inr shares \<and> int (length shares) = count
     \<and> list_all share_wf shares"
proof -
  have "nat (threshold - 1) = nat threshold - 1" by simp
  then have "\<exists>shares'. split_loop (nat threshold) 0 secret (drop set_id_bytes rnd) shares = Inr shares'" for shares
    using assms by (intro split_loop_returns) (auto simp: split_ready_def le_nat_iff)
  then have "\<exists>shares. split secret threshold count rnd = Inr shares"
    using assms by (auto simp: split_def split_ready_def Let_def)
  with split_shares_wf show ?thesis by blast
qed



section \<open>Round trip of the text form\<close>

lemma parse_share_of_string:
  assumes "share_wf s" and "list_all (\<lambda>c. is_ascii c \<and> is_space (of_char c)) (before @ after)"
  shows "parse_share (before @ share_string s @ after) = Inr s"
proof -
  have "\<not> is_space (of_char (hd (share_string s)))" "share_string s \<noteq> []"
    by (simp_all add: share_string_def Let_def share_body_def share_version_def is_space_def)
  moreover have "\<not> is_space (of_char (last (share_string s)))"
    by (simp add: share_string_def Let_def last_checksum)
  ultimately have t: "trim_space (before @ share_string s @ after) = share_string s"
    using assms by (intro trim_space_pad share_string_ascii) auto
  have w: "2 \<le> Threshold s" "Threshold s \<le> 255" "length (SetID s) = set_id_bytes" "Index s \<noteq> 0" "Value s \<noteq> []"
    using assms(1) by (auto simp: share_wf_def)
  have "uint (Index s) \<noteq> 0" "0 \<le> uint (Index s)" using w(4) by (auto simp: unsigned_eq_0_iff)
  moreover have "uint (Index s) < 256" using unsigned_less [of "Index s", where 'a = int] by simp
  ultimately have u: "1 \<le> uint (Index s)" "uint (Index s) \<le> 255" by linarith+
  show ?thesis
    using w u by (simp add: parse_share_def t Let_def parts_share_string [OF assms(1)] body_share_string
        share_parts_def hex.dec_enc)
qed

text \<open>
  \<open>ParseShare\<close> reads back exactly the share that \<open>String\<close> wrote, also when white space
  surrounds it, for every share with a threshold of 2 to 255, a set identifier of 16 bytes, a
  non-zero index and a value.
\<close>

theorem parse_share_string:
  assumes "share_wf s" and "list_all (\<lambda>c. is_ascii c \<and> is_space (of_char c)) (before @ after)"
  shows "parse_share (before @ share_string s @ after) = Inr s"
  using assms by (rule parse_share_of_string)

lemma parse_share_string_witness:
  "parse_share (share_string \<lparr>Threshold = 2, SetID = replicate 16 7, Index = 3, Value = [0x25]\<rparr> @ '' '')
     = Inr \<lparr>Threshold = 2, SetID = replicate 16 7, Index = 3, Value = [0x25]\<rparr>"
  using parse_share_string [of "\<lparr>Threshold = 2, SetID = replicate 16 7, Index = 3, Value = [0x25]\<rparr>" "[]" "'' ''"]
  by (simp add: share_wf_def set_id_bytes_def is_ascii_def is_space_def)

lemma index_word_nonzero: "1 \<le> i \<Longrightarrow> i \<le> 255 \<Longrightarrow> (word_of_int i :: u8) \<noteq> 0"
proof -
  assume "1 \<le> i" "i \<le> 255"
  then have "uint (word_of_int i :: u8) \<noteq> 0" by (simp add: unsigned_of_int take_bit_eq_mod)
  then show ?thesis by (metis unsigned_0)
qed

lemma parse_share_wf: "parse_share t = Inr s \<Longrightarrow> share_wf s"
  by (auto simp: parse_share_def Let_def share_wf_def index_word_nonzero split: if_splits option.splits)

lemma parse_share_checksum:
  assumes "parse_share t = Inr s"
  shows "\<exists>body. trim_space t = body @ ''-'' @ share_checksum body"
proof -
  define parts where "parts = split_on (CHR ''-'') (trim_space t)"
  have p: "length parts = 6" "parts ! 5 = share_checksum (before_last (CHR ''-'') (trim_space t))"
    using assms by (auto simp: parse_share_def Let_def parts_def split: if_splits)
  then obtain a b c d e f where ps: "parts = [a, b, c, d, e] @ [f]"
    by (auto simp: numeral_eq_Suc length_Suc_conv)
  have j: "trim_space t = join_with (CHR ''-'') ([a, b, c, d, e] @ [f])"
    using ps join_split [of "CHR ''-''" "trim_space t"] by (simp add: parts_def)
  have "f = share_checksum (before_last (CHR ''-'') (trim_space t))"
    using p(2) ps by simp
  moreover from this have "CHR ''-'' \<notin> set f" by (metis checksum_no_dash)
  then have "before_last (CHR ''-'') (trim_space t) = join_with (CHR ''-'') [a, b, c, d, e]"
    unfolding j by (intro before_last_join) simp_all
  ultimately show ?thesis using j by (intro exI [of _ "join_with (CHR ''-'') [a, b, c, d, e]"]) simp
qed

text \<open>
  whatever \<open>ParseShare\<close> accepts is a well-formed share whose last field is the checksum of all
  that precedes it, and whose own text parses to the same share again.
\<close>

theorem parse_share_sound:
  assumes "parse_share t = Inr s"
  shows "share_wf s
    \<and> (\<exists>body. trim_space t = body @ ''-'' @ share_checksum body)
    \<and> parse_share (share_string s) = Inr s"
  using parse_share_wf [OF assms] parse_share_checksum [OF assms]
    parse_share_of_string [of s "[]" "[]"] by simp

lemma parse_share_sound_witness:
  "share_wf \<lparr>Threshold = 2, SetID = replicate 16 7, Index = 3, Value = [0x25]\<rparr>"
  using parse_share_sound
      [of "share_string \<lparr>Threshold = 2, SetID = replicate 16 7, Index = 3, Value = [0x25]\<rparr>"]
    parse_share_of_string [of "\<lparr>Threshold = 2, SetID = replicate 16 7, Index = 3, Value = [0x25]\<rparr>" "[]" "[]"]
  by (simp add: share_wf_def set_id_bytes_def)

end
