(* ===== verification/AuditChain.thy ===== *)
theory AuditChain
  imports Prelude Codec GoStrings Hashes
begin

text \<open>
  \<open>auditchain/auditchain.go\<close> and \<open>auditchain/verify_record.go\<close>: the keyed hash chain over audit
  records, its verification against an anchor, and appending under the chain lock. The store the
  caller's \<open>persist\<close> function writes to is a state of its own, passed through; its interface is the
  locale \<open>record_store\<close>. Concurrent appends are the step relation \<open>audit_step\<close>.
\<close>

section \<open>Records, anchors, chains\<close>

record AuditRecord =
  Seq :: u64
  Prev :: string
  Hash :: string
  Fields :: "string list"

record Anchor =
  Count :: u64
  Head :: string

record Chain =
  chain_key :: bytes
  chain_count :: u64
  chain_head :: string

datatype 'e audit_error =
    WeakKey nat | BrokenChain | Truncated | ReadingRecord u64 'e | PersistRequired | ContextDone 'e | PersistFailed 'e

definition genesis :: string where
  "genesis = replicate 64 (CHR ''0'')"

definition min_key_bytes :: nat where
  "min_key_bytes = 32"

text \<open>What \<open>digest\<close> feeds to the MAC: every part behind its length.\<close>

definition put_string :: "string \<Rightarrow> bytes" where
  "put_string s = be64 (of_nat (length s)) @ bytes_of s"

definition digest_input :: "u64 \<Rightarrow> string \<Rightarrow> string list \<Rightarrow> bytes" where
  "digest_input seq prev fs =
     be64 seq @ put_string prev @ be64 (of_nat (length fs)) @ concat (map put_string fs)"

definition digest :: "bytes \<Rightarrow> u64 \<Rightarrow> string \<Rightarrow> string list \<Rightarrow> string" where
  "digest key seq prev fs = hex_encode (hmac_sha256 key (digest_input seq prev fs))"

definition valid_hash :: "string \<Rightarrow> bool" where
  "valid_hash s \<longleftrightarrow> length s = 64 \<and> list_all is_lower_hex s"

definition new_chain :: "bytes \<Rightarrow> 'e audit_error + Chain" where
  "new_chain key =
     (if length key < min_key_bytes then Inl (WeakKey (length key))
      else Inr \<lparr>chain_key = key, chain_count = 0, chain_head = genesis\<rparr>)"

section \<open>Verification\<close>

definition verify_record :: "bytes \<Rightarrow> AuditRecord \<Rightarrow> 'e audit_error option" where
  "verify_record key r =
     (if length key < min_key_bytes then Some (WeakKey (length key))
      else if \<not> valid_hash (Hash r) \<or> \<not> valid_hash (Prev r) then Some BrokenChain
      else if Seq r = 0 then Some BrokenChain
      else if digest key (Seq r) (Prev r) (Fields r) \<noteq> Hash r then Some BrokenChain
      else None)"

text \<open>
  The loop of \<open>VerifyStream\<close>. The iterator is the list of what it yields: a record, or the error
  that comes with a failed read.
\<close>

fun verify_loop :: "bytes \<Rightarrow> string \<Rightarrow> u64 \<Rightarrow> ('e + AuditRecord) list \<Rightarrow> 'e audit_error + (string \<times> u64)" where
  "verify_loop key prev count [] = Inr (prev, count)"
| "verify_loop key prev count (Inl e # items) = Inl (ReadingRecord (count + 1) e)"
| "verify_loop key prev count (Inr r # items) =
     (let count = count + 1 in
      if \<not> valid_hash (Hash r) \<or> \<not> valid_hash (Prev r) then Inl BrokenChain
      else if Seq r \<noteq> count then Inl BrokenChain
      else if Prev r \<noteq> prev then Inl BrokenChain
      else if digest key (Seq r) (Prev r) (Fields r) \<noteq> Hash r then Inl BrokenChain
      else verify_loop key (Hash r) count items)"

definition verify_stream :: "bytes \<Rightarrow> ('e + AuditRecord) list \<Rightarrow> Anchor \<Rightarrow> 'e audit_error option" where
  "verify_stream key items anchor =
     (if length key < min_key_bytes then Some (WeakKey (length key))
      else if \<not> valid_hash (Head anchor) then Some BrokenChain
      else case verify_loop key genesis 0 items of
        Inl e \<Rightarrow> Some e
      | Inr (prev, count) \<Rightarrow>
          if count < Count anchor then Some Truncated
          else if count > Count anchor then Some BrokenChain
          else if prev \<noteq> Head anchor then Some BrokenChain
          else None)"

definition verify :: "bytes \<Rightarrow> AuditRecord list \<Rightarrow> Anchor \<Rightarrow> 'e audit_error option" where
  "verify key records anchor = verify_stream key (map Inr records) anchor"

section \<open>Appending and resuming\<close>

definition resume :: "bytes \<Rightarrow> AuditRecord \<Rightarrow> Anchor \<Rightarrow> 'e audit_error + Chain" where
  "resume key r anchor =
     bindE (new_chain key) (\<lambda>c.
       case verify_record (chain_key c) r of
         Some e \<Rightarrow> Inl e
       | None \<Rightarrow>
           if Seq r = - 1 then Inl BrokenChain
           else if Count anchor \<noteq> Seq r \<or> Head anchor \<noteq> Hash r then Inl BrokenChain
           else Inr (c\<lparr>chain_count := Seq r, chain_head := Hash r\<rparr>))"

definition next_record :: "Chain \<Rightarrow> string list \<Rightarrow> AuditRecord" where
  "next_record c fs =
     (let seq = chain_count c + 1; prev = chain_head c in
      \<lparr>Seq = seq, Prev = prev, Hash = digest (chain_key c) seq prev fs, Fields = fs\<rparr>)"

definition anchor_of :: "AuditRecord \<Rightarrow> Anchor" where
  "anchor_of r = \<lparr>Count = Seq r, Head = Hash r\<rparr>"

definition advance :: "Chain \<Rightarrow> AuditRecord \<Rightarrow> Chain" where
  "advance c r = c\<lparr>chain_count := Seq r, chain_head := Hash r\<rparr>"

definition chain_anchor :: "Chain \<Rightarrow> Anchor" where
  "chain_anchor c = \<lparr>Count = chain_count c, Head = chain_head c\<rparr>"

text \<open>
  \<open>Append\<close> on an uncontended chain: the context's error if it has one, then the record, \<open>persist\<close>
  on the caller's store, and the advance only if it reported success.
\<close>

definition append_record ::
  "'e option \<Rightarrow> (AuditRecord \<Rightarrow> Anchor \<Rightarrow> 's \<Rightarrow> 's \<times> 'e option) option \<Rightarrow> string list
   \<Rightarrow> Chain \<times> 's \<Rightarrow> (Chain \<times> 's) \<times> ('e audit_error + AuditRecord)" where
  "append_record ctx persist fs cs =
     (let (c, store) = cs in
      case persist of
        None \<Rightarrow> ((c, store), Inl PersistRequired)
      | Some write \<Rightarrow>
          (case ctx of
             Some e \<Rightarrow> ((c, store), Inl (ContextDone e))
           | None \<Rightarrow>
               let r = next_record c fs in
               (case write r (anchor_of r) store of
                  (store', Some e) \<Rightarrow> ((c, store'), Inl (PersistFailed e))
                | (store', None) \<Rightarrow> ((advance c r, store'), Inr r))))"

text \<open>\<open>Replay\<close>: the same append with a \<open>persist\<close> that stores nothing and never fails.\<close>

definition noop :: "AuditRecord \<Rightarrow> Anchor \<Rightarrow> unit \<Rightarrow> unit \<times> 'e option" where
  "noop r a s = ((), None)"

fun replay_loop :: "Chain \<Rightarrow> string list list \<Rightarrow> 'e audit_error + (AuditRecord list \<times> Anchor)" where
  "replay_loop c [] = Inr ([], chain_anchor c)"
| "replay_loop c (fs # tuples) =
     (case append_record None (Some noop) fs (c, ()) of
        (_, Inl e) \<Rightarrow> Inl e
      | ((c', _), Inr r) \<Rightarrow>
          bindE (replay_loop c' tuples) (\<lambda>(rs, a). Inr (r # rs, a)))"

definition replay :: "bytes \<Rightarrow> string list list \<Rightarrow> 'e audit_error + (AuditRecord list \<times> Anchor)" where
  "replay key tuples = bindE (new_chain key) (\<lambda>c. replay_loop c tuples)"

section \<open>The digest\<close>

lemma put_string_inj:
  assumes "put_string s @ x = put_string t @ y" "length s < 2 ^ 64" "length t < 2 ^ 64"
  shows "s = t \<and> x = y"
proof -
  have "be64 (of_nat (length s)) = be64 (of_nat (length t))" and rest: "bytes_of s @ x = bytes_of t @ y"
    using assms(1) by (auto simp: put_string_def append_eq_append_conv)
  then have "length s = length t"
    using assms(2,3) by (simp add: of_nat_u64_inj)
  then show ?thesis using rest by (simp add: append_eq_append_conv)
qed

lemma concat_put_string_inj:
  "concat (map put_string fs) = concat (map put_string gs) \<Longrightarrow> length fs = length gs \<Longrightarrow>
   list_all (\<lambda>f. length f < 2 ^ 64) (fs @ gs) \<Longrightarrow> fs = gs"
proof (induction fs arbitrary: gs)
  case (Cons f fs)
  then obtain g gs' where g: "gs = g # gs'" by (cases gs) auto
  with Cons.prems put_string_inj [of f "concat (map put_string fs)" g "concat (map put_string gs')"]
  have "f = g" "concat (map put_string fs) = concat (map put_string gs')" by auto
  with Cons.IH [of gs'] Cons.prems g show ?case by auto
qed simp

text \<open>Sizes a Go string or slice can have; a 64 bit length prefix loses nothing there.\<close>

definition sized :: "AuditRecord \<Rightarrow> bool" where
  "sized r \<longleftrightarrow> length (Prev r) < 2 ^ 64 \<and> length (Fields r) < 2 ^ 64 \<and> list_all (\<lambda>f. length f < 2 ^ 64) (Fields r)"

definition record_input :: "AuditRecord \<Rightarrow> bytes" where
  "record_input r = digest_input (Seq r) (Prev r) (Fields r)"

lemma record_input_inj:
  assumes "record_input r = record_input q" "sized r" "sized q"
  shows "Seq r = Seq q \<and> Prev r = Prev q \<and> Fields r = Fields q"
proof -
  have s: "Seq r = Seq q" and rest: "put_string (Prev r) @ be64 (of_nat (length (Fields r))) @ concat (map put_string (Fields r))
      = put_string (Prev q) @ be64 (of_nat (length (Fields q))) @ concat (map put_string (Fields q))"
    using assms(1) by (auto simp: record_input_def digest_input_def append_eq_append_conv)
  have p: "Prev r = Prev q" and rest': "be64 (of_nat (length (Fields r))) @ concat (map put_string (Fields r))
      = be64 (of_nat (length (Fields q))) @ concat (map put_string (Fields q))"
    using put_string_inj [OF rest] assms(2,3) by (auto simp: sized_def)
  have l: "length (Fields r) = length (Fields q)" and c: "concat (map put_string (Fields r)) = concat (map put_string (Fields q))"
    using rest' assms(2,3) of_nat_u64_inj by (auto simp: append_eq_append_conv sized_def)
  show ?thesis
    using s p concat_put_string_inj [OF c l] assms(2,3) by (simp add: sized_def)
qed

lemma digest_valid [simp]: "valid_hash (digest key seq prev fs)"
  by (simp add: valid_hash_def digest_def hex_encode_lower)

lemma genesis_valid [simp]: "valid_hash genesis"
  by (simp add: valid_hash_def genesis_def list_all_iff is_lower_hex_def)

section \<open>What verification accepts\<close>

text \<open>A chain from a predecessor and a count on: every record follows the one before it.\<close>

fun chained :: "bytes \<Rightarrow> string \<Rightarrow> u64 \<Rightarrow> AuditRecord list \<Rightarrow> bool" where
  "chained key prev count [] \<longleftrightarrow> True"
| "chained key prev count (r # rs) \<longleftrightarrow>
     Seq r = count + 1 \<and> Prev r = prev \<and> Hash r = digest key (Seq r) (Prev r) (Fields r)
     \<and> chained key (Hash r) (count + 1) rs"

definition head_of :: "string \<Rightarrow> AuditRecord list \<Rightarrow> string" where
  "head_of prev rs = (if rs = [] then prev else Hash (last rs))"

lemma head_of_simps [simp]: "head_of prev [] = prev" "head_of prev (r # rs) = head_of (Hash r) rs"
  "head_of prev (rs @ [r]) = Hash r"
  by (simp_all add: head_of_def)

lemma verify_loop_ok:
  "valid_hash prev \<Longrightarrow>
   verify_loop key prev count items = Inr (h, n) \<longleftrightarrow>
     (\<exists>rs. items = map Inr rs \<and> chained key prev count rs \<and> h = head_of prev rs \<and> n = count + of_nat (length rs))"
proof (induction key prev count items rule: verify_loop.induct)
  case (3 key prev count r items)
  show ?case
  proof (cases "Seq r = count + 1 \<and> Prev r = prev \<and> Hash r = digest key (Seq r) (Prev r) (Fields r)")
    case True
    then have v: "valid_hash (Hash r)" by simp
    have "verify_loop key prev count (Inr r # items) = verify_loop key (Hash r) (count + 1) items"
      using True v "3.prems" by (simp add: Let_def)
    moreover have "verify_loop key (Hash r) (count + 1) items = Inr (h, n) \<longleftrightarrow>
       (\<exists>rs. items = map Inr rs \<and> chained key (Hash r) (count + 1) rs \<and> h = head_of (Hash r) rs
          \<and> n = count + 1 + of_nat (length rs))"
      using True v "3.prems" by (intro "3.IH") auto
    ultimately show ?thesis
      using True by (auto simp: Cons_eq_map_conv algebra_simps)
  next
    case False
    then show ?thesis by (auto simp: Let_def Cons_eq_map_conv)
  qed
qed auto

lemma verify_stream_ok:
  "verify_stream key items anchor = None \<longleftrightarrow>
     min_key_bytes \<le> length key \<and> valid_hash (Head anchor)
     \<and> (\<exists>rs. items = map Inr rs \<and> chained key genesis 0 rs \<and> Head anchor = head_of genesis rs
          \<and> Count anchor = of_nat (length rs))"
proof (cases "verify_loop key genesis 0 items")
  case (Inl e)
  then have "\<nexists>rs. items = map Inr rs \<and> chained key genesis 0 rs"
    using verify_loop_ok [of genesis key 0 items] by auto
  with Inl show ?thesis by (auto simp: verify_stream_def)
next
  case (Inr p)
  then obtain h n where p: "verify_loop key genesis 0 items = Inr (h, n)" by (cases p) auto
  then have "\<exists>rs. items = map Inr rs \<and> chained key genesis 0 rs \<and> h = head_of genesis rs \<and> n = of_nat (length rs)"
    by (simp add: verify_loop_ok)
  then show ?thesis
    using p by (auto simp: verify_stream_def not_less antisym_conv inj_map_eq_map)
qed

lemma verify_ok:
  "verify key rs anchor = None \<longleftrightarrow>
     min_key_bytes \<le> length key \<and> valid_hash (Head anchor) \<and> chained key genesis 0 rs
     \<and> Head anchor = head_of genesis rs \<and> Count anchor = of_nat (length rs)"
proof -
  have i: "map Inr xs = map Inr ys \<longleftrightarrow> xs = ys" for xs ys :: "AuditRecord list"
    by (rule inj_map_eq_map) simp
  show ?thesis unfolding verify_def verify_stream_ok i by auto
qed

lemma chained_append [simp]:
  "chained key prev count (rs @ qs) \<longleftrightarrow>
     chained key prev count rs \<and> chained key (head_of prev rs) (count + of_nat (length rs)) qs"
  by (induction key prev count rs rule: chained.induct) (auto simp: algebra_simps)

lemma chained_nth:
  "chained key prev count rs \<Longrightarrow> i < length rs \<Longrightarrow> Seq (rs ! i) = count + of_nat (i + 1)"
  by (induction key prev count rs arbitrary: i rule: chained.induct)
     (auto simp: nth_Cons algebra_simps split: nat.splits)

lemma head_of_valid: "chained key prev count rs \<Longrightarrow> valid_hash prev \<Longrightarrow> valid_hash (head_of prev rs)"
  by (induction key prev count rs rule: chained.induct) auto

lemma head_of_append [simp]: "head_of prev (rs @ qs) = head_of (head_of prev rs) qs"
  by (induction rs arbitrary: prev) auto

section \<open>The interface of the caller's store\<close>

text \<open>
  What \<open>Append\<close> asks of \<open>persist\<close>: a write that reports success has stored the record behind the
  others together with its anchor, and one that reports an error has stored neither.
\<close>

locale record_store =
  fixes write_rec :: "AuditRecord \<Rightarrow> Anchor \<Rightarrow> 's \<Rightarrow> 's \<times> 'e option"
    and log_of :: "'s \<Rightarrow> AuditRecord list"
    and saved_of :: "'s \<Rightarrow> Anchor"
  assumes write_ok: "write_rec r a s = (s', None) \<Longrightarrow> log_of s' = log_of s @ [r] \<and> saved_of s' = a"
    and write_failed: "write_rec r a s = (s', Some e) \<Longrightarrow> log_of s' = log_of s \<and> saved_of s' = saved_of s"
begin

text \<open>The chain in memory describes what the store holds.\<close>

definition consistent :: "Chain \<Rightarrow> 's \<Rightarrow> bool" where
  "consistent c s \<longleftrightarrow> min_key_bytes \<le> length (chain_key c)
     \<and> chained (chain_key c) genesis 0 (log_of s)
     \<and> chain_count c = of_nat (length (log_of s)) \<and> chain_head c = head_of genesis (log_of s)
     \<and> saved_of s = chain_anchor c"

lemma consistent_verifies: "consistent c s \<Longrightarrow> verify (chain_key c) (log_of s) (saved_of s) = None"
  by (auto simp: consistent_def verify_ok chain_anchor_def intro: head_of_valid)

lemma consistent_write:
  assumes "consistent c s" "write_rec (next_record c fs) (anchor_of (next_record c fs)) s = (s', None)"
  shows "consistent (advance c (next_record c fs)) s'"
  using assms write_ok [OF assms(2)]
  by (auto simp: consistent_def next_record_def advance_def anchor_of_def chain_anchor_def Let_def)

lemma consistent_refused:
  assumes "consistent c s" "write_rec r a s = (s', Some e)"
  shows "consistent c s'"
  using assms write_failed [OF assms(2)] by (simp add: consistent_def)

lemma append_consistent:
  assumes "consistent c s" "append_record ctx (Some write_rec) fs (c, s) = ((c', s'), res)"
  shows "consistent c' s'
    \<and> (case res of Inr r \<Rightarrow> log_of s' = log_of s @ [r] \<and> Fields r = fs
                 | Inl _ \<Rightarrow> c' = c \<and> log_of s' = log_of s)"
proof (cases ctx)
  case (Some e)
  with assms show ?thesis by (auto simp: append_record_def)
next
  case None
  obtain t o' where w: "write_rec (next_record c fs) (anchor_of (next_record c fs)) s = (t, o')" by fastforce
  show ?thesis
  proof (cases o')
    case None
    note ok = w [unfolded None]
    have "c' = advance c (next_record c fs)" "s' = t" "res = Inr (next_record c fs)"
      using assms(2) \<open>ctx = None\<close> ok by (auto simp: append_record_def Let_def)
    with consistent_write [OF assms(1) ok] write_ok [OF ok] show ?thesis
      by (simp add: next_record_def Let_def)
  next
    case (Some e)
    note bad = w [unfolded Some]
    have "c' = c" "s' = t" "res = Inl (PersistFailed e)"
      using assms(2) \<open>ctx = None\<close> bad by (auto simp: append_record_def Let_def)
    with consistent_refused [OF assms(1) bad] write_failed [OF bad] show ?thesis by simp
  qed
qed

end

section \<open>Concurrent appends\<close>

text \<open>
  A store that keeps the log and its anchor, and refuses a write when the environment says so.
\<close>

record AuditStore =
  stored_log :: "AuditRecord list"
  stored_anchor :: Anchor

definition store_write :: "'e option \<Rightarrow> AuditRecord \<Rightarrow> Anchor \<Rightarrow> AuditStore \<Rightarrow> AuditStore \<times> 'e option" where
  "store_write outcome r a s =
     (case outcome of
        None \<Rightarrow> (\<lparr>stored_log = stored_log s @ [r], stored_anchor = a\<rparr>, None)
      | Some e \<Rightarrow> (s, Some e))"

interpretation astore: record_store "store_write outcome" stored_log stored_anchor for outcome
  by unfold_locales (auto simp: store_write_def split: option.splits)

text \<open>
  Callers of \<open>Append\<close>: one waits for the lock, holds it while its record is written, or has
  returned. The lock of the code is a channel of capacity one; \<open>holder\<close> is the caller in it.
\<close>

datatype 'e caller = Waiting "string list" | Writing AuditRecord | Returned "'e audit_error + AuditRecord"

record 'e AuditSystem =
  sys_chain :: Chain
  sys_store :: AuditStore
  holder :: "nat option"
  callers :: "nat \<Rightarrow> 'e caller option"

definition start_system :: "bytes \<Rightarrow> 'e AuditSystem" where
  "start_system key =
     \<lparr>sys_chain = \<lparr>chain_key = key, chain_count = 0, chain_head = genesis\<rparr>,
      sys_store = \<lparr>stored_log = [], stored_anchor = \<lparr>Count = 0, Head = genesis\<rparr>\<rparr>,
      holder = None, callers = Map.empty\<rparr>"

inductive audit_step :: "'e AuditSystem \<Rightarrow> 'e AuditSystem \<Rightarrow> bool" where
  call: "callers s i = None \<Longrightarrow> audit_step s (s\<lparr>callers := (callers s)(i \<mapsto> Waiting fs)\<rparr>)"
| give_up: "callers s i = Some (Waiting fs) \<Longrightarrow>
    audit_step s (s\<lparr>callers := (callers s)(i \<mapsto> Returned (Inl (ContextDone e)))\<rparr>)"
| acquire: "callers s i = Some (Waiting fs) \<Longrightarrow> holder s = None \<Longrightarrow>
    audit_step s (s\<lparr>holder := Some i, callers := (callers s)(i \<mapsto> Writing (next_record (sys_chain s) fs))\<rparr>)"
| persisted: "callers s i = Some (Writing r) \<Longrightarrow> store_write None r (anchor_of r) (sys_store s) = (t, None :: 'e option) \<Longrightarrow>
    audit_step s (s\<lparr>sys_chain := advance (sys_chain s) r, sys_store := t, holder := None,
                    callers := (callers s)(i \<mapsto> Returned (Inr r))\<rparr>)"
| refused: "callers s i = Some (Writing r) \<Longrightarrow> store_write (Some e) r (anchor_of r) (sys_store s) = (t, Some e) \<Longrightarrow>
    audit_step s (s\<lparr>sys_store := t, holder := None,
                    callers := (callers s)(i \<mapsto> Returned (Inl (PersistFailed e)))\<rparr>)"

inductive audit_reachable :: "bytes \<Rightarrow> 'e AuditSystem \<Rightarrow> bool" for key where
  start: "audit_reachable key (start_system key)"
| step: "audit_reachable key s \<Longrightarrow> audit_step s s' \<Longrightarrow> audit_reachable key s'"

inductive_cases audit_stepE: "audit_step s s'"

definition system_inv :: "bytes \<Rightarrow> 'e AuditSystem \<Rightarrow> bool" where
  "system_inv key s \<longleftrightarrow> chain_key (sys_chain s) = key
     \<and> astore.consistent (sys_chain s) (sys_store s)
     \<and> (\<forall>i r. callers s i = Some (Writing r) \<longrightarrow> holder s = Some i \<and> (\<exists>fs. r = next_record (sys_chain s) fs))
     \<and> (\<forall>i r. callers s i = Some (Returned (Inr r)) \<longrightarrow> r \<in> set (stored_log (sys_store s)))"

lemma system_inv_holder: "system_inv key s \<Longrightarrow> callers s i = Some (Writing r) \<Longrightarrow> holder s = Some i"
  by (simp add: system_inv_def)

lemma system_inv_chained: "system_inv key s \<Longrightarrow> chained key genesis 0 (stored_log (sys_store s))"
  unfolding system_inv_def astore.consistent_def by blast

lemma system_inv_start: "min_key_bytes \<le> length key \<Longrightarrow> system_inv key (start_system key)"
  by (simp add: system_inv_def start_system_def astore.consistent_def chain_anchor_def)

lemma system_inv_step:
  assumes "system_inv key s" "audit_step s s'"
  shows "system_inv key s'"
  using assms(2)
proof cases
  case (persisted i r t)
  obtain fs where r: "r = next_record (sys_chain s) fs" using assms(1) persisted(2) by (auto simp: system_inv_def)
  have only: "j = i" if "callers s j = Some (Writing q)" for j q
    using system_inv_holder [OF assms(1) that] system_inv_holder [OF assms(1) persisted(2)] by simp
  have "astore.consistent (advance (sys_chain s) r) t"
    using astore.consistent_write [of "sys_chain s" "sys_store s" None fs t] assms(1) persisted(3)
    by (simp add: r system_inv_def)
  moreover have l: "stored_log t = stored_log (sys_store s) @ [r]"
    using persisted(3) by (auto simp: store_write_def)
  moreover have "holder s' = Some j \<and> (\<exists>fs. q = next_record (sys_chain s') fs)"
    if "callers s' j = Some (Writing q)" for j q
    using that only [of j q] by (simp add: persisted(1) split: if_splits)
  moreover have "q \<in> set (stored_log (sys_store s'))" if "callers s' j = Some (Returned (Inr q))" for j q
    using that assms(1) l by (auto simp: persisted(1) system_inv_def split: if_splits)
  moreover have "chain_key (sys_chain s') = key" "sys_chain s' = advance (sys_chain s) r" "sys_store s' = t"
    using assms(1) by (simp_all add: persisted(1) advance_def system_inv_def)
  ultimately show ?thesis unfolding system_inv_def by simp
next
  case (refused i r e t)
  have "t = sys_store s" using refused(3) by (simp add: store_write_def)
  moreover have "j = i" if "callers s j = Some (Writing q)" for j q
    using system_inv_holder [OF assms(1) that] system_inv_holder [OF assms(1) refused(2)] by simp
  then have "callers s' j \<noteq> Some (Writing q)" for j q by (simp add: refused(1)) blast
  moreover have "callers s j = Some (Returned (Inr q))" if "callers s' j = Some (Returned (Inr q))" for j q
    using that by (simp add: refused(1) split: if_splits)
  moreover have "sys_chain s' = sys_chain s" "sys_store s' = t" by (simp_all add: refused(1))
  ultimately show ?thesis using assms(1) unfolding system_inv_def by metis
qed (use assms(1) in \<open>auto simp: system_inv_def\<close>)

lemma system_inv_reachable: "audit_reachable key s \<Longrightarrow> min_key_bytes \<le> length key \<Longrightarrow> system_inv key s"
  by (induction rule: audit_reachable.induct) (auto intro: system_inv_start system_inv_step)

text \<open>Each successful caller owns a position of the log, and no two own the same.\<close>

lemma inj_on_extend:
  fixes f :: "'a \<Rightarrow> nat"
  shows "inj_on f A \<Longrightarrow> i \<notin> A \<Longrightarrow> \<forall>a \<in> A. f a < n \<Longrightarrow> inj_on (f(i := n)) (insert i A)"
  by (auto simp: inj_on_def)

definition owners :: "'e AuditSystem \<Rightarrow> nat set" where
  "owners s = {i. \<exists>r. callers s i = Some (Returned (Inr r))}"

definition positions_inv :: "'e AuditSystem \<Rightarrow> bool" where
  "positions_inv s \<longleftrightarrow> (\<exists>pos. inj_on pos (owners s)
     \<and> (\<forall>i r. callers s i = Some (Returned (Inr r)) \<longrightarrow>
            pos i < length (stored_log (sys_store s)) \<and> stored_log (sys_store s) ! pos i = r))"

lemma positions_inv_same:
  assumes "positions_inv s" "stored_log (sys_store s') = stored_log (sys_store s)"
    "\<And>i r. callers s' i = Some (Returned (Inr r)) \<longleftrightarrow> callers s i = Some (Returned (Inr r))"
  shows "positions_inv s'"
  using assms by (simp add: positions_inv_def owners_def)

lemma positions_inv_step:
  assumes "positions_inv s" "audit_step s s'"
  shows "positions_inv s'"
  using assms(2)
proof cases
  case (persisted i r t)
  obtain pos where pos: "inj_on pos (owners s)"
    "\<forall>i r. callers s i = Some (Returned (Inr r)) \<longrightarrow>
       pos i < length (stored_log (sys_store s)) \<and> stored_log (sys_store s) ! pos i = r"
    using assms(1) by (auto simp: positions_inv_def)
  have o: "owners s' = insert i (owners s)" and i: "i \<notin> owners s"
    using persisted by (auto simp: owners_def)
  have below: "pos j < length (stored_log (sys_store s))" if "j \<in> owners s" for j
    using pos(2) that by (auto simp: owners_def)
  have "inj_on (pos(i := length (stored_log (sys_store s)))) (owners s')"
    unfolding o by (rule inj_on_extend) (use pos(1) i below in blast)+
  moreover have l: "stored_log (sys_store s') = stored_log (sys_store s) @ [r]"
    using persisted(1,3) by (auto simp: store_write_def)
  moreover have "(pos(i := length (stored_log (sys_store s)))) j < length (stored_log (sys_store s'))
      \<and> stored_log (sys_store s') ! (pos(i := length (stored_log (sys_store s)))) j = q"
    if j: "callers s' j = Some (Returned (Inr q))" for j q
  proof (cases "j = i")
    case True
    then have "q = r" using j persisted(1) by simp
    then show ?thesis using True l by simp
  next
    case False
    then have "callers s j = Some (Returned (Inr q))" using j persisted(1) by simp
    with pos(2) have "pos j < length (stored_log (sys_store s))" "stored_log (sys_store s) ! pos j = q" by blast+
    then show ?thesis using False l by (simp add: nth_append)
  qed
  ultimately show ?thesis unfolding positions_inv_def by blast
next
  case (refused i r e t)
  then show ?thesis
    by (intro positions_inv_same [OF assms(1)]) (auto simp: store_write_def)
qed (intro positions_inv_same [OF assms(1)]; auto)+

lemma positions_inv_reachable: "audit_reachable key s \<Longrightarrow> positions_inv s"
proof (induction rule: audit_reachable.induct)
  case start
  then show ?case by (simp add: positions_inv_def owners_def start_system_def)
qed (rule positions_inv_step)

lemma append_by_steps:
  assumes "audit_reachable key s" "callers s i = None" "holder s = None"
    "append_record None (Some (store_write outcome)) fs (sys_chain s, sys_store s) = ((c', t), res)"
  shows "audit_reachable key (s\<lparr>sys_chain := c', sys_store := t, holder := None, callers := (callers s)(i \<mapsto> Returned res)\<rparr>)"
proof -
  define r where "r = next_record (sys_chain s) fs"
  define s1 where "s1 = s\<lparr>callers := (callers s)(i \<mapsto> Waiting fs)\<rparr>"
  define s2 where "s2 = s1\<lparr>holder := Some i, callers := (callers s1)(i \<mapsto> Writing r)\<rparr>"
  have "audit_step s s1" unfolding s1_def using assms(2) by (rule call)
  moreover have "audit_step s1 s2"
    using acquire [of s1 i fs] assms(3) by (simp add: s1_def s2_def r_def)
  ultimately have reach: "audit_reachable key s2" using assms(1) by (meson audit_reachable.step)
  show ?thesis
  proof (cases outcome)
    case None
    then have w: "store_write None r (anchor_of r) (sys_store s2) = (t, None)" "c' = advance (sys_chain s) r" "res = Inr r"
      using assms(4) by (auto simp: append_record_def store_write_def r_def s1_def s2_def Let_def)
    have "audit_step s2 (s2\<lparr>sys_chain := advance (sys_chain s2) r, sys_store := t, holder := None,
        callers := (callers s2)(i \<mapsto> Returned (Inr r))\<rparr>)"
      by (rule persisted [OF _ w(1)]) (simp add: s2_def)
    with reach have "audit_reachable key (s2\<lparr>sys_chain := advance (sys_chain s2) r, sys_store := t, holder := None,
        callers := (callers s2)(i \<mapsto> Returned (Inr r))\<rparr>)" by (rule audit_reachable.step)
    then show ?thesis using w by (simp add: s2_def s1_def)
  next
    case (Some e)
    then have w: "store_write (Some e) r (anchor_of r) (sys_store s2) = (t, Some e)" "c' = sys_chain s" "res = Inl (PersistFailed e)"
      using assms(4) by (auto simp: append_record_def store_write_def r_def s1_def s2_def Let_def)
    have "audit_step s2 (s2\<lparr>sys_store := t, holder := None,
        callers := (callers s2)(i \<mapsto> Returned (Inl (PersistFailed e)))\<rparr>)"
      by (rule refused [OF _ w(1)]) (simp add: s2_def)
    with reach have "audit_reachable key (s2\<lparr>sys_store := t, holder := None,
        callers := (callers s2)(i \<mapsto> Returned (Inl (PersistFailed e)))\<rparr>)" by (rule audit_reachable.step)
    then show ?thesis using w by (simp add: s2_def s1_def)
  qed
qed

text \<open>A run with two callers, for the instances.\<close>

lemma two_appends:
  "\<exists>s r q. audit_reachable key (s :: 'e AuditSystem) \<and> callers s 0 = Some (Returned (Inr r))
     \<and> callers s 1 = Some (Returned (Inr q)) \<and> length (stored_log (sys_store s)) = 2"
proof -
  define s0 :: "'e AuditSystem" where "s0 = start_system key"
  define r where "r = next_record (sys_chain s0) [''a'']"
  define s1 where "s1 = s0\<lparr>sys_chain := advance (sys_chain s0) r,
    sys_store := \<lparr>stored_log = [r], stored_anchor = anchor_of r\<rparr>, holder := None, callers := (callers s0)(0 \<mapsto> Returned (Inr r))\<rparr>"
  define q where "q = next_record (sys_chain s1) [''b'']"
  define s2 where "s2 = s1\<lparr>sys_chain := advance (sys_chain s1) q,
    sys_store := \<lparr>stored_log = [r, q], stored_anchor = anchor_of q\<rparr>, holder := None, callers := (callers s1)(1 \<mapsto> Returned (Inr q))\<rparr>"
  have "audit_reachable key s0" unfolding s0_def by (rule start)
  then have "audit_reachable key s1" unfolding s1_def
    by (rule append_by_steps [where outcome = None and fs = "[''a'']"])
       (simp_all add: s0_def start_system_def append_record_def store_write_def r_def Let_def)
  then have "audit_reachable key s2" unfolding s2_def
    by (rule append_by_steps [where outcome = None and fs = "[''b'']"])
       (simp_all add: s1_def s0_def start_system_def append_record_def store_write_def q_def Let_def)
  then show ?thesis by (intro exI [of _ s2] exI [of _ r] exI [of _ q]) (simp add: s2_def s1_def)
qed

text \<open>
  an uncontended \<open>Append\<close> as one function and as the steps that take the lock, write and
  release agree: from a reachable system with the lock free, the system the function describes is
  reachable, with the same chain, store and result, whether the store accepts or refuses.
\<close>

theorem append_refines_steps:
  assumes "audit_reachable key s" "callers s i = None" "holder s = None"
    "append_record None (Some (store_write outcome)) fs (sys_chain s, sys_store s) = ((c', t), res)"
  shows "audit_reachable key (s\<lparr>sys_chain := c', sys_store := t, holder := None, callers := (callers s)(i \<mapsto> Returned res)\<rparr>)"
  using assms by (rule append_by_steps)

lemma append_refines_steps_witness:
  "audit_reachable [1] ((start_system [1])\<lparr>callers := [7 \<mapsto> Returned (Inl (PersistFailed ''disk full''))]\<rparr>)"
proof -
  have e: "append_record None (Some (store_write (Some ''disk full''))) [''a'']
      (sys_chain (start_system [1]), sys_store (start_system [1]))
      = ((sys_chain (start_system [1]), sys_store (start_system [1])), Inl (PersistFailed ''disk full''))"
    by (simp add: append_record_def store_write_def Let_def start_system_def)
  show ?thesis
    using append_refines_steps [OF audit_reachable.start _ _ e, of 7] by (simp add: start_system_def)
qed

text \<open>
  C10: however concurrent appends interleave, give up waiting or fail to be stored, the stored log
  verifies against the stored anchor at every moment.
\<close>

theorem concurrent_appends_verify:
  assumes "audit_reachable key s" "min_key_bytes \<le> length key"
  shows "verify key (stored_log (sys_store s)) (stored_anchor (sys_store s)) = None"
  using system_inv_reachable [OF assms] astore.consistent_verifies [of "sys_chain s" "sys_store s"]
  by (simp add: system_inv_def)

lemma concurrent_appends_verify_witness:
  "\<exists>s :: string AuditSystem. length (stored_log (sys_store s)) = 2
     \<and> verify (replicate 32 1) (stored_log (sys_store s)) (stored_anchor (sys_store s)) = None"
proof -
  obtain s :: "string AuditSystem" where s: "audit_reachable (replicate 32 1) s" "length (stored_log (sys_store s)) = 2"
    using two_appends [of "replicate 32 1"] by auto
  show ?thesis
    using concurrent_appends_verify [OF s(1)] s(2) by (intro exI [of _ s]) (simp add: min_key_bytes_def)
qed

text \<open>
  two appends that both returned a record minted different sequence numbers, and the records
  are in the stored log: no interleaving forks the chain.
\<close>

theorem concurrent_appends_distinct:
  assumes "audit_reachable key s" "min_key_bytes \<le> length key"
    and "callers s i = Some (Returned (Inr r))" "callers s j = Some (Returned (Inr q))" "i \<noteq> j"
    and "length (stored_log (sys_store s)) < 2 ^ 64"
  shows "Seq r \<noteq> Seq q \<and> r \<in> set (stored_log (sys_store s)) \<and> q \<in> set (stored_log (sys_store s))"
proof -
  let ?log = "stored_log (sys_store s)"
  obtain pos where pos: "inj_on pos (owners s)" "pos i < length ?log" "?log ! pos i = r"
    "pos j < length ?log" "?log ! pos j = q"
    using positions_inv_reachable [OF assms(1)] assms(3,4) by (auto simp: positions_inv_def)
  have "pos i \<noteq> pos j"
    using pos(1) assms(3-5) by (auto simp: inj_on_def owners_def)
  moreover have "chained key genesis 0 ?log"
    by (rule system_inv_chained [OF system_inv_reachable [OF assms(1,2)]])
  then have "Seq r = of_nat (pos i + 1)" "Seq q = of_nat (pos j + 1)"
    using chained_nth [of key genesis 0 ?log] pos by (auto simp del: of_nat_Suc)
  ultimately have "Seq r \<noteq> Seq q"
    using of_nat_u64_inj [of "pos i + 1" "pos j + 1"] pos assms(6) by (simp del: of_nat_add)
  then show ?thesis using pos by auto
qed

lemma concurrent_appends_distinct_witness:
  "\<exists>(s :: string AuditSystem) r q. callers s 0 = Some (Returned (Inr r)) \<and> callers s 1 = Some (Returned (Inr q))
     \<and> Seq r \<noteq> Seq q"
proof -
  obtain s :: "string AuditSystem" and r q where s: "audit_reachable (replicate 32 1) s"
    "callers s 0 = Some (Returned (Inr r))" "callers s 1 = Some (Returned (Inr q))" "length (stored_log (sys_store s)) = 2"
    using two_appends [of "replicate 32 1"] by auto
  show ?thesis
    using concurrent_appends_distinct [OF s(1) _ s(2,3)] s(2-4)
    by (intro exI [of _ s] exI [of _ r] exI [of _ q]) (simp add: min_key_bytes_def)
qed

section \<open>What verification detects\<close>

text \<open>Two different inputs with one MAC: the break an altered log needs.\<close>

definition mac_collision :: "bytes \<Rightarrow> AuditRecord \<Rightarrow> AuditRecord \<Rightarrow> bool" where
  "mac_collision key r q \<longleftrightarrow> record_input r \<noteq> record_input q
     \<and> hmac_sha256 key (record_input r) = hmac_sha256 key (record_input q)"

lemma digest_record: "digest key (Seq r) (Prev r) (Fields r) = hex_encode (hmac_sha256 key (record_input r))"
  by (simp add: digest_def record_input_def)

lemma same_hash:
  assumes "Hash r = digest key (Seq r) (Prev r) (Fields r)" "Hash q = digest key (Seq q) (Prev q) (Fields q)"
    "Hash r = Hash q" "sized r" "sized q" "\<not> mac_collision key r q"
  shows "r = q"
proof -
  have "record_input r = record_input q"
    using assms by (simp add: digest_record hex.enc_inj mac_collision_def)
  then have "Seq r = Seq q \<and> Prev r = Prev q \<and> Fields r = Fields q"
    using record_input_inj assms(4,5) by blast
  with assms(3) show ?thesis by (intro AuditRecord.equality) auto
qed

lemma chained_determined:
  assumes "length rs = length qs" "chained key prev count rs" "chained key prev count qs"
    and "head_of prev rs = head_of prev qs" "list_all sized rs" "list_all sized qs" "rs \<noteq> qs"
  shows "\<exists>r \<in> set rs. \<exists>q \<in> set qs. mac_collision key r q"
  using assms
proof (induction rs qs rule: rev_induct2)
  case (4 r rs q qs)
  show ?case
  proof (cases "mac_collision key r q")
    case False
    have "r = q"
      using "4.prems" False by (intro same_hash [of r key q]) (auto simp: list_all_iff)
    with "4" show ?thesis by auto
  qed auto
qed auto

text \<open>
  C3: the anchor determines the log. If two logs verify under one key against one anchor they are
  the same log, unless two of their records are different MAC inputs with the same HMAC-SHA-256:
  altering, reordering, inserting or replacing records behind an anchor takes a MAC collision.
\<close>

theorem anchor_determines_log:
  assumes "verify key rs anchor = None" "verify key qs anchor = None"
    and "list_all sized (rs @ qs)" "length rs < 2 ^ 64" "length qs < 2 ^ 64"
  shows "rs = qs \<or> (\<exists>r \<in> set rs. \<exists>q \<in> set qs. record_input r \<noteq> record_input q
    \<and> hmac_sha256 key (record_input r) = hmac_sha256 key (record_input q))"
proof (cases "rs = qs")
  case False
  have "length rs = length qs"
    using assms(1,2,4,5) by (auto simp: verify_ok of_nat_u64_inj)
  then show ?thesis
    using False assms chained_determined [of rs qs key genesis 0] by (auto simp: verify_ok mac_collision_def)
qed simp

text \<open>A log of one record, for the instances.\<close>

definition example_record :: AuditRecord where
  "example_record = next_record \<lparr>chain_key = replicate 32 1, chain_count = 0, chain_head = genesis\<rparr> [''login'', ''ana'']"

lemma example_verifies: "verify (replicate 32 1) [example_record] (anchor_of example_record) = None"
  by (simp add: verify_ok min_key_bytes_def example_record_def next_record_def anchor_of_def Let_def)

lemma example_sized: "sized example_record"
  by (simp add: sized_def example_record_def next_record_def genesis_def Let_def)

lemma anchor_determines_log_witness:
  "[example_record] = [example_record] \<or> (\<exists>r \<in> set [example_record]. \<exists>q \<in> set [example_record].
     record_input r \<noteq> record_input q \<and> hmac_sha256 (replicate 32 1) (record_input r) = hmac_sha256 (replicate 32 1) (record_input q))"
  using anchor_determines_log [OF example_verifies example_verifies] example_sized by simp

lemma verify_loop_chained:
  "chained key genesis 0 rs \<Longrightarrow> verify_loop key genesis 0 (map Inr rs) = Inr (head_of genesis rs, of_nat (length rs))"
  by (subst verify_loop_ok) auto

lemma new_chain_ok:
  "min_key_bytes \<le> length key \<Longrightarrow> new_chain key = Inr \<lparr>chain_key = key, chain_count = 0, chain_head = genesis\<rparr>"
  by (simp add: new_chain_def not_less)

lemma extension_detected:
  assumes "verify key rs anchor = None" "qs \<noteq> []" "length (rs @ qs) < 2 ^ 64"
  shows "verify key (rs @ qs) anchor \<noteq> None"
proof
  assume "verify key (rs @ qs) anchor = None"
  then have "(of_nat (length (rs @ qs)) :: u64) = of_nat (length rs)"
    using assms(1) by (simp add: verify_ok)
  then show False using assms(2,3) of_nat_u64_inj [of "length (rs @ qs)" "length rs"] by simp
qed

text \<open>
  a verified log with records removed from its end is reported as truncated, although what
  remains of it is a correct chain.
\<close>

theorem truncation_detected:
  assumes "verify key rs anchor = None" "length rs < 2 ^ 64" "k < length rs"
  shows "verify key (take k rs) anchor = Some Truncated"
proof -
  have v: "min_key_bytes \<le> length key" "valid_hash (Head anchor)" "chained key genesis 0 rs"
    "Count anchor = of_nat (length rs)"
    using assms(1) by (auto simp: verify_ok)
  have "rs = take k rs @ drop k rs" by simp
  then have l: "chained key genesis 0 (take k rs)" using v(3) by (metis chained_append)
  have "unat (of_nat k :: u64) = k" "unat (of_nat (length rs) :: u64) = length rs"
    using assms(2,3) by (simp_all add: unat_of_nat take_bit_nat_eq_self)
  then have "(of_nat k :: u64) < of_nat (length rs)" using assms(3) by (simp add: word_less_nat_alt)
  then show ?thesis
    using v assms(3) by (simp add: verify_def verify_stream_def verify_loop_chained [OF l] not_less min_def)
qed

lemma truncation_detected_witness:
  "verify (replicate 32 1) (take 0 [example_record]) (anchor_of example_record) = Some Truncated"
  by (rule truncation_detected [OF example_verifies]) simp_all

text \<open>
  a read that fails before the end of the log fails the verification, wherever it happens and
  whatever the anchor claims: a store that dies mid-read does not look like a short chain.
\<close>

theorem read_failure_fails:
  "verify_stream key (items @ Inl e # rest) anchor \<noteq> None"
proof
  assume "verify_stream key (items @ Inl e # rest) anchor = None"
  then obtain rs where "items @ Inl e # rest = map Inr rs" by (auto simp: verify_stream_ok)
  then have "Inl e \<in> set (map Inr rs)" by (metis in_set_conv_decomp)
  then show False by auto
qed

section \<open>Resuming and replaying\<close>

lemma chained_seq_distinct:
  assumes "chained key genesis 0 rs" "length rs < 2 ^ 64" "i < length rs" "j < length rs" "Seq (rs ! i) = Seq (rs ! j)"
  shows "i = j"
  using chained_nth [OF assms(1,3)] chained_nth [OF assms(1,4)] assms(2-5)
    of_nat_u64_inj [of "i + 1" "j + 1"] by (simp del: of_nat_add)

lemma chained_records:
  "chained key prev count rs \<Longrightarrow> valid_hash prev \<Longrightarrow> r \<in> set rs \<Longrightarrow>
   valid_hash (Hash r) \<and> valid_hash (Prev r) \<and> digest key (Seq r) (Prev r) (Fields r) = Hash r"
  by (induction key prev count rs rule: chained.induct) auto

lemma chained_verify_record:
  assumes "chained key genesis 0 rs" "min_key_bytes \<le> length key" "length rs < 2 ^ 64" "i < length rs"
  shows "verify_record key (rs ! i) = None"
proof -
  have "(of_nat (i + 1) :: u64) \<noteq> of_nat 0" using assms(3,4) by (subst of_nat_u64_inj) auto
  then have "Seq (rs ! i) \<noteq> 0" using chained_nth [OF assms(1,4)] by simp
  with chained_records [OF assms(1) genesis_valid, of "rs ! i"] assms(2,4) show ?thesis
    by (simp add: verify_record_def not_less)
qed

text \<open>
  over a verified log of fewer than \<open>2^64 - 1\<close> records, \<open>Resume\<close> with the log's anchor accepts
  the last record, with a chain that describes the log, and refuses every other record: no resumed
  chain can mint a sequence number that is already taken.
\<close>

theorem resume_only_tail:
  assumes "verify key rs anchor = None" "length rs < 2 ^ 64 - 1" "i < length rs"
  shows "resume key (rs ! i) anchor =
    (if i = length rs - 1
     then Inr \<lparr>chain_key = key, chain_count = of_nat (length rs), chain_head = head_of genesis rs\<rparr>
     else Inl BrokenChain)"
proof -
  have v: "min_key_bytes \<le> length key" "chained key genesis 0 rs" "Head anchor = head_of genesis rs"
    "Count anchor = of_nat (length rs)"
    using assms(1) by (auto simp: verify_ok)
  have ne: "rs \<noteq> []" using assms(3) by auto
  have s: "Seq (rs ! i) = of_nat (i + 1)" using chained_nth [OF v(2) assms(3)] by simp
  have l: "length rs < 2 ^ 64" using assms(2) by simp
  note vr = chained_verify_record [OF v(2,1) l assms(3)]
  have m: "(- 1 :: u64) = of_nat (2 ^ 64 - 1)" by simp
  have top: "Seq (rs ! i) \<noteq> - 1"
    unfolding s m using assms(2,3) by (subst of_nat_u64_inj) auto
  have eq: "Count anchor = Seq (rs ! i) \<longleftrightarrow> i = length rs - 1"
    unfolding s v(4) using assms(2,3) by (subst of_nat_u64_inj) auto
  have h: "head_of genesis rs = Hash (rs ! (length rs - 1))" using ne by (simp add: head_of_def last_conv_nth)
  show ?thesis
  proof (cases "i = length rs - 1")
    case True
    then have "Hash (rs ! i) = head_of genesis rs" "Seq (rs ! i) = of_nat (length rs)"
      using h eq v(4) by simp_all
    with top v(3,4) show ?thesis
      unfolding if_P [OF True] by (simp add: resume_def new_chain_ok [OF v(1)] vr)
  next
    case False
    with eq top show ?thesis by (simp add: resume_def new_chain_ok [OF v(1)] vr)
  qed
qed

lemma resume_only_tail_witness:
  "resume (replicate 32 1) example_record (anchor_of example_record) =
     Inr \<lparr>chain_key = replicate 32 1, chain_count = 1, chain_head = Hash example_record\<rparr>"
  using resume_only_tail [OF example_verifies, of 0] by simp

lemma replay_loop_Cons:
  "replay_loop c (fs # tuples) =
     bindE (replay_loop (advance c (next_record c fs)) tuples) (\<lambda>(rs, a). Inr (next_record c fs # rs, a))"
  by (simp add: append_record_def noop_def Let_def)

declare replay_loop.simps(2) [simp del]

lemma replay_loop_ok:
  assumes "chained (chain_key c) genesis 0 past" "chain_count c = of_nat (length past)" "chain_head c = head_of genesis past"
  shows "\<exists>rs. (replay_loop c tuples :: 'e audit_error + _) = Inr (rs, \<lparr>Count = of_nat (length (past @ rs)), Head = head_of genesis (past @ rs)\<rparr>)
     \<and> chained (chain_key c) genesis 0 (past @ rs) \<and> map Fields rs = tuples"
  using assms
proof (induction tuples arbitrary: c past)
  case Nil
  then show ?case by (intro exI [of _ "[]"]) (simp add: chain_anchor_def)
next
  case (Cons fs tuples)
  define r where "r = next_record c fs"
  have ch: "chained (chain_key c) genesis 0 (past @ [r])"
    using Cons.prems by (simp add: r_def next_record_def Let_def)
  have "chain_count (advance c r) = of_nat (length (past @ [r]))" "chain_head (advance c r) = head_of genesis (past @ [r])"
    "chain_key (advance c r) = chain_key c" and f: "Fields r = fs"
    using Cons.prems(2) by (simp_all add: advance_def r_def next_record_def Let_def)
  then obtain rs where rs: "(replay_loop (advance c r) tuples :: 'e audit_error + _) = Inr (rs, \<lparr>Count = of_nat (length ((past @ [r]) @ rs)), Head = head_of genesis ((past @ [r]) @ rs)\<rparr>)"
    "chained (chain_key c) genesis 0 ((past @ [r]) @ rs)" "map Fields rs = tuples"
    using Cons.IH [of "advance c r" "past @ [r]"] ch by auto
  from rs f show ?case
    by (intro exI [of _ "r # rs"]) (auto simp: replay_loop_Cons simp flip: r_def)
qed

text \<open>
  \<open>Replay\<close> with an acceptable key returns one record per tuple, carrying its fields in order,
  and an anchor under which they verify.
\<close>

theorem replay_verifies:
  assumes "min_key_bytes \<le> length key"
  shows "\<exists>rs anchor. (replay key tuples :: 'e audit_error + _) = Inr (rs, anchor)
    \<and> map Fields rs = tuples \<and> verify key rs anchor = None"
proof -
  define c where "c = \<lparr>chain_key = key, chain_count = 0, chain_head = genesis\<rparr>"
  obtain rs where rs: "(replay_loop c tuples :: 'e audit_error + _) = Inr (rs, \<lparr>Count = of_nat (length rs), Head = head_of genesis rs\<rparr>)"
    "chained key genesis 0 rs" "map Fields rs = tuples"
    using replay_loop_ok [of c "[]" tuples] by (auto simp: c_def)
  then have "verify key rs \<lparr>Count = of_nat (length rs), Head = head_of genesis rs\<rparr> = None"
    using assms by (simp add: verify_ok head_of_valid [OF _ genesis_valid])
  with rs show ?thesis
    by (intro exI [of _ rs] exI [of _ "\<lparr>Count = of_nat (length rs), Head = head_of genesis rs\<rparr>"])
       (simp add: replay_def new_chain_ok [OF assms] c_def verify_ok)
qed

lemma replay_verifies_witness:
  "\<exists>rs anchor. replay (replicate 32 1) [[''login'', ''ana''], [''logout'']] = Inr (rs, anchor)
     \<and> map Fields rs = [[''login'', ''ana''], [''logout'']] \<and> verify (replicate 32 1) rs anchor = None"
  by (rule replay_verifies) (simp add: min_key_bytes_def)

text \<open>
  an append that is not stored changes nothing. Whatever the store does, the chain after an
  \<open>Append\<close> that returned an error is the chain before it, and after one that returned a record it
  stands at that record.
\<close>

theorem append_advances_only_on_success:
  assumes "append_record ctx persist fs (c, s) = ((c', s'), res)"
  shows "case res of
        Inl e \<Rightarrow> c' = c
      | Inr r \<Rightarrow> r = next_record c fs \<and> Seq r = chain_count c + 1 \<and> Prev r = chain_head c
          \<and> chain_anchor c' = anchor_of r \<and> chain_key c' = chain_key c"
  using assms
  by (auto simp: append_record_def Let_def next_record_def advance_def chain_anchor_def anchor_of_def
      split: option.splits prod.splits)

lemma append_advances_only_on_success_witness:
  "fst (fst (append_record None (Some (store_write (Some ''disk full''))) [''a'']
      (\<lparr>chain_key = [1], chain_count = 0, chain_head = genesis\<rparr>, \<lparr>stored_log = [], stored_anchor = \<lparr>Count = 0, Head = genesis\<rparr>\<rparr>))) = \<lparr>chain_key = [1], chain_count = 0, chain_head = genesis\<rparr>"
proof -
  have e: "append_record None (Some (store_write (Some ''disk full''))) [''a'']
      (\<lparr>chain_key = [1], chain_count = 0, chain_head = genesis\<rparr>, \<lparr>stored_log = [], stored_anchor = \<lparr>Count = 0, Head = genesis\<rparr>\<rparr>)
      = ((\<lparr>chain_key = [1], chain_count = 0, chain_head = genesis\<rparr>, \<lparr>stored_log = [], stored_anchor = \<lparr>Count = 0, Head = genesis\<rparr>\<rparr>), Inl (PersistFailed ''disk full''))"
    by (simp add: append_record_def store_write_def Let_def)
  show ?thesis using append_advances_only_on_success [OF e] by (simp add: e)
qed

end
