(* ===== verification/KyAuditVerify.thy ===== *)
theory KyAuditVerify
  imports AuditChain
begin

text \<open>
  \<open>cmd/kyauditverify/main.go\<close>: reading the key and the anchor from the command line, the record
  iterator over the lines of a log, and the run that verifies it. The JSON decoder
  (\<open>encoding/json\<close> on the record type) and the file system are parameters.
\<close>

section \<open>The code\<close>

datatype 'e tool_error =
    InlineKey | FileError 'e | BadKeyHex | AnchorFormat | AnchorCount | ChainError "'e audit_error"

definition max_line :: nat where
  "max_line = 16 * 1024 * 1024"

text \<open>
  \<open>bufio.Scanner\<close> with the default split function: the lines between line feeds, without a last
  empty one, each without one trailing carriage return. A line that does not fit the buffer of
  \<open>max_line\<close> bytes with its line feed is the scanner's error.
\<close>

definition raw_lines :: "string \<Rightarrow> string list" where
  "raw_lines s = (let parts = split_on (CHR 0x0A) s in if last parts = [] then butlast parts else parts)"

definition drop_cr :: "string \<Rightarrow> string" where
  "drop_cr l = (if l \<noteq> [] \<and> last l = CHR 0x0D then butlast l else l)"

text \<open>
  \<open>records\<close>: what the iterator yields. A line that does not decode, a line that is too long and a
  failed read each end the walk with an error.
\<close>

fun record_items :: "(string \<Rightarrow> 'e + AuditRecord) \<Rightarrow> 'e \<Rightarrow> 'e option \<Rightarrow> string list \<Rightarrow> ('e + AuditRecord) list" where
  "record_items unmarshal too_long read_error [] = (case read_error of None \<Rightarrow> [] | Some e \<Rightarrow> [Inl e])"
| "record_items unmarshal too_long read_error (l # ls) =
     (if max_line \<le> length l then [Inl too_long]
      else
        let line = trim_space (drop_cr l) in
        if line = [] then record_items unmarshal too_long read_error ls
        else case unmarshal line of
          Inl e \<Rightarrow> [Inl e]
        | Inr r \<Rightarrow> Inr r # record_items unmarshal too_long read_error ls)"

text \<open>A file is its content with the error its read ends in, if it does not reach the end.\<close>

definition load_key :: "(string \<Rightarrow> 'e + (string \<times> 'e option)) \<Rightarrow> string \<Rightarrow> 'e tool_error + bytes" where
  "load_key fsys spec =
     (if \<not> has_prefix spec ''@'' \<or> length spec = 1 then Inl InlineKey
      else case fsys (tl spec) of
        Inl e \<Rightarrow> Inl (FileError e)
      | Inr (_, Some e) \<Rightarrow> Inl (FileError e)
      | Inr (content, None) \<Rightarrow> ofOption BadKeyHex (hex_decode (trim_space content)))"

definition parse_anchor :: "string \<Rightarrow> 'e tool_error + Anchor" where
  "parse_anchor spec =
     (case cut_at (CHR '':'') spec of
        None \<Rightarrow> Inl AnchorFormat
      | Some (count, hash) \<Rightarrow>
          (case parse_uint 64 count of
             None \<Rightarrow> Inl AnchorCount
           | Some n \<Rightarrow> Inr \<lparr>Count = of_nat n, Head = hash\<rparr>))"

text \<open>\<open>run\<close>: the anchor it reports when the chain verifies.\<close>

definition run_tool ::
  "(string \<Rightarrow> 'e + (string \<times> 'e option)) \<Rightarrow> (string \<Rightarrow> 'e + AuditRecord) \<Rightarrow> 'e \<Rightarrow> string \<times> 'e option
   \<Rightarrow> string \<Rightarrow> string \<Rightarrow> string option \<Rightarrow> 'e tool_error + Anchor" where
  "run_tool fsys unmarshal too_long stdin key anchor path =
     bindE (load_key fsys key) (\<lambda>k.
     bindE (parse_anchor anchor) (\<lambda>a.
     bindE (case path of None \<Rightarrow> Inr stdin
            | Some p \<Rightarrow> (case fsys p of Inl e \<Rightarrow> Inl (FileError e) | Inr input \<Rightarrow> Inr input)) (\<lambda>input.
     case verify_stream k (record_items unmarshal too_long (snd input) (raw_lines (fst input))) a of
       Some e \<Rightarrow> Inl (ChainError e)
     | None \<Rightarrow> Inr a)))"

section \<open>What the tool accepts\<close>

text \<open>The lines that hold records: all but the blank ones.\<close>

definition record_lines :: "string \<Rightarrow> string list" where
  "record_lines s = filter (\<lambda>l. l \<noteq> []) (map (\<lambda>l. trim_space (drop_cr l)) (raw_lines s))"

lemma record_items_ok:
  "record_items unmarshal too_long read_error ls = map Inr rs \<longleftrightarrow>
     read_error = None \<and> list_all (\<lambda>l. length l < max_line) ls
     \<and> map unmarshal (filter (\<lambda>l. l \<noteq> []) (map (\<lambda>l. trim_space (drop_cr l)) ls)) = map Inr rs"
proof (induction ls arbitrary: rs)
  case Nil
  then show ?case by (auto split: option.splits)
next
  case (Cons l ls)
  show ?case
  proof (cases "max_line \<le> length l")
    case True
    then show ?thesis by (auto simp: Cons_eq_map_conv)
  next
    case False
    then show ?thesis
      by (cases "unmarshal (trim_space (drop_cr l))") (auto simp: Let_def Cons Cons_eq_map_conv)
  qed
qed

lemma record_lines_verify:
  "(verify_stream key (record_items unmarshal too_long err (raw_lines text)) anchor :: 'e audit_error option) = None \<longleftrightarrow>
     err = None \<and> list_all (\<lambda>l. length l < max_line) (raw_lines text)
     \<and> (\<exists>rs. map unmarshal (record_lines text) = map Inr rs \<and> (verify key rs anchor :: 'e audit_error option) = None)"
  unfolding verify_stream_ok record_items_ok verify_ok record_lines_def by blast

text \<open>
  the tool reports success exactly when the key file holds a hexadecimal key, the anchor
  parses, the input was read to its end with no line over the limit, every line that is not blank
  decodes to a record, and these records verify under that key against that anchor. A malformed
  line, an over-long line or a failed read cannot pass for the end of the log.
\<close>

theorem tool_accepts:
  assumes "(fsys path :: 'e + (string \<times> 'e option)) = Inr (content, err)"
  shows "run_tool fsys unmarshal too_long stdin key spec (Some path) = Inr anchor \<longleftrightarrow>
    (\<exists>k rs. load_key fsys key = Inr k \<and> (parse_anchor spec :: 'e tool_error + Anchor) = Inr anchor \<and> err = None
       \<and> list_all (\<lambda>l. length l < max_line) (raw_lines content)
       \<and> map unmarshal (record_lines content) = map Inr rs \<and> verify k rs anchor = None)"
proof -
  have "run_tool fsys unmarshal too_long stdin key spec (Some path) = Inr anchor \<longleftrightarrow>
    (\<exists>k. load_key fsys key = Inr k \<and> (parse_anchor spec :: 'e tool_error + Anchor) = Inr anchor
       \<and> verify_stream k (record_items unmarshal too_long err (raw_lines content)) anchor = None)"
    by (auto simp: run_tool_def assms result_simps split: option.splits)
  then show ?thesis by (simp only: record_lines_verify verify_ok) blast
qed

lemma tool_accepts_witness:
  "run_tool (\<lambda>p. Inr (if p = ''k'' then hex_encode (replicate 32 1) else [CHR ''r''], None))
     (\<lambda>l. if l = ''r'' then Inr example_record else Inl ''bad JSON'') ''too long'' ([], None)
     ''@k'' (''1:'' @ Hash example_record) (Some ''log'') = Inr (anchor_of example_record)"
proof -
  let ?fsys = "\<lambda>p. Inr (if p = ''k'' then hex_encode (replicate 32 1) else [CHR ''r''], None) :: string + (string \<times> string option)"
  have k: "load_key ?fsys ''@k'' = Inr (replicate 32 1)"
    by (simp add: load_key_def has_prefix_def hex.dec_enc)
  have "cut_at (CHR '':'') (''1:'' @ Hash example_record) = Some (''1'', Hash example_record)"
    by (simp add: cut_at_eq)
  then have a: "(parse_anchor (''1:'' @ Hash example_record) :: string tool_error + Anchor) = Inr (anchor_of example_record)"
    by (simp add: parse_anchor_def parse_uint_def is_digit_def dec_val_def anchor_of_def example_record_def
        next_record_def Let_def)
  have t: "trim_space ''r'' = ''r''" by (rule trim_space_id) (simp_all add: is_ascii_def is_space_def)
  have r: "raw_lines ''r'' = [''r'']" by (simp add: raw_lines_def)
  then have l: "record_lines ''r'' = [''r'']" by (simp add: record_lines_def drop_cr_def t)
  show ?thesis
  proof (rule iffD2 [OF tool_accepts [of ?fsys "''log''" "''r''" None]])
    show "\<exists>ka rs. load_key ?fsys ''@k'' = Inr ka
        \<and> (parse_anchor (''1:'' @ Hash example_record) :: string tool_error + Anchor) = Inr (anchor_of example_record)
        \<and> (None :: string option) = None \<and> list_all (\<lambda>l. length l < max_line) (raw_lines ''r'')
        \<and> map (\<lambda>l. if l = ''r'' then Inr example_record else Inl ''bad JSON'') (record_lines ''r'') = map Inr rs
        \<and> verify ka rs (anchor_of example_record) = None"
      using k a example_verifies
      by (intro exI [of _ "replicate 32 1"] exI [of _ "[example_record]"]) (simp add: l r max_line_def)
  qed simp
qed

text \<open>
  the key is never taken from the command line itself: a \<open>-key\<close> that is not \<open>@path\<close> is
  refused, and that error is reported for no other reason.
\<close>

theorem inline_key_refused:
  "run_tool fsys unmarshal too_long stdin key spec path = Inl InlineKey \<longleftrightarrow> \<not> (\<exists>p. p \<noteq> [] \<and> key = CHR ''@'' # p)"
proof -
  have "run_tool fsys unmarshal too_long stdin key spec path = Inl InlineKey \<longleftrightarrow> load_key fsys key = Inl InlineKey"
    by (auto simp: run_tool_def result_simps parse_anchor_def split: option.splits sum.splits)
  also have "\<dots> \<longleftrightarrow> \<not> (\<exists>p. p \<noteq> [] \<and> key = CHR ''@'' # p)"
    by (cases key) (auto simp: load_key_def has_prefix_def result_simps split: option.splits sum.splits)
  finally show ?thesis .
qed

end
