(* ===== verification/GoTime.thy ===== *)
theory GoTime
  imports Prelude Codec GoStrings
begin

text \<open>
  The part of Go's \<open>time\<close> package the code uses. An instant is the number of nanoseconds since
  the Unix epoch. \<open>rfc3339_format\<close> is \<open>t.UTC().Format(time.RFC3339)\<close>; \<open>rfc3339_parse\<close> is
  \<open>time.Parse(time.RFC3339, s)\<close> with the leniencies of Go's parser (an hour of one digit, a fraction
  behind a comma, offsets up to 24:60). Durations are 64 bit; \<open>sat64\<close> is the saturation of
  \<open>Time.Sub\<close>.
\<close>

section \<open>Instants and durations\<close>

definition sat64 :: "int \<Rightarrow> int" where
  "sat64 d = (if d > max_int64 then max_int64 else if d < min_int64 then min_int64 else d)"

definition second :: int where
  "second = 1000000000"

definition unix :: "int \<Rightarrow> int" where
  "unix t = t div second"

section \<open>The proleptic Gregorian calendar\<close>

definition leap :: "nat \<Rightarrow> bool" where
  "leap y \<longleftrightarrow> 4 dvd y \<and> (\<not> 100 dvd y \<or> 400 dvd y)"

definition year_days :: "nat \<Rightarrow> nat" where
  "year_days y = (if leap y then 366 else 365)"

definition month_days :: "nat \<Rightarrow> nat \<Rightarrow> nat" where
  "month_days y m = (if m = 2 then (if leap y then 29 else 28)
     else if m = 4 \<or> m = 6 \<or> m = 9 \<or> m = 11 then 30 else 31)"

text \<open>Days before a year, counted from the year 0, and before a month in its year.\<close>

fun days_before_year :: "nat \<Rightarrow> nat" where
  "days_before_year 0 = 0"
| "days_before_year (Suc y) = days_before_year y + year_days y"

definition days_before_month :: "nat \<Rightarrow> nat \<Rightarrow> nat" where
  "days_before_month y m = sum_list (map (month_days y) [1..<m])"

function year_from :: "nat \<Rightarrow> nat \<Rightarrow> nat \<times> nat" where
  "year_from y d = (if d < year_days y then (y, d) else year_from (Suc y) (d - year_days y))"
  by pat_completeness auto
termination
  by (relation "measure (\<lambda>(y, d). d)") (auto simp: year_days_def)

declare year_from.simps [simp del]

fun month_from :: "nat \<Rightarrow> nat list \<Rightarrow> nat \<Rightarrow> nat \<times> nat" where
  "month_from y [] d = (12, d)"
| "month_from y (m # ms) d = (if d < month_days y m then (m, d) else month_from y ms (d - month_days y m))"

text \<open>The day number of 1 January 1970, so that day numbers from the year 0 can be used.\<close>

definition epoch_day :: nat where
  "epoch_day = 719528"

definition civil :: "nat \<Rightarrow> nat \<times> nat \<times> nat" where
  "civil n = (case year_from 0 n of (y, d) \<Rightarrow> (case month_from y [1..<13] d of (m, d') \<Rightarrow> (y, m, Suc d')))"

definition day_number :: "nat \<Rightarrow> nat \<Rightarrow> nat \<Rightarrow> nat" where
  "day_number y m d = days_before_year y + days_before_month y m + (d - 1)"

section \<open>Formatting\<close>

definition pad2 :: "nat \<Rightarrow> string" where
  "pad2 n = [char_of (48 + n div 10), char_of (48 + n mod 10)]"

definition pad4 :: "nat \<Rightarrow> string" where
  "pad4 n = pad2 (n div 100) @ pad2 (n mod 100)"

text \<open>Instants of the years 0 to 9999, the ones a four digit year can write.\<close>

definition four_digit_year :: "int \<Rightarrow> bool" where
  "four_digit_year t \<longleftrightarrow> - int epoch_day * 86400 \<le> unix t
     \<and> unix t < (int (days_before_year 10000) - int epoch_day) * 86400"

definition rfc3339_format :: "int \<Rightarrow> string" where
  "rfc3339_format t =
     (let s = unix t + int epoch_day * 86400;
          n = nat (s div 86400); r = nat (s mod 86400)
      in case civil n of (y, m, d) \<Rightarrow>
           pad4 y @ ''-'' @ pad2 m @ ''-'' @ pad2 d @ ''T'' @ pad2 (r div 3600)
           @ '':'' @ pad2 (r div 60 mod 60) @ '':'' @ pad2 (r mod 60) @ ''Z'')"

section \<open>Parsing\<close>

definition digit_at :: "string \<Rightarrow> nat \<Rightarrow> bool" where
  "digit_at s i \<longleftrightarrow> i < length s \<and> is_digit (s ! i)"

definition get_num :: "bool \<Rightarrow> string \<Rightarrow> (nat \<times> string) option" where
  "get_num fixed s =
     (if \<not> digit_at s 0 then None
      else if \<not> digit_at s 1 then (if fixed then None else Some (dec_val (take 1 s), drop 1 s))
      else Some (dec_val (take 2 s), drop 2 s))"

definition get_lit :: "char \<Rightarrow> string \<Rightarrow> string option" where
  "get_lit c s = (case s of [] \<Rightarrow> None | x # xs \<Rightarrow> if x = c then Some xs else None)"

definition get_year :: "string \<Rightarrow> (nat \<times> string) option" where
  "get_year s = (if 4 \<le> length s \<and> list_all is_digit (take 4 s) then Some (dec_val (take 4 s), drop 4 s) else None)"

text \<open>A fraction of a second: up to nine digits count, the rest are skipped.\<close>

definition get_fraction :: "string \<Rightarrow> nat \<times> string" where
  "get_fraction s =
     (if 2 \<le> length s \<and> (s ! 0 = CHR ''.'' \<or> s ! 0 = CHR '','') \<and> digit_at s 1
      then let ds = takeWhile is_digit (tl s); kept = take 9 ds
           in (dec_val kept * 10 ^ (9 - length kept), drop (length ds) (tl s))
      else (0, s))"

text \<open>The zone: \<open>Z\<close> or an offset; the result is in seconds east of UTC.\<close>

definition get_zone :: "string \<Rightarrow> (int \<times> string) option" where
  "get_zone s =
     (if s \<noteq> [] \<and> hd s = CHR ''Z'' then Some (0, tl s)
      else if length s < 6 \<or> s ! 3 \<noteq> CHR '':'' then None
      else case (get_num True (take 2 (drop 1 s)), get_num True (take 2 (drop 4 s))) of
        (Some (h, _), Some (m, _)) \<Rightarrow>
          if 24 < h \<or> 60 < m then None
          else if s ! 0 = CHR ''+'' then Some (int ((h * 60 + m) * 60), drop 6 s)
          else if s ! 0 = CHR ''-'' then Some (- int ((h * 60 + m) * 60), drop 6 s)
          else None
      | _ \<Rightarrow> None)"

definition obind :: "'a option \<Rightarrow> ('a \<Rightarrow> 'b option) \<Rightarrow> 'b option" where
  "obind m f = (case m of None \<Rightarrow> None | Some x \<Rightarrow> f x)"

definition instant_of :: "nat \<Rightarrow> nat \<Rightarrow> nat \<Rightarrow> nat \<Rightarrow> nat \<Rightarrow> nat \<Rightarrow> nat \<Rightarrow> int \<Rightarrow> int" where
  "instant_of y mo d h mi s ns zone =
     ((int (day_number y mo d) - int epoch_day) * 86400 + int (h * 3600 + mi * 60 + s) - zone) * second + int ns"

definition rfc3339_parse :: "string \<Rightarrow> int option" where
  "rfc3339_parse s =
     obind (get_year s) (\<lambda>(y, s).
     obind (get_lit (CHR ''-'') s) (\<lambda>s.
     obind (get_num True s) (\<lambda>(mo, s).
     if mo < 1 \<or> 12 < mo then None else
     obind (get_lit (CHR ''-'') s) (\<lambda>s.
     obind (get_num True s) (\<lambda>(d, s).
     obind (get_lit (CHR ''T'') s) (\<lambda>s.
     obind (get_num False s) (\<lambda>(h, s).
     if 24 \<le> h then None else
     obind (get_lit (CHR '':'') s) (\<lambda>s.
     obind (get_num True s) (\<lambda>(mi, s).
     if 60 \<le> mi then None else
     obind (get_lit (CHR '':'') s) (\<lambda>s.
     obind (get_num True s) (\<lambda>(sec, s).
     if 60 \<le> sec then None else
     (case get_fraction s of (ns, s) \<Rightarrow>
     obind (get_zone s) (\<lambda>(zone, s).
     if s \<noteq> [] then None
     else if d < 1 \<or> month_days y mo < d then None
     else Some (instant_of y mo d h mi sec ns zone))))))))))))))"

section \<open>The calendar round trip\<close>

lemma year_days_pos [simp]: "0 < year_days y"
  by (simp add: year_days_def)

lemma year_from_inverse: "year_from y0 n = (y, d) \<Longrightarrow> d < year_days y \<and> y0 \<le> y \<and> days_before_year y0 + n = days_before_year y + d"
proof (induction y0 n arbitrary: y d rule: year_from.induct)
  case (1 y0 n)
  show ?case
  proof (cases "n < year_days y0")
    case True
    then show ?thesis using "1.prems" by (simp add: year_from.simps [of y0 n])
  next
    case False
    then have "year_from (Suc y0) (n - year_days y0) = (y, d)" using "1.prems" by (simp add: year_from.simps [of y0 n])
    with "1.IH" [OF False] show ?thesis using False by fastforce
  qed
qed

lemma month_from_inverse:
  "d < sum_list (map (month_days y) ms) \<Longrightarrow> month_from y ms d = (m, d') \<Longrightarrow>
   \<exists>as bs. ms = as @ m # bs \<and> d = sum_list (map (month_days y) as) + d' \<and> d' < month_days y m"
proof (induction y ms d rule: month_from.induct)
  case (2 y k ms d)
  show ?case
  proof (cases "d < month_days y k")
    case True
    then show ?thesis using "2.prems" by (intro exI [of _ "[]"] exI [of _ ms]) auto
  next
    case False
    then obtain as bs where "ms = as @ m # bs" "d - month_days y k = sum_list (map (month_days y) as) + d'" "d' < month_days y m"
      using "2.IH" "2.prems" by fastforce
    with False show ?thesis by (intro exI [of _ "k # as"] exI [of _ bs]) auto
  qed
qed simp

lemma sum_month_days: "sum_list (map (month_days y) [1..<13]) = year_days y"
  by (simp add: upt_rec month_days_def year_days_def)

lemma upt_split: "[a..<b] = as @ m # bs \<Longrightarrow> as = [a..<m] \<and> a \<le> m \<and> m < b"
proof -
  assume e: "[a..<b] = as @ m # bs"
  then have l: "length as < b - a" by (metis length_append length_upt less_add_same_cancel1 list.size(4) zero_less_Suc add_Suc_right)
  have "m = [a..<b] ! length as" using e by simp
  then have m: "m = a + length as" using l by simp
  have "as = take (length as) [a..<b]" using e by simp
  then show ?thesis using m l by (metis le_add1 less_diff_conv add.commute take_upt less_imp_le_nat le_diff_conv2)
qed

lemma civil_inverse:
  assumes "civil n = (y, m, d)"
  shows "day_number y m d = n \<and> 1 \<le> m \<and> m \<le> 12 \<and> 1 \<le> d \<and> d \<le> month_days y m \<and> days_before_year y \<le> n"
proof -
  obtain r where r: "year_from 0 n = (y, r)" and md: "month_from y [1..<13] r = (m, d - 1)" "1 \<le> d"
    using assms by (auto simp: civil_def split: prod.splits)
  have yr: "r < year_days y" "n = days_before_year y + r" using year_from_inverse [OF r] by auto
  have "r < sum_list (map (month_days y) [1..<13])" using yr(1) by (simp only: sum_month_days)
  then obtain as bs where s: "[1..<13] = as @ m # bs" "r = sum_list (map (month_days y) as) + (d - 1)" "d - 1 < month_days y m"
    using month_from_inverse md(1) by blast
  with upt_split [OF s(1)] md(2) yr(2) show ?thesis
    by (auto simp: day_number_def days_before_month_def)
qed

lemma days_before_year_mono: "y \<le> z \<Longrightarrow> days_before_year y \<le> days_before_year z"
  by (induction z) (auto simp: le_Suc_eq)

lemma days_before_year_lower: "365 * y \<le> days_before_year y"
  by (induction y) (auto simp: year_days_def)

lemma four_digit_year_near: "- 719528 * 86400 \<le> unix t \<Longrightarrow> unix t < 2930472 * 86400 \<Longrightarrow> four_digit_year t"
  using days_before_year_lower [of 10000] by (simp add: four_digit_year_def epoch_day_def)

section \<open>The text round trip\<close>

lemma is_digit_char: "n < 10 \<Longrightarrow> is_digit (char_of (48 + n :: nat))"
  by simp

lemma dec_val_pad2: "n < 100 \<Longrightarrow> dec_val (pad2 n) = n"
  by (simp add: dec_val_def pad2_def)

lemma pad2_digits: "n < 100 \<Longrightarrow> list_all is_digit (pad2 n)"
  by (simp add: pad2_def)

lemma length_pad2 [simp]: "length (pad2 n) = 2"
  by (simp add: pad2_def)

lemma get_num_pad2: "n < 100 \<Longrightarrow> get_num fixed (pad2 n @ s) = Some (n, s)"
  using dec_val_pad2 [of n] pad2_digits [of n]
  by (simp add: get_num_def digit_at_def) (simp add: pad2_def)

lemma get_year_pad4:
  assumes "y < 10000"
  shows "get_year (pad4 y @ s) = Some (y, s)"
proof -
  have "dec_val (pad4 y) = y"
  proof -
    have b: "y div 100 < 100" "y mod 100 < 100" using assms by auto
    have "dec_val (pad4 y) = 100 * dec_val (pad2 (y div 100)) + dec_val (pad2 (y mod 100))"
      by (simp add: pad4_def pad2_def dec_val_def)
    with b show ?thesis by (simp add: dec_val_pad2)
  qed
  moreover have "list_all is_digit (pad4 y)" using assms by (simp add: pad4_def pad2_digits)
  moreover have "length (pad4 y) = 4" by (simp add: pad4_def)
  ultimately show ?thesis by (simp add: get_year_def)
qed

lemma get_lit_Cons [simp]: "get_lit c (c # s) = Some s"
  by (simp add: get_lit_def)

lemma obind_Some [simp]: "obind (Some x) f = f x"
  by (simp add: obind_def)

text \<open>\<open>time.Parse\<close> reads back what \<open>Format\<close> wrote, to the second.\<close>

lemma rfc3339_round_trip:
  assumes "four_digit_year t"
  shows "rfc3339_parse (rfc3339_format t) = Some (unix t * second)"
proof -
  define s where "s = unix t + int epoch_day * 86400"
  define n where "n = nat (s div 86400)"
  define r where "r = nat (s mod 86400)"
  obtain y m d where c: "civil n = (y, m, d)" by (metis prod_cases3)
  note inv = civil_inverse [OF c]
  have s: "0 \<le> s" "s < int (days_before_year 10000) * 86400"
    using assms by (simp_all add: four_digit_year_def s_def algebra_simps)
  have "0 \<le> s div 86400" "0 \<le> s mod 86400" using s(1) by (simp_all add: pos_imp_zdiv_nonneg_iff)
  then have "int n = s div 86400" "int r = s mod 86400" by (simp_all only: n_def r_def nat_0_le)
  then have st: "int n * 86400 + int r = s" by (simp only: div_mult_mod_eq)
  with s(2) have "int n * 86400 < int (days_before_year 10000) * 86400" by linarith
  then have "int n < int (days_before_year 10000)" by linarith
  then have "days_before_year y < days_before_year 10000" using inv by linarith
  then have y: "y < 10000" using days_before_year_mono [of 10000 y] by (meson not_less)
  have "month_days y m \<le> 31" by (simp add: month_days_def)
  then have dm: "m < 100" "d < 100" using inv by auto
  have "r < 86400" by (simp add: r_def nat_less_iff)
  then have h: "r div 3600 < 24" "r div 60 mod 60 < 60" "r mod 60 < 60" by auto
  have sec: "r div 3600 * 3600 + r div 60 mod 60 * 60 + r mod 60 = r"
  proof -
    have "r div 3600 = r div 60 div 60" using div_mult2_eq [of r 60 60] by simp
    moreover have "r div 60 = r div 60 div 60 * 60 + r div 60 mod 60" "r = r div 60 * 60 + r mod 60"
      by (rule div_mult_mod_eq [symmetric])+
    ultimately show ?thesis by linarith
  qed
  have fr: "get_fraction ''Z'' = (0, ''Z'')" by (simp add: get_fraction_def)
  have "rfc3339_format t = pad4 y @ CHR ''-'' # pad2 m @ CHR ''-'' # pad2 d @ CHR ''T'' # pad2 (r div 3600)
      @ CHR '':'' # pad2 (r div 60 mod 60) @ CHR '':'' # pad2 (r mod 60) @ ''Z''"
    by (simp add: rfc3339_format_def Let_def c flip: s_def n_def r_def)
  moreover have "rfc3339_parse (pad4 y @ CHR ''-'' # pad2 m @ CHR ''-'' # pad2 d @ CHR ''T'' # pad2 (r div 3600)
      @ CHR '':'' # pad2 (r div 60 mod 60) @ CHR '':'' # pad2 (r mod 60) @ ''Z'')
      = Some (instant_of y m d (r div 3600) (r div 60 mod 60) (r mod 60) 0 0)"
    using inv h by (simp add: rfc3339_parse_def get_year_pad4 [OF y] get_num_pad2 dm fr get_zone_def not_le)
  moreover have "instant_of y m d (r div 3600) (r div 60 mod 60) (r mod 60) 0 0 = unix t * second"
    using inv sec st by (simp add: instant_of_def s_def algebra_simps)
  ultimately show ?thesis by simp
qed

end
