(* ===== verification/SyncAuth.thy ===== *)
theory SyncAuth
  imports Prelude Codec GoStrings Hashes GoTime
begin

text \<open>
  \<open>syncauth/syncauth.go\<close>: signing and verifying a directory-sync event, the in-memory replay
  guard and the HTTP middleware. Clocks are arguments: \<open>now\<close> is what the receiver's clock read, and
  the guard reads its own, later, clock. The interface of a guard is the locale \<open>replay_guard\<close>.
\<close>

section \<open>Headers, canonical form, signing\<close>

datatype sync_error =
    ErrNoSignature | ErrBadSignature | ErrBadTimestamp | ErrStale | ErrReplay | ErrReplayGuardFull
  | ErrMissingFields | ErrShortKey | ErrBodyTooLarge | KeyUnavailable | BodyRead

record Headers =
  Signature :: string
  Timestamp :: string
  EventType :: string
  EventID :: string

record Event =
  Type :: string
  ID :: string
  At :: int

text \<open>An HTTP header: the values of each canonical name; \<open>Get\<close> is the first or the empty string.\<close>

type_synonym http_header = "string \<Rightarrow> string list"

definition header_get :: "http_header \<Rightarrow> string \<Rightarrow> string" where
  "header_get hdr k = (case hdr k of [] \<Rightarrow> [] | v # _ \<Rightarrow> v)"

definition apply_headers :: "Headers \<Rightarrow> http_header \<Rightarrow> http_header" where
  "apply_headers h hdr = hdr
     (''X-Kysignon-Signature'' := [Signature h], ''X-Kysignon-Timestamp'' := [Timestamp h],
      ''X-Kysignon-Event-Type'' := [EventType h], ''X-Kysignon-Event-Id'' := [EventID h])"

definition from_request :: "http_header \<Rightarrow> Headers" where
  "from_request hdr =
     \<lparr>Signature = header_get hdr ''X-Kysignon-Signature'', Timestamp = header_get hdr ''X-Kysignon-Timestamp'',
      EventType = header_get hdr ''X-Kysignon-Event-Type'', EventID = header_get hdr ''X-Kysignon-Event-Id''\<rparr>"

definition min_sync_key :: nat where
  "min_sync_key = 16"

definition default_window :: int where
  "default_window = 5 * 60 * second"

definition default_max_body :: int where
  "default_max_body = 4 * 2 ^ 20"

definition nl :: char where
  "nl = CHR 0x0A"

definition canonical :: "string \<Rightarrow> string \<Rightarrow> string \<Rightarrow> bytes \<Rightarrow> bytes" where
  "canonical ts event_type event_id body =
     bytes_of (''ky-sync-v1'' @ [nl] @ ts @ [nl] @ event_type @ [nl] @ event_id @ [nl] @ hex_encode (sha256 body))"

definition sync_mac :: "bytes \<Rightarrow> bytes \<Rightarrow> string" where
  "sync_mac key msg = ''v1='' @ hex_encode (hmac_sha256 key msg)"

definition bad_fields :: "string \<Rightarrow> string \<Rightarrow> bool" where
  "bad_fields event_type event_id \<longleftrightarrow> event_type = [] \<or> event_id = []
     \<or> list_ex (\<lambda>c. c = CHR 0x0D \<or> c = nl) (event_type @ event_id)"

definition sign :: "bytes \<Rightarrow> int \<Rightarrow> string \<Rightarrow> string \<Rightarrow> bytes \<Rightarrow> sync_error + Headers" where
  "sign key at event_type event_id body =
     (if length key < min_sync_key then Inl ErrShortKey
      else if bad_fields event_type event_id then Inl ErrMissingFields
      else let ts = rfc3339_format at in
        Inr \<lparr>Signature = sync_mac key (canonical ts event_type event_id body), Timestamp = ts,
             EventType = event_type, EventID = event_id\<rparr>)"

section \<open>Verification\<close>

text \<open>
  \<open>Verify\<close>. The guard is a function on its own state, \<open>None\<close> when the receiver has none; the
  state comes back with the result because a check may record the event.
\<close>

definition verify_request ::
  "bytes \<Rightarrow> Headers \<Rightarrow> bytes \<Rightarrow> int \<Rightarrow> int \<Rightarrow> (string \<Rightarrow> int \<Rightarrow> 'g \<Rightarrow> 'g \<times> sync_error option) option \<Rightarrow> 'g
   \<Rightarrow> 'g \<times> (sync_error + Event)" where
  "verify_request key h body opt_window now guard g =
     (if length key < min_sync_key then (g, Inl ErrShortKey)
      else if Signature h = [] then (g, Inl ErrNoSignature)
      else if bad_fields (EventType h) (EventID h) then (g, Inl ErrMissingFields)
      else case rfc3339_parse (Timestamp h) of
        None \<Rightarrow> (g, Inl ErrBadTimestamp)
      | Some at \<Rightarrow>
          let window = (if opt_window = 0 then default_window else opt_window);
              d = sat64 (now - at)
          in if d > window \<or> d < wrap64 (- window) then (g, Inl ErrStale)
             else if Signature h \<noteq> sync_mac key (canonical (Timestamp h) (EventType h) (EventID h) body)
             then (g, Inl ErrBadSignature)
             else case guard of
               None \<Rightarrow> (g, Inr \<lparr>Type = EventType h, ID = EventID h, At = at\<rparr>)
             | Some check \<Rightarrow>
                 (case check (EventID h) at g of
                    (g', Some e) \<Rightarrow> (g', Inl e)
                  | (g', None) \<Rightarrow> (g', Inr \<lparr>Type = EventType h, ID = EventID h, At = at\<rparr>)))"

section \<open>The in-memory replay guard\<close>

record MemoryReplay =
  window :: int
  max_ids :: nat
  seen :: "string \<Rightarrow> int option"
  order :: "string list"

definition new_memory_replay :: "int \<Rightarrow> int \<Rightarrow> MemoryReplay" where
  "new_memory_replay w mx =
     \<lparr>window = (if w \<le> 0 then default_window else w), max_ids = (if mx \<le> 0 then 10000 else nat mx),
      seen = Map.empty, order = []\<rparr>"

text \<open>The eviction loop: from the oldest entry on, until one is after the cutoff.\<close>

fun evict :: "int \<Rightarrow> (string \<Rightarrow> int option) \<Rightarrow> string list \<Rightarrow> (string \<Rightarrow> int option) \<times> string list" where
  "evict cutoff sn [] = (sn, [])"
| "evict cutoff sn (oldest # rest) =
     (case sn oldest of
        Some t \<Rightarrow> if t > cutoff then (sn, oldest # rest) else evict cutoff (sn(oldest := None)) rest
      | None \<Rightarrow> evict cutoff (sn(oldest := None)) rest)"

definition memory_check :: "int \<Rightarrow> string \<Rightarrow> int \<Rightarrow> MemoryReplay \<Rightarrow> MemoryReplay \<times> sync_error option" where
  "memory_check now i at m =
     (case evict (now - window m) (seen m) (order m) of
        (sn, ord) \<Rightarrow>
          let m = m\<lparr>seen := sn, order := ord\<rparr> in
          if sn i \<noteq> None then (m, Some ErrReplay)
          else if length ord \<ge> max_ids m then (m, Some ErrReplayGuardFull)
          else (m\<lparr>seen := sn(i \<mapsto> at), order := ord @ [i]\<rparr>, None))"

section \<open>The middleware\<close>

datatype answer = Rejected sync_error | PassedOn Event bytes

text \<open>
  A request body is its bytes and the error its read ends in. \<open>io.LimitReader\<close> stops behind
  \<open>maxBody + 1\<close> bytes, before an error that would come later.
\<close>

definition limited_read :: "int \<Rightarrow> bytes \<times> bool \<Rightarrow> bytes option" where
  "limited_read limit body =
     (if limit \<le> 0 then Some []
      else if int (length (fst body)) \<ge> limit then Some (take (nat limit) (fst body))
      else if snd body then None else Some (fst body))"

definition middleware ::
  "(http_header \<Rightarrow> bytes option) \<Rightarrow> int \<Rightarrow> int \<Rightarrow> (string \<Rightarrow> int \<Rightarrow> 'g \<Rightarrow> 'g \<times> sync_error option) option \<Rightarrow> int
   \<Rightarrow> http_header \<Rightarrow> bytes \<times> bool \<Rightarrow> 'g \<Rightarrow> 'g \<times> answer" where
  "middleware key_fn opt_window now guard opt_max hdr req_body g =
     (let max_body = (if opt_max \<le> 0 then default_max_body else opt_max) in
      case key_fn hdr of
        None \<Rightarrow> (g, Rejected KeyUnavailable)
      | Some key \<Rightarrow>
          if length key < min_sync_key then (g, Rejected KeyUnavailable)
          else case limited_read (wrap64 (max_body + 1)) req_body of
            None \<Rightarrow> (g, Rejected BodyRead)
          | Some body \<Rightarrow>
              if int (length body) > max_body then (g, Rejected ErrBodyTooLarge)
              else (case verify_request key (from_request hdr) body opt_window now guard g of
                      (g', Inl e) \<Rightarrow> (g', Rejected e)
                    | (g', Inr ev) \<Rightarrow> (g', PassedOn ev body)))"

section \<open>The interface of a replay guard\<close>

text \<open>
  What \<open>Verify\<close> needs of a guard, over the clock it reads: what it accepted it has recorded; while
  a recorded timestamp is live it stays recorded, and its ID is refused as a replay.
\<close>

locale replay_guard =
  fixes check :: "int \<Rightarrow> string \<Rightarrow> int \<Rightarrow> 'g \<Rightarrow> 'g \<times> sync_error option"
    and recorded :: "'g \<Rightarrow> string \<Rightarrow> int option"
    and live :: "'g \<Rightarrow> int \<Rightarrow> int \<Rightarrow> bool"
  assumes accepts: "check now i at g = (g', None) \<Longrightarrow> recorded g' i = Some at"
    and keeps: "check now i at g = (g', r) \<Longrightarrow> recorded g j = Some a \<Longrightarrow> live g now a \<Longrightarrow> recorded g' j = Some a"
    and refuses: "check now i at g = (g', r) \<Longrightarrow> recorded g i = Some a \<Longrightarrow> live g now a \<Longrightarrow> r = Some ErrReplay"
    and live_earlier: "live g now a \<Longrightarrow> now' \<le> now \<Longrightarrow> live g now' a"
    and live_same: "check now i at g = (g', r) \<Longrightarrow> live g' = live g"
begin

fun run_checks :: "'g \<Rightarrow> (int \<times> string \<times> int) list \<Rightarrow> 'g \<times> sync_error option list" where
  "run_checks g [] = (g, [])"
| "run_checks g ((now, i, at) # calls) =
     (case check now i at g of (g', r) \<Rightarrow>
        (case run_checks g' calls of (g'', rs) \<Rightarrow> (g'', r # rs)))"

lemma run_keeps:
  "recorded g j = Some a \<Longrightarrow> live g t a \<Longrightarrow> \<forall>c \<in> set calls. fst c \<le> t \<Longrightarrow>
   recorded (fst (run_checks g calls)) j = Some a \<and> live (fst (run_checks g calls)) = live g"
proof (induction g calls rule: run_checks.induct)
  case (2 g now i at calls)
  obtain g' r where c: "check now i at g = (g', r)" by fastforce
  obtain g'' rs where rn: "run_checks g' calls = (g'', rs)" by fastforce
  have "live g now a" using "2.prems" live_earlier by auto
  then have "recorded g' j = Some a" "live g' = live g" using c "2.prems"(1) keeps live_same by auto
  with "2.IH" [OF c [symmetric]] "2.prems" rn c show ?case by auto
qed simp

text \<open>No identifier is accepted twice while the timestamp it was accepted with is live.\<close>

lemma accepted_once:
  assumes "check now0 i at g = (g1, None)" "\<forall>c \<in> set calls. fst c \<le> now" "live g now at"
  shows "snd (check now i at' (fst (run_checks g1 calls))) = Some ErrReplay"
proof -
  have "recorded g1 i = Some at" "live g1 = live g" using assms(1) accepts live_same by auto
  then have "recorded (fst (run_checks g1 calls)) i = Some at" "live (fst (run_checks g1 calls)) = live g"
    using run_keeps [of g1 i at now calls] assms(2,3) by auto
  then show ?thesis
    using refuses [of now i at' "fst (run_checks g1 calls)" "fst (check now i at' (fst (run_checks g1 calls)))"
        "snd (check now i at' (fst (run_checks g1 calls)))" at] assms(3) by simp
qed

end

lemma evict_keeps: "evict cutoff sn ord = (sn', ord') \<Longrightarrow> sn j = Some a \<Longrightarrow> cutoff < a \<Longrightarrow> sn' j = Some a"
proof (induction cutoff sn ord rule: evict.induct)
  case (2 cutoff sn oldest rest)
  then show ?case by (cases "oldest = j") (auto simp: fun_upd_def split: option.splits if_splits)
qed simp

interpretation memguard: replay_guard memory_check seen "\<lambda>m now a. now - window m < a"
proof unfold_locales
  fix now i at g g' r j a
  assume c: "memory_check now i at g = (g', r)"
  obtain sn ord where e: "evict (now - window g) (seen g) (order g) = (sn, ord)" by fastforce
  show "(\<lambda>now a. now - window g' < a) = (\<lambda>now a. now - window g < a)"
    using c e by (auto simp: memory_check_def Let_def split: if_splits)
  assume s: "seen g j = Some a" "now - window g < a"
  then have "sn j = Some a" using evict_keeps [OF e] by simp
  then show "seen g' j = Some a"
    using c e by (auto simp: memory_check_def Let_def split: if_splits)
next
  fix now i at g g' r a
  assume c: "memory_check now i at g = (g', r)" and s: "seen g i = Some a" "now - window g < a"
  obtain sn ord where e: "evict (now - window g) (seen g) (order g) = (sn, ord)" by fastforce
  have "sn i = Some a" using evict_keeps [OF e] s by simp
  then show "r = Some ErrReplay" using c e by (auto simp: memory_check_def Let_def)
qed (auto simp: memory_check_def Let_def split: prod.splits if_splits)

section \<open>The guard's own invariant\<close>

definition guard_inv :: "MemoryReplay \<Rightarrow> bool" where
  "guard_inv m \<longleftrightarrow> distinct (order m) \<and> set (order m) = dom (seen m) \<and> length (order m) \<le> max_ids m \<and> 0 < window m"

lemma evict_shape:
  "evict cutoff sn ord = (sn', ord') \<Longrightarrow> distinct ord \<Longrightarrow> set ord = dom sn \<Longrightarrow>
   distinct ord' \<and> set ord' = dom sn' \<and> length ord' \<le> length ord \<and> (\<forall>i a. sn' i = Some a \<longrightarrow> sn i = Some a)"
proof (induction cutoff sn ord rule: evict.induct)
  case (2 cutoff sn oldest rest)
  have eq: "(\<lambda>a. if a = oldest then None else sn a) = sn(oldest := None)" by (rule ext) simp
  from 2 have "oldest \<in> dom sn" by (metis list.set_intros(1))
  then obtain t where t: "sn oldest = Some t" by blast
  show ?case
  proof (cases "t > cutoff")
    case True
    then show ?thesis using 2 t by auto
  next
    case False
    have "set rest = dom (sn(oldest := None))" using "2.prems" by auto
    then have "distinct ord' \<and> set ord' = dom sn' \<and> length ord' \<le> length rest
        \<and> (\<forall>i a. sn' i = Some a \<longrightarrow> (sn(oldest := None)) i = Some a)"
      using "2.IH"(2) [OF t False] "2.prems" t False by (simp only: eq evict.simps option.case if_False distinct.simps simp_thms) blast
    then show ?thesis by (auto split: if_splits)
  qed
qed auto

lemma guard_inv_check:
  assumes "guard_inv m" "memory_check now i at m = (m', r)"
  shows "guard_inv m'"
proof -
  obtain sn ord where e: "evict (now - window m) (seen m) (order m) = (sn, ord)" by fastforce
  have "distinct ord \<and> set ord = dom sn \<and> length ord \<le> length (order m)"
    using evict_shape [OF e] assms(1) by (simp add: guard_inv_def)
  then show ?thesis
    using assms e by (auto simp: memory_check_def guard_inv_def Let_def split: if_splits)
qed

lemma guard_inv_new: "guard_inv (new_memory_replay w mx)"
  by (simp add: guard_inv_def new_memory_replay_def default_window_def second_def)

text \<open>A guard as a sequence of checks leaves it, each at its own clock reading.\<close>

definition guard_after :: "int \<Rightarrow> int \<Rightarrow> (int \<times> string \<times> int) list \<Rightarrow> MemoryReplay" where
  "guard_after w mx calls = fst (memguard.run_checks (new_memory_replay w mx) calls)"

lemma guard_inv_run: "guard_inv m \<Longrightarrow> guard_inv (fst (memguard.run_checks m calls))"
proof (induction m calls rule: memguard.run_checks.induct)
  case (2 g now i at calls)
  obtain g' r where c: "memory_check now i at g = (g', r)" by fastforce
  obtain g'' rs where rn: "memguard.run_checks g' calls = (g'', rs)" by fastforce
  show ?case using "2.IH" [OF c [symmetric]] guard_inv_check [OF "2.prems" c] rn c by simp
qed simp

text \<open>
  the guard's memory is bounded: after any sequence of checks it holds each identifier once,
  exactly those it remembers a timestamp for, and never more than its limit.
\<close>

theorem guard_bounded:
  "distinct (order (guard_after w mx calls)) \<and> set (order (guard_after w mx calls)) = dom (seen (guard_after w mx calls))
   \<and> length (order (guard_after w mx calls)) \<le> max_ids (guard_after w mx calls)"
  using guard_inv_run [OF guard_inv_new, of w mx calls] by (simp add: guard_inv_def guard_after_def)

text \<open>
  an identifier the guard accepted with a timestamp is refused as a replay at every later
  clock reading at which the timestamp lies inside the guard's window, whatever else was checked in
  between.
\<close>

theorem guard_refuses_replay:
  assumes "memory_check t0 i at g = (g1, None)"
    and "list_all (\<lambda>c. fst c \<le> now) calls" "now - window g < at"
  shows "snd (memory_check now i at' (fst (memguard.run_checks g1 calls))) = Some ErrReplay"
  using memguard.accepted_once [OF assms(1), of calls now at'] assms(2,3) by (simp add: list_all_iff)

lemma guard_refuses_replay_witness:
  "snd (memory_check 9 ''e'' 5 (fst (memguard.run_checks (fst (memory_check 3 ''e'' 5 (new_memory_replay 10 2))) [(4, ''f'', 4)])))
     = Some ErrReplay"
  by (rule guard_refuses_replay [of 3 _ 5 "new_memory_replay 10 2"])
     (simp_all add: memory_check_def new_memory_replay_def)

text \<open>
  the guard can report that it is full of events still inside the window when it is not. An
  entry with a timestamp ahead of the clock keeps every later entry from being evicted, so here the
  guard of two refuses a new event although one of the two has left its window. The comment on
  \<open>memoryReplay\<close> says it refuses only when all of them are inside.
\<close>

theorem guard_full_with_expired:
  "let m = guard_after 10 2 [(0, ''ahead'', 9), (0, ''old'', -5)] in
     snd (memory_check 8 ''new'' 8 m) = Some ErrReplayGuardFull \<and> seen m ''old'' = Some (-5) \<and> -5 \<le> 8 - window m"
  by (simp add: guard_after_def memory_check_def new_memory_replay_def Let_def)

section \<open>Signing and verifying\<close>

lemma from_apply: "from_request (apply_headers h hdr) = h"
  by (simp add: from_request_def apply_headers_def header_get_def)

lemma sync_mac_inj: "sync_mac key m = sync_mac key m' \<longleftrightarrow> hmac_sha256 key m = hmac_sha256 key m'"
  by (simp add: sync_mac_def hex.enc_inj)

text \<open>No field of an accepted request holds a line feed, so the canonical form separates them.\<close>

lemma digit_not_nl: "is_digit c \<Longrightarrow> c \<noteq> nl"
  by (auto simp: is_digit_def nl_def)

lemma get_num_set: "get_num f s = Some (n, r) \<Longrightarrow> \<exists>p. s = p @ r \<and> list_all is_digit p"
proof -
  assume g: "get_num f s = Some (n, r)"
  then have "digit_at s 0" by (auto simp: get_num_def split: if_splits)
  moreover have "r = drop 1 s \<or> (r = drop 2 s \<and> digit_at s 1)"
    using g by (auto simp: get_num_def split: if_splits)
  ultimately show ?thesis
    by (cases s; cases "tl s") (auto simp: digit_at_def intro: exI [of _ "take 1 s"] exI [of _ "take 2 s"])
qed

lemma get_lit_eq: "get_lit c s = Some r \<longleftrightarrow> s = c # r"
  by (cases s) (auto simp: get_lit_def)

lemma get_year_set: "get_year s = Some (y, r) \<Longrightarrow> \<exists>p. s = p @ r \<and> list_all is_digit p"
  by (rule exI [of _ "take 4 s"]) (auto simp: get_year_def split: if_splits)

lemma get_fraction_set:
  "get_fraction s = (n, r) \<Longrightarrow> \<exists>p. s = p @ r \<and> nl \<notin> set p"
proof (cases "2 \<le> length s \<and> (s ! 0 = CHR ''.'' \<or> s ! 0 = CHR '','') \<and> digit_at s 1")
  case True
  assume g: "get_fraction s = (n, r)"
  obtain c t where s: "s = c # t" using True by (cases s) auto
  have r: "r = drop (length (takeWhile is_digit t)) t" using g True by (auto simp: get_fraction_def Let_def s)
  have "t = takeWhile is_digit t @ r" unfolding r by (metis dropWhile_eq_drop takeWhile_dropWhile_id)
  moreover have "nl \<notin> set (takeWhile is_digit t)" by (auto dest!: set_takeWhileD digit_not_nl)
  moreover have "c \<noteq> nl" using True by (auto simp: s nl_def)
  ultimately show ?thesis using s by (intro exI [of _ "c # takeWhile is_digit t"]) auto
qed (auto simp: get_fraction_def)

lemma get_zone_set:
  assumes "get_zone s = Some (z, r)"
  shows "\<exists>p. s = p @ r \<and> nl \<notin> set p"
proof (cases "s \<noteq> [] \<and> hd s = CHR ''Z''")
  case True
  then show ?thesis using assms by (intro exI [of _ "''Z''"]) (cases s; auto simp: get_zone_def nl_def)
next
  case False
  then have l: "6 \<le> length s" "s ! 3 = CHR '':''" using assms by (auto simp: get_zone_def split: if_splits)
  then obtain a b c d e f t where s: "s = a # b # c # d # e # f # t"
    by (auto simp: numeral_eq_Suc Suc_le_length_iff)
  have "is_digit b" "is_digit c" "is_digit e" "is_digit f" "a = CHR ''+'' \<or> a = CHR ''-''" "r = t" "d = CHR '':''"
    using assms False l by (auto simp: get_zone_def s get_num_def digit_at_def split: if_splits)
  then show ?thesis
    by (intro exI [of _ "[a, b, c, d, e, f]"]) (auto simp: s dest: digit_not_nl simp: nl_def is_digit_def)
qed

lemma obind_eq_Some: "obind m f = Some y \<longleftrightarrow> (\<exists>x. m = Some x \<and> f x = Some y)"
  by (cases m) (auto simp: obind_def)

lemma digits_not_nl: "list_all is_digit p \<Longrightarrow> nl \<notin> set p"
  by (auto simp: list_all_iff dest: digit_not_nl)

lemma parse_no_nl: "rfc3339_parse s = Some t \<Longrightarrow> nl \<notin> set s"
proof -
  assume p: "rfc3339_parse s = Some t"
  obtain y s1 s2 mo s3 s4 d s5 s6 h s7 s8 mi s9 s10 sec s11 where
    g: "get_year s = Some (y, s1)" "get_lit (CHR ''-'') s1 = Some s2" "get_num True s2 = Some (mo, s3)"
    "get_lit (CHR ''-'') s3 = Some s4" "get_num True s4 = Some (d, s5)" "get_lit (CHR ''T'') s5 = Some s6"
    "get_num False s6 = Some (h, s7)" "get_lit (CHR '':'') s7 = Some s8" "get_num True s8 = Some (mi, s9)"
    "get_lit (CHR '':'') s9 = Some s10" "get_num True s10 = Some (sec, s11)"
    and rest: "(case get_fraction s11 of (ns, s) \<Rightarrow> obind (get_zone s) (\<lambda>(zone, s).
       if s \<noteq> [] then None else if d < 1 \<or> month_days y mo < d then None
       else Some (instant_of y mo d h mi sec ns zone))) = Some t"
    using p unfolding rfc3339_parse_def obind_eq_Some by (clarsimp split: if_splits simp: obind_eq_Some)
  obtain ns s12 where f: "get_fraction s11 = (ns, s12)" by fastforce
  with rest obtain z s13 where z: "get_zone s12 = Some (z, s13)" "s13 = []"
    by (auto simp: obind_eq_Some split: if_splits)
  note sets = get_year_set [OF g(1)] get_num_set [OF g(3)] get_num_set [OF g(5)] get_num_set [OF g(7)]
    get_num_set [OF g(9)] get_num_set [OF g(11)] get_fraction_set [OF f] get_zone_set [OF z(1)]
  have "nl \<notin> set s12" using sets(8) z(2) by auto
  then have "nl \<notin> set s11" using sets(7) by auto
  then have "nl \<notin> set s10" using sets(6) digits_not_nl by auto
  then have "nl \<notin> set s8" using sets(5) digits_not_nl g(10) by (auto simp: get_lit_eq nl_def)
  then have "nl \<notin> set s6" using sets(4) digits_not_nl g(8) by (auto simp: get_lit_eq nl_def)
  then have "nl \<notin> set s4" using sets(3) digits_not_nl g(6) by (auto simp: get_lit_eq nl_def)
  then have "nl \<notin> set s2" using sets(2) digits_not_nl g(4) by (auto simp: get_lit_eq nl_def)
  then show ?thesis using sets(1) digits_not_nl g(2) by (auto simp: get_lit_eq nl_def)
qed

lemma cut_unique:
  fixes p q :: string
  assumes "p @ c # q = p' @ c # q'" "c \<notin> set p" "c \<notin> set p'"
  shows "p = p' \<and> q = q'"
proof -
  have "cut_at c (p @ c # q) = Some (p, q)" "cut_at c (p @ c # q) = Some (p', q')"
    using assms by (simp_all add: cut_at_eq)
  then show ?thesis by simp
qed

lemma canonical_inj:
  assumes "canonical ts ty i body = canonical ts' ty' i' body'"
    "nl \<notin> set ts" "nl \<notin> set ts'" "nl \<notin> set ty" "nl \<notin> set ty'" "nl \<notin> set i" "nl \<notin> set i'"
  shows "ts = ts' \<and> ty = ty' \<and> i = i' \<and> sha256 body = sha256 body'"
proof -
  have e: "ts @ nl # (ty @ nl # (i @ nl # hex_encode (sha256 body))) = ts' @ nl # (ty' @ nl # (i' @ nl # hex_encode (sha256 body')))"
    using assms(1) unfolding canonical_def bytes_of_inj by simp
  note c1 = cut_unique [OF e assms(2,3)]
  note c2 = cut_unique [OF conjunct2 [OF c1] assms(4,5)]
  note c3 = cut_unique [OF conjunct2 [OF c2] assms(6,7)]
  show ?thesis using c1 c2 c3 by (simp add: hex.enc_inj)
qed

text \<open>The window a request must fall in, and what an accepted request satisfies.\<close>

definition in_window :: "int \<Rightarrow> int \<Rightarrow> int \<Rightarrow> bool" where
  "in_window opt_window now at \<longleftrightarrow>
     (let w = (if opt_window = 0 then default_window else opt_window); d = sat64 (now - at)
      in wrap64 (- w) \<le> d \<and> d \<le> w)"

definition genuine :: "bytes \<Rightarrow> Headers \<Rightarrow> bytes \<Rightarrow> bool" where
  "genuine key h body \<longleftrightarrow> min_sync_key \<le> length key \<and> \<not> bad_fields (EventType h) (EventID h)
     \<and> rfc3339_parse (Timestamp h) \<noteq> None
     \<and> Signature h = sync_mac key (canonical (Timestamp h) (EventType h) (EventID h) body)"

lemma verify_accepts:
  assumes "verify_request key h body ow now guard g = (g', Inr ev)"
  shows "genuine key h body \<and> rfc3339_parse (Timestamp h) = Some (At ev) \<and> in_window ow now (At ev)
    \<and> Type ev = EventType h \<and> ID ev = EventID h
    \<and> (case guard of None \<Rightarrow> g' = g | Some check \<Rightarrow> check (EventID h) (At ev) g = (g', None))"
  using assms unfolding verify_request_def
  by (auto simp: Let_def genuine_def in_window_def not_less split: if_splits option.splits prod.splits)

lemma verify_genuine:
  assumes "genuine key h body" "rfc3339_parse (Timestamp h) = Some at" "in_window ow now at"
  shows "verify_request key h body ow now guard g =
    (case guard of None \<Rightarrow> (g, Inr \<lparr>Type = EventType h, ID = EventID h, At = at\<rparr>)
     | Some check \<Rightarrow> (case check (EventID h) at g of
         (g', Some e) \<Rightarrow> (g', Inl e) | (g', None) \<Rightarrow> (g', Inr \<lparr>Type = EventType h, ID = EventID h, At = at\<rparr>)))"
proof -
  have "Signature h \<noteq> []" using assms(1) by (simp add: genuine_def sync_mac_def)
  then show ?thesis
    using assms by (simp add: verify_request_def Let_def genuine_def in_window_def)
qed

text \<open>
  \<open>Verify\<close> without a guard accepts exactly the requests whose key is long enough, whose event
  type and ID are present and without line breaks, whose timestamp parses and lies in the window
  around the receiver's clock, and whose signature is the MAC of their own timestamp, type, ID and
  body; and it reports exactly these.
\<close>

theorem verify_accepts_iff:
  "verify_request key h body ow now None g = (g', Inr ev) \<longleftrightarrow>
     genuine key h body \<and> rfc3339_parse (Timestamp h) = Some (At ev) \<and> in_window ow now (At ev)
     \<and> ev = \<lparr>Type = EventType h, ID = EventID h, At = At ev\<rparr> \<and> g' = g"
  (is "?l \<longleftrightarrow> ?r")
proof
  assume ?l
  from verify_accepts [OF this] show ?r by simp
next
  assume r: ?r
  then have "verify_request key h body ow now None g = (g, Inr \<lparr>Type = EventType h, ID = EventID h, At = At ev\<rparr>)"
    by (subst verify_genuine) auto
  with r show ?l by metis
qed

lemma sign_genuine:
  assumes "sign key at ty i body = Inr h" "four_digit_year at"
  shows "genuine key h body \<and> rfc3339_parse (Timestamp h) = Some (unix at * second)
    \<and> EventType h = ty \<and> EventID h = i"
  using assms rfc3339_round_trip [OF assms(2)]
  by (auto simp: sign_def genuine_def Let_def not_less split: if_splits)

text \<open>
  what \<open>Sign\<close> signs, \<open>Verify\<close> accepts: under the same key and body, with the headers carried
  over HTTP, at any receiver clock whose window holds the signing second.
\<close>

theorem sign_then_verify:
  assumes "sign key at ty i body = Inr h" "four_digit_year at" "in_window ow now (unix at * second)"
  shows "verify_request key (from_request (apply_headers h hdr)) body ow now None g =
    (g, Inr \<lparr>Type = ty, ID = i, At = unix at * second\<rparr>)"
  using sign_genuine [OF assms(1,2)] assms(3) by (simp add: from_apply verify_genuine)

lemma example_sign:
  "\<exists>h. sign (replicate 16 1) 0 ''user.updated'' ''e1'' [] = Inr h"
  by (simp add: sign_def min_sync_key_def bad_fields_def nl_def Let_def)

lemma year_1970: "four_digit_year 0"
  by (rule four_digit_year_near) (simp_all add: unix_def second_def)

lemma sign_then_verify_witness:
  "\<exists>h. sign (replicate 16 1) 0 ''user.updated'' ''e1'' [] = Inr h
     \<and> verify_request (replicate 16 1) (from_request (apply_headers h (\<lambda>_. []))) [] 0 second None () =
         ((), Inr \<lparr>Type = ''user.updated'', ID = ''e1'', At = 0\<rparr>)"
proof -
  obtain h where h: "sign (replicate 16 1) 0 ''user.updated'' ''e1'' [] = Inr h" using example_sign by blast
  have "in_window 0 second (unix 0 * second)"
    by (simp add: in_window_def unix_def second_def default_window_def sat64_def wrap64_def max_int64_def min_int64_def)
  from sign_then_verify [OF h year_1970 this] h show ?thesis by (simp add: unix_def)
qed

text \<open>
  C15: a signature binds every field. If two requests accepted under one key carry the same
  signature, they agree in timestamp, event type, event ID and body, unless their canonical texts collide
  under HMAC-SHA-256 or their bodies under SHA-256: a captured event cannot be replayed as another type, ID, time or content.
\<close>

theorem signature_binds_request:
  assumes "verify_request key h body ow now guard g = (g1, Inr ev)"
    and "verify_request key h' body' ow' now' guard' g' = (g2, Inr ev')"
    and "Signature h = Signature h'"
  shows "Timestamp h = Timestamp h' \<and> EventType h = EventType h' \<and> EventID h = EventID h' \<and> body = body'
    \<or> (let m = canonical (Timestamp h) (EventType h) (EventID h) body; m' = canonical (Timestamp h') (EventType h') (EventID h') body'
       in m \<noteq> m' \<and> hmac_sha256 key m = hmac_sha256 key m')
    \<or> (body \<noteq> body' \<and> sha256 body = sha256 body')"
proof -
  have g: "genuine key h body" "genuine key h' body'" using verify_accepts [OF assms(1)] verify_accepts [OF assms(2)] by auto
  let ?m = "canonical (Timestamp h) (EventType h) (EventID h) body"
  let ?m' = "canonical (Timestamp h') (EventType h') (EventID h') body'"
  have mac: "hmac_sha256 key ?m = hmac_sha256 key ?m'"
    using g assms(3) by (simp add: genuine_def sync_mac_inj)
  have ts: "nl \<notin> set (Timestamp h)" "nl \<notin> set (Timestamp h')"
    using g by (auto simp: genuine_def dest: parse_no_nl)
  have f: "nl \<notin> set (EventType h)" "nl \<notin> set (EventType h')" "nl \<notin> set (EventID h)" "nl \<notin> set (EventID h')"
    using g by (auto simp: genuine_def bad_fields_def list_ex_iff)
  show ?thesis
  proof (cases "?m = ?m'")
    case True
    from canonical_inj [OF this ts f] show ?thesis by auto
  next
    case False
    with mac show ?thesis by (simp add: Let_def)
  qed
qed

lemma signature_binds_request_witness:
  "\<exists>h. (\<exists>ev. verify_request (replicate 16 1) h [] 0 second None () = ((), Inr ev))
     \<and> (EventID h = EventID h
        \<or> (let m = canonical (Timestamp h) (EventType h) (EventID h) [] in m \<noteq> m \<and> hmac_sha256 (replicate 16 1) m = hmac_sha256 (replicate 16 1) m)
        \<or> ([] :: bytes) \<noteq> [] \<and> sha256 [] = sha256 [])"
proof -
  obtain h where h: "sign (replicate 16 1) 0 ''user.updated'' ''e1'' [] = Inr h" using example_sign by blast
  have "in_window 0 second (unix 0 * second)"
    by (simp add: in_window_def unix_def second_def default_window_def sat64_def wrap64_def max_int64_def min_int64_def)
  then have v: "verify_request (replicate 16 1) h [] 0 second None () = ((), Inr \<lparr>Type = ''user.updated'', ID = ''e1'', At = 0\<rparr>)"
    using sign_genuine [OF h year_1970] by (simp add: verify_genuine unix_def)
  from signature_binds_request [OF v v refl] v show ?thesis by blast
qed

section \<open>Replays\<close>

text \<open>
  C9: an event that \<open>Verify\<close> accepted with the in-memory guard is not accepted again, by this
  receiver or another one on the same guard, with whatever headers, body, key or window the ID
  comes back, as long as the guard's clock keeps its timestamp strictly inside the guard's window.
\<close>

theorem accepted_event_not_replayed:
  assumes "verify_request key h body ow now0 (Some (memory_check t0)) m = (m1, Inr ev)"
    and "list_all (\<lambda>c. fst c \<le> t) calls" "t - window m < At ev" "EventID h' = ID ev"
  shows "\<not> is_ok (snd (verify_request key' h' body' ow' now' (Some (memory_check t))
    (fst (memguard.run_checks m1 calls))))"
proof -
  define m2 where "m2 = fst (memguard.run_checks m1 calls)"
  have "memory_check t0 (EventID h) (At ev) m = (m1, None)" and i: "EventID h' = EventID h"
    using verify_accepts [OF assms(1)] assms(4) by auto
  then have r: "snd (memory_check t (EventID h') at' m2) = Some ErrReplay" for at'
    unfolding m2_def i using assms(2,3) by (intro memguard.accepted_once) (auto simp: list_all_iff)
  have "snd (verify_request key' h' body' ow' now' (Some (memory_check t)) m2) \<noteq> Inr ev'" for ev'
  proof
    assume "snd (verify_request key' h' body' ow' now' (Some (memory_check t)) m2) = Inr ev'"
    then obtain m3 where "verify_request key' h' body' ow' now' (Some (memory_check t)) m2 = (m3, Inr ev')"
      by (metis prod.collapse)
    from verify_accepts [OF this] r [of "At ev'"] show False by simp
  qed
  then show ?thesis by (auto simp: is_ok_iff m2_def)
qed

lemma example_window: "in_window 0 0 (unix 0 * second)" "in_window 0 default_window (unix 0 * second)"
  by (simp_all add: in_window_def unix_def second_def default_window_def sat64_def wrap64_def max_int64_def min_int64_def)

lemma example_accept:
  assumes "sign (replicate 16 1) 0 ''user.updated'' ''e1'' [] = Inr h"
  shows "verify_request (replicate 16 1) h [] 0 0 (Some (memory_check 0)) (new_memory_replay 0 0)
    = ((new_memory_replay 0 0)\<lparr>seen := [''e1'' \<mapsto> 0], order := [''e1'']\<rparr>, Inr \<lparr>Type = ''user.updated'', ID = ''e1'', At = 0\<rparr>)"
proof -
  have c: "memory_check 0 ''e1'' 0 (new_memory_replay 0 0) = ((new_memory_replay 0 0)\<lparr>seen := [''e1'' \<mapsto> 0], order := [''e1'']\<rparr>, None)"
    by (simp add: memory_check_def new_memory_replay_def)
  show ?thesis
    using sign_genuine [OF assms year_1970] example_window(1) c by (simp add: verify_genuine unix_def)
qed

lemma accepted_event_not_replayed_witness:
  "\<exists>h. is_ok (snd (verify_request (replicate 16 1) h [] 0 0 (Some (memory_check 0)) (new_memory_replay 0 0)))
     \<and> \<not> is_ok (snd (verify_request (replicate 16 1) h [] 0 second (Some (memory_check second))
            (fst (memguard.run_checks ((new_memory_replay 0 0)\<lparr>seen := [''e1'' \<mapsto> 0], order := [''e1'']\<rparr>) []))))"
proof -
  obtain h where h: "sign (replicate 16 1) 0 ''user.updated'' ''e1'' [] = Inr h" using example_sign by blast
  have "EventID h = ''e1''" using sign_genuine [OF h year_1970] by simp
  then show ?thesis
    using accepted_event_not_replayed [OF example_accept [OF h], of second "[]" h "replicate 16 1" "[]" 0 second]
      example_accept [OF h]
    by (intro exI [of _ h]) (simp add: new_memory_replay_def default_window_def second_def)
qed

text \<open>
  at the edge of the window a captured request is accepted twice. \<open>Verify\<close> accepts a timestamp
  exactly one window old, and a guard with the same window has by then evicted its ID, so with the
  default window on both sides the identical request passes at the signing second and again five
  minutes later: the guard's window has to exceed the verifier's.
\<close>

theorem replay_at_window_edge:
  "\<exists>h m1. verify_request (replicate 16 1) h [] 0 0 (Some (memory_check 0)) (new_memory_replay 0 0)
        = (m1, Inr \<lparr>Type = ''user.updated'', ID = ''e1'', At = 0\<rparr>)
     \<and> snd (verify_request (replicate 16 1) h [] 0 default_window (Some (memory_check default_window)) m1)
        = Inr \<lparr>Type = ''user.updated'', ID = ''e1'', At = 0\<rparr>"
proof -
  obtain h where h: "sign (replicate 16 1) 0 ''user.updated'' ''e1'' [] = Inr h" using example_sign by blast
  have c: "memory_check default_window ''e1'' 0 ((new_memory_replay 0 0)\<lparr>seen := [''e1'' \<mapsto> 0], order := [''e1'']\<rparr>)
      = ((new_memory_replay 0 0)\<lparr>seen := [''e1'' \<mapsto> 0], order := [''e1'']\<rparr>, None)"
    by (simp add: memory_check_def new_memory_replay_def)
  have "snd (verify_request (replicate 16 1) h [] 0 default_window (Some (memory_check default_window))
      ((new_memory_replay 0 0)\<lparr>seen := [''e1'' \<mapsto> 0], order := [''e1'']\<rparr>)) = Inr \<lparr>Type = ''user.updated'', ID = ''e1'', At = 0\<rparr>"
    using sign_genuine [OF h year_1970] example_window(2) c by (simp add: verify_genuine unix_def)
  with example_accept [OF h] show ?thesis by blast
qed

section \<open>The middleware\<close>

text \<open>
  the handler behind the middleware runs only for a request that was verified under the key the
  receiver resolved, and it is given exactly the bytes that were signed, within the body limit. A
  key that cannot be resolved, or is too short, rejects every request.
\<close>

theorem middleware_passes_only_verified:
  assumes "middleware key_fn ow now guard opt_max hdr req_body g = (g', PassedOn ev body)"
  shows "\<exists>key. key_fn hdr = Some key \<and> genuine key (from_request hdr) body
    \<and> ID ev = EventID (from_request hdr) \<and> in_window ow now (At ev)
    \<and> take (length body) (fst req_body) = body
    \<and> int (length body) \<le> (if opt_max \<le> 0 then default_max_body else opt_max)"
proof -
  let ?max = "if opt_max \<le> 0 then default_max_body else opt_max"
  obtain key where k: "key_fn hdr = Some key" "limited_read (wrap64 (?max + 1)) req_body = Some body"
    "int (length body) \<le> ?max"
    and v: "verify_request key (from_request hdr) body ow now guard g = (g', Inr ev)"
    using assms unfolding middleware_def Let_def
    by (auto simp: not_less split: option.splits if_splits prod.splits sum.splits)
  have "take (length body) (fst req_body) = body"
    using k(2) by (auto simp: limited_read_def split: if_splits)
  with k verify_accepts [OF v] show ?thesis by auto
qed

lemma middleware_passes_only_verified_witness:
  "\<exists>h ev. middleware (\<lambda>_. Some (replicate 16 1)) 0 second None 0 (apply_headers h (\<lambda>_. [])) ([], False) () = ((), PassedOn ev [])
     \<and> (\<exists>key. (\<lambda>_. Some (replicate 16 1)) (apply_headers h (\<lambda>_. [])) = Some key \<and> genuine key h [])"
proof -
  obtain h where h: "sign (replicate 16 1) 0 ''user.updated'' ''e1'' [] = Inr h" using example_sign by blast
  have "in_window 0 second (unix 0 * second)"
    by (simp add: in_window_def unix_def second_def default_window_def sat64_def wrap64_def max_int64_def min_int64_def)
  then have v: "verify_request (replicate 16 1) h [] 0 second None () = ((), Inr \<lparr>Type = ''user.updated'', ID = ''e1'', At = 0\<rparr>)"
    using sign_genuine [OF h year_1970] by (simp add: verify_genuine unix_def)
  then have m: "middleware (\<lambda>_. Some (replicate 16 1)) 0 second None 0 (apply_headers h (\<lambda>_. [])) ([], False) ()
      = ((), PassedOn \<lparr>Type = ''user.updated'', ID = ''e1'', At = 0\<rparr> [])"
    by (simp add: middleware_def from_apply min_sync_key_def limited_read_def default_max_body_def wrap64_def)
  from middleware_passes_only_verified [OF m] m show ?thesis by (auto simp: from_apply)
qed

end
