(* ===== verification/RecoveryCode.thy ===== *)
theory RecoveryCode
  imports Prelude Codec GoStrings
begin

text \<open>
  \<open>recoverycode/recoverycode.go\<close>: generating distinct codes from a supply of random bytes, the
  normal form both sides of a comparison agree on, and the lookup of a redeemed code. Unicode's
  lower-case table is the parameter \<open>lo\<close>; on ASCII the code's behaviour does not depend on it.
\<close>

section \<open>Generation\<close>

datatype code_error = CountOutside int | CodeEntropy

definition alphabet :: string where
  "alphabet = ''0123456789abcdefghijklmnopqrstuv''"

definition symbols :: nat where
  "symbols = 12"

definition group_size :: nat where
  "group_size = 4"

definition max_codes :: int where
  "max_codes = 1000"

text \<open>One code: a symbol per random byte, a dash before every group but the first.\<close>

definition format_code :: "bytes \<Rightarrow> string" where
  "format_code raw = concat (map (\<lambda>(i, v).
     (if 0 < i \<and> i mod group_size = 0 then ''-'' else []) @ [alphabet ! (unat v mod length alphabet)])
     (enumerate 0 raw))"

text \<open>The loop until \<open>n\<close> codes are drawn; a repeated code is drawn again.\<close>

function generate_loop :: "nat \<Rightarrow> string list \<Rightarrow> bytes \<Rightarrow> (string list \<times> bytes) option" where
  "generate_loop n codes rnd =
     (if n \<le> length codes then Some (codes, rnd)
      else if length rnd < symbols then None
      else let code = format_code (take symbols rnd) in
           if code \<in> set codes then generate_loop n codes (drop symbols rnd)
           else generate_loop n (codes @ [code]) (drop symbols rnd))"
  by pat_completeness auto
termination by (relation "measure (\<lambda>(n, codes, rnd). length rnd)") (auto simp: symbols_def)

declare generate_loop.simps [simp del]

definition generate :: "int \<Rightarrow> bytes \<Rightarrow> code_error + string list" where
  "generate n rnd =
     (if n < 1 \<or> n > max_codes then Inl (CountOutside n)
      else case generate_loop (nat n) [] rnd of
        None \<Rightarrow> Inl CodeEntropy
      | Some (codes, _) \<Rightarrow> Inr codes)"

section \<open>Normalising and matching\<close>

text \<open>\<open>Normalize\<close>: lower case, without surrounding space, dashes and spaces.\<close>

definition normalize :: "(nat \<Rightarrow> nat) \<Rightarrow> string \<Rightarrow> string" where
  "normalize lo code =
     concat (map (\<lambda>(r, _). if r = of_char (CHR ''-'') \<or> r = of_char (CHR '' '') then [] else encode_rune r)
       (runes (to_lower lo (trim_space code))))"

text \<open>\<open>MatchDigest\<close>: one pass over all entries that keeps the first hit.\<close>

fun match_loop :: "string \<Rightarrow> nat \<Rightarrow> nat option \<Rightarrow> string list \<Rightarrow> nat option" where
  "match_loop candidate i found [] = found"
| "match_loop candidate i found (h # hs) =
     (if h = [] then match_loop candidate (Suc i) found hs
      else if h = candidate \<and> found = None then match_loop candidate (Suc i) (Some i) hs
      else match_loop candidate (Suc i) found hs)"

definition match_digest :: "string \<Rightarrow> string list \<Rightarrow> nat option" where
  "match_digest candidate digests =
     (if candidate = [] then None else match_loop candidate 0 None digests)"

definition match_code :: "(nat \<Rightarrow> nat) \<Rightarrow> string \<Rightarrow> string list \<Rightarrow> (string \<Rightarrow> string) \<Rightarrow> nat option" where
  "match_code lo code digests hash =
     (let normalized = normalize lo code in
      if normalized = [] then None else match_digest (hash normalized) digests)"

section \<open>Codes\<close>

lemma length_alphabet [simp]: "length alphabet = 32"
  by (simp add: alphabet_def)

definition code_symbol :: "u8 \<Rightarrow> char" where
  "code_symbol v = alphabet ! (unat v mod 32)"

lemma alphabet_char: "k < 32 \<Longrightarrow> alphabet ! k \<in> set alphabet"
  by simp

lemma code_symbol_in: "code_symbol v \<in> set alphabet"
  unfolding code_symbol_def by (rule alphabet_char) simp

lemma alphabet_plain: "c \<in> set alphabet \<Longrightarrow> is_ascii c \<and> ascii_lower c = c \<and> c \<noteq> CHR ''-'' \<and> c \<noteq> CHR '' ''
    \<and> \<not> is_space (of_char c)"
  by (auto simp: alphabet_def is_ascii_def ascii_lower_def is_space_def)

lemma format_code_12:
  assumes "length raw = symbols"
  shows "\<exists>a b c. format_code raw = a @ ''-'' @ b @ ''-'' @ c \<and> map code_symbol raw = a @ b @ c
    \<and> length a = 4 \<and> length b = 4 \<and> length c = 4"
proof -
  obtain a0 a1 a2 a3 b0 b1 b2 b3 c0 c1 c2 c3 where raw: "raw = [a0, a1, a2, a3, b0, b1, b2, b3, c0, c1, c2, c3]"
    using assms by (auto simp: symbols_def numeral_eq_Suc length_Suc_conv)
  show ?thesis
    by (rule exI [of _ "map code_symbol [a0, a1, a2, a3]"], rule exI [of _ "map code_symbol [b0, b1, b2, b3]"],
        rule exI [of _ "map code_symbol [c0, c1, c2, c3]"])
       (simp add: raw format_code_def group_size_def code_symbol_def)
qed

section \<open>The normal form\<close>

definition is_sep :: "char \<Rightarrow> bool" where
  "is_sep c \<longleftrightarrow> c = CHR ''-'' \<or> c = CHR '' ''"

lemma char_eq_of_char: "of_char c = (of_char d :: nat) \<longleftrightarrow> c = d"
  by simp

lemma ascii_lower_ascii: "is_ascii c \<Longrightarrow> is_ascii (ascii_lower c)"
  by (auto simp: is_ascii_def ascii_lower_def Let_def)

lemma drop_seps: "list_all is_ascii s \<Longrightarrow>
    concat (map (\<lambda>(r, _). if r = of_char (CHR ''-'') \<or> r = of_char (CHR '' '') then [] else encode_rune r) (runes s))
      = filter (\<lambda>c. \<not> is_sep c) s"
  unfolding runes_ascii
  by (induction s) (auto simp: is_sep_def is_ascii_def char_eq_of_char simp del: of_char_Char)

lemma ascii_trim: "list_all is_ascii s \<Longrightarrow> list_all is_ascii (trim_space s)"
  using set_trim_both [of "\<lambda>c. is_space (of_char c)" s] by (auto simp: trim_space_ascii list_all_iff)

lemma normalize_ascii:
  assumes "list_all is_ascii s"
  shows "normalize lo s = filter (\<lambda>c. \<not> is_sep c) (map ascii_lower (trim_space s))"
proof -
  have "list_all is_ascii (map ascii_lower (trim_space s))"
    using ascii_trim [OF assms] by (auto simp: list_all_iff ascii_lower_ascii)
  then show ?thesis
    using ascii_trim [OF assms] unfolding normalize_def to_lower_def
    by (simp only: if_True drop_seps)
qed

text \<open>Trimming does not matter when the only white space is the space itself.\<close>

lemma filter_trim_both:
  "\<forall>x \<in> set xs. P x \<longrightarrow> \<not> Q x \<Longrightarrow> filter Q (trim_both P xs) = filter Q xs"
proof -
  assume pq: "\<forall>x \<in> set xs. P x \<longrightarrow> \<not> Q x"
  have d: "\<forall>x \<in> set ys. P x \<longrightarrow> \<not> Q x \<Longrightarrow> filter Q (dropWhile P ys) = filter Q ys" for ys
    by (induction ys) auto
  have "filter Q (trim_both P xs) = rev (filter Q (dropWhile P (rev (dropWhile P xs))))"
    by (simp add: trim_both_def rev_filter)
  also have "\<dots> = rev (filter Q (rev (dropWhile P xs)))"
    using pq by (subst d) (auto dest: set_dropWhileD)
  also have "\<dots> = filter Q xs" using pq by (simp add: rev_filter [symmetric] d)
  finally show ?thesis .
qed

lemma space_lower: "is_space (of_char (ascii_lower c)) \<longleftrightarrow> is_space (of_char c)"
  by (auto simp: ascii_lower_def Let_def is_space_def)

lemma normalize_typed:
  assumes "list_all (\<lambda>c. is_ascii c \<and> (is_space (of_char c) \<longrightarrow> c = CHR '' '')) s"
  shows "normalize lo s = filter (\<lambda>c. \<not> is_sep c) (map ascii_lower s)"
proof -
  have a: "list_all is_ascii s" using assms by (auto simp: list_all_iff)
  have "map ascii_lower (trim_space s) = trim_both (\<lambda>c. is_space (of_char c)) (map ascii_lower s)"
    by (simp add: trim_space_ascii [OF a] trim_both_map space_lower)
  moreover have "\<forall>c \<in> set (map ascii_lower s). is_space (of_char c) \<longrightarrow> is_sep c"
  proof
    fix c
    assume "c \<in> set (map ascii_lower s)"
    then obtain d where d: "d \<in> set s" "c = ascii_lower d" by auto
    show "is_space (of_char c) \<longrightarrow> is_sep c"
    proof
      assume "is_space (of_char c)"
      then have "d = CHR '' ''" using assms d by (auto simp: list_all_iff space_lower)
      then show "is_sep c" using d by (simp add: is_sep_def ascii_lower_def)
    qed
  qed
  ultimately show ?thesis by (simp add: normalize_ascii [OF a] filter_trim_both)
qed

lemma normalize_format_code:
  assumes "length raw = symbols"
  shows "normalize lo (format_code raw) = map code_symbol raw"
proof -
  obtain a b c where f: "format_code raw = a @ ''-'' @ b @ ''-'' @ c" "map code_symbol raw = a @ b @ c"
    using format_code_12 [OF assms] by blast
  have p: "is_ascii x \<and> ascii_lower x = x \<and> \<not> is_sep x \<and> \<not> is_space (of_char x)" if "x \<in> set (a @ b @ c)" for x
  proof -
    have "x \<in> set alphabet" using that code_symbol_in unfolding f(2) [symmetric] by auto
    then show ?thesis using alphabet_plain by (auto simp: is_sep_def)
  qed
  have "list_all (\<lambda>x. is_ascii x \<and> (is_space (of_char x) \<longrightarrow> x = CHR '' '')) (a @ ''-'' @ b @ ''-'' @ c)"
    using p by (auto simp: list_all_iff is_ascii_def is_space_def)
  then have "normalize lo (format_code raw) = filter (\<lambda>c. \<not> is_sep c) (map ascii_lower (a @ ''-'' @ b @ ''-'' @ c))"
    unfolding f(1) by (rule normalize_typed)
  also have "map ascii_lower (a @ ''-'' @ b @ ''-'' @ c) = a @ ''-'' @ b @ ''-'' @ c"
    using p by (intro map_idI) (auto simp: ascii_lower_def)
  also have "filter (\<lambda>c. \<not> is_sep c) (a @ ''-'' @ b @ ''-'' @ c) = a @ b @ c"
  proof -
    have "filter (\<lambda>c. \<not> is_sep c) y = y" if "y \<in> {a, b, c}" for y
      using p that by (intro filter_True) auto
    then show ?thesis by (simp add: is_sep_def)
  qed
  finally show ?thesis by (simp add: f(2))
qed

section \<open>What generation returns\<close>

definition is_code :: "string \<Rightarrow> bool" where
  "is_code c \<longleftrightarrow> (\<exists>raw. length raw = symbols \<and> c = format_code raw)"

lemma generate_loop_ok:
  "generate_loop n codes rnd = Some (codes', rnd') \<Longrightarrow> distinct codes \<Longrightarrow> list_all is_code codes \<Longrightarrow> length codes \<le> n \<Longrightarrow>
   distinct codes' \<and> list_all is_code codes' \<and> length codes' = n"
proof (induction n codes rnd rule: generate_loop.induct)
  case (1 n codes rnd)
  show ?case
  proof (cases "n \<le> length codes \<or> length rnd < symbols")
    case True
    then show ?thesis using "1.prems" by (auto simp: generate_loop.simps [of n codes rnd] split: if_splits)
  next
    case False
    define code where "code = format_code (take symbols rnd)"
    have "is_code code" using False by (auto simp: is_code_def code_def intro!: exI [of _ "take symbols rnd"])
    then show ?thesis
      using "1.prems" "1.IH" [OF _ _ code_def] False
      by (cases "code \<in> set codes") (simp_all add: generate_loop.simps [of n codes rnd] Let_def flip: code_def)
  qed
qed

lemma format_code_inj:
  assumes "is_code c" "is_code d" "normalize lo c = normalize lo d"
  shows "c = d"
proof -
  obtain r q where rq: "length r = symbols" "c = format_code r" "length q = symbols" "d = format_code q"
    using assms(1,2) by (auto simp: is_code_def)
  then have m: "map code_symbol r = map code_symbol q" using assms(3) by (simp add: normalize_format_code)
  obtain a b c' where f: "format_code r = a @ ''-'' @ b @ ''-'' @ c'" "map code_symbol r = a @ b @ c'"
    "length a = 4" "length b = 4" "length c' = 4" using format_code_12 [OF rq(1)] by blast
  obtain a' b' c'' where g: "format_code q = a' @ ''-'' @ b' @ ''-'' @ c''" "map code_symbol q = a' @ b' @ c''"
    "length a' = 4" "length b' = 4" "length c'' = 4" using format_code_12 [OF rq(3)] by blast
  have "a @ b @ c' = a' @ b' @ c''" using m f(2) g(2) by simp
  then show ?thesis using f(1,3-5) g(1,3-5) rq by (simp add: append_eq_append_conv)
qed

text \<open>
  \<open>Generate\<close> returns as many codes as asked for, each of the form \<open>xxxx-xxxx-xxxx\<close> over the
  alphabet, and they stay pairwise different in the normal form in which they are hashed.
\<close>

theorem generate_distinct:
  assumes "generate n rnd = Inr codes"
  shows "int (length codes) = n \<and> distinct (map (normalize lo) codes)
    \<and> list_all (\<lambda>c. length c = 14 \<and> length (normalize lo c) = symbols \<and> set (normalize lo c) \<subseteq> set alphabet) codes"
proof -
  obtain r where r: "generate_loop (nat n) [] rnd = Some (codes, r)" and n: "1 \<le> n"
    using assms by (auto simp: generate_def split: if_splits option.splits)
  then have g: "distinct codes" "list_all is_code codes" "length codes = nat n"
    using generate_loop_ok [OF r] by auto
  have "inj_on (normalize lo) (set codes)"
    using g(2) format_code_inj by (auto simp: inj_on_def list_all_iff)
  moreover have "length c = 14 \<and> length (normalize lo c) = symbols \<and> set (normalize lo c) \<subseteq> set alphabet" if c: "c \<in> set codes" for c
  proof -
    obtain raw where raw: "length raw = symbols" "c = format_code raw" using g(2) c by (auto simp: list_all_iff is_code_def)
    then show ?thesis
      using format_code_12 [OF raw(1)] code_symbol_in by (auto simp: normalize_format_code)
  qed
  ultimately show ?thesis using g n by (auto simp: distinct_map list_all_iff)
qed

text \<open>
  a code redeems however it is typed. Any ASCII input that spells the symbols of the code, in
  either case and with dashes and spaces anywhere or nowhere, is looked up exactly as the code
  itself, whatever the product's hash and the stored digests are.
\<close>

theorem typed_code_redeems:
  assumes "is_code code"
    and "list_all (\<lambda>c. is_ascii c \<and> (is_space (of_char c) \<longrightarrow> c = CHR '' '')) typed"
    and "filter (\<lambda>c. \<not> is_sep c) (map ascii_lower typed) = filter (\<lambda>c. \<not> is_sep c) code"
  shows "match_code lo typed digests hash = match_code lo code digests hash"
proof -
  obtain raw where raw: "length raw = symbols" "code = format_code raw" using assms(1) by (auto simp: is_code_def)
  obtain a b c where f: "code = a @ ''-'' @ b @ ''-'' @ c" "map code_symbol raw = a @ b @ c"
    using format_code_12 [OF raw(1)] raw(2) by blast
  have "\<not> is_sep x" if "x \<in> set (a @ b @ c)" for x
    using that code_symbol_in alphabet_plain unfolding f(2) [symmetric] is_sep_def by fastforce
  then have "filter (\<lambda>c. \<not> is_sep c) code = map code_symbol raw"
    unfolding f(1) f(2) by (auto simp: is_sep_def filter_id_conv)
  then have "normalize lo typed = normalize lo code"
    using assms(3) raw by (simp add: normalize_typed [OF assms(2)] normalize_format_code)
  then show ?thesis by (simp add: match_code_def)
qed

lemma typed_code_redeems_witness:
  "match_code id '' 0123 4567-89AB'' [''0123456789ab''] id = match_code id ''0123-4567-89ab'' [''0123456789ab''] id"
proof (rule typed_code_redeems)
  have "''0123-4567-89ab'' = format_code [0, 1, 2, 3, 4, 5, 6, 7, 8, 9, 10, 11]"
    by (simp add: format_code_def alphabet_def group_size_def)
  then show "is_code ''0123-4567-89ab''"
    by (auto simp: is_code_def symbols_def intro!: exI [of _ "[0, 1, 2, 3, 4, 5, 6, 7, 8, 9, 10, 11]"])
  have "char_of (97 :: nat) = CHR ''a''" "char_of (98 :: nat) = CHR ''b''" by code_simp+
  then show "filter (\<lambda>c. \<not> is_sep c) (map ascii_lower '' 0123 4567-89AB'') = filter (\<lambda>c. \<not> is_sep c) ''0123-4567-89ab''"
    by (simp add: is_sep_def ascii_lower_def)
qed (simp_all add: is_ascii_def is_space_def)

section \<open>Lookup\<close>

lemma match_loop_found: "match_loop candidate i (Some j) hs = Some j"
  by (induction hs arbitrary: i) auto

lemma match_loop_iff:
  "candidate \<noteq> [] \<Longrightarrow> match_loop candidate i None hs = Some k \<longleftrightarrow>
     (\<exists>j. k = i + j \<and> j < length hs \<and> hs ! j = candidate \<and> candidate \<notin> set (take j hs))"
proof (induction hs arbitrary: i)
  case (Cons h hs)
  show ?case
  proof (cases "h = candidate")
    case True
    then have "match_loop candidate i None (h # hs) = Some i" using Cons.prems by (simp add: match_loop_found)
    moreover have "j = 0" if "candidate \<notin> set (take j (h # hs))" for j using that True by (cases j) auto
    ultimately show ?thesis using True by auto
  next
    case False
    then have "match_loop candidate i None (h # hs) = match_loop candidate (Suc i) None hs" by simp
    also have "\<dots> = Some k \<longleftrightarrow> (\<exists>j. k = Suc i + j \<and> j < length hs \<and> hs ! j = candidate \<and> candidate \<notin> set (take j hs))"
      by (rule Cons.IH [OF Cons.prems])
    also have "\<dots> \<longleftrightarrow> (\<exists>j. k = i + j \<and> j < length (h # hs) \<and> (h # hs) ! j = candidate \<and> candidate \<notin> set (take j (h # hs)))"
    proof
      assume "\<exists>j. k = Suc i + j \<and> j < length hs \<and> hs ! j = candidate \<and> candidate \<notin> set (take j hs)"
      then obtain j where "k = Suc i + j" "j < length hs" "hs ! j = candidate" "candidate \<notin> set (take j hs)" by blast
      then show "\<exists>j. k = i + j \<and> j < length (h # hs) \<and> (h # hs) ! j = candidate \<and> candidate \<notin> set (take j (h # hs))"
        using False by (intro exI [of _ "Suc j"]) auto
    next
      assume "\<exists>j. k = i + j \<and> j < length (h # hs) \<and> (h # hs) ! j = candidate \<and> candidate \<notin> set (take j (h # hs))"
      then obtain j where j: "k = i + j" "j < length (h # hs)" "(h # hs) ! j = candidate" "candidate \<notin> set (take j (h # hs))" by blast
      then obtain j' where "j = Suc j'" using False by (cases j) auto
      with j show "\<exists>j. k = Suc i + j \<and> j < length hs \<and> hs ! j = candidate \<and> candidate \<notin> set (take j hs)"
        by (intro exI [of _ j']) auto
    qed
    finally show ?thesis .
  qed
qed simp

lemma match_digest_iff:
  "match_digest candidate digests = Some i \<longleftrightarrow>
     candidate \<noteq> [] \<and> i < length digests \<and> digests ! i = candidate \<and> candidate \<notin> set (take i digests)"
proof (cases "candidate = []")
  case False
  show ?thesis unfolding match_digest_def if_not_P [OF False] match_loop_iff [OF False] using False by simp
qed (simp add: match_digest_def)

text \<open>
  the single pass over all entries returns the position of the first entry equal to the
  candidate, and none when there is no such entry or the candidate is empty; an entry that was
  blanked, the mark of a redeemed code, never matches.
\<close>

theorem match_digest_first:
  "match_digest candidate digests = Some i \<longleftrightarrow>
     candidate \<noteq> [] \<and> i < length digests \<and> digests ! i = candidate \<and> candidate \<notin> set (take i digests)"
  by (rule match_digest_iff)

text \<open>
  redemption spends a code once. With codes as \<open>Generate\<close> returned them, enrolled under a hash
  that keeps their normal forms apart and is never empty, every code matches its own slot, and once
  that slot is blanked in place the code matches nothing.
\<close>

theorem redeem_once:
  assumes "generate n rnd = Inr codes" "i < length codes"
    and "inj_on hash (set (map (normalize lo) codes))" "[] \<notin> hash ` set (map (normalize lo) codes)"
  shows "match_code lo (codes ! i) (map (\<lambda>c. hash (normalize lo c)) codes) hash = Some i
    \<and> match_code lo (codes ! i) ((map (\<lambda>c. hash (normalize lo c)) codes)[i := []]) hash = None"
proof -
  obtain r where r: "generate_loop (nat n) [] rnd = Some (codes, r)"
    using assms(1) by (auto simp: generate_def split: if_splits option.splits)
  have g: "distinct codes" "list_all is_code codes" using generate_loop_ok [OF r] by auto
  let ?h = "\<lambda>c. hash (normalize lo c)"
  have ne: "normalize lo c \<noteq> []" if c: "c \<in> set codes" for c
    using g(2) c by (auto simp: list_all_iff is_code_def normalize_format_code symbols_def)
  have inj: "?h c = ?h d \<Longrightarrow> c = d" if "c \<in> set codes" "d \<in> set codes" for c d
  proof -
    assume "?h c = ?h d"
    moreover have "normalize lo c \<in> set (map (normalize lo) codes)" "normalize lo d \<in> set (map (normalize lo) codes)"
      using that by simp_all
    ultimately have "normalize lo c = normalize lo d" using assms(3) by (meson inj_onD)
    then show "c = d" using g(2) that by (intro format_code_inj [of c d lo]) (simp_all add: list_all_iff)
  qed
  have hne: "?h (codes ! i) \<noteq> []" using assms(2,4) by (metis image_eqI length_map nth_map nth_mem)
  have pos: "?h (codes ! j) = ?h (codes ! i) \<longleftrightarrow> j = i" if "j < length codes" for j
  proof
    assume "?h (codes ! j) = ?h (codes ! i)"
    then have "codes ! j = codes ! i" using that assms(2) inj [of "codes ! j" "codes ! i"] by simp
    then show "j = i" using that assms(2) g(1) by (simp add: nth_eq_iff_index_eq)
  qed simp
  have "match_digest (?h (codes ! i)) (map ?h codes) = Some i"
  proof -
    have "?h (codes ! i) \<notin> set (take i (map ?h codes))"
    proof
      assume "?h (codes ! i) \<in> set (take i (map ?h codes))"
      then obtain j where "j < i" "map ?h codes ! j = ?h (codes ! i)" using assms(2) by (auto simp: in_set_conv_nth)
      then show False using pos [of j] assms(2) by simp
    qed
    then show ?thesis unfolding match_digest_iff using hne assms(2) by simp
  qed
  moreover have "match_digest (?h (codes ! i)) ((map ?h codes)[i := []]) = None"
  proof (rule ccontr)
    assume "match_digest (?h (codes ! i)) ((map ?h codes)[i := []]) \<noteq> None"
    then obtain j where "match_digest (?h (codes ! i)) ((map ?h codes)[i := []]) = Some j" by blast
    then have j: "j < length codes" "(map ?h codes)[i := []] ! j = ?h (codes ! i)" unfolding match_digest_iff by auto
    show False
    proof (cases "j = i")
      case True
      then show False using j hne by simp
    next
      case False
      then show False using j pos [of j] by simp
    qed
  qed
  ultimately show ?thesis using ne [of "codes ! i"] assms(2) by (simp add: match_code_def)
qed

lemma redeem_once_witness:
  "\<exists>codes. match_code id (codes ! 0) (map (\<lambda>c. id (normalize id c)) codes) id = Some 0
    \<and> match_code id (codes ! 0) ((map (\<lambda>c. id (normalize id c)) codes)[0 := []]) id = None"
proof -
  have g: "generate 1 (replicate 12 0) = Inr [format_code (replicate 12 0)]"
    by (simp add: generate_def max_codes_def generate_loop.simps symbols_def)
  have "normalize id (format_code (replicate 12 0)) \<noteq> []" by (simp add: normalize_format_code symbols_def)
  then show ?thesis using redeem_once [OF g, of 0 id id] by (intro exI [of _ "[format_code (replicate 12 0)]"]) auto
qed

lemma generate_distinct_witness:
  "distinct (map (normalize id) [format_code (replicate 12 0)])"
proof -
  have g: "generate 1 (replicate 12 0) = Inr [format_code (replicate 12 0)]"
    by (simp add: generate_def max_codes_def generate_loop.simps symbols_def)
  show ?thesis using generate_distinct [OF g, of id] by blast
qed

text \<open>
  every symbol of the alphabet comes from exactly eight of the 256 values of a random byte, so
  the remainder by the alphabet's length draws symbols without bias.
\<close>

theorem symbols_unbiased:
  assumes "k < length alphabet"
  shows "card {v. code_symbol v = alphabet ! k} = 8"
proof -
  have k: "k < 32" using assms by simp
  have d: "distinct alphabet" by (simp add: alphabet_def)
  have "code_symbol v = alphabet ! k \<longleftrightarrow> unat v mod 32 = k" for v
    using nth_eq_iff_index_eq [OF d, of "unat v mod 32" k] k by (simp add: code_symbol_def)
  then have "{v. code_symbol v = alphabet ! k} = {v :: u8. unat v mod 32 = k}" by simp
  also have "\<dots> = (\<lambda>q. of_nat (32 * q + k)) ` {..<8}"
  proof
    show "{v :: u8. unat v mod 32 = k} \<subseteq> (\<lambda>q. of_nat (32 * q + k)) ` {..<8}"
    proof
      fix v :: u8
      assume "v \<in> {v. unat v mod 32 = k}"
      then have "unat v = 32 * (unat v div 32) + k" by (metis (mono_tags) mem_Collect_eq mult_div_mod_eq)
      then have "v = of_nat (32 * (unat v div 32) + k)" by (metis of_nat_unat ucast_id)
      moreover have "unat v div 32 < 8" using unat_u8_less [of v] by linarith
      ultimately show "v \<in> (\<lambda>q. of_nat (32 * q + k)) ` {..<8}" by blast
    qed
    have "unat (of_nat (32 * q + k) :: u8) = 32 * q + k" if "q < 8" for q
      using that k by (simp add: unat_of_nat take_bit_eq_mod del: of_nat_add of_nat_mult)
    then show "(\<lambda>q. of_nat (32 * q + k)) ` {..<8} \<subseteq> {v :: u8. unat v mod 32 = k}"
      using k by (auto simp del: of_nat_add of_nat_mult)
  qed
  also have "card \<dots> = card {..<8 :: nat}"
  proof (rule card_image, rule inj_onI)
    fix q p :: nat
    assume "q \<in> {..<8}" "p \<in> {..<8}" "(of_nat (32 * q + k) :: u8) = of_nat (32 * p + k)"
    then have "32 * q + k = 32 * p + k"
      using k by (simp add: word_of_nat_eq_iff take_bit_nat_eq_self del: of_nat_add of_nat_mult)
    then show "q = p" by simp
  qed
  finally show ?thesis by simp
qed

lemma symbols_unbiased_witness: "card {v. code_symbol v = CHR ''v''} = 8"
  using symbols_unbiased [of 31] by (simp add: alphabet_def)

end
