(* ===== verification/GoUrl.thy ===== *)
theory GoUrl
  imports Prelude Codec GoStrings
begin

text \<open>
  \<open>net/url\<close>: \<open>url.PathEscape\<close> and \<open>url.QueryEscape\<close> with their readers, shared by the packages that write URLs.
\<close>

section \<open>Escaping\<close>

definition unreserved :: "char \<Rightarrow> bool" where
  "unreserved c \<longleftrightarrow> (let n = of_char c :: nat in (48 \<le> n \<and> n \<le> 57) \<or> (65 \<le> n \<and> n \<le> 90) \<or> (97 \<le> n \<and> n \<le> 122))
     \<or> c \<in> set ''-_.~''"

text \<open>The bytes that stay in a path segment beside the unreserved ones.\<close>

definition path_safe :: "char \<Rightarrow> bool" where
  "path_safe c \<longleftrightarrow> unreserved c \<or> c \<in> set ''$&+:=@''"

definition upper_hex :: "nat \<Rightarrow> char" where
  "upper_hex n = (if n < 10 then char_of (48 + n) else char_of (55 + n))"

definition percent :: "char \<Rightarrow> string" where
  "percent c = [CHR 0x25, upper_hex (of_char c div 16), upper_hex (of_char c mod 16)]"

definition path_escape :: "string \<Rightarrow> string" where
  "path_escape s = concat (map (\<lambda>c. if path_safe c then [c] else percent c) s)"

definition query_escape :: "string \<Rightarrow> string" where
  "query_escape s = concat (map (\<lambda>c. if c = CHR '' '' then ''+'' else if unreserved c then [c] else percent c) s)"

section \<open>Lemmas\<close>

text \<open>\<open>url.QueryUnescape\<close>, what the reader of the URI applies to a key and to a value.\<close>

fun query_unescape :: "string \<Rightarrow> string option" where
  "query_unescape [] = Some []"
| "query_unescape (c # s) =
     (if c = CHR ''%'' then
        (case s of
           a # b # r \<Rightarrow>
             (case (hex_val a, hex_val b, query_unescape r) of
                (Some x, Some y, Some t) \<Rightarrow> Some (char_of (16 * x + y) # t)
              | _ \<Rightarrow> None)
         | _ \<Rightarrow> None)
      else map_option ((#) (if c = CHR ''+'' then CHR '' '' else c)) (query_unescape s))"

text \<open>The reader's view of a query: split at the ampersands, every pair cut at its first equals sign.\<close>

definition read_pair :: "string \<Rightarrow> (string option \<times> string option) option" where
  "read_pair p = map_option (\<lambda>(k, v). (query_unescape k, query_unescape v)) (cut_at (CHR ''='') p)"

definition read_query :: "string \<Rightarrow> (string option \<times> string option) option list" where
  "read_query q = map read_pair (split_on (CHR ''&'') q)"

lemma hex_val_upper [simp]: "n < 16 \<Longrightarrow> hex_val (upper_hex n) = Some n"
  by (auto simp: hex_val_def upper_hex_def Let_def)

lemma of_char_div16 [simp]: "of_char c div 16 < (16::nat)"
  by (simp add: less_mult_imp_div_less)

lemma unreserved_not [simp]:
  "\<not> unreserved CHR ''%''" "\<not> unreserved CHR ''+''" "\<not> unreserved CHR ''&''" "\<not> unreserved CHR ''=''"
  "\<not> unreserved CHR ''?''" "\<not> unreserved CHR 0x23" "\<not> unreserved CHR ''/''"
  by (simp_all add: unreserved_def)

lemma query_unescape_escape: "query_unescape (query_escape s) = Some s"
proof (induction s)
  case (Cons c s)
  have "query_escape (c # s) = (if c = CHR '' '' then ''+'' else if unreserved c then [c] else percent c) @ query_escape s"
    by (simp add: query_escape_def)
  with Cons show ?case by (auto simp: percent_def)
qed (simp add: query_escape_def)

lemma upper_hex_unreserved: "n < 16 \<Longrightarrow> unreserved (upper_hex n)"
  by (auto simp: unreserved_def upper_hex_def Let_def)

lemma escaped_chars:
  "c \<in> set (query_escape s) \<Longrightarrow> unreserved c \<or> c = CHR ''+'' \<or> c = CHR ''%''"
  "c \<in> set (path_escape s) \<Longrightarrow> path_safe c \<or> c = CHR ''%''"
  by (auto simp: query_escape_def path_escape_def percent_def path_safe_def upper_hex_unreserved split: if_splits)

lemma read_pair_escape: "read_pair (query_escape k @ ''='' @ query_escape v) = Some (Some k, Some v)"
proof -
  have "CHR ''='' \<notin> set (query_escape k)" using escaped_chars(1) by fastforce
  then show ?thesis by (simp add: read_pair_def cut_at_append query_unescape_escape)
qed

lemma read_query_encode:
  "kvs \<noteq> [] \<Longrightarrow> read_query (join_with (CHR ''&'') (map (\<lambda>(k, v). query_escape k @ ''='' @ query_escape v) kvs))
   = map (\<lambda>(k, v). Some (Some k, Some v)) kvs"
proof -
  assume "kvs \<noteq> []"
  moreover have "CHR ''&'' \<notin> set (query_escape k @ ''='' @ query_escape v)" for k v
    using escaped_chars(1) by fastforce
  ultimately show ?thesis
    unfolding read_query_def by (subst split_join) (auto simp: read_pair_escape simp del: append.simps)
qed

lemma path_escape_safe: "CHR ''?'' \<notin> set (path_escape s)" "CHR ''/'' \<notin> set (path_escape s)" "CHR 0x23 \<notin> set (path_escape s)"
  using escaped_chars(2) [of _ s] by (fastforce simp: path_safe_def)+

lemma query_escape_plain: "CHR 0x23 \<notin> set (query_escape s)"
  using escaped_chars(1) [of _ s] by fastforce

end
