(* ===== verification/Totp.thy ===== *)
theory Totp
  imports Prelude Codec GoStrings GoUrl Hashes GoTime
begin

text \<open>
  \<open>totp/totp.go\<close>: RFC 6238 codes over HMAC-SHA1, their validation with one step of skew, secret
  generation and the provisioning URI. Base32 and the URL escaping are Go's. Unicode's upper-case
  table is the parameter \<open>up\<close>.
\<close>

section \<open>Base32 without padding\<close>

definition b32_alphabet :: string where
  "b32_alphabet = ''ABCDEFGHIJKLMNOPQRSTUVWXYZ234567''"

text \<open>
  Encoding: five bits a symbol, most significant first. A group of one to four bytes is written
  with two, four, five and seven symbols.
\<close>

definition b32_value :: "bytes \<Rightarrow> nat" where
  "b32_value bs = foldl (\<lambda>a b. 256 * a + unat b) 0 bs"

definition b32_symbols :: "nat \<Rightarrow> nat" where
  "b32_symbols n = (8 * n + 4) div 5"

definition b32_group :: "bytes \<Rightarrow> string" where
  "b32_group bs =
     (let k = b32_symbols (length bs); v = b32_value bs * 2 ^ (5 * k - 8 * length bs)
      in map (\<lambda>i. b32_alphabet ! (v div 32 ^ (k - 1 - i) mod 32)) [0..<k])"

function b32_encode :: "bytes \<Rightarrow> string" where
  "b32_encode bs = (if bs = [] then [] else b32_group (take 5 bs) @ b32_encode (drop 5 bs))"
  by pat_completeness auto
termination by (relation "measure length") auto

declare b32_encode.simps [simp del]

text \<open>
  Decoding: groups of up to eight symbols; a last group of 2, 4, 5 or 7 symbols gives 1, 2, 3 or 4
  bytes, and one of 1, 3 or 6 symbols gives none, without an error. Line breaks are skipped.
\<close>

definition b32_bytes :: "nat \<Rightarrow> nat" where
  "b32_bytes k = (if k = 8 then 5 else if k = 7 then 4 else if k = 5 then 3 else if k = 4 then 2 else if k = 2 then 1 else 0)"

definition b32_ungroup :: "nat list \<Rightarrow> bytes" where
  "b32_ungroup ds =
     (let k = length ds; n = b32_bytes k; v = foldl (\<lambda>a d. 32 * a + d) 0 ds div 2 ^ (5 * k - 8 * n)
      in map (\<lambda>i. of_nat (v div 256 ^ (n - 1 - i) mod 256)) [0..<n])"

function b32_groups :: "string \<Rightarrow> bytes option" where
  "b32_groups s =
     (if s = [] then Some []
      else if list_ex (\<lambda>c. index_of c b32_alphabet = None) (take 8 s) then None
      else case b32_groups (drop 8 s) of
        None \<Rightarrow> None
      | Some bs \<Rightarrow> Some (b32_ungroup (map (\<lambda>c. the (index_of c b32_alphabet)) (take 8 s)) @ bs))"
  by pat_completeness auto
termination by (relation "measure length") auto

declare b32_groups.simps [simp del]

definition b32_decode :: "string \<Rightarrow> bytes option" where
  "b32_decode s = b32_groups (strip_newlines s)"

section \<open>Codes\<close>

datatype totp_error = NotBase32 | SecretEmpty | TotpEntropy

definition totp_period :: int where
  "totp_period = 30"

definition totp_digits :: nat where
  "totp_digits = 6"

definition secret_bytes :: nat where
  "secret_bytes = 20"

definition generate_secret :: "bytes \<Rightarrow> totp_error + string" where
  "generate_secret rnd =
     (if length rnd < secret_bytes then Inl TotpEntropy else Inr (b32_encode (take secret_bytes rnd)))"

text \<open>Decimal with leading zeros, as \<open>%0*d\<close> prints it.\<close>

definition pad_decimal :: "nat \<Rightarrow> nat \<Rightarrow> string" where
  "pad_decimal w n = replicate (w - length (utoa n)) (CHR ''0'') @ utoa n"

definition dynamic_truncation :: "bytes \<Rightarrow> u32" where
  "dynamic_truncation mac =
     (let offset = unat (last mac AND 0x0f)
      in be32_decode (mac ! offset) (mac ! (offset + 1)) (mac ! (offset + 2)) (mac ! (offset + 3)) AND 0x7fffffff)"

definition hotp :: "(nat \<Rightarrow> nat) \<Rightarrow> string \<Rightarrow> int \<Rightarrow> totp_error + string" where
  "hotp up secret counter =
     (case b32_decode (to_upper up (trim_space secret)) of
        None \<Rightarrow> Inl NotBase32
      | Some key \<Rightarrow>
          if key = [] then Inl SecretEmpty
          else let mac = hmac_sha1 key (be64 (word_of_int counter));
                   modulus = (10 :: u32) ^ totp_digits
               in Inr (pad_decimal totp_digits (unat (dynamic_truncation mac mod modulus))))"

text \<open>Go's integer division truncates towards zero.\<close>

definition step_of :: "int \<Rightarrow> int" where
  "step_of t = sgn (unix t) * (\<bar>unix t\<bar> div totp_period)"

definition totp_code :: "(nat \<Rightarrow> nat) \<Rightarrow> string \<Rightarrow> int \<Rightarrow> totp_error + string" where
  "totp_code up secret t = hotp up secret (step_of t)"

fun validate_loop :: "(nat \<Rightarrow> nat) \<Rightarrow> string \<Rightarrow> string \<Rightarrow> int \<Rightarrow> int list \<Rightarrow> int option" where
  "validate_loop up secret code step [] = None"
| "validate_loop up secret code step (delta # deltas) =
     (let counter = step + delta in
      if counter < 0 then validate_loop up secret code step deltas
      else case hotp up secret counter of
        Inl _ \<Rightarrow> None
      | Inr expected \<Rightarrow>
          if expected = code then Some counter else validate_loop up secret code step deltas)"

definition validate :: "(nat \<Rightarrow> nat) \<Rightarrow> string \<Rightarrow> string \<Rightarrow> int \<Rightarrow> int option" where
  "validate up secret code t =
     (let code = trim_space code in
      if length code \<noteq> totp_digits then None
      else validate_loop up secret code (step_of t) [-1, 0, 1])"

section \<open>The provisioning URI\<close>

text \<open>\<open>url.Values.Encode\<close> sorts by key: algorithm, digits, issuer, period, secret.\<close>

definition provisioning_uri :: "string \<Rightarrow> string \<Rightarrow> string \<Rightarrow> string" where
  "provisioning_uri issuer account secret =
     ''otpauth://totp/'' @ path_escape issuer @ '':'' @ path_escape account @ ''?''
     @ join_with (CHR ''&'')
         (map (\<lambda>(k, v). query_escape k @ ''='' @ query_escape v)
            [(''algorithm'', ''SHA1''), (''digits'', utoa totp_digits), (''issuer'', issuer),
             (''period'', itoa totp_period), (''secret'', secret)])"


section \<open>Lemmas: positional digits\<close>

definition digits_of :: "nat \<Rightarrow> nat \<Rightarrow> nat \<Rightarrow> nat list" where
  "digits_of B k v = map (\<lambda>i. v div B ^ (k - 1 - i) mod B) [0..<k]"

definition undigits :: "nat \<Rightarrow> nat list \<Rightarrow> nat" where
  "undigits B ds = foldl (\<lambda>a d. B * a + d) 0 ds"

lemma length_digits_of [simp]: "length (digits_of B k v) = k"
  by (simp add: digits_of_def)

lemma digits_of_Suc: "0 < B \<Longrightarrow> digits_of B (Suc k) v = digits_of B k (v div B) @ [v mod B]"
  by (auto simp: digits_of_def div_mult2_eq [symmetric] power_Suc [symmetric] Suc_diff_Suc simp del: power_Suc)

lemma undigits_snoc: "undigits B (ds @ [d]) = B * undigits B ds + d"
  by (simp add: undigits_def)

lemma undigits_digits_of: "0 < B \<Longrightarrow> undigits B (digits_of B k v) = v mod B ^ k"
proof (induction k arbitrary: v)
  case 0
  then show ?case by (simp add: undigits_def digits_of_def)
next
  case (Suc k)
  then show ?case by (simp add: digits_of_Suc undigits_snoc mod_mult2_eq)
qed

lemma undigits_less: "0 < B \<Longrightarrow> \<forall>d \<in> set ds. d < B \<Longrightarrow> undigits B ds < B ^ length ds"
proof (induction ds rule: rev_induct)
  case Nil
  then show ?case by (simp add: undigits_def)
next
  case (snoc d ds)
  then have "undigits B ds + 1 \<le> B ^ length ds" "d < B" by simp_all
  then have "B * (undigits B ds + 1) \<le> B * B ^ length ds" by (intro mult_le_mono2)
  with \<open>d < B\<close> show ?case by (simp add: undigits_snoc)
qed

lemma digits_of_undigits:
  "0 < B \<Longrightarrow> \<forall>d \<in> set ds. d < B \<Longrightarrow> digits_of B (length ds) (undigits B ds) = ds"
  by (induction ds rule: rev_induct) (simp_all add: digits_of_Suc undigits_snoc, simp add: digits_of_def)

section \<open>Lemmas: base32 round trip\<close>

lemma b32_value_undigits: "b32_value bs = undigits 256 (map unat bs)"
  by (simp add: b32_value_def undigits_def foldl_map)

lemma b32_value_less: "b32_value bs < 256 ^ length bs"
  using undigits_less [of 256 "map unat bs"] by (simp add: b32_value_undigits)

lemma index_of_b32: "n < 32 \<Longrightarrow> index_of (b32_alphabet ! n) b32_alphabet = Some n"
proof -
  have "\<forall>n \<in> set [0..<32]. index_of (b32_alphabet ! n) b32_alphabet = Some n" by code_simp
  then show "n < 32 \<Longrightarrow> ?thesis" by simp
qed

lemma b32_group_digits:
  "b32_group bs = map ((!) b32_alphabet)
     (digits_of 32 (b32_symbols (length bs)) (b32_value bs * 2 ^ (5 * b32_symbols (length bs) - 8 * length bs)))"
  by (simp add: b32_group_def digits_of_def Let_def comp_def)

lemma digits_of_bound: "0 < B \<Longrightarrow> d \<in> set (digits_of B k v) \<Longrightarrow> d < B"
  by (auto simp: digits_of_def)

lemma b32_sizes:
  assumes "0 < n" "n \<le> 5"
  shows "b32_bytes (b32_symbols n) = n" "b32_symbols n \<le> 8" "8 * n \<le> 5 * b32_symbols n" "0 < b32_symbols n"
    "n < 5 \<longleftrightarrow> b32_symbols n < 8"
proof -
  have "n = 1 \<or> n = 2 \<or> n = 3 \<or> n = 4 \<or> n = 5" using assms by linarith
  then show "b32_bytes (b32_symbols n) = n" "b32_symbols n \<le> 8" "8 * n \<le> 5 * b32_symbols n" "0 < b32_symbols n"
    "n < 5 \<longleftrightarrow> b32_symbols n < 8"
    by (auto simp: b32_bytes_def b32_symbols_def)
qed

lemma b32_ungroup_digits:
  "b32_ungroup ds = map of_nat (digits_of 256 (b32_bytes (length ds))
     (undigits 32 ds div 2 ^ (5 * length ds - 8 * b32_bytes (length ds))))"
  by (simp add: b32_ungroup_def digits_of_def undigits_def Let_def comp_def)

lemma b32_ungroup_group:
  assumes "bs \<noteq> []" "length bs \<le> 5"
  shows "b32_ungroup (map (\<lambda>c. the (index_of c b32_alphabet)) (b32_group bs)) = bs"
proof -
  define k where "k = b32_symbols (length bs)"
  define s where "s = 5 * k - 8 * length bs"
  define v where "v = b32_value bs * 2 ^ s"
  note sz = b32_sizes [of "length bs", folded k_def]
  have "map (\<lambda>c. the (index_of c b32_alphabet)) (b32_group bs) = digits_of 32 k v"
    unfolding b32_group_digits k_def [symmetric] s_def [symmetric] v_def [symmetric]
    by (auto simp: index_of_b32 digits_of_bound [of 32] intro!: map_idI)
  moreover have "v < 32 ^ k"
  proof -
    have "v < 256 ^ length bs * 2 ^ s" using b32_value_less [of bs] by (simp add: v_def)
    also have "256 ^ length bs * 2 ^ s = (2::nat) ^ (8 * length bs + s)"
      by (simp add: power_add power_mult)
    also have "8 * length bs + s = 5 * k" using sz assms by (simp add: s_def)
    finally show ?thesis by (simp add: power_mult)
  qed
  moreover have "b32_bytes k = length bs" using sz assms by simp
  moreover have "map of_nat (map unat bs) = bs" by (simp add: comp_def)
  ultimately show ?thesis
    using digits_of_undigits [of 256 "map unat bs"]
    by (simp add: b32_ungroup_digits undigits_digits_of s_def [symmetric] v_def b32_value_undigits)
qed

lemma length_b32_group [simp]: "length (b32_group bs) = b32_symbols (length bs)"
  by (simp add: b32_group_digits)

lemma b32_group_alphabet: "c \<in> set (b32_group bs) \<Longrightarrow> c \<in> set b32_alphabet"
proof -
  assume "c \<in> set (b32_group bs)"
  then obtain d where "c = b32_alphabet ! d" "d < 32"
    unfolding b32_group_digits set_map using digits_of_bound [of 32, OF zero_less_numeral] by blast
  moreover have "length b32_alphabet = 32" by (simp add: b32_alphabet_def)
  ultimately show ?thesis by simp
qed

lemma b32_encode_Nil [simp]: "b32_encode [] = []"
  by (simp add: b32_encode.simps)

lemma b32_encode_step: "bs \<noteq> [] \<Longrightarrow> b32_encode bs = b32_group (take 5 bs) @ b32_encode (drop 5 bs)"
  by (simp add: b32_encode.simps)

lemma b32_encode_alphabet: "set (b32_encode bs) \<subseteq> set b32_alphabet"
proof (induction bs rule: b32_encode.induct)
  case (1 bs)
  then show ?case by (cases "bs = []") (auto simp: b32_encode_step dest: b32_group_alphabet)
qed

lemma index_of_in: "c \<in> set al \<Longrightarrow> index_of c al \<noteq> None"
  by (induction al) auto

lemma b32_groups_encode: "b32_groups (b32_encode bs) = Some bs"
proof (induction bs rule: b32_encode.induct)
  case (1 bs)
  show ?case
  proof (cases "bs = []")
    case True
    then show ?thesis by (simp add: b32_groups.simps)
  next
    case False
    define g where "g = b32_group (take 5 bs)"
    have len: "length g = b32_symbols (min (length bs) 5)" by (simp add: g_def)
    have split: "take 8 (g @ b32_encode (drop 5 bs)) = g" "drop 8 (g @ b32_encode (drop 5 bs)) = b32_encode (drop 5 bs)"
      using b32_sizes [of "min (length bs) 5"] False len
      by (cases "length bs \<le> 5"; simp add: b32_symbols_def)+
    have "g \<noteq> []" using b32_sizes(4) [of "min (length bs) 5"] False len by auto
    moreover have "\<not> list_ex (\<lambda>c. index_of c b32_alphabet = None) g"
      using b32_group_alphabet index_of_in by (auto simp: list_ex_iff g_def)
    moreover have "b32_ungroup (map (\<lambda>c. the (index_of c b32_alphabet)) g) = take 5 bs"
      unfolding g_def using False by (intro b32_ungroup_group) auto
    ultimately have "b32_groups (g @ b32_encode (drop 5 bs)) = Some (take 5 bs @ drop 5 bs)"
      using 1 [OF False] by (subst b32_groups.simps) (simp only: split append_is_Nil_conv if_False option.case simp_thms)
    then show ?thesis using False by (simp add: b32_encode_step g_def)
  qed
qed

lemma b32_alphabet_plain:
  "c \<in> set b32_alphabet \<Longrightarrow> is_ascii c \<and> \<not> is_space (of_char c) \<and> c \<noteq> CHR 0x0A \<and> c \<noteq> CHR 0x0D \<and> ascii_upper c = c \<and> unreserved c"
proof -
  have "list_all (\<lambda>c. is_ascii c \<and> \<not> is_space (of_char c) \<and> c \<noteq> CHR 0x0A \<and> c \<noteq> CHR 0x0D \<and> ascii_upper c = c) b32_alphabet"
    by (simp add: b32_alphabet_def is_ascii_def is_space_def ascii_upper_def Let_def)
  moreover have "list_all unreserved b32_alphabet"
    by (simp add: b32_alphabet_def unreserved_def Let_def)
  ultimately show "c \<in> set b32_alphabet \<Longrightarrow> ?thesis" by (simp only: list_all_iff Ball_def) blast
qed

lemma b32_decode_encode: "b32_decode (b32_encode bs) = Some bs"
proof -
  have "strip_newlines (b32_encode bs) = b32_encode bs"
    using b32_encode_alphabet [of bs] b32_alphabet_plain by (auto simp: strip_newlines_def filter_id_conv)
  then show ?thesis by (simp add: b32_decode_def b32_groups_encode)
qed

interpretation b32: codec b32_encode b32_decode
  by unfold_locales (rule b32_decode_encode)

section \<open>Lemmas: codes\<close>

lemma hotp_key:
  "hotp up secret counter = Inr code \<Longrightarrow> \<exists>key. b32_decode (to_upper up (trim_space secret)) = Some key \<and> key \<noteq> []"
  by (auto simp: hotp_def split: option.splits if_splits)

lemma hotp_total: "hotp up secret c = Inr code \<Longrightarrow> \<exists>code'. hotp up secret c' = Inr code'"
  by (auto simp: hotp_def Let_def split: option.splits if_splits)

lemma utoa_length: "n < 10 ^ k \<Longrightarrow> 0 < k \<Longrightarrow> length (utoa n) \<le> k"
proof (induction k arbitrary: n)
  case (Suc k)
  show ?case
  proof (cases "n < 10")
    case True
    then show ?thesis by (simp add: utoa.simps)
  next
    case False
    with Suc.prems have "n div 10 < 10 ^ k" "0 < k"
      by (simp_all add: less_mult_imp_div_less) (cases k; simp)
    with Suc.IH show ?thesis by (simp add: utoa.simps [of n])
  qed
qed simp

lemma pad_decimal_shape:
  assumes "n < 10 ^ w" "0 < w"
  shows "length (pad_decimal w n) = w" "list_all is_digit (pad_decimal w n)"
  using utoa_length [OF assms] utoa_digits [of n]
  by (auto simp: pad_decimal_def list_all_iff is_digit_def)

lemma hotp_shape: "hotp up secret counter = Inr code \<Longrightarrow> length code = 6 \<and> list_all is_digit code"
proof -
  assume "hotp up secret counter = Inr code"
  then obtain w :: u32 where w: "code = pad_decimal 6 (unat (w mod 10 ^ 6))"
    by (auto simp: hotp_def totp_digits_def Let_def split: option.splits if_splits)
  have "unat (w mod 10 ^ 6) < 10 ^ 6"
    by (simp add: unat_mod)
  then show ?thesis unfolding w by (simp only: pad_decimal_shape zero_less_numeral)
qed

lemma trim_digits: "list_all is_digit s \<Longrightarrow> trim_space s = s"
proof (cases "s = []")
  case False
  assume "list_all is_digit s"
  then have "\<forall>c \<in> set s. is_ascii c \<and> \<not> is_space (of_char c)" by (auto simp: list_all_iff dest: digit_plain)
  with False show ?thesis by (intro trim_space_id) (auto simp: list_all_iff)
qed simp

lemma validate_loop_sound:
  "validate_loop up secret code step ds = Some c \<Longrightarrow> c - step \<in> set ds \<and> 0 \<le> c \<and> hotp up secret c = Inr code"
  by (induction ds) (auto simp: Let_def split: if_splits sum.splits)

lemma validate_loop_complete:
  "d \<in> set ds \<Longrightarrow> 0 \<le> step + d \<Longrightarrow> hotp up secret (step + d) = Inr code
   \<Longrightarrow> validate_loop up secret code step ds \<noteq> None"
proof (induction ds)
  case (Cons e ds)
  then show ?case
    using hotp_total [OF Cons.prems(3), of "step + e"]
    by (auto simp: Let_def split: if_splits sum.splits)
qed simp

lemma validate_loop_first:
  "validate_loop up secret code step ds = Some c \<Longrightarrow> sorted ds \<Longrightarrow> d \<in> set ds \<Longrightarrow> step + d < c \<Longrightarrow> 0 \<le> step + d
   \<Longrightarrow> hotp up secret (step + d) \<noteq> Inr code"
proof (induction ds)
  case (Cons e ds)
  show ?case
  proof (cases "validate_loop up secret code step ds = Some c")
    case True
    then have "c - step \<in> set ds" using validate_loop_sound by fastforce
    show ?thesis
    proof (cases "d \<in> set ds")
      case True
      with Cons \<open>validate_loop up secret code step ds = Some c\<close> show ?thesis by simp
    next
      case False
      with Cons.prems have "d = e" by simp
      with Cons.prems show ?thesis by (auto simp: Let_def split: sum.splits if_splits)
    qed
  next
    case False
    with Cons.prems have "c = step + e" by (auto simp: Let_def split: sum.splits if_splits)
    with Cons.prems show ?thesis by auto
  qed
qed simp

text \<open>An enrolled secret is its own canonical form: trimming and upper-casing leave it alone.\<close>

lemma enrolled_secret: "b32_decode (to_upper up (trim_space (b32_encode key))) = Some key"
proof -
  have a: "c \<in> set (b32_encode key) \<Longrightarrow> c \<in> set b32_alphabet" for c
    using b32_encode_alphabet by blast
  have asc: "list_all is_ascii (b32_encode key)"
    using a b32_alphabet_plain by (auto simp: list_all_iff)
  have "trim_space (b32_encode key) = b32_encode key"
  proof (cases "b32_encode key = []")
    case False
    then have "hd (b32_encode key) \<in> set b32_alphabet" "last (b32_encode key) \<in> set b32_alphabet"
      using a by simp_all
    then show ?thesis using False asc b32_alphabet_plain by (intro trim_space_id) auto
  qed simp
  moreover have "map ascii_upper (b32_encode key) = b32_encode key"
    using a b32_alphabet_plain by (auto intro!: map_idI)
  ultimately show ?thesis by (simp add: to_upper_def asc b32_decode_encode)
qed

section \<open>Properties\<close>

text \<open>
  C22: \<open>Validate\<close> returns a counter exactly when that counter is not negative, lies within one step
  of the time, is the first such counter and has the trimmed code as its password; the counter it
  returns is therefore the one the caller has to spend.
\<close>

theorem validate_accepts_iff:
  "validate up secret code t = Some c \<longleftrightarrow>
     0 \<le> c \<and> \<bar>c - step_of t\<bar> \<le> 1 \<and> hotp up secret c = Inr (trim_space code)
     \<and> \<not> (\<exists>c'. 0 \<le> c' \<and> step_of t - 1 \<le> c' \<and> c' < c \<and> hotp up secret c' = Inr (trim_space code))"
  (is "?l = Some c \<longleftrightarrow> 0 \<le> c \<and> ?near c \<and> ?ok c \<and> \<not> (\<exists>c'. ?early c')")
proof
  assume v: "?l = Some c"
  then have l: "validate_loop up secret (trim_space code) (step_of t) [-1, 0, 1] = Some c"
    by (simp add: validate_def Let_def split: if_splits)
  from validate_loop_sound [OF l] have c: "0 \<le> c" "?near c" "?ok c" by auto
  have "hotp up secret c' \<noteq> Inr (trim_space code)" if "0 \<le> c'" "step_of t - 1 \<le> c'" "c' < c" for c'
  proof -
    have "c' - step_of t \<in> set [-1, 0, 1]" using that c(2) by auto
    from validate_loop_first [OF l _ this] that show ?thesis by simp
  qed
  with c show "0 \<le> c \<and> ?near c \<and> ?ok c \<and> \<not> (\<exists>c'. ?early c')" by blast
next
  assume r: "0 \<le> c \<and> ?near c \<and> ?ok c \<and> \<not> (\<exists>c'. ?early c')"
  then have len: "length (trim_space code) = 6" using hotp_shape by blast
  have "c - step_of t \<in> set [-1, 0, 1]" using r by auto
  then have "validate_loop up secret (trim_space code) (step_of t) [-1, 0, 1] \<noteq> None"
    by (rule validate_loop_complete) (use r in simp_all)
  then obtain c0 where l: "validate_loop up secret (trim_space code) (step_of t) [-1, 0, 1] = Some c0"
    by blast
  from validate_loop_sound [OF l] have c0: "0 \<le> c0" "?near c0" "?ok c0" by auto
  have "\<not> c0 < c" using r c0 by (metis abs_le_iff diff_le_eq le_diff_eq minus_diff_eq add.commute)
  moreover have "\<not> c < c0"
    using validate_loop_first [OF l, of "c - step_of t"] r \<open>c - step_of t \<in> set [-1, 0, 1]\<close> by auto
  ultimately show "?l = Some c" using l len by (simp add: validate_def totp_digits_def)
qed


text \<open>
  The code of a generated secret at a time after the epoch is six digits, and \<open>Validate\<close>
  accepts it at every time at most one step away.
\<close>

theorem enrolled_code_redeems:
  assumes "generate_secret rnd = Inr secret" "0 \<le> step_of t"
  shows "\<exists>code. totp_code up secret t = Inr code \<and> length code = 6 \<and> list_all is_digit code
           \<and> (\<forall>t'. \<bar>step_of t' - step_of t\<bar> \<le> 1 \<longrightarrow> (\<exists>c. validate up secret code t' = Some c))"
proof -
  have s: "secret = b32_encode (take secret_bytes rnd)" "take secret_bytes rnd \<noteq> []"
    using assms(1) by (auto simp: generate_secret_def secret_bytes_def split: if_splits)
  then obtain code where code: "hotp up secret (step_of t) = Inr code"
    by (simp add: hotp_def enrolled_secret Let_def)
  note shape = hotp_shape [OF code]
  then have trim: "trim_space code = code" by (simp add: trim_digits)
  have "\<exists>c. validate up secret code t' = Some c" if "\<bar>step_of t' - step_of t\<bar> \<le> 1" for t'
  proof -
    have "step_of t - step_of t' \<in> set [-1, 0, 1]" using that by auto
    from validate_loop_complete [OF this] code assms(2) show ?thesis
      using shape by (auto simp: validate_def trim totp_digits_def)
  qed
  with code shape show ?thesis by (auto simp: totp_code_def)
qed

lemma enrolled_code_redeems_witness:
  "\<exists>code. totp_code id (b32_encode (replicate 20 7)) 0 = Inr code \<and> length code = 6
     \<and> (\<exists>c. validate id (b32_encode (replicate 20 7)) code 30000000000 = Some c)"
proof -
  have "generate_secret (replicate 20 7) = Inr (b32_encode (replicate 20 7))"
    by (simp add: generate_secret_def secret_bytes_def)
  moreover have "step_of 0 = 0" "step_of 30000000000 = 1"
    by (simp_all add: step_of_def unix_def second_def totp_period_def)
  ultimately show ?thesis
    using enrolled_code_redeems [of "replicate 20 7" "b32_encode (replicate 20 7)" 0 id] by force
qed

text \<open>
  Whatever issuer and account name are asked for, the provisioning URI is one path segment after
  \<open>otpauth://totp/\<close>, has no fragment, and its query reads back as exactly the five parameters the
  server set: neither name can add, drop or replace one.
\<close>

theorem uri_parameters_fixed:
  "\<exists>label q. cut_at (CHR ''?'') (provisioning_uri issuer account secret) = Some (''otpauth://totp/'' @ label, q)
     \<and> CHR ''/'' \<notin> set label \<and> CHR 0x23 \<notin> set (label @ q)
     \<and> read_query q = map (\<lambda>(k, v). Some (Some k, Some v))
         [(''algorithm'', ''SHA1''), (''digits'', ''6''), (''issuer'', issuer), (''period'', ''30''), (''secret'', secret)]"
proof -
  define label where "label = path_escape issuer @ '':'' @ path_escape account"
  define q where "q = join_with (CHR ''&'') (map (\<lambda>(k, v). query_escape k @ ''='' @ query_escape v)
    [(''algorithm'', ''SHA1''), (''digits'', ''6''), (''issuer'', issuer), (''period'', ''30''), (''secret'', secret)])"
  have "utoa totp_digits = ''6''" "itoa totp_period = ''30''"
    by (simp_all add: totp_digits_def totp_period_def itoa_def utoa.simps char_of_def bit_nat_def)
  then have u: "provisioning_uri issuer account secret = (''otpauth://totp/'' @ label) @ CHR ''?'' # q"
    by (simp add: provisioning_uri_def label_def q_def)
  have "CHR ''?'' \<notin> set (''otpauth://totp/'' @ label)"
    using path_escape_safe(1) by (simp add: label_def)
  then have "cut_at (CHR ''?'') (provisioning_uri issuer account secret) = Some (''otpauth://totp/'' @ label, q)"
    unfolding u by (rule cut_at_append)
  moreover have "CHR ''/'' \<notin> set label" "CHR 0x23 \<notin> set label"
    using path_escape_safe by (simp_all add: label_def)
  moreover have "CHR 0x23 \<notin> set q"
    using query_escape_plain by (simp add: q_def)
  moreover have "read_query q = map (\<lambda>(k, v). Some (Some k, Some v))
      [(''algorithm'', ''SHA1''), (''digits'', ''6''), (''issuer'', issuer), (''period'', ''30''), (''secret'', secret)]"
    unfolding q_def by (rule read_query_encode) simp
  ultimately show ?thesis unfolding set_append by blast
qed


text \<open>The colon is not escaped in a path segment: issuer and account cannot be told apart by the label.\<close>

lemma label_ambiguous:
  "path_escape ''a:b'' @ '':'' @ path_escape ''c'' = path_escape ''a'' @ '':'' @ path_escape ''b:c''"
  by (simp add: path_escape_def path_safe_def unreserved_def)

end
