(* ===== verification/Admission.thy ===== *)
theory Admission
  imports Prelude
begin

text \<open>
  The contract of an admission queue: a system whose callers reserve units of one resource and give
  them back. A provider shows what its start states and its single steps do to the reservations;
  the client gets that the units handed out never exceed the capacity, in every reachable state.
  The two dimensions of the password budget and the slots of \<open>derive\<close> are interpretations.
\<close>

locale admission =
  fixes begins :: "'s \<Rightarrow> bool"
    and moves :: "'s \<Rightarrow> 's \<Rightarrow> bool"
    and held :: "'s \<Rightarrow> 'i \<Rightarrow> int"
    and free :: "'s \<Rightarrow> int"
    and capacity :: int
  assumes capacity_nonneg: "0 \<le> capacity"
    and begins_idle: "begins s \<Longrightarrow> held s i = 0 \<and> free s = capacity"
    and moves_account: "moves s s' \<Longrightarrow>
      (held s' = held s \<and> free s' = free s)
      \<or> (\<exists>i k. 0 \<le> k \<and> k \<le> free s \<and> held s i = 0 \<and> held s' = (held s)(i := k) \<and> free s' = free s - k)
      \<or> (\<exists>i. held s' = (held s)(i := 0) \<and> free s' = free s + held s i)"
begin

inductive visits :: "'s \<Rightarrow> bool" where
  begins: "begins s \<Longrightarrow> visits s"
| moves: "visits s \<Longrightarrow> moves s s' \<Longrightarrow> visits s'"

definition holders :: "'s \<Rightarrow> 'i set" where
  "holders s = {i. held s i \<noteq> 0}"

definition accounted :: "'s \<Rightarrow> bool" where
  "accounted s \<longleftrightarrow> finite (holders s) \<and> (\<forall>i. 0 \<le> held s i) \<and> 0 \<le> free s
     \<and> free s + (\<Sum>i \<in> holders s. held s i) = capacity"

lemma begins_accounted: "begins s \<Longrightarrow> accounted s"
  using capacity_nonneg by (simp add: accounted_def holders_def begins_idle)

lemma held_update_sum:
  assumes "finite (holders s)" "held s' = (held s)(i := k)"
  shows "finite (holders s')"
    and "(\<Sum>j \<in> holders s'. held s' j) = (\<Sum>j \<in> holders s. held s j) - held s i + k"
proof -
  let ?A = "insert i (holders s)"
  have sub: "holders s' \<subseteq> ?A" using assms(2) by (auto simp: holders_def)
  then show "finite (holders s')" using assms(1) finite_subset by blast
  have a: "(\<Sum>j \<in> holders s'. held s' j) = (\<Sum>j \<in> ?A. held s' j)"
    using assms(1) sub by (intro sum.mono_neutral_left) (auto simp: holders_def)
  have b: "(\<Sum>j \<in> holders s. held s j) = (\<Sum>j \<in> ?A. held s j)"
    using assms(1) by (intro sum.mono_neutral_left) (auto simp: holders_def)
  have "(\<Sum>j \<in> ?A. held s' j) = k + (\<Sum>j \<in> ?A - {i}. held s j)"
    using assms by (subst sum.remove [of _ i]) auto
  moreover have "(\<Sum>j \<in> ?A. held s j) = held s i + (\<Sum>j \<in> ?A - {i}. held s j)"
    using assms(1) by (subst sum.remove [of _ i]) auto
  ultimately show "(\<Sum>j \<in> holders s'. held s' j) = (\<Sum>j \<in> holders s. held s j) - held s i + k"
    using a b by simp
qed

lemma moves_accounted:
  assumes "accounted s" "moves s s'"
  shows "accounted s'"
  using moves_account [OF assms(2)]
proof (elim disjE exE conjE)
  assume "held s' = held s" "free s' = free s"
  with assms(1) show ?thesis by (simp add: accounted_def holders_def)
next
  fix i k assume u: "0 \<le> k" "k \<le> free s" "held s i = 0" "held s' = (held s)(i := k)" "free s' = free s - k"
  with assms(1) held_update_sum [OF _ u(4)] show ?thesis by (simp add: accounted_def)
next
  fix i assume u: "held s' = (held s)(i := 0)" "free s' = free s + held s i"
  have "0 \<le> held s i" using assms(1) by (simp add: accounted_def)
  with assms(1) u held_update_sum [OF _ u(1)] show ?thesis by (simp add: accounted_def)
qed

lemma visits_accounted: "visits s \<Longrightarrow> accounted s"
  by (induction rule: visits.induct) (simp_all add: begins_accounted moves_accounted)

text \<open>What any group of callers holds together is within the capacity.\<close>

lemma held_within:
  assumes "visits s" "finite A"
  shows "(\<Sum>i \<in> A. held s i) \<le> capacity"
proof -
  have acc: "accounted s" using assms(1) by (rule visits_accounted)
  have "(\<Sum>i \<in> A. held s i) \<le> (\<Sum>i \<in> A \<union> holders s. held s i)"
    using acc assms(2) by (intro sum_mono2) (auto simp: accounted_def)
  also have "\<dots> = (\<Sum>i \<in> holders s. held s i)"
    using acc assms(2) by (intro sum.mono_neutral_right) (auto simp: accounted_def holders_def)
  finally show ?thesis using acc by (simp add: accounted_def)
qed

lemma free_bounds: "visits s \<Longrightarrow> 0 \<le> free s \<and> free s \<le> capacity"
  using visits_accounted [of s] by (auto simp: accounted_def intro: sum_nonneg)
    (metis (no_types, lifting) add_le_cancel_left add.right_neutral sum_nonneg)

text \<open>With nobody holding anything the whole capacity is free again.\<close>

lemma idle_all_free: "visits s \<Longrightarrow> \<forall>i. held s i = 0 \<Longrightarrow> free s = capacity"
  using visits_accounted [of s] by (simp add: accounted_def holders_def)

end

end
