(* ===== verification/Password.thy ===== *)
theory Password
  imports Prelude Codec GoStrings Admission
begin

text \<open>
  \<open>password/password.go\<close>: Argon2id hashes in PHC form, their strict parser, \<open>Hash\<close>, \<open>Verify\<close>,
  \<open>NeedsRehash\<close> and \<open>DummyVerify\<close>, and the admission of derivations under a budget of memory and
  lanes. Argon2 itself is \<open>golang.org/x/crypto\<close>, the parameter \<open>argon\<close> (plaintext, salt, time,
  memory, threads, key length); the one law a client needs of it is the length of its result.
  Whether a request is admitted within \<open>maxWait\<close> is the argument \<open>granted\<close> of the sequential
  definitions; the queue that decides it is the step relation \<open>budget_step\<close>.
\<close>

section \<open>Parameters\<close>

record Params =
  Memory :: u32
  Time :: u32
  Threads :: u8

datatype password_error = EmptyPassword | Malformed | Busy | SaltEntropy

type_synonym argon2 = "string \<Rightarrow> bytes \<Rightarrow> u32 \<Rightarrow> u32 \<Rightarrow> u8 \<Rightarrow> nat \<Rightarrow> bytes"

definition default_params :: Params where
  "default_params = \<lparr>Memory = 65536, Time = 3, Threads = 4\<rparr>"

definition salt_bytes :: nat where
  "salt_bytes = 16"

definition key_bytes :: nat where
  "key_bytes = 32"

definition min_memory :: u32 where
  "min_memory = 8 * 1024"

definition max_memory :: u32 where
  "max_memory = 256 * 1024"

definition min_time :: u32 where
  "min_time = 1"

definition max_time :: u32 where
  "max_time = 10"

definition min_threads :: u8 where
  "min_threads = 1"

definition max_threads :: u8 where
  "max_threads = 16"

definition min_salt :: nat where
  "min_salt = 8"

definition min_hash :: nat where
  "min_hash = 16"

definition max_decoded :: nat where
  "max_decoded = 1024"

definition validate_params :: "Params \<Rightarrow> password_error option" where
  "validate_params p =
     (if Memory p < min_memory \<or> max_memory < Memory p then Some Malformed
      else if Time p < min_time \<or> max_time < Time p then Some Malformed
      else if Threads p < min_threads \<or> max_threads < Threads p then Some Malformed
      else None)"

definition segment :: "Params \<Rightarrow> string" where
  "segment p = ''m='' @ utoa (unat (Memory p)) @ '',t='' @ utoa (unat (Time p)) @ '',p='' @ utoa (unat (Threads p))"

text \<open>The loop over the three prefixes, on as many fields as there are prefixes.\<close>

fun read_fields :: "string list \<Rightarrow> string list \<Rightarrow> password_error + nat list" where
  "read_fields (prefix # prefixes) (field # rest) =
     (if \<not> has_prefix field prefix then Inl Malformed
      else case parse_uint 32 (trim_prefix field prefix) of
        None \<Rightarrow> Inl Malformed
      | Some v \<Rightarrow> bindE (read_fields prefixes rest) (\<lambda>vs. Inr (v # vs)))"
| "read_fields prefixes rest = Inr []"

definition parse_params :: "string \<Rightarrow> password_error + Params" where
  "parse_params seg =
     (let parts = split_on (CHR '','') seg
      in if length parts \<noteq> 3 then Inl Malformed
         else bindE (read_fields [''m='', ''t='', ''p=''] parts) (\<lambda>values.
           if 255 < values ! 2 then Inl Malformed
           else let p = \<lparr>Memory = of_nat (values ! 0), Time = of_nat (values ! 1), Threads = of_nat (values ! 2)\<rparr>
                in if segment p \<noteq> seg then Inl Malformed
                   else case validate_params p of Some e \<Rightarrow> Inl e | None \<Rightarrow> Inr p))"

section \<open>The PHC string\<close>

definition version_segment :: string where
  "version_segment = ''v='' @ itoa 19"

definition phc_encode :: "Params \<Rightarrow> bytes \<Rightarrow> bytes \<Rightarrow> string" where
  "phc_encode p salt key =
     ''$argon2id$'' @ version_segment @ ''$'' @ segment p @ ''$''
     @ b64_encode b64_std False salt @ ''$'' @ b64_encode b64_std False key"

definition phc_decode :: "string \<Rightarrow> nat \<Rightarrow> password_error + bytes" where
  "phc_decode s low =
     (case b64_decode b64_std False s of
        None \<Rightarrow> Inl Malformed
      | Some b \<Rightarrow> if length b < low \<or> max_decoded < length b then Inl Malformed else Inr b)"

definition parse_hash :: "string \<Rightarrow> password_error + Params \<times> bytes \<times> bytes" where
  "parse_hash encoded =
     (let parts = split_on (CHR ''$'') encoded
      in if length parts \<noteq> 6 \<or> parts ! 0 \<noteq> [] then Inl Malformed
         else if parts ! 1 \<noteq> ''argon2id'' then Inl Malformed
         else if parts ! 2 \<noteq> version_segment then Inl Malformed
         else bindE (parse_params (parts ! 3)) (\<lambda>p.
              bindE (phc_decode (parts ! 4) min_salt) (\<lambda>salt.
              bindE (phc_decode (parts ! 5) min_hash) (\<lambda>key. Inr (p, salt, key)))))"

section \<open>Hashing and verifying\<close>

definition budget_kib :: int where
  "budget_kib = 4 * 64 * 1024"

definition budget_lanes :: int where
  "budget_lanes = 4 * 4"

text \<open>
  \<open>withBudget\<close> as its caller sees it: refused at once when the request exceeds the whole budget,
  refused when it is not admitted in time, and otherwise the result of the derivation.
\<close>

definition with_budget :: "bool \<Rightarrow> int \<Rightarrow> int \<Rightarrow> 'a \<Rightarrow> password_error + 'a" where
  "with_budget granted kib lanes result =
     (if budget_kib < kib then Inl Busy
      else if budget_lanes < lanes then Inl Busy
      else if \<not> granted then Inl Busy
      else Inr result)"

definition hash_with :: "argon2 \<Rightarrow> bool \<Rightarrow> bytes \<Rightarrow> string \<Rightarrow> Params \<Rightarrow> password_error + string" where
  "hash_with argon granted rnd plaintext p =
     (if plaintext = [] then Inl EmptyPassword
      else case validate_params p of
        Some e \<Rightarrow> Inl e
      | None \<Rightarrow>
          if length rnd < salt_bytes then Inl SaltEntropy
          else let salt = take salt_bytes rnd
               in bindE (with_budget granted (uint (Memory p)) (uint (Threads p))
                           (argon plaintext salt (Time p) (Memory p) (Threads p) key_bytes))
                    (\<lambda>key. Inr (phc_encode p salt key)))"

definition hash_password :: "argon2 \<Rightarrow> bool \<Rightarrow> bytes \<Rightarrow> string \<Rightarrow> password_error + string" where
  "hash_password argon granted rnd plaintext = hash_with argon granted rnd plaintext default_params"

definition verify_password :: "argon2 \<Rightarrow> bool \<Rightarrow> string \<Rightarrow> string \<Rightarrow> password_error + bool" where
  "verify_password argon granted plaintext encoded =
     bindE (parse_hash encoded) (\<lambda>(p, salt, want).
       bindE (with_budget granted (uint (Memory p)) (uint (Threads p))
                (argon plaintext salt (Time p) (Memory p) (Threads p) (length want)))
         (\<lambda>got. Inr (got = want)))"

definition needs_rehash :: "string \<Rightarrow> bool" where
  "needs_rehash encoded =
     (case parse_hash encoded of
        Inl _ \<Rightarrow> False
      | Inr (p, _, _) \<Rightarrow>
          let d = default_params in Memory p < Memory d \<or> Time p < Time d \<or> Threads p \<noteq> Threads d)"

text \<open>
  The dummy hash is minted once, outside the budget, and kept: \<open>memo\<close> is the package variable
  before the call, and the result carries it afterwards. \<open>salt\<close> are the bytes \<open>rand.Read\<close> fills.
\<close>

definition dummy_plaintext :: string where
  "dummy_plaintext = ''dummy verification plaintext''"

definition dummy_mint :: "argon2 \<Rightarrow> bytes \<Rightarrow> string" where
  "dummy_mint argon salt =
     (let p = default_params
      in phc_encode p salt (argon dummy_plaintext salt (Time p) (Memory p) (Threads p) key_bytes))"

definition dummy_hash :: "argon2 \<Rightarrow> bytes \<Rightarrow> string \<Rightarrow> string \<times> string" where
  "dummy_hash argon salt memo =
     (let memo' = (if memo = [] then dummy_mint argon salt else memo) in (memo', memo'))"

definition dummy_verify :: "argon2 \<Rightarrow> bool \<Rightarrow> bytes \<Rightarrow> string \<Rightarrow> (password_error + bool) \<times> string" where
  "dummy_verify argon granted salt memo =
     (let (h, memo') = dummy_hash argon salt memo
      in (verify_password argon granted dummy_plaintext h, memo'))"

section \<open>The budget\<close>

text \<open>
  A call of \<open>withBudget\<close> is in the queue before \<open>admit\<close>, holds \<open>admit\<close> and is about to look at the
  budget, sleeps on \<open>wake\<close> still holding \<open>admit\<close>, has reserved but not left the queue, runs its
  derivation, has given its reservation back but not poked \<open>wake\<close>, or has returned: with the
  result or with \<open>ErrBusy\<close>. The channels \<open>admit\<close> and \<open>wake\<close> have capacity one.
\<close>

datatype derivation =
    Queued int int | Looking int int | Sleeping int int | Reserved int int | Deriving int int
  | Released | Derived | TooBusy

record Budget =
  free_kib :: int
  peak_kib :: int
  free_lanes :: int
  peak_lanes :: int
  admit :: "nat option"
  wake :: bool
  calls :: "nat \<Rightarrow> derivation option"

definition initial_budget :: Budget where
  "initial_budget = \<lparr>free_kib = budget_kib, peak_kib = 0, free_lanes = budget_lanes, peak_lanes = 0,
     admit = None, wake = False, calls = (\<lambda>_. None)\<rparr>"

definition fits :: "int \<Rightarrow> int \<Rightarrow> Budget \<Rightarrow> bool" where
  "fits kib lanes b \<longleftrightarrow> kib \<le> free_kib b \<and> lanes \<le> free_lanes b"

definition reserve :: "int \<Rightarrow> int \<Rightarrow> Budget \<Rightarrow> Budget" where
  "reserve kib lanes b =
     (let fk = free_kib b - kib; fl = free_lanes b - lanes
      in b\<lparr>free_kib := fk, free_lanes := fl,
           peak_kib := (if peak_kib b < budget_kib - fk then budget_kib - fk else peak_kib b),
           peak_lanes := (if peak_lanes b < budget_lanes - fl then budget_lanes - fl else peak_lanes b)\<rparr>)"

definition give_back :: "int \<Rightarrow> int \<Rightarrow> Budget \<Rightarrow> Budget" where
  "give_back kib lanes b = b\<lparr>free_kib := free_kib b + kib, free_lanes := free_lanes b + lanes\<rparr>"

definition at :: "nat \<Rightarrow> derivation \<Rightarrow> Budget \<Rightarrow> Budget" where
  "at i d b = b\<lparr>calls := (calls b)(i \<mapsto> d)\<rparr>"

inductive budget_step :: "Budget \<Rightarrow> Budget \<Rightarrow> bool" where
  too_large: "calls b i = None \<Longrightarrow> budget_kib < kib \<or> budget_lanes < lanes \<Longrightarrow> budget_step b (at i TooBusy b)"
| queue: "calls b i = None \<Longrightarrow> 0 \<le> kib \<Longrightarrow> kib \<le> budget_kib \<Longrightarrow> 0 \<le> lanes \<Longrightarrow> lanes \<le> budget_lanes
    \<Longrightarrow> budget_step b (at i (Queued kib lanes) b)"
| give_up: "calls b i = Some (Queued kib lanes) \<Longrightarrow> budget_step b (at i TooBusy b)"
| admitted: "calls b i = Some (Queued kib lanes) \<Longrightarrow> admit b = None
    \<Longrightarrow> budget_step b (at i (Looking kib lanes) (b\<lparr>admit := Some i\<rparr>))"
| reserved: "calls b i = Some (Looking kib lanes) \<Longrightarrow> fits kib lanes b
    \<Longrightarrow> budget_step b (at i (Reserved kib lanes) (reserve kib lanes b))"
| sleep: "calls b i = Some (Looking kib lanes) \<Longrightarrow> \<not> fits kib lanes b
    \<Longrightarrow> budget_step b (at i (Sleeping kib lanes) b)"
| woken: "calls b i = Some (Sleeping kib lanes) \<Longrightarrow> wake b
    \<Longrightarrow> budget_step b (at i (Looking kib lanes) (b\<lparr>wake := False\<rparr>))"
| timed_out: "calls b i = Some (Sleeping kib lanes)
    \<Longrightarrow> budget_step b (at i TooBusy (b\<lparr>admit := None\<rparr>))"
| leave: "calls b i = Some (Reserved kib lanes)
    \<Longrightarrow> budget_step b (at i (Deriving kib lanes) (b\<lparr>admit := None\<rparr>))"
| release: "calls b i = Some (Deriving kib lanes) \<Longrightarrow> budget_step b (at i Released (give_back kib lanes b))"
| poke: "calls b i = Some Released \<Longrightarrow> budget_step b (at i Derived (b\<lparr>wake := True\<rparr>))"

inductive budget_reachable :: "Budget \<Rightarrow> bool" where
  start: "budget_reachable initial_budget"
| step: "budget_reachable b \<Longrightarrow> budget_step b b' \<Longrightarrow> budget_reachable b'"

inductive_cases budget_stepE: "budget_step b b'"

text \<open>What a call has reserved in each dimension.\<close>

definition kib_of :: "Budget \<Rightarrow> nat \<Rightarrow> int" where
  "kib_of b i = (case calls b i of Some (Reserved kib _) \<Rightarrow> kib | Some (Deriving kib _) \<Rightarrow> kib | _ \<Rightarrow> 0)"

definition lanes_of :: "Budget \<Rightarrow> nat \<Rightarrow> int" where
  "lanes_of b i = (case calls b i of Some (Reserved _ l) \<Rightarrow> l | Some (Deriving _ l) \<Rightarrow> l | _ \<Rightarrow> 0)"

section \<open>Lemmas: the budget\<close>

lemma at_simps [simp]:
  "calls (at i d b) = (calls b)(i \<mapsto> d)" "free_kib (at i d b) = free_kib b" "free_lanes (at i d b) = free_lanes b"
  "peak_kib (at i d b) = peak_kib b" "peak_lanes (at i d b) = peak_lanes b" "admit (at i d b) = admit b" "wake (at i d b) = wake b"
  by (simp_all add: at_def)

lemma reserve_simps [simp]:
  "calls (reserve k l b) = calls b" "free_kib (reserve k l b) = free_kib b - k" "free_lanes (reserve k l b) = free_lanes b - l"
  "admit (reserve k l b) = admit b" "wake (reserve k l b) = wake b"
  "peak_kib (reserve k l b) = max (peak_kib b) (budget_kib - (free_kib b - k))"
  "peak_lanes (reserve k l b) = max (peak_lanes b) (budget_lanes - (free_lanes b - l))"
  by (simp_all add: reserve_def Let_def max_def)

lemma give_back_simps [simp]:
  "calls (give_back k l b) = calls b" "free_kib (give_back k l b) = free_kib b + k" "free_lanes (give_back k l b) = free_lanes b + l"
  "admit (give_back k l b) = admit b" "wake (give_back k l b) = wake b" "peak_kib (give_back k l b) = peak_kib b"
  "peak_lanes (give_back k l b) = peak_lanes b"
  by (simp_all add: give_back_def)

lemma initial_simps [simp]:
  "calls initial_budget = (\<lambda>_. None)" "free_kib initial_budget = budget_kib" "free_lanes initial_budget = budget_lanes"
  "admit initial_budget = None" "wake initial_budget = False" "peak_kib initial_budget = 0" "peak_lanes initial_budget = 0"
  by (simp_all add: initial_budget_def)

lemma fits_simps [simp]:
  "fits k l (at i d b) = fits k l b" "fits k l (b\<lparr>admit := a\<rparr>) = fits k l b" "fits k l (b\<lparr>wake := w\<rparr>) = fits k l b"
  by (simp_all add: fits_def)

text \<open>The size a call asked for while it waits or holds its reservation.\<close>

fun request :: "derivation \<Rightarrow> (int \<times> int) option" where
  "request (Queued k l) = Some (k, l)"
| "request (Looking k l) = Some (k, l)"
| "request (Sleeping k l) = Some (k, l)"
| "request (Reserved k l) = Some (k, l)"
| "request (Deriving k l) = Some (k, l)"
| "request d = None"

text \<open>The calls that are between taking \<open>admit\<close> and leaving the queue.\<close>

fun in_admit :: "derivation \<Rightarrow> bool" where
  "in_admit (Looking _ _) = True"
| "in_admit (Sleeping _ _) = True"
| "in_admit (Reserved _ _) = True"
| "in_admit _ = False"

definition sizes_ok :: "Budget \<Rightarrow> bool" where
  "sizes_ok b \<longleftrightarrow> (\<forall>i d k l. calls b i = Some d \<longrightarrow> request d = Some (k, l)
     \<longrightarrow> 0 \<le> k \<and> k \<le> budget_kib \<and> 0 \<le> l \<and> l \<le> budget_lanes)"

definition negotiates :: "Budget \<Rightarrow> nat \<Rightarrow> bool" where
  "negotiates b i \<longleftrightarrow> (case calls b i of None \<Rightarrow> False | Some d \<Rightarrow> in_admit d)"

definition one_negotiator :: "Budget \<Rightarrow> bool" where
  "one_negotiator b \<longleftrightarrow> (\<forall>i. admit b = Some i \<longleftrightarrow> negotiates b i)"

text \<open>A sleeper that would fit has a wake-up waiting for it, or one is about to be sent.\<close>

definition no_lost_wakeup :: "Budget \<Rightarrow> bool" where
  "no_lost_wakeup b \<longleftrightarrow> (\<forall>i k l. calls b i = Some (Sleeping k l) \<longrightarrow> fits k l b
     \<longrightarrow> wake b \<or> (\<exists>j. calls b j = Some Released))"

definition peaks_ok :: "Budget \<Rightarrow> bool" where
  "peaks_ok b \<longleftrightarrow> peak_kib b \<le> budget_kib \<and> peak_lanes b \<le> budget_lanes"

lemma sizes_ok_step: "budget_step b b' \<Longrightarrow> sizes_ok b \<Longrightarrow> sizes_ok b'"
  by (induction rule: budget_step.induct) (auto simp: sizes_ok_def split: if_splits; fastforce)+

lemma negotiates_simps [simp]:
  "negotiates (at i d b) j = (if j = i then in_admit d else negotiates b j)"
  "negotiates (b\<lparr>admit := a\<rparr>) j = negotiates b j" "negotiates (b\<lparr>wake := w\<rparr>) j = negotiates b j"
  "negotiates (reserve k l b) j = negotiates b j" "negotiates (give_back k l b) j = negotiates b j"
  by (simp_all add: negotiates_def)

lemma negotiates_call: "calls b i = Some d \<Longrightarrow> negotiates b i = in_admit d" "calls b i = None \<Longrightarrow> \<not> negotiates b i"
  by (simp_all add: negotiates_def)

lemma one_negotiator_step: "budget_step b b' \<Longrightarrow> one_negotiator b \<Longrightarrow> one_negotiator b'"
  by (induction rule: budget_step.induct; frule negotiates_call; simp add: one_negotiator_def; metis option.inject option.distinct(1))

lemma one_sleeper:
  "one_negotiator b \<Longrightarrow> calls b i = Some d \<Longrightarrow> in_admit d \<Longrightarrow> calls b j = Some e \<Longrightarrow> in_admit e \<Longrightarrow> j = i"
  unfolding one_negotiator_def negotiates_def by (metis option.inject option.simps(5))

lemma no_lost_wakeup_step: "budget_step b b' \<Longrightarrow> one_negotiator b \<Longrightarrow> no_lost_wakeup b \<Longrightarrow> no_lost_wakeup b'"
proof (induction rule: budget_step.induct)
  case (reserved b i k l)
  then show ?case by (auto simp: no_lost_wakeup_def dest: one_sleeper)
next
  case (woken b i k l)
  then show ?case by (auto simp: no_lost_wakeup_def dest: one_sleeper)
next
  case (release b i k l)
  then show ?case by (auto simp: no_lost_wakeup_def)
next
  case (poke b i)
  then show ?case by (auto simp: no_lost_wakeup_def)
qed (simp add: no_lost_wakeup_def; metis derivation.distinct option.inject option.distinct(1))+

text \<open>Both dimensions of the budget are admission queues.\<close>

interpretation memory: admission "\<lambda>b. b = initial_budget" "\<lambda>b b'. sizes_ok b \<and> budget_step b b'" kib_of free_kib budget_kib
proof unfold_locales
  fix b b' assume m: "sizes_ok b \<and> budget_step b b'"
  then have "budget_step b b'" by simp
  then show "(kib_of b' = kib_of b \<and> free_kib b' = free_kib b)
      \<or> (\<exists>i k. 0 \<le> k \<and> k \<le> free_kib b \<and> kib_of b i = 0 \<and> kib_of b' = (kib_of b)(i := k) \<and> free_kib b' = free_kib b - k)
      \<or> (\<exists>i. kib_of b' = (kib_of b)(i := 0) \<and> free_kib b' = free_kib b + kib_of b i)"
    using m
  proof (induction rule: budget_step.induct)
    case (reserved b i k l)
    then have "0 \<le> k" by (fastforce simp: sizes_ok_def)
    moreover have "kib_of (at i (Reserved k l) (reserve k l b)) = (kib_of b)(i := k)"
      by (auto simp: kib_of_def fun_eq_iff)
    moreover have "kib_of b i = 0" using reserved by (simp add: kib_of_def)
    ultimately show ?case using reserved by (auto simp: fits_def)
  next
    case (release b i k l)
    then have "kib_of (at i Released (give_back k l b)) = (kib_of b)(i := 0)" "kib_of b i = k"
      by (auto simp: kib_of_def fun_eq_iff)
    then show ?case by (intro disjI2 exI [of _ i]) simp
  qed (auto simp: kib_of_def fun_eq_iff)
qed (simp_all add: budget_kib_def kib_of_def)

interpretation lanes: admission "\<lambda>b. b = initial_budget" "\<lambda>b b'. sizes_ok b \<and> budget_step b b'" lanes_of free_lanes budget_lanes
proof unfold_locales
  fix b b' assume m: "sizes_ok b \<and> budget_step b b'"
  then have "budget_step b b'" by simp
  then show "(lanes_of b' = lanes_of b \<and> free_lanes b' = free_lanes b)
      \<or> (\<exists>i k. 0 \<le> k \<and> k \<le> free_lanes b \<and> lanes_of b i = 0 \<and> lanes_of b' = (lanes_of b)(i := k) \<and> free_lanes b' = free_lanes b - k)
      \<or> (\<exists>i. lanes_of b' = (lanes_of b)(i := 0) \<and> free_lanes b' = free_lanes b + lanes_of b i)"
    using m
  proof (induction rule: budget_step.induct)
    case (reserved b i k l)
    then have "0 \<le> l" by (fastforce simp: sizes_ok_def)
    moreover have "lanes_of (at i (Reserved k l) (reserve k l b)) = (lanes_of b)(i := l)"
      by (auto simp: lanes_of_def fun_eq_iff)
    moreover have "lanes_of b i = 0" using reserved by (simp add: lanes_of_def)
    ultimately show ?case using reserved by (auto simp: fits_def)
  next
    case (release b i k l)
    then have "lanes_of (at i Released (give_back k l b)) = (lanes_of b)(i := 0)" "lanes_of b i = l"
      by (auto simp: lanes_of_def fun_eq_iff)
    then show ?case by (intro disjI2 exI [of _ i]) simp
  qed (auto simp: lanes_of_def fun_eq_iff)
qed (simp_all add: budget_lanes_def lanes_of_def)

definition budget_inv :: "Budget \<Rightarrow> bool" where
  "budget_inv b \<longleftrightarrow> sizes_ok b \<and> one_negotiator b \<and> no_lost_wakeup b \<and> finite (dom (calls b))
     \<and> memory.visits b \<and> lanes.visits b"

lemma budget_inv_step: "budget_inv b \<Longrightarrow> budget_step b b' \<Longrightarrow> budget_inv b'"
proof -
  assume inv: "budget_inv b" and st: "budget_step b b'"
  have "finite (dom (calls b'))"
    using st inv by (induction rule: budget_step.induct) (auto simp: budget_inv_def)
  moreover have "memory.visits b'" "lanes.visits b'"
    using inv st by (auto simp: budget_inv_def intro: memory.visits.moves lanes.visits.moves)
  ultimately show ?thesis
    using inv st by (simp add: budget_inv_def sizes_ok_step one_negotiator_step no_lost_wakeup_step)
qed

lemma budget_reachable_inv: "budget_reachable b \<Longrightarrow> budget_inv b"
proof (induction rule: budget_reachable.induct)
  case start
  have "sizes_ok initial_budget" "one_negotiator initial_budget" "no_lost_wakeup initial_budget"
    by (simp_all add: sizes_ok_def one_negotiator_def negotiates_def no_lost_wakeup_def)
  moreover have "memory.visits initial_budget" "lanes.visits initial_budget"
    by (simp_all add: memory.visits.begins lanes.visits.begins)
  ultimately show ?case by (simp add: budget_inv_def)
qed (simp add: budget_inv_step)

lemma peaks_step: "budget_step b b' \<Longrightarrow> peaks_ok b \<Longrightarrow> peaks_ok b'"
  by (induction rule: budget_step.induct) (auto simp: peaks_ok_def fits_def)

lemma budget_reachable_peaks: "budget_reachable b \<Longrightarrow> peaks_ok b"
  by (induction rule: budget_reachable.induct)
    (auto simp: peaks_step, simp add: peaks_ok_def budget_kib_def budget_lanes_def)

text \<open>
  Draining: how many steps a call is from having returned once it holds \<open>admit\<close> or a reservation.
\<close>

fun rank :: "derivation \<Rightarrow> nat" where
  "rank (Looking _ _) = 5"
| "rank (Sleeping _ _) = 4"
| "rank (Reserved _ _) = 3"
| "rank (Deriving _ _) = 2"
| "rank Released = 1"
| "rank _ = 0"

definition rank_at :: "Budget \<Rightarrow> nat \<Rightarrow> nat" where
  "rank_at b j = (case calls b j of None \<Rightarrow> 0 | Some d \<Rightarrow> rank d)"

definition backlog :: "Budget \<Rightarrow> nat \<Rightarrow> nat" where
  "backlog b i = (\<Sum>j \<in> dom (calls b) - {i}. rank_at b j)"

lemma drain_one:
  assumes "rank_at b j \<noteq> 0"
  obtains d b' where "budget_step b (at j d b')" "calls b' = calls b" "rank d < rank_at b j"
proof -
  obtain e where e: "calls b j = Some e" "0 < rank e" using assms by (auto simp: rank_at_def split: option.splits)
  show thesis
  proof (cases e)
    case (Looking k l)
    show ?thesis
    proof (cases "fits k l b")
      case True
      with e Looking show ?thesis by (intro that [OF budget_step.reserved]) (auto simp: rank_at_def)
    next
      case False
      with e Looking show ?thesis by (intro that [OF budget_step.sleep]) (auto simp: rank_at_def)
    qed
  next
    case (Sleeping k l)
    with e show ?thesis by (intro that [OF budget_step.timed_out]) (auto simp: rank_at_def)
  next
    case (Reserved k l)
    with e show ?thesis by (intro that [OF budget_step.leave]) (auto simp: rank_at_def)
  next
    case (Deriving k l)
    with e show ?thesis by (intro that [OF budget_step.release]) (auto simp: rank_at_def)
  next
    case Released
    with e show ?thesis by (intro that [OF budget_step.poke]) (auto simp: rank_at_def)
  qed (use e in auto)
qed

lemma drain:
  "budget_inv b \<Longrightarrow> \<exists>b'. budget_step\<^sup>*\<^sup>* b b' \<and> budget_inv b' \<and> calls b' i = calls b i \<and> (\<forall>j. j \<noteq> i \<longrightarrow> rank_at b' j = 0)"
proof (induction "backlog b i" arbitrary: b rule: less_induct)
  case less
  show ?case
  proof (cases "\<forall>j. j \<noteq> i \<longrightarrow> rank_at b j = 0")
    case True
    with less.prems show ?thesis by blast
  next
    case False
    then obtain j where j: "j \<noteq> i" "rank_at b j \<noteq> 0" by blast
    then obtain d c where st: "budget_step b (at j d c)" and c: "calls c = calls b" "rank d < rank_at b j"
      using drain_one by blast
    let ?b = "at j d c"
    have dom: "dom (calls ?b) = dom (calls b)" "j \<in> dom (calls b)"
      using j c by (auto simp: rank_at_def split: option.splits)
    have fin: "finite (dom (calls b) - {i})" using less.prems by (simp add: budget_inv_def)
    have "backlog ?b i < backlog b i"
      unfolding backlog_def dom
    proof (rule sum_strict_mono_ex1 [OF fin])
      show "\<forall>k \<in> dom (calls b) - {i}. rank_at ?b k \<le> rank_at b k" using c by (auto simp: rank_at_def)
      show "\<exists>k \<in> dom (calls b) - {i}. rank_at ?b k < rank_at b k"
        using c j dom(2) by (intro bexI [of _ j]) (auto simp: rank_at_def)
    qed
    from less.hyps [OF this budget_inv_step [OF less.prems st]]
    obtain b' where "budget_step\<^sup>*\<^sup>* ?b b'" "budget_inv b'" "calls b' i = calls ?b i" "\<forall>j. j \<noteq> i \<longrightarrow> rank_at b' j = 0"
      by blast
    moreover have "calls ?b i = calls b i" using c j by simp
    ultimately show ?thesis using st by (metis converse_rtranclp_into_rtranclp)
  qed
qed

section \<open>Lemmas: the PHC string\<close>

lemma digits_not_in:
  "CHR '','' \<notin> set (utoa n)" "CHR ''$'' \<notin> set (utoa n)"
  using utoa_digits [of n] by (auto simp: list_all_iff is_digit_def)

lemma segment_split:
  "split_on (CHR '','') (segment p) =
     [''m='' @ utoa (unat (Memory p)), ''t='' @ utoa (unat (Time p)), ''p='' @ utoa (unat (Threads p))]"
proof -
  have "segment p = (''m='' @ utoa (unat (Memory p))) @ CHR '','' # ((''t='' @ utoa (unat (Time p))) @ CHR '','' #
      (''p='' @ utoa (unat (Threads p))))"
    by (simp add: segment_def)
  then show ?thesis
    using digits_not_in(1) by (simp only: split_on_append split_on_none set_append Un_iff) (simp add: split_on_append split_on_none digits_not_in)
qed

lemma u32_less [simp]: "unat (w :: u32) < 4294967296"
  using unsigned_less [of w, where 'a = nat] by simp

lemma u8_le [simp]: "unat (w :: u8) \<le> 255"
  using unat_u8_less [of w] by linarith

lemma has_prefix_refl [simp]: "has_prefix (a # s) [a] \<longleftrightarrow> True" "has_prefix (a # b # s) [a, b] \<longleftrightarrow> True"
  by (simp_all add: has_prefix_def)

lemma read_fields_segment:
  "read_fields [''m='', ''t='', ''p=''] (split_on (CHR '','') (segment p)) = Inr [unat (Memory p), unat (Time p), unat (Threads p)]"
proof -
  have "unat (Threads p) < 4294967296" using u8_le [of "Threads p"] by linarith
  then show ?thesis by (simp add: segment_split trim_prefix_def)
qed

lemma parse_segment: "validate_params p = None \<Longrightarrow> parse_params (segment p) = Inr p"
proof -
  have p: "\<lparr>Memory = Memory p, Time = Time p, Threads = Threads p\<rparr> = p"
    by simp
  assume "validate_params p = None"
  moreover have "length (split_on (CHR '','') (segment p)) = 3" by (simp add: segment_split)
  ultimately show ?thesis
    unfolding parse_params_def Let_def read_fields_segment using u8_le [of "Threads p"] by (simp add: p not_less)
qed

lemma parse_params_iff: "parse_params seg = Inr p \<longleftrightarrow> seg = segment p \<and> validate_params p = None"
proof
  assume "parse_params seg = Inr p"
  then show "seg = segment p \<and> validate_params p = None"
    by (auto simp: parse_params_def Let_def result_simps split: if_splits option.splits)
qed (simp add: parse_segment)

lemma phc_decode_iff:
  "phc_decode s low = Inr b \<longleftrightarrow> b64_decode b64_std False s = Some b \<and> low \<le> length b \<and> length b \<le> max_decoded"
  by (auto simp: phc_decode_def split: option.splits)

lemma b64_quanta_symbols: "b64_quanta al False s = Some b \<Longrightarrow> c \<in> set s \<Longrightarrow> index_of c al \<noteq> None"
  by (induction al False s arbitrary: b rule: b64_quanta.induct) (auto split: option.splits)

lemma index_of_None: "c \<notin> set al \<Longrightarrow> index_of c al = None"
  by (induction al) auto

lemma b64_decode_no_dollar: "b64_decode b64_std False s = Some b \<Longrightarrow> CHR ''$'' \<notin> set s"
proof
  assume d: "b64_decode b64_std False s = Some b" and m: "CHR ''$'' \<in> set s"
  then have "CHR ''$'' \<in> set (strip_newlines s)" by (simp add: strip_newlines_def)
  with d have "index_of (CHR ''$'') b64_std \<noteq> None"
    unfolding b64_decode_def by (rule b64_quanta_symbols)
  moreover have "index_of (CHR ''$'') b64_std = None" by (rule index_of_None) (simp add: b64_std_def)
  ultimately show False by simp
qed

lemma version_segment_eq: "version_segment = ''v=19''"
  by (simp add: version_segment_def itoa_def utoa.simps char_of_def bit_nat_def)

lemma segment_no_dollar: "CHR ''$'' \<notin> set (segment p)"
  using digits_not_in(2) by (simp add: segment_def)

lemma list6: "length xs = 6 \<Longrightarrow> xs = [xs ! 0, xs ! 1, xs ! 2, xs ! 3, xs ! 4, xs ! 5]"
  by (simp add: list_eq_iff_nth_eq less_Suc_eq numeral_eq_Suc nth_Cons split: nat.splits)

lemma phc_split:
  assumes "CHR ''$'' \<notin> set a" "CHR ''$'' \<notin> set c" "CHR ''$'' \<notin> set d"
  shows "split_on (CHR ''$'') (''$argon2id$v=19$'' @ a @ ''$'' @ c @ ''$'' @ d) = [[], ''argon2id'', ''v=19'', a, c, d]"
proof -
  have "''$argon2id$v=19$'' @ a @ ''$'' @ c @ ''$'' @ d
      = [] @ CHR ''$'' # (''argon2id'' @ CHR ''$'' # (''v=19'' @ CHR ''$'' # (a @ CHR ''$'' # (c @ CHR ''$'' # d))))"
    by simp
  moreover have "CHR ''$'' \<notin> set []" "CHR ''$'' \<notin> set ''argon2id''" "CHR ''$'' \<notin> set ''v=19''" by simp_all
  ultimately show ?thesis
    using assms by (simp only: split_on_append split_on_none simp_thms)
qed

lemma parse_hash_iff:
  "parse_hash encoded = Inr (p, salt, key) \<longleftrightarrow>
     (\<exists>s k. encoded = ''$argon2id$v=19$'' @ segment p @ ''$'' @ s @ ''$'' @ k \<and> validate_params p = None
        \<and> b64_decode b64_std False s = Some salt \<and> min_salt \<le> length salt \<and> length salt \<le> max_decoded
        \<and> b64_decode b64_std False k = Some key \<and> min_hash \<le> length key \<and> length key \<le> max_decoded)"
  (is "_ \<longleftrightarrow> (\<exists>s k. ?R s k)")
proof
  define ps where "ps = split_on (CHR ''$'') encoded"
  assume "parse_hash encoded = Inr (p, salt, key)"
  then have ps: "length ps = 6" "ps ! 0 = []" "ps ! 1 = ''argon2id''" "ps ! 2 = ''v=19''" "ps ! 3 = segment p"
    "validate_params p = None" "phc_decode (ps ! 4) min_salt = Inr salt" "phc_decode (ps ! 5) min_hash = Inr key"
    unfolding parse_hash_def Let_def ps_def [symmetric] version_segment_eq
    by (simp_all add: parse_params_iff result_simps split: if_split_asm)
  have "encoded = join_with (CHR ''$'') ps" by (simp add: ps_def)
  also have "ps = [[], ''argon2id'', ''v=19'', segment p, ps ! 4, ps ! 5]"
    using list6 [OF ps(1)] ps by simp
  finally have "?R (ps ! 4) (ps ! 5)" using ps by (simp add: phc_decode_iff)
  then show "\<exists>s k. ?R s k" by blast
next
  assume "\<exists>s k. ?R s k"
  then obtain s k where r: "?R s k" by blast
  then have "split_on (CHR ''$'') encoded = [[], ''argon2id'', ''v=19'', segment p, s, k]"
    using phc_split [OF segment_no_dollar, of s k p] b64_decode_no_dollar by blast
  moreover have "phc_decode s min_salt = Inr salt" "phc_decode k min_hash = Inr key"
    using r by (simp_all add: phc_decode_iff)
  moreover have "parse_params (segment p) = Inr p" using r by (simp add: parse_segment)
  ultimately show "parse_hash encoded = Inr (p, salt, key)"
    by (simp add: parse_hash_def version_segment_eq)
qed

lemma phc_encode_parse:
  assumes "validate_params p = None" "min_salt \<le> length salt" "length salt \<le> max_decoded"
    "min_hash \<le> length key" "length key \<le> max_decoded"
  shows "parse_hash (phc_encode p salt key) = Inr (p, salt, key)"
  unfolding parse_hash_iff
  using assms b64_decode_encode [OF b64_std_alphabet, of False]
  by (intro exI [of _ "b64_encode b64_std False salt"] exI [of _ "b64_encode b64_std False key"])
    (simp add: phc_encode_def version_segment_eq)

text \<open>Whatever parses asks for no more than the whole budget.\<close>

lemma valid_within_budget:
  "validate_params p = None \<Longrightarrow> uint (Memory p) \<le> budget_kib \<and> uint (Threads p) \<le> budget_lanes"
  by (auto simp: validate_params_def max_memory_def max_threads_def budget_kib_def budget_lanes_def word_le_def not_less split: if_splits)

lemma with_budget_valid: "validate_params p = None \<Longrightarrow> with_budget True (uint (Memory p)) (uint (Threads p)) r = Inr r"
  using valid_within_budget [of p] by (simp add: with_budget_def)

lemma default_valid: "validate_params default_params = None"
  by (simp add: validate_params_def default_params_def min_memory_def max_memory_def min_time_def max_time_def
      min_threads_def max_threads_def)

section \<open>Properties\<close>

text \<open>
  C11: What \<open>HashWith\<close> returns is read back by the parser with the parameters it was made with, and
  \<open>Verify\<close> accepts a plaintext against it exactly when Argon2 gives the plaintext that was hashed
  the same key. Argon2 returns as many bytes as it was asked for.
\<close>

theorem hash_then_verify:
  assumes argon: "\<forall>pw salt t m th n. length (argon pw salt t m th n) = n"
    and hashed: "hash_with argon True rnd plaintext p = Inr encoded"
  shows "parse_hash encoded = Inr (p, take 16 rnd, argon plaintext (take 16 rnd) (Time p) (Memory p) (Threads p) 32)
    \<and> verify_password argon True other encoded =
      Inr (argon other (take 16 rnd) (Time p) (Memory p) (Threads p) 32 = argon plaintext (take 16 rnd) (Time p) (Memory p) (Threads p) 32)
    \<and> verify_password argon True plaintext encoded = Inr True"
proof -
  let ?k = "\<lambda>pw. argon pw (take 16 rnd) (Time p) (Memory p) (Threads p) 32"
  have v: "validate_params p = None" and len: "16 \<le> length rnd" and e: "encoded = phc_encode p (take 16 rnd) (?k plaintext)"
    using hashed by (auto simp: hash_with_def with_budget_valid salt_bytes_def key_bytes_def Let_def not_less split: if_splits option.splits)
  have parse: "parse_hash encoded = Inr (p, take 16 rnd, ?k plaintext)"
    unfolding e using v len argon by (intro phc_encode_parse) (simp_all add: min_salt_def max_decoded_def min_hash_def)
  then have "verify_password argon True other encoded = Inr (?k other = ?k plaintext)" for other
    using v argon by (simp add: verify_password_def with_budget_valid)
  with parse show ?thesis by simp
qed

lemma hash_then_verify_witness:
  "verify_password (\<lambda>pw salt t m th n. replicate n (of_nat (length pw))) True ''pw''
     (phc_encode default_params (replicate 16 7) (replicate 32 2)) = Inr True"
proof -
  have "hash_with (\<lambda>pw salt t m th n. replicate n (of_nat (length pw))) True (replicate 16 7) ''pw'' default_params
      = Inr (phc_encode default_params (replicate 16 7) (replicate 32 2))"
    by (simp add: hash_with_def default_valid with_budget_valid salt_bytes_def key_bytes_def)
  from hash_then_verify [OF _ this] show ?thesis by simp
qed

text \<open>
  The parser accepts exactly the strings that spell an Argon2id version 19 hash: the parameter
  segment is the canonical one of parameters inside the band, and salt and key are base64 of at
  least 8 and 16 and at most 1024 bytes. A derivation it asks for fits the budget.
\<close>

theorem parse_hash_accepts:
  "parse_hash encoded = Inr (p, salt, key) \<longleftrightarrow>
     (\<exists>s k. encoded = ''$argon2id$v=19$m='' @ utoa (unat (Memory p)) @ '',t='' @ utoa (unat (Time p)) @ '',p='' @ utoa (unat (Threads p))
              @ ''$'' @ s @ ''$'' @ k
        \<and> 8192 \<le> uint (Memory p) \<and> uint (Memory p) \<le> budget_kib \<and> 1 \<le> uint (Time p) \<and> uint (Time p) \<le> 10
        \<and> 1 \<le> uint (Threads p) \<and> uint (Threads p) \<le> budget_lanes
        \<and> b64_decode b64_std False s = Some salt \<and> 8 \<le> length salt \<and> length salt \<le> 1024
        \<and> b64_decode b64_std False k = Some key \<and> 16 \<le> length key \<and> length key \<le> 1024)"
proof -
  have "validate_params p = None \<longleftrightarrow> 8192 \<le> uint (Memory p) \<and> uint (Memory p) \<le> budget_kib \<and> 1 \<le> uint (Time p) \<and> uint (Time p) \<le> 10
      \<and> 1 \<le> uint (Threads p) \<and> uint (Threads p) \<le> budget_lanes"
    by (auto simp: validate_params_def min_memory_def max_memory_def min_time_def max_time_def min_threads_def max_threads_def
        budget_kib_def budget_lanes_def word_le_def word_less_def)
  then show ?thesis
    unfolding parse_hash_iff by (simp add: segment_def min_salt_def min_hash_def max_decoded_def)
qed

text \<open>
  C20: However calls interleave, the derivations running at one instant reserve at most 256 MiB and 16
  lanes together, and the recorded peaks never show more.
\<close>

theorem derivations_within_budget:
  assumes "budget_reachable b" "finite A"
  shows "(\<Sum>i \<in> A. kib_of b i) \<le> 262144 \<and> (\<Sum>i \<in> A. lanes_of b i) \<le> 16
    \<and> 0 \<le> free_kib b \<and> 0 \<le> free_lanes b \<and> peak_kib b \<le> 262144 \<and> peak_lanes b \<le> 16"
  using budget_reachable_inv [OF assms(1)] budget_reachable_peaks [OF assms(1)]
    memory.held_within [OF _ assms(2)] lanes.held_within [OF _ assms(2)] memory.free_bounds lanes.free_bounds
  by (simp add: budget_inv_def peaks_ok_def budget_kib_def budget_lanes_def)

lemma derivations_within_budget_witness:
  "(\<Sum>i \<in> {0, 1}. kib_of (at 0 (Queued 65536 4) initial_budget) i) \<le> 262144"
proof -
  have "budget_step initial_budget (at 0 (Queued 65536 4) initial_budget)"
    by (rule budget_step.queue) (simp_all add: budget_kib_def budget_lanes_def)
  with budget_reachable.start have "budget_reachable (at 0 (Queued 65536 4) initial_budget)"
    by (rule budget_reachable.step)
  from derivations_within_budget [OF this, of "{0, 1}"] show ?thesis by simp
qed

text \<open>
  C16: No call of \<open>withBudget\<close> that is still waiting, in the queue or asleep, can be stuck: from every
  reachable state some continuation gives it its reservation, because a sleeper that fits always has
  a wake-up pending and everybody in front of it can leave.
\<close>

theorem waiting_call_can_be_granted:
  assumes "budget_reachable b"
    and "calls b i = Some (Queued kib lanes) \<or> calls b i = Some (Looking kib lanes) \<or> calls b i = Some (Sleeping kib lanes)"
  shows "\<exists>b'. budget_step\<^sup>*\<^sup>* b b' \<and> calls b' i = Some (Reserved kib lanes)"
proof -
  obtain c where c: "budget_step\<^sup>*\<^sup>* b c" "budget_inv c" "calls c i = calls b i" "\<forall>j. j \<noteq> i \<longrightarrow> rank_at c j = 0"
    using drain [OF budget_reachable_inv [OF assms(1)]] by blast
  have idle: "kib_of c j = 0" "lanes_of c j = 0" for j
    using c(3,4) assms(2) by (cases "j = i"; fastforce simp: kib_of_def lanes_of_def rank_at_def split: option.splits derivation.splits)+
  have room: "free_kib c = budget_kib" "free_lanes c = budget_lanes"
    using c(2) idle memory.idle_all_free lanes.idle_all_free by (simp_all add: budget_inv_def)
  have "\<exists>d. calls c i = Some d \<and> request d = Some (kib, lanes)" using assms(2) c(3) by auto
  then have fit: "fits kib lanes c"
    using c(2) room unfolding budget_inv_def sizes_ok_def fits_def by fastforce
  have grant: "\<exists>b'. budget_step\<^sup>*\<^sup>* c' b' \<and> calls b' i = Some (Reserved kib lanes)"
    if "calls c' i = Some (Looking kib lanes)" "fits kib lanes c'" for c'
    using budget_step.reserved [OF that] by (intro exI [of _ "at i (Reserved kib lanes) (reserve kib lanes c')"]) auto
  have "\<exists>c'. budget_step\<^sup>*\<^sup>* c c' \<and> calls c' i = Some (Looking kib lanes) \<and> fits kib lanes c'"
    using assms(2)
  proof (elim disjE)
    assume "calls b i = Some (Queued kib lanes)"
    then have q: "calls c i = Some (Queued kib lanes)" using c(3) by simp
    have "admit c = None"
    proof (rule ccontr)
      assume "admit c \<noteq> None"
      then obtain j where "negotiates c j" using c(2) by (auto simp: budget_inv_def one_negotiator_def)
      then obtain d where "calls c j = Some d" "in_admit d" by (auto simp: negotiates_def split: option.splits)
      with q c(4) show False by (cases "j = i"; cases d) (auto simp: rank_at_def)
    qed
    from budget_step.admitted [OF q this] fit show ?thesis
      by (intro exI [of _ "at i (Looking kib lanes) (c\<lparr>admit := Some i\<rparr>)"]) auto
  next
    assume "calls b i = Some (Looking kib lanes)"
    then show ?thesis using c(3) fit by (intro exI [of _ c]) simp
  next
    assume "calls b i = Some (Sleeping kib lanes)"
    then have q: "calls c i = Some (Sleeping kib lanes)" using c(3) by simp
    have "wake c"
    proof (rule ccontr)
      assume "\<not> wake c"
      then obtain j where "calls c j = Some Released"
        using c(2) q fit unfolding budget_inv_def no_lost_wakeup_def by blast
      with q c(4) show False by (cases "j = i") (auto simp: rank_at_def)
    qed
    from budget_step.woken [OF q this] fit show ?thesis
      by (intro exI [of _ "at i (Looking kib lanes) (c\<lparr>wake := False\<rparr>)"]) auto
  qed
  then obtain c' where "budget_step\<^sup>*\<^sup>* c c'" "calls c' i = Some (Looking kib lanes)" "fits kib lanes c'" by blast
  with grant c(1) show ?thesis by (meson rtranclp_trans)
qed

lemma waiting_call_can_be_granted_witness:
  "\<exists>b'. budget_step\<^sup>*\<^sup>* (at 0 (Queued 65536 4) initial_budget) b' \<and> calls b' 0 = Some (Reserved 65536 4)"
proof -
  have "budget_step initial_budget (at 0 (Queued 65536 4) initial_budget)"
    by (rule budget_step.queue) (simp_all add: budget_kib_def budget_lanes_def)
  with budget_reachable.start have "budget_reachable (at 0 (Queued 65536 4) initial_budget)"
    by (rule budget_reachable.step)
  from waiting_call_can_be_granted [OF this, of 0 65536 4] show ?thesis by simp
qed

text \<open>
  \<open>DummyVerify\<close> never fails on its own hash and always derives at the current parameters: on
  first use it mints a hash that parses with the defaults, keeps it, and every later call verifies
  against the same one.
\<close>

theorem dummy_verify_costs_default:
  assumes argon: "\<forall>pw salt t m th n. length (argon pw salt t m th n) = n"
    and "length salt = 16" "dummy_verify argon True salt [] = (r, memo)"
  shows "r = Inr True \<and> (\<exists>key. parse_hash memo = Inr (default_params, salt, key)) \<and> \<not> needs_rehash memo
    \<and> dummy_verify argon True salt' memo = (Inr True, memo)"
proof -
  let ?key = "argon dummy_plaintext salt (Time default_params) (Memory default_params) (Threads default_params) 32"
  have m: "memo = phc_encode default_params salt ?key"
    using assms(3) by (auto simp: dummy_verify_def dummy_hash_def dummy_mint_def key_bytes_def Let_def)
  have parse: "parse_hash memo = Inr (default_params, salt, ?key)"
    unfolding m using assms(1,2) default_valid
    by (intro phc_encode_parse) (simp_all add: min_salt_def max_decoded_def min_hash_def)
  have v: "verify_password argon True dummy_plaintext memo = Inr True"
    using parse argon by (simp add: verify_password_def with_budget_valid default_valid)
  have r: "r = Inr True"
    using assms(3) v m by (auto simp: dummy_verify_def dummy_hash_def dummy_mint_def key_bytes_def Let_def)
  have "\<not> needs_rehash memo" using parse by (simp add: needs_rehash_def)
  moreover have "memo \<noteq> []" by (simp add: m phc_encode_def)
  then have "dummy_verify argon True salt' memo = (Inr True, memo)"
    using v by (simp add: dummy_verify_def dummy_hash_def)
  ultimately show ?thesis using r parse by blast
qed

lemma dummy_verify_costs_default_witness:
  "\<exists>memo. dummy_verify (\<lambda>pw salt t m th n. replicate n 1) True (replicate 16 0) [] = (Inr True, memo) \<and> \<not> needs_rehash memo"
  using dummy_verify_costs_default [of "\<lambda>pw salt t m th n. replicate n 1" "replicate 16 0"]
  by (metis length_replicate surj_pair)

text \<open>
  The comment above the version check says that a stored hash has exactly one canonical spelling. It
  has one parameter segment, but salt and key do not: the decoder skips line breaks and does not
  look at the bits a last symbol does not use.
\<close>

lemma zero_key_base64:
  "b64_decode b64_std False ''AAAAAAAAAAA'' = Some [0, 0, 0, 0, 0, 0, 0, 0]"
  "b64_decode b64_std False ''AAAAAAAAAAB'' = Some [0, 0, 0, 0, 0, 0, 0, 0]"
  "b64_decode b64_std False ''AAAAAAAAAAAAAAAAAAAAAA'' = Some [0, 0, 0, 0, 0, 0, 0, 0, 0, 0, 0, 0, 0, 0, 0, 0]"
proof -
  have "index_of (CHR ''A'') b64_std = Some 0" "index_of (CHR ''B'') b64_std = Some 1"
    by (simp_all add: b64_std_def)
  then show "b64_decode b64_std False ''AAAAAAAAAAA'' = Some [0, 0, 0, 0, 0, 0, 0, 0]"
    "b64_decode b64_std False ''AAAAAAAAAAB'' = Some [0, 0, 0, 0, 0, 0, 0, 0]"
    "b64_decode b64_std False ''AAAAAAAAAAAAAAAAAAAAAA'' = Some [0, 0, 0, 0, 0, 0, 0, 0, 0, 0, 0, 0, 0, 0, 0, 0]"
    by (simp_all add: b64_decode_def strip_newlines_def b64_byte1_def b64_byte2_def b64_byte3_def)
qed

lemma two_spellings:
  assumes "s \<in> {''AAAAAAAAAAA'', ''AAAAAAAAAAB''}"
  shows "parse_hash (''$argon2id$v=19$'' @ segment default_params @ ''$'' @ s @ ''$'' @ ''AAAAAAAAAAAAAAAAAAAAAA'')
    = Inr (default_params, [0, 0, 0, 0, 0, 0, 0, 0], [0, 0, 0, 0, 0, 0, 0, 0, 0, 0, 0, 0, 0, 0, 0, 0])"
  unfolding parse_hash_iff
  using assms zero_key_base64 default_valid
  by (intro exI [of _ s] exI [of _ "''AAAAAAAAAAAAAAAAAAAAAA''"]) (auto simp: min_salt_def min_hash_def max_decoded_def)

end
