(* ===== verification/Derive.thy ===== *)
theory Derive
  imports Prelude Codec GoStrings Hashes Admission
begin

text \<open>
  \<open>derive/derive.go\<close>: the login secret stretched from a password with PBKDF2 and separated by HKDF,
  the admission of stretches to a fixed number of slots, and the synthetic salts of unknown accounts.
  PBKDF2 and HKDF are those of the Go standard library over HMAC-SHA256; Unicode's lower-case table is
  the parameter \<open>lo\<close>. Whether a stretch gets a slot is the argument \<open>refusal\<close> of the sequential
  definition; the queue that decides it is the step relation \<open>slot_step\<close>.
\<close>

section \<open>Key derivation of the standard library\<close>

definition xor_bytes :: "bytes \<Rightarrow> bytes \<Rightarrow> bytes" where
  "xor_bytes a b = map2 (XOR) a b"

fun pbkdf2_loop :: "(bytes \<Rightarrow> bytes) \<Rightarrow> nat \<Rightarrow> bytes \<Rightarrow> bytes \<Rightarrow> bytes" where
  "pbkdf2_loop prf 0 u t = t"
| "pbkdf2_loop prf (Suc n) u t = (let u' = prf u in pbkdf2_loop prf n u' (xor_bytes t u'))"

definition pbkdf2_block :: "bytes \<Rightarrow> bytes \<Rightarrow> nat \<Rightarrow> nat \<Rightarrow> bytes" where
  "pbkdf2_block pw salt iterations i =
     (let u = hmac_sha256 pw (salt @ be32 (of_nat i)) in pbkdf2_loop (hmac_sha256 pw) (iterations - 1) u u)"

definition pbkdf2 :: "bytes \<Rightarrow> bytes \<Rightarrow> nat \<Rightarrow> nat \<Rightarrow> bytes" where
  "pbkdf2 pw salt iterations n =
     take n (concat (map (pbkdf2_block pw salt iterations) [1..<Suc ((n + 31) div 32)]))"

fun hkdf_blocks :: "bytes \<Rightarrow> bytes \<Rightarrow> bytes \<Rightarrow> nat \<Rightarrow> nat \<Rightarrow> bytes" where
  "hkdf_blocks prk info prev i 0 = []"
| "hkdf_blocks prk info prev i (Suc n) =
     (let t = hmac_sha256 prk (prev @ info @ [of_nat i]) in t @ hkdf_blocks prk info t (Suc i) n)"

text \<open>A salt of \<open>nil\<close> stands for 32 zero bytes.\<close>

definition hkdf :: "bytes \<Rightarrow> bytes \<Rightarrow> nat \<Rightarrow> bytes" where
  "hkdf secret info n =
     take n (hkdf_blocks (hmac_sha256 (replicate 32 0) secret) info [] 1 ((n + 31) div 32))"

section \<open>The login secret\<close>

datatype derive_error =
    LabelRequired | IterationsOutside | SaltNotBase64 | SaltSize | SlotsBusy | ContextDone | KeyTooShort

definition min_iterations :: int where
  "min_iterations = 100000"

definition max_iterations :: int where
  "max_iterations = 12000000"

definition secret_size :: nat where
  "secret_size = 32"

definition min_salt_bytes :: nat where
  "min_salt_bytes = 16"

definition max_salt_bytes :: nat where
  "max_salt_bytes = 64"

definition auth_secret :: "derive_error option \<Rightarrow> string \<Rightarrow> string \<Rightarrow> int \<Rightarrow> string \<Rightarrow> derive_error + string" where
  "auth_secret refusal password salt64 iterations label =
     (if label = [] then Inl LabelRequired
      else if iterations < min_iterations \<or> max_iterations < iterations then Inl IterationsOutside
      else case b64_decode b64_std True salt64 of
        None \<Rightarrow> Inl SaltNotBase64
      | Some salt \<Rightarrow>
          if length salt < min_salt_bytes \<or> max_salt_bytes < length salt then Inl SaltSize
          else case refusal of
            Some e \<Rightarrow> Inl e
          | None \<Rightarrow>
              let stretched = pbkdf2 (bytes_of password) salt (nat iterations) secret_size
              in Inr (hex_encode (hkdf stretched (bytes_of label) secret_size)))"

definition min_synthetic_key :: nat where
  "min_synthetic_key = 32"

definition synthetic_salt :: "(nat \<Rightarrow> nat) \<Rightarrow> bytes \<Rightarrow> string \<Rightarrow> string \<Rightarrow> derive_error + string" where
  "synthetic_salt lo key label username =
     (if length key < min_synthetic_key then Inl KeyTooShort
      else if label = [] then Inl LabelRequired
      else Inr (b64_encode b64_std True
             (take min_salt_bytes (hmac_sha256 key (bytes_of (label @ CHR 0x00 # to_lower lo username))))))"

section \<open>The slots\<close>

definition max_concurrent :: int where
  "max_concurrent = 4"

text \<open>
  A call of \<open>AuthSecretContext\<close> waits in \<open>acquire\<close>, has a slot but is not metered yet, runs, is no
  longer metered but still has its slot, or has returned. The slots are the contents of a channel of
  capacity \<open>MaxConcurrent\<close>.
\<close>

datatype stretch = Waiting | Taken | Running | Unmetered | Finished | Refused derive_error

record Slots =
  taken :: int
  metered :: int
  metered_peak :: int
  stretches :: "nat \<Rightarrow> stretch option"

definition initial_slots :: Slots where
  "initial_slots = \<lparr>taken = 0, metered = 0, metered_peak = 0, stretches = (\<lambda>_. None)\<rparr>"

definition now :: "nat \<Rightarrow> stretch \<Rightarrow> Slots \<Rightarrow> Slots" where
  "now i d s = s\<lparr>stretches := (stretches s)(i \<mapsto> d)\<rparr>"

definition meter_up :: "Slots \<Rightarrow> Slots" where
  "meter_up s = (let h = metered s + 1
     in s\<lparr>metered := h, metered_peak := (if metered_peak s < h then h else metered_peak s)\<rparr>)"

inductive slot_step :: "Slots \<Rightarrow> Slots \<Rightarrow> bool" where
  gone: "stretches s i = None \<Longrightarrow> slot_step s (now i (Refused ContextDone) s)"
| wait: "stretches s i = None \<Longrightarrow> slot_step s (now i Waiting s)"
| take: "stretches s i = Some Waiting \<Longrightarrow> taken s < max_concurrent
    \<Longrightarrow> slot_step s (now i Taken (s\<lparr>taken := taken s + 1\<rparr>))"
| timed_out: "stretches s i = Some Waiting \<Longrightarrow> slot_step s (now i (Refused SlotsBusy) s)"
| cancelled: "stretches s i = Some Waiting \<Longrightarrow> slot_step s (now i (Refused ContextDone) s)"
| meter: "stretches s i = Some Taken \<Longrightarrow> slot_step s (now i Running (meter_up s))"
| unmeter: "stretches s i = Some Running \<Longrightarrow> slot_step s (now i Unmetered (s\<lparr>metered := metered s - 1\<rparr>))"
| free: "stretches s i = Some Unmetered \<Longrightarrow> slot_step s (now i Finished (s\<lparr>taken := taken s - 1\<rparr>))"

inductive slot_reachable :: "Slots \<Rightarrow> bool" where
  start: "slot_reachable initial_slots"
| step: "slot_reachable s \<Longrightarrow> slot_step s s' \<Longrightarrow> slot_reachable s'"

text \<open>Who has a slot, and who is metered.\<close>

definition has_slot :: "Slots \<Rightarrow> nat \<Rightarrow> int" where
  "has_slot s i = (if stretches s i \<in> {Some Taken, Some Running, Some Unmetered} then 1 else 0)"

definition is_metered :: "Slots \<Rightarrow> nat \<Rightarrow> int" where
  "is_metered s i = (if stretches s i = Some Running then 1 else 0)"

section \<open>Lemmas: the slots\<close>

lemma now_simps [simp]:
  "stretches (now i d s) = (stretches s)(i \<mapsto> d)" "taken (now i d s) = taken s" "metered (now i d s) = metered s"
  "metered_peak (now i d s) = metered_peak s"
  by (simp_all add: now_def)

lemma meter_up_simps [simp]:
  "stretches (meter_up s) = stretches s" "taken (meter_up s) = taken s" "metered (meter_up s) = metered s + 1"
  "metered_peak (meter_up s) = max (metered_peak s) (metered s + 1)"
  by (simp_all add: meter_up_def Let_def max_def)

lemma initial_slots_simps [simp]:
  "stretches initial_slots = (\<lambda>_. None)" "taken initial_slots = 0" "metered initial_slots = 0" "metered_peak initial_slots = 0"
  by (simp_all add: initial_slots_def)

interpretation slots: admission "\<lambda>s. s = initial_slots" slot_step has_slot "\<lambda>s. max_concurrent - taken s" max_concurrent
proof unfold_locales
  fix s s' assume "slot_step s s'"
  then show "(has_slot s' = has_slot s \<and> max_concurrent - taken s' = max_concurrent - taken s)
      \<or> (\<exists>i k. 0 \<le> k \<and> k \<le> max_concurrent - taken s \<and> has_slot s i = 0 \<and> has_slot s' = (has_slot s)(i := k)
          \<and> max_concurrent - taken s' = max_concurrent - taken s - k)
      \<or> (\<exists>i. has_slot s' = (has_slot s)(i := 0) \<and> max_concurrent - taken s' = max_concurrent - taken s + has_slot s i)"
  proof (induction rule: slot_step.induct)
    case (take s i)
    then have "has_slot (now i Taken (s\<lparr>taken := taken s + 1\<rparr>)) = (has_slot s)(i := 1)" "has_slot s i = 0"
      by (auto simp: has_slot_def fun_eq_iff)
    with take show ?case by (intro disjI2 [OF disjI1] exI [of _ i] exI [of _ 1]) simp
  next
    case (free s i)
    then have "has_slot (now i Finished (s\<lparr>taken := taken s - 1\<rparr>)) = (has_slot s)(i := 0)" "has_slot s i = 1"
      by (auto simp: has_slot_def fun_eq_iff)
    then show ?case by (intro disjI2 exI [of _ i]) simp
  qed (auto simp: has_slot_def fun_eq_iff)
qed (simp_all add: max_concurrent_def has_slot_def)

text \<open>The meter counts the calls that run, so it never shows more than the slots there are.\<close>

definition running :: "Slots \<Rightarrow> nat set" where
  "running s = {i. stretches s i = Some Running}"

lemma running_now [simp]: "running (now i d s) = (if d = Running then insert i (running s) else running s - {i})"
  by (auto simp: running_def)

lemma running_same [simp]:
  "running (meter_up s) = running s" "running (s\<lparr>taken := t\<rparr>) = running s" "running (s\<lparr>metered := m\<rparr>) = running s"
  by (simp_all add: running_def)

lemma running_call: "stretches s i = x \<Longrightarrow> i \<in> running s \<longleftrightarrow> x = Some Running"
  by (simp add: running_def)

lemma meter_counts: "slot_reachable s \<Longrightarrow> finite (running s) \<and> metered s = int (card (running s))"
proof (induction rule: slot_reachable.induct)
  case (step s s')
  from step(2,3) show ?case
  proof (induction rule: slot_step.induct)
    case (unmeter s i)
    then have "i \<in> running s" by (simp add: running_def)
    with unmeter have "0 < card (running s)" by (auto simp: card_gt_0_iff)
    with unmeter \<open>i \<in> running s\<close> show ?case by (simp add: of_nat_diff)
  qed (simp_all add: running_call card_insert_if)
qed (simp add: running_def)

lemma slot_reachable_visits: "slot_reachable s \<Longrightarrow> slots.visits s"
  by (induction rule: slot_reachable.induct) (auto intro: slots.visits.intros)

lemma metered_within: "slot_reachable s \<Longrightarrow> metered s \<le> max_concurrent"
proof -
  assume r: "slot_reachable s"
  have "metered s = (\<Sum>i \<in> running s. has_slot s i)"
    using meter_counts [OF r] by (simp add: has_slot_def running_def)
  also have "\<dots> \<le> max_concurrent"
    using slots.held_within [OF slot_reachable_visits [OF r]] meter_counts [OF r] by blast
  finally show ?thesis .
qed

lemma peak_within: "slot_reachable s \<Longrightarrow> metered_peak s \<le> max_concurrent"
proof (induction rule: slot_reachable.induct)
  case (step s s')
  have "metered s' \<le> max_concurrent" using slot_reachable.step [OF step(1,2)] by (rule metered_within)
  with step(2,3) show ?case by (induction rule: slot_step.induct) auto
qed (simp add: max_concurrent_def)

section \<open>Lemmas: sizes and separation\<close>

lemma length_xor_bytes [simp]: "length (xor_bytes a b) = min (length a) (length b)"
  by (simp add: xor_bytes_def)

lemma length_pbkdf2_loop:
  "length u = 32 \<Longrightarrow> length t = 32 \<Longrightarrow> length (pbkdf2_loop (hmac_sha256 pw) n u t) = 32"
  by (induction n arbitrary: u t) (simp_all add: Let_def)

lemma length_pbkdf2_32 [simp]: "length (pbkdf2 pw salt n 32) = 32"
  by (simp add: pbkdf2_def pbkdf2_block_def Let_def length_pbkdf2_loop)

lemma length_hkdf_32 [simp]: "length (hkdf secret info 32) = 32"
  by (simp add: hkdf_def Let_def numeral_eq_Suc [of "num.One"])

lemma nul_split:
  assumes "a @ CHR 0x00 # u = b @ CHR 0x00 # v" "CHR 0x00 \<notin> set u" "CHR 0x00 \<notin> set v"
  shows "a = b \<and> u = v"
  using assms before_last_append [of "CHR 0x00" u a] before_last_append [of "CHR 0x00" v b] by (metis append_same_eq same_append_eq list.inject)

section \<open>Properties\<close>

text \<open>
  However calls interleave, time out or are cancelled, at most four of them have a slot, the
  meter never reads more than four, and its recorded peak does not either.
\<close>

theorem stretches_within_slots:
  assumes "slot_reachable s" "finite A"
  shows "(\<Sum>i \<in> A. has_slot s i) \<le> 4 \<and> 0 \<le> taken s \<and> taken s \<le> 4 \<and> 0 \<le> metered s \<and> metered s \<le> 4 \<and> metered_peak s \<le> 4"
  using slots.held_within [OF slot_reachable_visits [OF assms(1)] assms(2)]
    slots.free_bounds [OF slot_reachable_visits [OF assms(1)]] metered_within [OF assms(1)] peak_within [OF assms(1)]
    meter_counts [OF assms(1)]
  by (simp add: max_concurrent_def)

lemma stretches_within_slots_witness: "(\<Sum>i \<in> {0}. has_slot (now 0 Waiting initial_slots) i) \<le> 4"
proof -
  have "slot_reachable (now 0 Waiting initial_slots)"
    by (rule slot_reachable.step [OF slot_reachable.start slot_step.wait]) simp
  from stretches_within_slots [OF this, of "{0}"] show ?thesis by simp
qed

text \<open>
  \<open>AuthSecret\<close> answers with a secret exactly when the label is not empty, the iteration count is
  in the band, the salt is base64 of 16 to 64 bytes and the queue gave a slot, and the secret is the
  lower-case hex text of the 32 bytes PBKDF2 and HKDF derive. The refusal of the queue is reported
  only for a call that passed every other check.
\<close>

theorem auth_secret_answers:
  "(auth_secret refusal pw salt64 n label = Inr out \<longleftrightarrow>
     (\<exists>salt. label \<noteq> [] \<and> 100000 \<le> n \<and> n \<le> 12000000 \<and> b64_decode b64_std True salt64 = Some salt
        \<and> 16 \<le> length salt \<and> length salt \<le> 64 \<and> refusal = None
        \<and> out = hex_encode (hkdf (pbkdf2 (bytes_of pw) salt (nat n) 32) (bytes_of label) 32)
        \<and> length out = 64 \<and> list_all is_lower_hex out))
   \<and> (auth_secret (Some SlotsBusy) pw salt64 n label = Inl SlotsBusy \<longleftrightarrow> is_ok (auth_secret None pw salt64 n label))"
  by (auto simp: auth_secret_def min_iterations_def max_iterations_def min_salt_bytes_def max_salt_bytes_def secret_size_def
      hex_encode_lower Let_def split: option.splits if_splits)

text \<open>
  The salt an unknown account is answered with is one \<open>AuthSecret\<close> accepts, and it is the same
  for every spelling of the name that lower-cases alike.
\<close>

theorem synthetic_salt_serves:
  assumes "synthetic_salt lo key label user = Inr salt64"
    and "label' \<noteq> []" "100000 \<le> n" "n \<le> 12000000" "to_lower lo user' = to_lower lo user"
  shows "is_ok (auth_secret None pw salt64 n label') \<and> synthetic_salt lo key label user' = Inr salt64"
proof -
  let ?mac = "hmac_sha256 key (bytes_of (label @ CHR 0x00 # to_lower lo user))"
  have s: "salt64 = b64_encode b64_std True (take 16 ?mac)"
    using assms(1) by (simp add: synthetic_salt_def min_salt_bytes_def split: if_splits)
  then have "b64_decode b64_std True salt64 = Some (take 16 ?mac)" by (simp add: b64_decode_encode)
  with assms have "is_ok (auth_secret None pw salt64 n label')"
    by (simp add: auth_secret_def min_iterations_def max_iterations_def min_salt_bytes_def max_salt_bytes_def Let_def)
  moreover have "synthetic_salt lo key label user' = Inr salt64"
    using assms(1) unfolding synthetic_salt_def assms(5) .
  ultimately show ?thesis by simp
qed

lemma synthetic_salt_serves_witness:
  "\<exists>salt64. synthetic_salt id (replicate 32 1) ''ky'' ''Ann'' = Inr salt64
     \<and> is_ok (auth_secret None ''pw'' salt64 100000 ''login'') \<and> synthetic_salt id (replicate 32 1) ''ky'' ''aNN'' = Inr salt64"
proof -
  have "to_lower id ''aNN'' = to_lower id ''Ann''"
    by (simp add: to_lower_def is_ascii_def ascii_lower_def Let_def char_of_def bit_nat_def)
  moreover obtain salt64 where "synthetic_salt id (replicate 32 1) ''ky'' ''Ann'' = Inr salt64"
    by (simp add: synthetic_salt_def min_synthetic_key_def)
  ultimately show ?thesis
    using synthetic_salt_serves [of id "replicate 32 1" "''ky''" "''Ann''" salt64 "''login''" 100000 "''aNN''" "''pw''"] by simp
qed

text \<open>
  Two names without a NUL byte that get one salt under one key lower-case to the same name and
  were asked under the same label, or their labelled names are a collision of the truncated MAC.
\<close>

theorem synthetic_salt_binds:
  assumes "synthetic_salt lo key label user = Inr salt64" "synthetic_salt lo key label' user' = Inr salt64"
    and "CHR 0x00 \<notin> set (to_lower lo user)" "CHR 0x00 \<notin> set (to_lower lo user')"
  shows "label = label' \<and> to_lower lo user = to_lower lo user'
    \<or> (let m = bytes_of (label @ CHR 0x00 # to_lower lo user); m' = bytes_of (label' @ CHR 0x00 # to_lower lo user')
       in m \<noteq> m' \<and> take 16 (hmac_sha256 key m) = take 16 (hmac_sha256 key m'))"
proof -
  let ?m = "\<lambda>l u. bytes_of (l @ CHR 0x00 # to_lower lo u)"
  have "b64_encode b64_std True (take 16 (hmac_sha256 key (?m label user))) = b64_encode b64_std True (take 16 (hmac_sha256 key (?m label' user')))"
    using assms(1,2) by (simp add: synthetic_salt_def min_salt_bytes_def split: if_splits)
  then have t: "take 16 (hmac_sha256 key (?m label user)) = take 16 (hmac_sha256 key (?m label' user'))"
    using b64_decode_encode [OF b64_std_alphabet, of True] by (metis option.inject)
  show ?thesis
  proof (cases "?m label user = ?m label' user'")
    case True
    then have "label @ CHR 0x00 # to_lower lo user = label' @ CHR 0x00 # to_lower lo user'" by (simp only: bytes_of_inj)
    from nul_split [OF this assms(3,4)] show ?thesis by simp
  next
    case False
    with t show ?thesis by (simp add: Let_def)
  qed
qed

lemma synthetic_salt_binds_witness:
  "\<exists>salt64. synthetic_salt id (replicate 32 1) ''ky'' ''Ann'' = Inr salt64 \<and>
     to_lower id ''Ann'' = ''ann''"
proof -
  have l: "to_lower id ''ann'' = ''ann''" "to_lower id ''Ann'' = ''ann''"
    by (simp_all add: to_lower_def is_ascii_def ascii_lower_def Let_def char_of_def bit_nat_def)
  then obtain salt64 where s: "synthetic_salt id (replicate 32 1) ''ky'' ''Ann'' = Inr salt64" "synthetic_salt id (replicate 32 1) ''ky'' ''ann'' = Inr salt64"
    by (simp add: synthetic_salt_def min_synthetic_key_def)
  show ?thesis
    using synthetic_salt_binds [OF s] s l by auto
qed

end
