(* ===== verification/KeyFile.thy ===== *)
theory KeyFile
  imports Prelude Codec GoStrings
begin

text \<open>
  \<open>keyfile\<close>: loading a long-lived key, creating it on first use, storing one that was handed over.
  \<open>encoding.go\<close> is \<open>enc_decode\<close>, \<open>enc_encode\<close> and \<open>from_env\<close>; \<open>keyfile.go\<close> is the sequential
  definitions over a disk, and the step relation \<open>key_step\<close>, in which any number of processes run
  \<open>LoadOrCreateEncoded\<close> on one path, system call by system call, and the machine may crash.

  A disk maps names to inodes and inodes to files. A file knows whether its data was synced; the
  entry of the key's path knows whether its directory was. Directories themselves are not modelled:
  \<open>MkdirAll\<close> succeeds or fails. Every other system call that can fail is listed in \<open>syscall\<close>.
\<close>

section \<open>Encodings\<close>

datatype Encoding = Hex | Raw | Base64 | UnknownEncoding int

datatype keyfile_error =
    SizeBelowFloor | BadEncoding | Unreadable | Permissive | Unsafe | NotExist | Exists | IOError | EnvUndecodable

definition min_size :: int where
  "min_size = 16"

fun valid_encoding :: "Encoding \<Rightarrow> bool" where
  "valid_encoding Hex = True"
| "valid_encoding Raw = True"
| "valid_encoding Base64 = True"
| "valid_encoding (UnknownEncoding _) = False"

fun enc_decode :: "Encoding \<Rightarrow> bytes \<Rightarrow> bytes option" where
  "enc_decode Raw b = Some b"
| "enc_decode Base64 b = b64_decode b64_std True (trim_space (string_of b))"
| "enc_decode Hex b = hex_decode (trim_space (string_of b))"
| "enc_decode (UnknownEncoding _) b = None"

text \<open>\<open>encode\<close> panics on an encoding it does not know; that is the value \<open>None\<close>.\<close>

fun enc_encode :: "Encoding \<Rightarrow> bytes \<Rightarrow> bytes option" where
  "enc_encode Raw key = Some key"
| "enc_encode Base64 key = Some (bytes_of (b64_encode b64_std True key @ [CHR 0x0A]))"
| "enc_encode Hex key = Some (bytes_of (hex_encode key @ [CHR 0x0A]))"
| "enc_encode (UnknownEncoding _) key = None"

fun try_encodings :: "Encoding list \<Rightarrow> string \<Rightarrow> int \<Rightarrow> bytes option" where
  "try_encodings [] trimmed sz = None"
| "try_encodings (enc # encs) trimmed sz =
     (case enc_decode enc (bytes_of trimmed) of
        Some key \<Rightarrow> if int (length key) = sz then Some key else try_encodings encs trimmed sz
      | None \<Rightarrow> try_encodings encs trimmed sz)"

text \<open>\<open>FromEnv\<close>: \<open>None\<close> is a miss.\<close>

definition from_env :: "string option \<Rightarrow> int \<Rightarrow> keyfile_error + bytes option" where
  "from_env var sz =
     (if sz < min_size then Inl SizeBelowFloor
      else let trimmed = trim_space (case var of None \<Rightarrow> [] | Some raw \<Rightarrow> raw)
           in if var = None \<or> trimmed = [] then Inr None
              else case try_encodings [Hex, Base64] trimmed sz of
                Some key \<Rightarrow> Inr (Some key)
              | None \<Rightarrow> Inl EnvUndecodable)"

section \<open>The disk\<close>

datatype file_kind = Regular | Directory | Symlink string | Special

record File =
  kind :: file_kind
  perm :: nat
  owner :: nat
  content :: bytes
  synced :: bool

record Disk =
  entries :: "string \<Rightarrow> nat option"
  files :: "nat \<Rightarrow> File option"
  durable :: "string \<Rightarrow> bool"

definition lookup_file :: "Disk \<Rightarrow> string \<Rightarrow> (nat \<times> File) option" where
  "lookup_file d path = (case entries d path of None \<Rightarrow> None
     | Some i \<Rightarrow> (case files d i of None \<Rightarrow> None | Some f \<Rightarrow> Some (i, f)))"

text \<open>\<open>open(2)\<close> follows a symbolic link; one step is all a link needs here to name another file.\<close>

definition follow :: "Disk \<Rightarrow> string \<Rightarrow> (nat \<times> File) option" where
  "follow d path = (case lookup_file d path of
     None \<Rightarrow> None
   | Some (i, f) \<Rightarrow> (case kind f of Symlink target \<Rightarrow> lookup_file d target | _ \<Rightarrow> Some (i, f)))"

definition base_name :: "string \<Rightarrow> string" where
  "base_name path = rev (takeWhile (\<lambda>c. c \<noteq> CHR ''/'') (rev path))"

text \<open>The names \<open>os.CreateTemp(dir, ".keyfile-*.tmp")\<close> chooses from.\<close>

definition temp_name :: "string \<Rightarrow> bool" where
  "temp_name path \<longleftrightarrow> has_prefix (base_name path) ''.keyfile-'' \<and> has_prefix (rev (base_name path)) (rev ''.tmp'')"

definition update_file :: "nat \<Rightarrow> (File \<Rightarrow> File) \<Rightarrow> Disk \<Rightarrow> Disk" where
  "update_file i u d = d\<lparr>files := (files d)(i := map_option u (files d i))\<rparr>"

definition create_temp :: "nat \<Rightarrow> string \<Rightarrow> nat \<Rightarrow> Disk \<Rightarrow> Disk" where
  "create_temp euid tmp i d = d\<lparr>entries := (entries d)(tmp \<mapsto> i),
     files := (files d)(i \<mapsto> \<lparr>kind = Regular, perm = 0x180, owner = euid, content = [], synced = False\<rparr>)\<rparr>"

definition write_file :: "nat \<Rightarrow> bytes \<Rightarrow> Disk \<Rightarrow> Disk" where
  "write_file i b = update_file i (\<lambda>f. f\<lparr>content := b, synced := False\<rparr>)"

definition sync_file :: "nat \<Rightarrow> Disk \<Rightarrow> Disk" where
  "sync_file i = update_file i (\<lambda>f. f\<lparr>synced := True\<rparr>)"

definition link_file :: "nat \<Rightarrow> string \<Rightarrow> Disk \<Rightarrow> Disk" where
  "link_file i path d = d\<lparr>entries := (entries d)(path \<mapsto> i), durable := (durable d)(path := False)\<rparr>"

definition sync_dir :: "string \<Rightarrow> Disk \<Rightarrow> Disk" where
  "sync_dir path d = d\<lparr>durable := (durable d)(path := True)\<rparr>"

definition remove_name :: "string \<Rightarrow> Disk \<Rightarrow> Disk" where
  "remove_name tmp d = d\<lparr>entries := (entries d)(tmp := None)\<rparr>"

section \<open>Reading\<close>

definition check_key_info :: "nat \<Rightarrow> File \<Rightarrow> keyfile_error option" where
  "check_key_info euid f =
     (if kind f \<noteq> Regular \<or> owner f \<noteq> euid then Some Unsafe
      else if perm f AND 0x3F \<noteq> 0 then Some Permissive
      else None)"

text \<open>
  \<open>openKey\<close> looks at the path twice: \<open>d1\<close> is the disk when it is inspected and \<open>d2\<close> the disk when it
  is opened.
\<close>

definition open_key :: "Disk \<Rightarrow> Disk \<Rightarrow> string \<Rightarrow> keyfile_error + nat \<times> File" where
  "open_key d1 d2 path =
     (case lookup_file d1 path of
        None \<Rightarrow> Inl NotExist
      | Some (before, f) \<Rightarrow>
          if (case kind f of Symlink _ \<Rightarrow> True | _ \<Rightarrow> False) then Inl Unsafe
          else case follow d2 path of
            None \<Rightarrow> Inl NotExist
          | Some (after, info) \<Rightarrow> if after \<noteq> before then Inl Unsafe else Inr (after, info))"

definition require_owner_only :: "nat \<Rightarrow> Disk \<Rightarrow> Disk \<Rightarrow> string \<Rightarrow> keyfile_error option" where
  "require_owner_only euid d1 d2 path =
     (case open_key d1 d2 path of Inl e \<Rightarrow> Some e | Inr (_, info) \<Rightarrow> check_key_info euid info)"

text \<open>What \<open>read\<close> makes of the opened file's information and its data.\<close>

definition accept_key :: "nat \<Rightarrow> int \<Rightarrow> Encoding \<Rightarrow> File \<Rightarrow> bytes \<Rightarrow> keyfile_error + bytes" where
  "accept_key euid sz enc info raw =
     (case check_key_info euid info of
        Some e \<Rightarrow> Inl e
      | None \<Rightarrow>
          if 2 * sz + 64 < int (length raw) then Inl Unreadable
          else case enc_decode enc raw of
            None \<Rightarrow> Inl Unreadable
          | Some key \<Rightarrow> if int (length key) \<noteq> sz then Inl Unreadable else Inr key)"

text \<open>The data is read from the descriptor, in the disk \<open>d3\<close>.\<close>

definition read_key :: "nat \<Rightarrow> Disk \<Rightarrow> Disk \<Rightarrow> Disk \<Rightarrow> string \<Rightarrow> int \<Rightarrow> Encoding \<Rightarrow> keyfile_error + bytes" where
  "read_key euid d1 d2 d3 path sz enc =
     bindE (open_key d1 d2 path) (\<lambda>(i, info).
       case files d3 i of None \<Rightarrow> Inl IOError | Some f \<Rightarrow> accept_key euid sz enc info (content f))"

definition load_encoded :: "nat \<Rightarrow> Disk \<Rightarrow> string \<Rightarrow> int \<Rightarrow> Encoding \<Rightarrow> keyfile_error + bytes" where
  "load_encoded euid d path sz enc =
     (if sz < min_size then Inl SizeBelowFloor
      else if \<not> valid_encoding enc then Inl BadEncoding
      else read_key euid d d d path sz enc)"

section \<open>Writing\<close>

datatype syscall = MkdirAll | RandRead | CreateTemp | Chmod | WriteAll | SyncFile | CloseFile | LinkFile | SyncDirectory

text \<open>
  \<open>write\<close>, with the system calls \<open>fails\<close> says fail. \<open>tmp\<close> and \<open>i\<close> are the temporary name and the
  inode the system chose. The temporary name is removed whatever happens.
\<close>

definition write_key :: "(syscall \<Rightarrow> bool) \<Rightarrow> nat \<Rightarrow> string \<Rightarrow> nat \<Rightarrow> string \<Rightarrow> bytes \<Rightarrow> Disk \<Rightarrow> keyfile_error option \<times> Disk" where
  "write_key fails euid tmp i path encoded d =
     (if fails CreateTemp then (Some IOError, d)
      else let d1 = create_temp euid tmp i d
      in if fails Chmod then (Some IOError, remove_name tmp d1)
      else let d2 = write_file i encoded d1
      in if fails WriteAll then (Some IOError, remove_name tmp d2)
      else let d3 = sync_file i d2
      in if fails SyncFile \<or> fails CloseFile then (Some IOError, remove_name tmp d3)
      else if entries d3 path \<noteq> None then (Some Exists, remove_name tmp d3)
      else if fails LinkFile then (Some IOError, remove_name tmp d3)
      else let d4 = link_file i path d3
      in if fails SyncDirectory then (Some IOError, remove_name tmp d4)
      else (None, remove_name tmp (sync_dir path d4)))"

definition store_key :: "(syscall \<Rightarrow> bool) \<Rightarrow> nat \<Rightarrow> string \<Rightarrow> nat \<Rightarrow> string \<Rightarrow> bytes \<Rightarrow> Encoding \<Rightarrow> Disk \<Rightarrow> keyfile_error option \<times> Disk" where
  "store_key fails euid tmp i path key enc d =
     (if int (length key) < min_size then (Some SizeBelowFloor, d)
      else case enc_encode enc key of
        None \<Rightarrow> (Some BadEncoding, d)
      | Some encoded \<Rightarrow> if fails MkdirAll then (Some IOError, d) else write_key fails euid tmp i path encoded d)"

definition create_key :: "(syscall \<Rightarrow> bool) \<Rightarrow> nat \<Rightarrow> string \<Rightarrow> nat \<Rightarrow> bytes \<Rightarrow> string \<Rightarrow> int \<Rightarrow> Encoding \<Rightarrow> Disk \<Rightarrow> (keyfile_error + bytes) \<times> Disk" where
  "create_key fails euid tmp i rnd path sz enc d =
     (if fails RandRead \<or> int (length rnd) < sz then (Inl IOError, d)
      else let key = take (nat sz) rnd
      in case enc_encode enc key of
           None \<Rightarrow> (Inl BadEncoding, d)
         | Some encoded \<Rightarrow>
             (case write_key fails euid tmp i path encoded d of
                (Some e, d') \<Rightarrow> (Inl e, d')
              | (None, d') \<Rightarrow> (Inr key, d')))"

text \<open>
  \<open>LoadOrCreateEncoded\<close> with the path to itself. An \<open>Exists\<close> of \<open>create_key\<close> is another process
  that won the race, so the file is read again.
\<close>

definition load_or_create :: "(syscall \<Rightarrow> bool) \<Rightarrow> nat \<Rightarrow> string \<Rightarrow> nat \<Rightarrow> bytes \<Rightarrow> string \<Rightarrow> int \<Rightarrow> Encoding \<Rightarrow> Disk \<Rightarrow> (keyfile_error + bytes) \<times> Disk" where
  "load_or_create fails euid tmp i rnd path sz enc d =
     (if sz < min_size then (Inl SizeBelowFloor, d)
      else if \<not> valid_encoding enc then (Inl BadEncoding, d)
      else case read_key euid d d d path sz enc of
        Inr key \<Rightarrow> (Inr key, d)
      | Inl e \<Rightarrow>
          if e \<noteq> NotExist then (Inl e, d)
          else if fails MkdirAll then (Inl IOError, d)
          else case create_key fails euid tmp i rnd path sz enc d of
            (Inl Exists, d') \<Rightarrow> (read_key euid d' d' d' path sz enc, d')
          | r \<Rightarrow> r)"

section \<open>Processes racing for one path\<close>

text \<open>
  The local state of a process in \<open>LoadOrCreateEncoded\<close>. The flag of the reading phases says whether
  this is the first read or the one after a lost race. \<open>Minted\<close> is a return with the key the process
  created, \<open>Answered\<close> any other return.
\<close>

datatype key_pc =
    Inspect bool
  | OpenIt bool nat
  | ReadIt nat File
  | MakeTemp
  | WriteTemp string nat
  | SyncTemp string nat
  | LinkTemp string nat
  | SyncParent string
  | CleanUp string key_pc
  | Minted
  | Answered "keyfile_error + bytes"

record KeySystem =
  disk :: Disk
  procs :: "nat \<Rightarrow> key_pc option"

text \<open>The path, the size and encoding asked for, the user, and the key every process would mint.\<close>

record KeyJob =
  job_path :: string
  job_size :: int
  job_enc :: Encoding
  job_euid :: nat
  job_key :: "nat \<Rightarrow> bytes"

definition goto :: "nat \<Rightarrow> key_pc \<Rightarrow> KeySystem \<Rightarrow> KeySystem" where
  "goto p c s = s\<lparr>procs := (procs s)(p \<mapsto> c)\<rparr>"

definition missing :: "bool \<Rightarrow> key_pc" where
  "missing first = (if first then MakeTemp else Answered (Inl NotExist))"

inductive key_step :: "KeyJob \<Rightarrow> KeySystem \<Rightarrow> KeySystem \<Rightarrow> bool" for J where
  enter: "procs s p = None \<Longrightarrow> key_step J s (goto p (Inspect True) s)"
| lstat_missing: "procs s p = Some (Inspect first) \<Longrightarrow> lookup_file (disk s) (job_path J) = None
    \<Longrightarrow> key_step J s (goto p (missing first) s)"
| lstat_symlink: "procs s p = Some (Inspect first) \<Longrightarrow> lookup_file (disk s) (job_path J) = Some (i, f) \<Longrightarrow> kind f = Symlink t
    \<Longrightarrow> key_step J s (goto p (Answered (Inl Unsafe)) s)"
| lstat_found: "procs s p = Some (Inspect first) \<Longrightarrow> lookup_file (disk s) (job_path J) = Some (i, f) \<Longrightarrow> \<forall>t. kind f \<noteq> Symlink t
    \<Longrightarrow> key_step J s (goto p (OpenIt first i) s)"
| open_missing: "procs s p = Some (OpenIt first i) \<Longrightarrow> follow (disk s) (job_path J) = None
    \<Longrightarrow> key_step J s (goto p (missing first) s)"
| open_other: "procs s p = Some (OpenIt first i) \<Longrightarrow> follow (disk s) (job_path J) = Some (j, info) \<Longrightarrow> j \<noteq> i
    \<Longrightarrow> key_step J s (goto p (Answered (Inl Unsafe)) s)"
| open_same: "procs s p = Some (OpenIt first i) \<Longrightarrow> follow (disk s) (job_path J) = Some (i, info)
    \<Longrightarrow> key_step J s (goto p (ReadIt i info) s)"
| read_it: "procs s p = Some (ReadIt i info) \<Longrightarrow> files (disk s) i = Some f
    \<Longrightarrow> key_step J s (goto p (Answered (accept_key (job_euid J) (job_size J) (job_enc J) info (content f))) s)"
| make_temp: "procs s p = Some MakeTemp \<Longrightarrow> temp_name tmp \<Longrightarrow> entries (disk s) tmp = None \<Longrightarrow> files (disk s) i = None
    \<Longrightarrow> key_step J s (goto p (WriteTemp tmp i) (s\<lparr>disk := create_temp (job_euid J) tmp i (disk s)\<rparr>))"
| write_temp: "procs s p = Some (WriteTemp tmp i) \<Longrightarrow> enc_encode (job_enc J) (job_key J p) = Some b
    \<Longrightarrow> key_step J s (goto p (SyncTemp tmp i) (s\<lparr>disk := write_file i b (disk s)\<rparr>))"
| short_write: "procs s p = Some (WriteTemp tmp i) \<Longrightarrow> enc_encode (job_enc J) (job_key J p) = Some b
    \<Longrightarrow> key_step J s (goto p (CleanUp tmp (Answered (Inl IOError))) (s\<lparr>disk := write_file i (take n b) (disk s)\<rparr>))"
| sync_temp: "procs s p = Some (SyncTemp tmp i)
    \<Longrightarrow> key_step J s (goto p (LinkTemp tmp i) (s\<lparr>disk := sync_file i (disk s)\<rparr>))"
| link_new: "procs s p = Some (LinkTemp tmp i) \<Longrightarrow> entries (disk s) (job_path J) = None
    \<Longrightarrow> key_step J s (goto p (SyncParent tmp) (s\<lparr>disk := link_file i (job_path J) (disk s)\<rparr>))"
| link_taken: "procs s p = Some (LinkTemp tmp i) \<Longrightarrow> entries (disk s) (job_path J) \<noteq> None
    \<Longrightarrow> key_step J s (goto p (CleanUp tmp (Inspect False)) s)"
| sync_parent: "procs s p = Some (SyncParent tmp)
    \<Longrightarrow> key_step J s (goto p (CleanUp tmp Minted) (s\<lparr>disk := sync_dir (job_path J) (disk s)\<rparr>))"
| clean_up: "procs s p = Some (CleanUp tmp c) \<Longrightarrow> key_step J s (goto p c (s\<lparr>disk := remove_name tmp (disk s)\<rparr>))"
| leave_temp: "procs s p = Some (CleanUp tmp c) \<Longrightarrow> key_step J s (goto p c s)"
| io_error: "procs s p = Some c \<Longrightarrow> c \<in> {Inspect first, OpenIt first i, ReadIt i info, MakeTemp}
    \<Longrightarrow> key_step J s (goto p (Answered (Inl IOError)) s)"
| io_error_temp: "procs s p = Some c \<Longrightarrow> c \<in> {WriteTemp tmp i, SyncTemp tmp i, LinkTemp tmp i, SyncParent tmp}
    \<Longrightarrow> key_step J s (goto p (CleanUp tmp (Answered (Inl IOError))) s)"
| crash: "\<forall>n. durable (disk s) n \<longrightarrow> entries d n = entries (disk s) n
    \<Longrightarrow> \<forall>n. entries d n = entries (disk s) n \<or> entries d n = None
    \<Longrightarrow> \<forall>i f. files (disk s) i = Some f \<longrightarrow> synced f \<longrightarrow> files d i = Some f
    \<Longrightarrow> \<forall>i. files (disk s) i = None \<longrightarrow> files d i = None
    \<Longrightarrow> durable d = durable (disk s)
    \<Longrightarrow> key_step J s \<lparr>disk = d, procs = (\<lambda>_. None)\<rparr>"

inductive key_reachable :: "KeyJob \<Rightarrow> Disk \<Rightarrow> KeySystem \<Rightarrow> bool" for J d0 where
  start: "key_reachable J d0 \<lparr>disk = d0, procs = (\<lambda>_. None)\<rparr>"
| step: "key_reachable J d0 s \<Longrightarrow> key_step J s s' \<Longrightarrow> key_reachable J d0 s'"

inductive_cases key_stepE: "key_step J s s'"

section \<open>Lemmas: encodings\<close>

lemma list_all_space [simp]: "is_space 10" "is_ascii (CHR 0x0A)"
  by (simp_all add: is_space_def is_ascii_def)

lemma hex_line: "trim_space (hex_encode key @ [CHR 0x0A]) = hex_encode key"
proof (cases "hex_encode key = []")
  case False
  then have "is_lower_hex (hd (hex_encode key))" "is_lower_hex (last (hex_encode key))"
    using hex_encode_lower [of key] by (metis hd_in_set last_in_set list_all_iff)+
  then show ?thesis
    using trim_space_pad [of "[]" "[CHR 0x0A]" "hex_encode key"] ascii_hex [of key] False lower_hex_plain by auto
qed (simp add: trim_space_ascii trim_both_def)

lemma b64_std_plain: "c \<in> set (b64_encode b64_std pad key) \<Longrightarrow> is_ascii c \<and> \<not> is_space (of_char c)"
proof -
  assume "c \<in> set (b64_encode b64_std pad key)"
  then have "c \<in> set b64_std \<union> {CHR ''=''}"
    using b64_encode_set [of b64_std pad key] by (auto split: if_splits)
  moreover have "list_all (\<lambda>c. is_ascii c \<and> \<not> is_space (of_char c)) (CHR ''='' # b64_std)"
    by (simp add: b64_std_def is_ascii_def is_space_def)
  ultimately show ?thesis by (auto simp: list_all_iff)
qed

lemma b64_line: "key \<noteq> [] \<Longrightarrow> trim_space (b64_encode b64_std True key @ [CHR 0x0A]) = b64_encode b64_std True key"
proof -
  let ?s = "b64_encode b64_std True key"
  assume "key \<noteq> []"
  then have "?s \<noteq> []" by (cases "(b64_std, True, key)" rule: b64_encode.cases) auto
  then show ?thesis
    using trim_space_pad [of "[]" "[CHR 0x0A]" ?s] b64_std_plain [of _ True key] by (auto simp: list_all_iff)
qed

lemma enc_round_trip:
  assumes "enc_encode enc key = Some b" "key \<noteq> []"
  shows "enc_decode enc b = Some key"
  using assms by (cases enc) (auto simp: hex_line b64_line hex_decode_encode b64_decode_encode simp del: bytes_of_append)

lemma enc_encode_valid: "valid_encoding enc \<longleftrightarrow> (\<exists>b. enc_encode enc key = Some b)"
  by (cases enc) auto

lemma length_b64_encode: "length (b64_encode b64_std True key) = 4 * ((length key + 2) div 3)"
  by (induction b64_std True key rule: b64_encode.induct) (auto simp: div_if)

lemma length_enc_encode: "enc_encode enc key = Some b \<Longrightarrow> length b \<le> 2 * length key + 64"
  by (cases enc) (auto simp: length_b64_encode)

section \<open>Lemmas: the race\<close>

lemma disk_simps [simp]:
  "entries (update_file i u d) = entries d" "durable (update_file i u d) = durable d"
  "files (update_file i u d) = (files d)(i := map_option u (files d i))"
  "entries (create_temp e tmp i d) = (entries d)(tmp \<mapsto> i)" "durable (create_temp e tmp i d) = durable d"
  "files (create_temp e tmp i d) = (files d)(i \<mapsto> \<lparr>kind = Regular, perm = 0x180, owner = e, content = [], synced = False\<rparr>)"
  "entries (link_file i path d) = (entries d)(path \<mapsto> i)" "files (link_file i path d) = files d"
  "durable (link_file i path d) = (durable d)(path := False)"
  "entries (sync_dir path d) = entries d" "files (sync_dir path d) = files d" "durable (sync_dir path d) = (durable d)(path := True)"
  "entries (remove_name tmp d) = (entries d)(tmp := None)" "files (remove_name tmp d) = files d" "durable (remove_name tmp d) = durable d"
  by (simp_all add: update_file_def create_temp_def link_file_def sync_dir_def remove_name_def)

lemma file_simps [simp]:
  "entries (write_file i b d) = entries d" "durable (write_file i b d) = durable d"
  "files (write_file i b d) = (files d)(i := map_option (\<lambda>f. f\<lparr>content := b, synced := False\<rparr>) (files d i))"
  "entries (sync_file i d) = entries d" "durable (sync_file i d) = durable d"
  "files (sync_file i d) = (files d)(i := map_option (\<lambda>f. f\<lparr>synced := True\<rparr>) (files d i))"
  by (simp_all add: write_file_def sync_file_def)

lemma goto_simps [simp]: "procs (goto p c s) = (procs s)(p \<mapsto> c)" "disk (goto p c s) = disk s"
  by (simp_all add: goto_def)

text \<open>The file a process minted: complete, synced, private to its owner.\<close>

definition minted_file :: "KeyJob \<Rightarrow> nat \<Rightarrow> File \<Rightarrow> bool" where
  "minted_file J p f \<longleftrightarrow> kind f = Regular \<and> perm f = 0x180 \<and> owner f = job_euid J \<and> synced f
     \<and> enc_encode (job_enc J) (job_key J p) = Some (content f)"

definition at_path :: "KeyJob \<Rightarrow> Disk \<Rightarrow> (File \<Rightarrow> bool) \<Rightarrow> bool" where
  "at_path J d P \<longleftrightarrow> (\<exists>i f. entries d (job_path J) = Some i \<and> files d i = Some f \<and> P f)"

definition holds_key :: "KeyJob \<Rightarrow> bytes \<Rightarrow> File \<Rightarrow> bool" where
  "holds_key J k f \<longleftrightarrow> enc_decode (job_enc J) (content f) = Some k \<and> int (length k) = job_size J"

fun own_inode :: "key_pc \<Rightarrow> nat option" where
  "own_inode (WriteTemp _ i) = Some i"
| "own_inode (SyncTemp _ i) = Some i"
| "own_inode (LinkTemp _ i) = Some i"
| "own_inode _ = None"

definition private_inode :: "KeyJob \<Rightarrow> Disk \<Rightarrow> nat \<Rightarrow> (File \<Rightarrow> bool) \<Rightarrow> bool" where
  "private_inode J d i P \<longleftrightarrow> entries d (job_path J) \<noteq> Some i
     \<and> (\<exists>f. files d i = Some f \<and> kind f = Regular \<and> perm f = 0x180 \<and> owner f = job_euid J \<and> P f)"

fun pc_ok :: "KeyJob \<Rightarrow> Disk \<Rightarrow> nat \<Rightarrow> key_pc \<Rightarrow> bool" where
  "pc_ok J d p (OpenIt _ i) = (entries d (job_path J) = Some i)"
| "pc_ok J d p (ReadIt i _) = (entries d (job_path J) = Some i)"
| "pc_ok J d p (WriteTemp t i) = (temp_name t \<and> private_inode J d i (\<lambda>f. True))"
| "pc_ok J d p (SyncTemp t i) = (temp_name t \<and> private_inode J d i (\<lambda>f. enc_encode (job_enc J) (job_key J p) = Some (content f)))"
| "pc_ok J d p (LinkTemp t i) = (temp_name t \<and> private_inode J d i (minted_file J p))"
| "pc_ok J d p (SyncParent t) = (temp_name t \<and> at_path J d (minted_file J p))"
| "pc_ok J d p (CleanUp t c) = (temp_name t \<and> own_inode c = None \<and> pc_ok J d p c)"
| "pc_ok J d p Minted = (at_path J d (minted_file J p) \<and> durable d (job_path J))"
| "pc_ok J d p (Answered r) = (case r of Inl _ \<Rightarrow> True | Inr k \<Rightarrow> at_path J d (holds_key J k))"
| "pc_ok J d p (Inspect _) = True"
| "pc_ok J d p MakeTemp = True"

definition path_ok :: "KeyJob \<Rightarrow> Disk \<Rightarrow> Disk \<Rightarrow> bool" where
  "path_ok J d0 d \<longleftrightarrow> (\<forall>i. entries d (job_path J) = Some i \<longrightarrow>
     (\<exists>f. files d i = Some f \<and> synced f \<and> ((entries d0 (job_path J) = Some i \<and> files d0 i = Some f) \<or> (\<exists>p. minted_file J p f))))"

definition owned :: "KeySystem \<Rightarrow> nat \<Rightarrow> nat set" where
  "owned s p = {i. \<exists>q c. q \<noteq> p \<and> procs s q = Some c \<and> own_inode c = Some i}"

definition key_inv :: "KeyJob \<Rightarrow> Disk \<Rightarrow> KeySystem \<Rightarrow> bool" where
  "key_inv J d0 s \<longleftrightarrow> path_ok J d0 (disk s) \<and> (\<forall>p c. procs s p = Some c \<longrightarrow> pc_ok J (disk s) p c)
     \<and> (\<forall>p c i. procs s p = Some c \<longrightarrow> own_inode c = Some i \<longrightarrow> i \<notin> owned s p)"

text \<open>A change of the disk that leaves the path's file and the inodes \<open>I\<close> of other processes alone.\<close>

definition keeps :: "KeyJob \<Rightarrow> nat set \<Rightarrow> Disk \<Rightarrow> Disk \<Rightarrow> bool" where
  "keeps J I d d' \<longleftrightarrow>
     (\<forall>i. entries d (job_path J) = Some i \<longrightarrow> entries d' (job_path J) = Some i \<and> files d' i = files d i
        \<and> (durable d (job_path J) \<longrightarrow> durable d' (job_path J)))
     \<and> (\<forall>i \<in> I. files d' i = files d i \<and> (entries d' (job_path J) = Some i \<longrightarrow> entries d (job_path J) = Some i))"

lemma keeps_refl [simp]: "keeps J I d d"
  by (simp add: keeps_def)

lemma at_path_keeps: "at_path J d P \<Longrightarrow> keeps J I d d' \<Longrightarrow> at_path J d' P"
  by (auto simp: at_path_def keeps_def)

lemma private_keeps: "private_inode J d i P \<Longrightarrow> keeps J I d d' \<Longrightarrow> i \<in> I \<Longrightarrow> private_inode J d' i P"
  unfolding private_inode_def keeps_def by metis

lemma durable_keeps: "at_path J d P \<Longrightarrow> durable d (job_path J) \<Longrightarrow> keeps J I d d' \<Longrightarrow> durable d' (job_path J)"
  by (auto simp: at_path_def keeps_def)

lemma pc_ok_keeps:
  assumes "pc_ok J d p c" and k: "keeps J I d d'" and "\<And>i. own_inode c = Some i \<Longrightarrow> i \<in> I"
  shows "pc_ok J d' p c"
  using assms(1,3)
proof (induction c)
  case (OpenIt b i)
  with k show ?case by (simp add: keeps_def)
next
  case (ReadIt i f)
  with k show ?case by (simp add: keeps_def)
next
  case Minted
  then show ?case using at_path_keeps [OF _ k] durable_keeps [OF _ _ k] by auto
qed (use at_path_keeps [OF _ k] private_keeps [OF _ k] in \<open>simp_all split: sum.splits\<close>)

lemma path_ok_keeps:
  "path_ok J d0 d \<Longrightarrow> keeps J I d d' \<Longrightarrow> (entries d (job_path J) = None \<Longrightarrow> entries d' (job_path J) = None) \<Longrightarrow> path_ok J d0 d'"
  unfolding path_ok_def keeps_def by (cases "entries d (job_path J)") auto

lemma key_inv_goto:
  assumes inv: "key_inv J d0 s" and k: "keeps J (owned s p) (disk s) d'" and path: "path_ok J d0 d'" and ok: "pc_ok J d' p c'"
    and own: "\<And>i. own_inode c' = Some i \<Longrightarrow> i \<notin> owned s p"
  shows "key_inv J d0 (goto p c' (s\<lparr>disk := d'\<rparr>))"
proof -
  have "pc_ok J d' q c" if "q \<noteq> p" "procs s q = Some c" for q c
    using that inv by (intro pc_ok_keeps [OF _ k]) (auto simp: key_inv_def owned_def)
  then have pcs: "procs (goto p c' (s\<lparr>disk := d'\<rparr>)) q = Some c \<Longrightarrow> pc_ok J d' q c" for q c
    using ok by (auto split: if_splits)
  have "i \<notin> owned (goto p c' (s\<lparr>disk := d'\<rparr>)) q"
    if "procs (goto p c' (s\<lparr>disk := d'\<rparr>)) q = Some c" "own_inode c = Some i" for q c i
  proof (cases "q = p")
    case True
    with that own show ?thesis by (auto simp: owned_def)
  next
    case False
    with that inv have "i \<notin> owned s q" by (simp add: key_inv_def)
    moreover have "own_inode c' \<noteq> Some i" using own [of i] False that by (auto simp: owned_def)
    ultimately show ?thesis by (auto simp: owned_def)
  qed
  with path pcs show ?thesis unfolding key_inv_def by simp
qed

definition job_ok :: "KeyJob \<Rightarrow> bool" where
  "job_ok J \<longleftrightarrow> min_size \<le> job_size J \<and> (\<forall>p. int (length (job_key J p)) = job_size J) \<and> valid_encoding (job_enc J)
     \<and> \<not> temp_name (job_path J)"

lemma goto_same_disk: "goto p c s = goto p c (s\<lparr>disk := disk s\<rparr>)"
  by simp

lemma key_inv_local:
  assumes "key_inv J d0 s" "pc_ok J (disk s) p c'" "own_inode c' = None"
  shows "key_inv J d0 (goto p c' s)"
proof -
  have "key_inv J d0 (goto p c' (s\<lparr>disk := disk s\<rparr>))"
    using assms by (intro key_inv_goto) (auto simp: key_inv_def)
  then show ?thesis by simp
qed

lemma inv_pc: "key_inv J d0 s \<Longrightarrow> procs s p = Some c \<Longrightarrow> pc_ok J (disk s) p c"
  by (simp add: key_inv_def)

lemma inv_path: "key_inv J d0 s \<Longrightarrow> path_ok J d0 (disk s)"
  by (simp add: key_inv_def)

lemma inv_own: "key_inv J d0 s \<Longrightarrow> procs s p = Some c \<Longrightarrow> own_inode c = Some i \<Longrightarrow> i \<notin> owned s p"
  by (simp add: key_inv_def)

lemma inv_owned_present: "key_inv J d0 s \<Longrightarrow> i \<in> owned s p \<Longrightarrow> \<exists>f. files (disk s) i = Some f \<and> entries (disk s) (job_path J) \<noteq> Some i"
proof -
  assume inv: "key_inv J d0 s" and "i \<in> owned s p"
  then obtain q c where "procs s q = Some c" "own_inode c = Some i" by (auto simp: owned_def)
  with inv_pc [OF inv] show ?thesis by (cases c) (fastforce simp: private_inode_def)+
qed

lemma inv_path_present: "key_inv J d0 s \<Longrightarrow> entries (disk s) (job_path J) = Some i \<Longrightarrow> files (disk s) i \<noteq> None"
  by (auto simp: key_inv_def path_ok_def)

lemma keeps_own_file:
  assumes "key_inv J d0 s" "i \<notin> owned s p" "entries (disk s) (job_path J) \<noteq> Some i"
    "entries d' (job_path J) = entries (disk s) (job_path J)" "durable d' = durable (disk s)"
    "\<And>j. j \<noteq> i \<Longrightarrow> files d' j = files (disk s) j"
  shows "keeps J (owned s p) (disk s) d'"
  using assms unfolding keeps_def by metis

lemma lookup_entry: "lookup_file d path = Some (i, f) \<Longrightarrow> entries d path = Some i \<and> files d i = Some f"
  by (auto simp: lookup_file_def split: option.splits)

lemma accept_holds: "accept_key e sz enc info b = Inr k \<Longrightarrow> enc_decode enc b = Some k \<and> int (length k) = sz"
  by (auto simp: accept_key_def split: option.splits if_splits)

lemma key_inv_step:
  assumes "key_step J s s'" "key_inv J d0 s" "job_ok J"
  shows "key_inv J d0 s'"
  using assms
proof (induction rule: key_step.induct)
  case (lstat_found s p first i f)
  then show ?case by (intro key_inv_local) (auto dest: lookup_entry)
next
  case (open_same s p first i info)
  then show ?case using inv_pc [OF open_same(3,1)] by (intro key_inv_local) auto
next
  case (read_it s p i info f)
  have "entries (disk s) (job_path J) = Some i" using inv_pc [OF read_it(3,1)] by simp
  then show ?case
    using read_it by (intro key_inv_local) (auto simp: at_path_def holds_key_def dest: accept_holds split: sum.splits)
next
  case (make_temp s p tmp i)
  have ne: "tmp \<noteq> job_path J" using make_temp by (auto simp: job_ok_def)
  have new: "i \<notin> owned s p" "entries (disk s) (job_path J) \<noteq> Some i"
    using inv_owned_present [OF make_temp(5), of i p] inv_path_present [OF make_temp(5), of i] make_temp(4) by auto
  have k: "keeps J (owned s p) (disk s) (create_temp (job_euid J) tmp i (disk s))"
    using new ne make_temp by (intro keeps_own_file) auto
  show ?case
    using new ne make_temp by (intro key_inv_goto [OF make_temp(5) k] path_ok_keeps [OF inv_path k])
      (auto simp: private_inode_def)
next
  case (write_temp s p tmp i b)
  have pc: "temp_name tmp" "private_inode J (disk s) i (\<lambda>f. True)" using inv_pc [OF write_temp(3,1)] by auto
  have own: "i \<notin> owned s p" using inv_own [OF write_temp(3,1)] by simp
  have k: "keeps J (owned s p) (disk s) (write_file i b (disk s))"
    using pc own write_temp by (intro keeps_own_file) (auto simp: private_inode_def)
  show ?case
    using pc own write_temp by (intro key_inv_goto [OF write_temp(3) k] path_ok_keeps [OF inv_path k])
      (auto simp: private_inode_def)
next
  case (short_write s p tmp i b n)
  have pc: "temp_name tmp" "private_inode J (disk s) i (\<lambda>f. True)" using inv_pc [OF short_write(3,1)] by auto
  have own: "i \<notin> owned s p" using inv_own [OF short_write(3,1)] by simp
  have k: "keeps J (owned s p) (disk s) (write_file i (take n b) (disk s))"
    using pc own short_write by (intro keeps_own_file) (auto simp: private_inode_def)
  show ?case
    using pc short_write by (intro key_inv_goto [OF short_write(3) k] path_ok_keeps [OF inv_path k]) auto
next
  case (sync_temp s p tmp i)
  have pc: "temp_name tmp" "private_inode J (disk s) i (\<lambda>f. enc_encode (job_enc J) (job_key J p) = Some (content f))"
    using inv_pc [OF sync_temp(2,1)] by auto
  have own: "i \<notin> owned s p" using inv_own [OF sync_temp(2,1)] by simp
  have k: "keeps J (owned s p) (disk s) (sync_file i (disk s))"
    using pc own sync_temp by (intro keeps_own_file) (auto simp: private_inode_def)
  show ?case
    using pc own sync_temp by (intro key_inv_goto [OF sync_temp(2) k] path_ok_keeps [OF inv_path k])
      (auto simp: private_inode_def minted_file_def)
next
  case (link_new s p tmp i)
  have pc: "temp_name tmp" "private_inode J (disk s) i (minted_file J p)" using inv_pc [OF link_new(3,1)] by auto
  have own: "i \<notin> owned s p" using inv_own [OF link_new(3,1)] by simp
  have k: "keeps J (owned s p) (disk s) (link_file i (job_path J) (disk s))"
    using own link_new by (auto simp: keeps_def)
  show ?case
    using pc by (intro key_inv_goto [OF link_new(3) k]) (auto simp: private_inode_def at_path_def path_ok_def minted_file_def)
next
  case (link_taken s p tmp i)
  then show ?case using inv_pc [OF link_taken(3,1)] by (intro key_inv_local) auto
next
  case (sync_parent s p tmp)
  have pc: "temp_name tmp" "at_path J (disk s) (minted_file J p)" using inv_pc [OF sync_parent(2,1)] by auto
  have k: "keeps J (owned s p) (disk s) (sync_dir (job_path J) (disk s))" by (simp add: keeps_def)
  show ?case
    using pc at_path_keeps [OF pc(2) k] sync_parent by (intro key_inv_goto [OF sync_parent(2) k] path_ok_keeps [OF inv_path k]) auto
next
  case (clean_up s p tmp c)
  have pc: "temp_name tmp" "own_inode c = None" "pc_ok J (disk s) p c" using inv_pc [OF clean_up(2,1)] by auto
  have k: "keeps J A (disk s) (remove_name tmp (disk s))" for A
    using pc clean_up by (auto simp: keeps_def job_ok_def)
  show ?case
    using pc clean_up by (intro key_inv_goto [OF clean_up(2) k] path_ok_keeps [OF inv_path k] pc_ok_keeps [OF pc(3) k]) auto
next
  case (leave_temp s p tmp c)
  then show ?case using inv_pc [OF leave_temp(2,1)] by (intro key_inv_local) auto
next
  case (io_error_temp s p c tmp i)
  then show ?case using inv_pc [OF io_error_temp(3,1)] by (intro key_inv_local) auto
next
  case (crash s d)
  have "path_ok J d0 d"
    unfolding path_ok_def
  proof (intro allI impI)
    fix i assume "entries d (job_path J) = Some i"
    then have "entries (disk s) (job_path J) = Some i" using crash(2) by (metis option.distinct(1))
    then show "\<exists>f. files d i = Some f \<and> synced f \<and> ((entries d0 (job_path J) = Some i \<and> files d0 i = Some f) \<or> (\<exists>p. minted_file J p f))"
      using inv_path [OF crash(6)] crash(3) unfolding path_ok_def by blast
  qed
  then show ?case by (simp add: key_inv_def)
qed (auto intro: key_inv_local simp: missing_def)

lemma key_reachable_inv:
  "key_reachable J d0 s \<Longrightarrow> job_ok J \<Longrightarrow> path_ok J d0 d0 \<Longrightarrow> key_inv J d0 s"
  by (induction rule: key_reachable.induct) (auto intro: key_inv_step, simp add: key_inv_def)

text \<open>A durable key: its entry and its data survive every step, a crash of the machine included.\<close>

definition key_at :: "KeyJob \<Rightarrow> Disk \<Rightarrow> nat \<Rightarrow> File \<Rightarrow> bool" where
  "key_at J d i f \<longleftrightarrow> entries d (job_path J) = Some i \<and> files d i = Some f \<and> synced f \<and> durable d (job_path J)"

lemma key_at_keeps: "key_at J d i f \<Longrightarrow> keeps J I d d' \<Longrightarrow> key_at J d' i f"
  by (auto simp: key_at_def keeps_def)

lemma key_at_step:
  assumes "key_step J s s'" "key_inv J d0 s" "job_ok J" "key_at J (disk s) i f"
  shows "key_at J (disk s') i f"
  using assms
proof (induction rule: key_step.induct)
  case (make_temp s p tmp j)
  then show ?case using inv_path_present [OF make_temp(5)] by (auto simp: key_at_def job_ok_def)
next
  case (write_temp s p tmp j b)
  then show ?case using inv_pc [OF write_temp(3,1)] by (auto simp: key_at_def private_inode_def)
next
  case (short_write s p tmp j b n)
  then show ?case using inv_pc [OF short_write(3,1)] by (auto simp: key_at_def private_inode_def)
next
  case (sync_temp s p tmp j)
  then show ?case using inv_pc [OF sync_temp(2,1)] by (auto simp: key_at_def private_inode_def)
next
  case (clean_up s p tmp c)
  then show ?case using inv_pc [OF clean_up(2,1)] by (auto simp: key_at_def job_ok_def)
next
  case (crash s d)
  then show ?case by (simp add: key_at_def)
qed (auto simp: key_at_def)

lemma key_inv_steps: "(key_step J)\<^sup>*\<^sup>* s s' \<Longrightarrow> key_inv J d0 s \<Longrightarrow> job_ok J \<Longrightarrow> key_inv J d0 s'"
  by (induction rule: rtranclp_induct) (auto intro: key_inv_step)

lemma key_at_steps:
  "(key_step J)\<^sup>*\<^sup>* s s' \<Longrightarrow> key_inv J d0 s \<Longrightarrow> job_ok J \<Longrightarrow> key_at J (disk s) i f \<Longrightarrow> key_at J (disk s') i f"
proof (induction rule: rtranclp_induct)
  case (step s1 s2)
  then show ?case using key_inv_steps [OF step(1)] by (blast intro: key_at_step)
qed simp

definition returned :: "KeyJob \<Rightarrow> KeySystem \<Rightarrow> nat \<Rightarrow> bytes \<Rightarrow> bool" where
  "returned J s p k \<longleftrightarrow> procs s p = Some (Answered (Inr k)) \<or> (procs s p = Some Minted \<and> k = job_key J p)"

lemma minted_holds: "minted_file J p f \<Longrightarrow> job_ok J \<Longrightarrow> holds_key J (job_key J p) f"
proof -
  assume m: "minted_file J p f" and j: "job_ok J"
  have "0 < int (length (job_key J p))" using j by (simp add: job_ok_def min_size_def)
  then have "job_key J p \<noteq> []" by auto
  with m j show ?thesis by (auto simp: minted_file_def holds_key_def job_ok_def enc_round_trip)
qed

lemma returned_at_path:
  assumes "key_inv J d0 s" "job_ok J" "returned J s p k"
  shows "at_path J (disk s) (holds_key J k)"
  using assms(3) unfolding returned_def
proof (elim disjE conjE)
  assume "procs s p = Some (Answered (Inr k))"
  from inv_pc [OF assms(1) this] show ?thesis by simp
next
  assume "procs s p = Some Minted" "k = job_key J p"
  with inv_pc [OF assms(1), of p Minted] show ?thesis
    using minted_holds [OF _ assms(2)] by (auto simp: at_path_def)
qed

section \<open>Lemmas: one process alone\<close>

lemma goto_goto [simp]: "goto p c (goto p c' s) = goto p c s"
  by (simp add: goto_def)

lemma goto_disk [simp]: "goto p c (s\<lparr>disk := d\<rparr>) = (goto p c s)\<lparr>disk := d\<rparr>"
  by (simp add: goto_def)

lemma goto_disk_disk [simp]: "(goto p c s)\<lparr>disk := disk s\<rparr> = goto p c s"
  by (simp add: goto_def)

lemma run_step: "key_step J s s1 \<Longrightarrow> (key_step J)\<^sup>*\<^sup>* s1 s2 \<Longrightarrow> (key_step J)\<^sup>*\<^sup>* s s2"
  by (rule converse_rtranclp_into_rtranclp)

lemma follow_plain: "lookup_file d path = Some (i, f) \<Longrightarrow> \<forall>t. kind f \<noteq> Symlink t \<Longrightarrow> follow d path = Some (i, f)"
  by (cases "kind f") (auto simp: follow_def)

lemma read_key_cases:
  "read_key e d d d path sz enc =
     (case lookup_file d path of None \<Rightarrow> Inl NotExist
      | Some (i, f) \<Rightarrow> (case kind f of Symlink _ \<Rightarrow> Inl Unsafe | _ \<Rightarrow> accept_key e sz enc f (content f)))"
proof (cases "lookup_file d path")
  case (Some x)
  then obtain i f where x: "lookup_file d path = Some (i, f)" by (cases x) auto
  show ?thesis
  proof (cases "\<exists>t. kind f = Symlink t")
    case False
    then show ?thesis
      using x follow_plain [OF x] lookup_entry [OF x]
      by (cases "kind f") (auto simp: read_key_def open_key_def)
  qed (use x in \<open>auto simp: read_key_def open_key_def\<close>)
qed (simp add: read_key_def open_key_def)

lemma accept_not_missing: "accept_key e sz enc info b \<noteq> Inl NotExist"
  by (auto simp: accept_key_def check_key_info_def split: option.splits if_splits)

text \<open>What reading leaves a process with.\<close>

definition after_read :: "bool \<Rightarrow> keyfile_error + bytes \<Rightarrow> key_pc" where
  "after_read first r = (if r = Inl NotExist then missing first else Answered r)"

lemma read_run:
  assumes "procs s p = Some (Inspect first)"
  shows "(key_step J)\<^sup>*\<^sup>* s (goto p (after_read first
    (read_key (job_euid J) (disk s) (disk s) (disk s) (job_path J) (job_size J) (job_enc J))) s)"
proof (cases "lookup_file (disk s) (job_path J)")
  case None
  then show ?thesis
    using key_step.lstat_missing [OF assms None] by (auto simp: read_key_cases after_read_def)
next
  case (Some x)
  then obtain i f where x: "lookup_file (disk s) (job_path J) = Some (i, f)" by (cases x) auto
  show ?thesis
  proof (cases "\<exists>t. kind f = Symlink t")
    case True
    then obtain t where t: "kind f = Symlink t" by blast
    show ?thesis
      using key_step.lstat_symlink [OF assms x t] x t by (auto simp: read_key_cases after_read_def)
  next
    case False
    define a where "a = accept_key (job_euid J) (job_size J) (job_enc J) f (content f)"
    have r: "read_key (job_euid J) (disk s) (disk s) (disk s) (job_path J) (job_size J) (job_enc J) = a"
      using x False by (cases "kind f") (auto simp: read_key_cases a_def)
    let ?s1 = "goto p (OpenIt first i) s" and ?s2 = "goto p (ReadIt i f) s"
    have 1: "key_step J s ?s1" using key_step.lstat_found [OF assms x] False by blast
    have "key_step J ?s1 (goto p (ReadIt i f) ?s1)"
      by (rule key_step.open_same) (use follow_plain [OF x] False in auto)
    then have 2: "key_step J ?s1 ?s2" by simp
    have "key_step J ?s2 (goto p (Answered a) ?s2)"
      unfolding a_def by (rule key_step.read_it) (use lookup_entry [OF x] in auto)
    then have 3: "key_step J ?s2 (goto p (Answered a) s)" by simp
    show ?thesis
      unfolding r after_read_def using accept_not_missing 1 2 3
      by (auto simp: a_def intro: run_step)
  qed
qed

text \<open>The system with one process moved on and the disk changed; the others where \<open>s\<close> has them.\<close>

definition at_pc :: "nat \<Rightarrow> KeySystem \<Rightarrow> key_pc \<Rightarrow> Disk \<Rightarrow> KeySystem" where
  "at_pc p s c d = goto p c (s\<lparr>disk := d\<rparr>)"

lemma at_pc_simps [simp]:
  "procs (at_pc p s c d) p = Some c" "disk (at_pc p s c d) = d" "goto p c' (at_pc p s c d) = at_pc p s c' d"
  "(at_pc p s c d)\<lparr>disk := d'\<rparr> = at_pc p s c d'"
  by (simp_all add: at_pc_def)

lemma fail_run:
  assumes "c \<in> {WriteTemp tmp i, SyncTemp tmp i, LinkTemp tmp i, SyncParent tmp}"
  shows "(key_step J)\<^sup>*\<^sup>* (at_pc p s c d) (at_pc p s (Answered (Inl IOError)) (remove_name tmp d))"
proof -
  have "key_step J (at_pc p s c d) (at_pc p s (CleanUp tmp (Answered (Inl IOError))) d)"
    using key_step.io_error_temp [of "at_pc p s c d" p c tmp i J] assms by simp
  moreover have "key_step J (at_pc p s (CleanUp tmp (Answered (Inl IOError))) d) (at_pc p s (Answered (Inl IOError)) (remove_name tmp d))"
    using key_step.clean_up [of "at_pc p s (CleanUp tmp (Answered (Inl IOError))) d" p] by simp
  ultimately show ?thesis by (auto intro: run_step)
qed

lemma write_run:
  assumes "temp_name tmp" "entries d tmp = None" "files d i = None"
    and b: "enc_encode (job_enc J) (job_key J p) = Some b" and w: "write_key fails (job_euid J) tmp i (job_path J) b d = (r, d')"
  shows "(key_step J)\<^sup>*\<^sup>* (at_pc p s MakeTemp d)
    (at_pc p s (case r of None \<Rightarrow> Minted | Some e \<Rightarrow> if e = Exists then Inspect False else Answered (Inl e)) d')"
proof -
  let ?S = "at_pc p s"
  define d1 where "d1 = create_temp (job_euid J) tmp i d"
  define d2 where "d2 = write_file i b d1"
  define d3 where "d3 = sync_file i d2"
  define d4 where "d4 = link_file i (job_path J) d3"
  have s1: "key_step J (?S MakeTemp d) (?S (WriteTemp tmp i) d1)"
    using key_step.make_temp [of "?S MakeTemp d" p tmp i J] assms(1-3) by (simp add: d1_def)
  have s2: "key_step J (?S (WriteTemp tmp i) d1) (?S (SyncTemp tmp i) d2)"
    using key_step.write_temp [of "?S (WriteTemp tmp i) d1" p tmp i J b] b by (simp add: d2_def)
  have s3: "key_step J (?S (SyncTemp tmp i) d2) (?S (LinkTemp tmp i) d3)"
    using key_step.sync_temp [of "?S (SyncTemp tmp i) d2" p tmp i J] by (simp add: d3_def)
  have s4: "key_step J (?S (LinkTemp tmp i) d3) (?S (SyncParent tmp) d4)" if "entries d3 (job_path J) = None"
    using key_step.link_new [of "?S (LinkTemp tmp i) d3" p tmp i J] that by (simp add: d4_def)
  have s5: "key_step J (?S (SyncParent tmp) d4) (?S (CleanUp tmp Minted) (sync_dir (job_path J) d4))"
    using key_step.sync_parent [of "?S (SyncParent tmp) d4" p tmp J] by simp
  have taken: "key_step J (?S (LinkTemp tmp i) d3) (?S (CleanUp tmp (Inspect False)) d3)" if "entries d3 (job_path J) \<noteq> None"
    using key_step.link_taken [of "?S (LinkTemp tmp i) d3" p tmp i J] that by simp
  have clean: "(key_step J)\<^sup>*\<^sup>* (?S (CleanUp tmp c) d') (?S c (remove_name tmp d'))" for c d'
    using key_step.clean_up [of "?S (CleanUp tmp c) d'" p tmp c J] by (auto intro: r_into_rtranclp)
  have io: "key_step J (?S MakeTemp d) (?S (Answered (Inl IOError)) d)"
    using key_step.io_error [of "?S MakeTemp d" p MakeTemp _ _ _ J] by simp
  note defs = d1_def [symmetric] d2_def [symmetric] d3_def [symmetric] d4_def [symmetric]
  note w' = w [unfolded write_key_def Let_def defs]
  consider "fails CreateTemp" | "\<not> fails CreateTemp" "fails Chmod" | "\<not> fails CreateTemp" "\<not> fails Chmod" "fails WriteAll"
    | "\<not> fails CreateTemp" "\<not> fails Chmod" "\<not> fails WriteAll" "fails SyncFile \<or> fails CloseFile"
    | "\<not> fails CreateTemp" "\<not> fails Chmod" "\<not> fails WriteAll" "\<not> (fails SyncFile \<or> fails CloseFile)" "entries d3 (job_path J) \<noteq> None"
    | "\<not> fails CreateTemp" "\<not> fails Chmod" "\<not> fails WriteAll" "\<not> (fails SyncFile \<or> fails CloseFile)" "entries d3 (job_path J) = None" "fails LinkFile"
    | "\<not> fails CreateTemp" "\<not> fails Chmod" "\<not> fails WriteAll" "\<not> (fails SyncFile \<or> fails CloseFile)" "entries d3 (job_path J) = None" "\<not> fails LinkFile" "fails SyncDirectory"
    | "\<not> fails CreateTemp" "\<not> fails Chmod" "\<not> fails WriteAll" "\<not> (fails SyncFile \<or> fails CloseFile)" "entries d3 (job_path J) = None" "\<not> fails LinkFile" "\<not> fails SyncDirectory"
    by blast
  then show ?thesis
  proof cases
    case 1
    then show ?thesis using w' io by auto
  next
    case 2
    then show ?thesis using w' run_step [OF s1 fail_run] by auto
  next
    case 3
    then show ?thesis using w' run_step [OF s1 run_step [OF s2 fail_run]] by auto
  next
    case 4
    then show ?thesis using w' run_step [OF s1 run_step [OF s2 run_step [OF s3 fail_run]]] by auto
  next
    case 5
    then show ?thesis using w' run_step [OF s1 run_step [OF s2 run_step [OF s3 run_step [OF taken clean]]]] by auto
  next
    case 6
    then show ?thesis using w' run_step [OF s1 run_step [OF s2 run_step [OF s3 fail_run]]] by auto
  next
    case 7
    then show ?thesis using w' run_step [OF s1 run_step [OF s2 run_step [OF s3 run_step [OF s4 fail_run]]]] by auto
  next
    case 8
    then show ?thesis
      using w' run_step [OF s1 run_step [OF s2 run_step [OF s3 run_step [OF s4 run_step [OF s5 clean]]]]] by auto
  qed
qed

lemma write_key_errors: "write_key fails e tmp i path b d = (Some err, d') \<Longrightarrow> err = IOError \<or> err = Exists"
  by (auto simp: write_key_def Let_def split: if_splits)

lemma at_pc_goto: "goto p c s = at_pc p s c (disk s)"
  by (simp add: at_pc_def goto_def)

lemma read_run_at:
  "(key_step J)\<^sup>*\<^sup>* (at_pc p s (Inspect first) d) (at_pc p s (after_read first
    (read_key (job_euid J) d d d (job_path J) (job_size J) (job_enc J))) d)"
  using read_run [of "at_pc p s (Inspect first) d" p first J] by simp

lemma solo_run:
  assumes "job_ok J" "procs s p = None" "temp_name tmp" "entries (disk s) tmp = None" "files (disk s) i = None"
    and "length (job_key J p) \<le> length rnd" "take (length (job_key J p)) rnd = job_key J p"
    and run: "load_or_create fails (job_euid J) tmp i rnd (job_path J) (job_size J) (job_enc J) (disk s) = (r, d)"
  shows "\<exists>s'. (key_step J)\<^sup>*\<^sup>* s s' \<and> disk s' = d \<and>
    (procs s' p = Some (Answered r) \<or> (procs s' p = Some Minted \<and> r = Inr (job_key J p)))"
proof -
  let ?S = "at_pc p s" and ?d = "disk s"
  let ?read = "\<lambda>d. read_key (job_euid J) d d d (job_path J) (job_size J) (job_enc J)"
  have enter: "key_step J s (?S (Inspect True) ?d)"
    using key_step.enter [of s p J] assms(2) by (simp add: at_pc_goto)
  have len: "job_size J = int (length (job_key J p))" "min_size \<le> job_size J" "valid_encoding (job_enc J)"
    using assms(1) by (simp_all add: job_ok_def)
  obtain b where b: "enc_encode (job_enc J) (job_key J p) = Some b" using len(3) enc_encode_valid by blast
  have io: "key_step J (?S MakeTemp ?d) (?S (Answered (Inl IOError)) ?d)"
    using key_step.io_error [of "?S MakeTemp ?d" p MakeTemp _ _ _ J] by simp
  note run' = run [unfolded load_or_create_def]
  show ?thesis
  proof (cases "?read ?d = Inl NotExist")
    case False
    then have "r = ?read ?d" "d = ?d" using run' len by (auto split: sum.splits if_splits)
    with run_step [OF enter read_run_at] False show ?thesis
      by (intro exI [of _ "?S (Answered r) ?d"]) (simp add: after_read_def)
  next
    case missing: True
    have mk: "(key_step J)\<^sup>*\<^sup>* s (?S MakeTemp ?d)"
      using run_step [OF enter read_run_at] missing by (simp add: after_read_def missing_def)
    show ?thesis
    proof (cases "fails MkdirAll \<or> fails RandRead")
      case True
      then have "r = Inl IOError" "d = ?d" using run' len missing by (auto simp: create_key_def split: if_splits)
      with mk io show ?thesis by (intro exI [of _ "?S (Answered (Inl IOError)) ?d"]) auto
    next
      case False
      obtain e d' where w: "write_key fails (job_euid J) tmp i (job_path J) b ?d = (e, d')"
        by (cases "write_key fails (job_euid J) tmp i (job_path J) b ?d") auto
      have c: "create_key fails (job_euid J) tmp i rnd (job_path J) (job_size J) (job_enc J) ?d
          = (case e of None \<Rightarrow> (Inr (job_key J p), d') | Some err \<Rightarrow> (Inl err, d'))"
        using False len assms(6,7) b w by (simp add: create_key_def split: option.splits)
      note wr = rtranclp_trans [OF mk write_run [OF assms(3-5) b w]]
      have "e = Some err \<Longrightarrow> err = IOError \<or> err = Exists" for err using w by (intro write_key_errors) auto
      then consider "e = None" | "e = Some Exists" | "e = Some IOError" by (cases e) auto
      then show ?thesis
      proof cases
        case 1
        then have "r = Inr (job_key J p)" "d = d'" using run' c missing False len by auto
        with wr 1 show ?thesis by (intro exI [of _ "?S Minted d'"]) simp
      next
        case 2
        then have "r = ?read d'" "d = d'" using run' c missing False len by auto
        moreover have "(key_step J)\<^sup>*\<^sup>* s (?S (after_read False (?read d')) d')"
          using wr 2 read_run_at [of J p s False d'] by (simp add: rtranclp_trans)
        ultimately show ?thesis
          by (intro exI [of _ "?S (after_read False r) d'"]) (auto simp: after_read_def missing_def)
      next
        case 3
        then have "r = Inl IOError" "d = d'" using run' c missing False len by auto
        with wr 3 show ?thesis by (intro exI [of _ "?S (Answered (Inl IOError)) d'"]) simp
      qed
    qed
  qed
qed

section \<open>A run\<close>

text \<open>Two processes and one path: the first mints the key, the second reads it.\<close>

definition demo_job :: KeyJob where
  "demo_job = \<lparr>job_path = ''k'', job_size = 16, job_enc = Raw, job_euid = 0, job_key = (\<lambda>p. replicate 16 (of_nat p))\<rparr>"

definition no_disk :: Disk where
  "no_disk = \<lparr>entries = (\<lambda>_. None), files = (\<lambda>_. None), durable = (\<lambda>_. False)\<rparr>"

definition nobody :: KeySystem where
  "nobody = \<lparr>disk = no_disk, procs = (\<lambda>_. None)\<rparr>"

lemma demo_simps [simp]:
  "job_path demo_job = ''k''" "job_size demo_job = 16" "job_enc demo_job = Raw" "job_euid demo_job = 0"
  "job_key demo_job p = replicate 16 (of_nat p)" "entries no_disk n = None" "files no_disk i = None" "durable no_disk n = False"
  "disk nobody = no_disk" "procs nobody p = None"
  by (simp_all add: demo_job_def no_disk_def nobody_def)

lemma demo_ok: "job_ok demo_job" "path_ok demo_job no_disk no_disk" "temp_name ''.keyfile-1.tmp''"
  by (simp_all add: job_ok_def min_size_def temp_name_def base_name_def has_prefix_def path_ok_def)

definition minted_disk :: Disk where
  "minted_disk = snd (write_key (\<lambda>_. False) 0 ''.keyfile-1.tmp'' 7 ''k'' (replicate 16 0) no_disk)"

lemma minted_disk_simps [simp]:
  "entries minted_disk ''k'' = Some 7" "durable minted_disk ''k''"
  "files minted_disk 7 = Some \<lparr>kind = Regular, perm = 0x180, owner = 0, content = replicate 16 0, synced = True\<rparr>"
  by (simp_all add: minted_disk_def write_key_def Let_def)

lemma key_reachable_steps: "(key_step J)\<^sup>*\<^sup>* s s' \<Longrightarrow> key_reachable J d0 s \<Longrightarrow> key_reachable J d0 s'"
  by (induction rule: rtranclp_induct) (auto intro: key_reachable.step)

lemma demo_minted: "key_reachable demo_job no_disk (at_pc 0 nobody Minted minted_disk)"
proof -
  have "write_key (\<lambda>_. False) 0 ''.keyfile-1.tmp'' 7 ''k'' (replicate 16 0) no_disk = (None, minted_disk)"
    by (simp add: minted_disk_def write_key_def Let_def)
  then have w: "(key_step demo_job)\<^sup>*\<^sup>* (at_pc 0 nobody MakeTemp no_disk) (at_pc 0 nobody Minted minted_disk)"
    using write_run [of "''.keyfile-1.tmp''" no_disk 7 demo_job 0 "replicate 16 0" "\<lambda>_. False" None minted_disk nobody] demo_ok by simp
  have "key_step demo_job nobody (at_pc 0 nobody (Inspect True) no_disk)"
    using key_step.enter [of nobody 0 demo_job] by (simp add: at_pc_goto)
  moreover have "read_key 0 no_disk no_disk no_disk ''k'' 16 Raw = Inl NotExist"
    by (simp add: read_key_cases lookup_file_def)
  then have "(key_step demo_job)\<^sup>*\<^sup>* (at_pc 0 nobody (Inspect True) no_disk) (at_pc 0 nobody MakeTemp no_disk)"
    using read_run_at [of demo_job 0 nobody True no_disk] by (simp add: after_read_def missing_def)
  ultimately have "(key_step demo_job)\<^sup>*\<^sup>* nobody (at_pc 0 nobody Minted minted_disk)"
    using w by (meson run_step rtranclp_trans)
  moreover have "key_reachable demo_job no_disk nobody"
    using key_reachable.start [of demo_job no_disk] by (simp add: nobody_def)
  ultimately show ?thesis by (blast intro: key_reachable_steps)
qed

definition read_state :: KeySystem where
  "read_state = at_pc 1 (at_pc 0 nobody Minted minted_disk) (Answered (Inr (replicate 16 0))) minted_disk"

lemma demo_read: "(key_step demo_job)\<^sup>*\<^sup>* (at_pc 0 nobody Minted minted_disk) read_state"
proof -
  let ?s = "at_pc 0 nobody Minted minted_disk"
  have "procs ?s 1 = None" by (simp add: at_pc_def)
  then have "key_step demo_job ?s (at_pc 1 ?s (Inspect True) minted_disk)"
    using key_step.enter [of ?s 1 demo_job] by (simp add: at_pc_goto)
  moreover have "read_key 0 minted_disk minted_disk minted_disk ''k'' 16 Raw = Inr (replicate 16 0)"
    by (simp add: read_key_cases lookup_file_def accept_key_def check_key_info_def)
  then have "(key_step demo_job)\<^sup>*\<^sup>* (at_pc 1 ?s (Inspect True) minted_disk) read_state"
    using read_run_at [of demo_job 1 ?s True minted_disk] by (simp add: after_read_def read_state_def)
  ultimately show ?thesis by (rule run_step)
qed

lemma demo_returned: "returned demo_job read_state 0 (replicate 16 0)" "returned demo_job read_state 1 (replicate 16 0)"
  "disk read_state = minted_disk" "procs (at_pc 0 nobody Minted minted_disk) 0 = Some Minted"
  by (simp_all add: returned_def read_state_def) (simp add: at_pc_def)

section \<open>Properties\<close>

text \<open>
  C7: All processes agree. However any number of processes run \<open>LoadOrCreateEncoded\<close> on one path at
  once, with whatever system calls failing and whatever processes never finishing, any two of them
  that return a key return the same key, and it is the one the file at the path holds.
\<close>

theorem all_processes_agree:
  assumes "job_ok J" "path_ok J d0 d0" "key_reachable J d0 s" "returned J s p k" "returned J s q k'"
  shows "k = k' \<and> at_path J (disk s) (holds_key J k)"
proof -
  have inv: "key_inv J d0 s" using assms(1-3) by (intro key_reachable_inv)
  from returned_at_path [OF inv assms(1,4)] returned_at_path [OF inv assms(1,5)]
  show ?thesis by (auto simp: at_path_def holds_key_def)
qed

lemma all_processes_agree_witness:
  "returned demo_job read_state 0 (replicate 16 0) \<and> at_path demo_job (disk read_state) (holds_key demo_job (replicate 16 0))"
  using all_processes_agree [OF demo_ok(1,2) key_reachable_steps [OF demo_read demo_minted] demo_returned(1,2)] demo_returned(1) by blast

text \<open>
  A key is never replaced. Once the entry of the path is durable, no step of any process and no
  crash of the machine removes it, makes it another file or changes a byte of it.
\<close>

theorem key_never_replaced:
  assumes "job_ok J" "path_ok J d0 d0" "key_reachable J d0 s" "(key_step J)\<^sup>*\<^sup>* s s'"
    and "entries (disk s) (job_path J) = Some i" "durable (disk s) (job_path J)"
  shows "entries (disk s') (job_path J) = Some i \<and> files (disk s') i = files (disk s) i"
proof -
  have inv: "key_inv J d0 s" using assms(1-3) by (intro key_reachable_inv)
  then obtain f where f: "key_at J (disk s) i f" using inv_path [OF inv] assms(5,6) by (auto simp: path_ok_def key_at_def)
  from key_at_steps [OF assms(4) inv assms(1) f] f show ?thesis by (auto simp: key_at_def)
qed

lemma key_never_replaced_witness:
  "entries (disk read_state) ''k'' = Some 7 \<and> files (disk read_state) 7 = files minted_disk 7"
  using key_never_replaced [OF demo_ok(1,2) demo_minted demo_read, of 7] by simp

text \<open>
  C12: No partial key at the real path. When the path was free at the start, whatever file is ever
  found under it, crashes included, is a complete, synced file of mode 0600 that reads back as the
  key of the process that minted it.
\<close>

theorem no_partial_key:
  assumes "job_ok J" "entries d0 (job_path J) = None" "key_reachable J d0 s" "entries (disk s) (job_path J) = Some i"
  shows "\<exists>f p. files (disk s) i = Some f \<and> synced f \<and> perm f = 0x180
     \<and> accept_key (job_euid J) (job_size J) (job_enc J) f (content f) = Inr (job_key J p)"
proof -
  have "path_ok J d0 d0" using assms(2) by (simp add: path_ok_def)
  then have inv: "key_inv J d0 s" using assms(1,3) by (intro key_reachable_inv)
  then obtain f p where f: "files (disk s) i = Some f" "minted_file J p f"
    using inv_path [OF inv] assms(2,4) by (auto simp: path_ok_def)
  have "holds_key J (job_key J p) f" using minted_holds [OF f(2) assms(1)] .
  moreover have "int (length (content f)) \<le> 2 * job_size J + 64"
  proof -
    have "int (length (job_key J p)) = job_size J" using assms(1) by (simp add: job_ok_def)
    moreover have "length (content f) \<le> 2 * length (job_key J p) + 64"
      by (rule length_enc_encode [of "job_enc J"]) (use f(2) in \<open>simp add: minted_file_def\<close>)
    ultimately show ?thesis by linarith
  qed
  moreover have "check_key_info (job_euid J) f = None"
    using f(2) by (simp add: check_key_info_def minted_file_def)
  ultimately show ?thesis
    using f by (auto simp: accept_key_def holds_key_def minted_file_def)
qed

lemma no_partial_key_witness:
  "\<exists>f p. files minted_disk 7 = Some f \<and> accept_key 0 16 Raw f (content f) = Inr (replicate 16 (of_nat p))"
  using no_partial_key [OF demo_ok(1) _ demo_minted, of 7] by (simp del: minted_disk_simps(3)) blast

text \<open>
  What a process returned as minted is the key for good: after any further steps, a crash of the
  machine included, every process that returns a key returns that one.
\<close>

theorem minted_key_survives:
  assumes "job_ok J" "path_ok J d0 d0" "key_reachable J d0 s" "procs s p = Some Minted"
    and "(key_step J)\<^sup>*\<^sup>* s s'" "returned J s' q k"
  shows "k = job_key J p"
proof -
  have inv: "key_inv J d0 s" using assms(1-3) by (intro key_reachable_inv)
  from inv_pc [OF inv assms(4)] obtain i f where f: "key_at J (disk s) i f" "minted_file J p f"
    by (auto simp: at_path_def key_at_def minted_file_def)
  have "key_at J (disk s') i f" by (rule key_at_steps [OF assms(5) inv assms(1) f(1)])
  moreover have "at_path J (disk s') (holds_key J k)"
    by (rule returned_at_path [OF key_inv_steps [OF assms(5) inv assms(1)] assms(1,6)])
  ultimately show ?thesis
    using minted_holds [OF f(2) assms(1)] by (auto simp: key_at_def at_path_def holds_key_def)
qed

lemma minted_key_survives_witness:
  "replicate 16 0 = job_key demo_job 0"
  using minted_key_survives [OF demo_ok(1,2) demo_minted demo_returned(4) demo_read demo_returned(2)] .



text \<open>
  A key that was read is not a key that is durable: a process can return a key another one has linked
  but whose directory is not synced yet; a crash then loses the name, and the next start mints another
  key.
\<close>

definition linked_disk :: Disk where
  "linked_disk = link_file 7 ''k'' (sync_file 7 (write_file 7 (replicate 16 0) (create_temp 0 ''.keyfile-1.tmp'' 7 no_disk)))"

definition crashed_disk :: Disk where
  "crashed_disk = linked_disk\<lparr>entries := (\<lambda>_. None)\<rparr>"

lemma linked_disk_simps [simp]:
  "entries linked_disk ''k'' = Some 7" "durable linked_disk n = False"
  "files linked_disk 7 = Some \<lparr>kind = Regular, perm = 0x180, owner = 0, content = replicate 16 0, synced = True\<rparr>"
  "entries crashed_disk n = None" "durable crashed_disk = durable linked_disk" "files crashed_disk = files linked_disk"
  "files linked_disk 8 = None"
  by (simp_all add: linked_disk_def crashed_disk_def link_file_def)

lemma demo_linked: "(key_step demo_job)\<^sup>*\<^sup>* nobody (at_pc 0 nobody (SyncParent ''.keyfile-1.tmp'') linked_disk)"
proof -
  let ?S = "at_pc 0 nobody" and ?t = "''.keyfile-1.tmp''"
  define d1 where "d1 = create_temp 0 ?t 7 no_disk"
  define d2 where "d2 = write_file 7 (replicate 16 0) d1"
  define d3 where "d3 = sync_file 7 d2"
  have d: "linked_disk = link_file 7 ''k'' d3" "entries d3 ''k'' = None"
    by (simp_all add: linked_disk_def d1_def d2_def d3_def)
  have "key_step demo_job nobody (?S (Inspect True) no_disk)"
    using key_step.enter [of nobody 0 demo_job] by (simp add: at_pc_goto)
  moreover have "key_step demo_job (?S (Inspect True) no_disk) (?S MakeTemp no_disk)"
    using key_step.lstat_missing [of "?S (Inspect True) no_disk" 0 True demo_job] by (simp add: lookup_file_def missing_def)
  moreover have "key_step demo_job (?S MakeTemp no_disk) (?S (WriteTemp ?t 7) d1)"
    using key_step.make_temp [of "?S MakeTemp no_disk" 0 ?t 7 demo_job] demo_ok(3) by (simp add: d1_def)
  moreover have "key_step demo_job (?S (WriteTemp ?t 7) d1) (?S (SyncTemp ?t 7) d2)"
    using key_step.write_temp [of "?S (WriteTemp ?t 7) d1" 0 ?t 7 demo_job] by (simp add: d2_def)
  moreover have "key_step demo_job (?S (SyncTemp ?t 7) d2) (?S (LinkTemp ?t 7) d3)"
    using key_step.sync_temp [of "?S (SyncTemp ?t 7) d2" 0 ?t 7 demo_job] by (simp add: d3_def)
  moreover have "key_step demo_job (?S (LinkTemp ?t 7) d3) (?S (SyncParent ?t) linked_disk)"
    using key_step.link_new [of "?S (LinkTemp ?t 7) d3" 0 ?t 7 demo_job] d by simp
  ultimately show ?thesis by (meson run_step r_into_rtranclp)
qed

lemma demo_key_run:
  assumes "procs s p = None" "disk s = d" "read_key 0 d d d ''k'' 16 Raw = Inr k"
  shows "(key_step demo_job)\<^sup>*\<^sup>* s (at_pc p s (Answered (Inr k)) d)"
proof -
  have "key_step demo_job s (at_pc p s (Inspect True) d)"
    using key_step.enter [OF assms(1), of demo_job] assms(2) by (simp add: at_pc_goto)
  moreover have "(key_step demo_job)\<^sup>*\<^sup>* (at_pc p s (Inspect True) d) (at_pc p s (Answered (Inr k)) d)"
    using read_run_at [of demo_job p s True d] assms(3) by (simp add: after_read_def)
  ultimately show ?thesis by (rule run_step)
qed

lemma read_key_can_vanish:
  "\<exists>s s' k k'. key_reachable demo_job no_disk s \<and> returned demo_job s 1 k
     \<and> (key_step demo_job)\<^sup>*\<^sup>* s s' \<and> returned demo_job s' 2 k' \<and> k \<noteq> k'"
proof -
  define l where "l = at_pc 0 nobody (SyncParent ''.keyfile-1.tmp'') linked_disk"
  define s where "s = at_pc 1 l (Answered (Inr (replicate 16 0))) linked_disk"
  define c where "c = \<lparr>disk = crashed_disk, procs = (\<lambda>_. None :: key_pc option)\<rparr>"
  have "read_key 0 linked_disk linked_disk linked_disk ''k'' 16 Raw = Inr (replicate 16 0)"
    by (simp add: read_key_cases lookup_file_def accept_key_def check_key_info_def)
  moreover have "procs l 1 = None" "disk l = linked_disk" by (simp_all add: l_def) (simp add: at_pc_def)
  ultimately have "(key_step demo_job)\<^sup>*\<^sup>* l s" unfolding s_def by (intro demo_key_run)
  moreover have "key_reachable demo_job no_disk nobody"
    using key_reachable.start [of demo_job no_disk] by (simp add: nobody_def)
  ultimately have s: "key_reachable demo_job no_disk s"
    using demo_linked by (fold l_def) (blast intro: key_reachable_steps)
  have "key_step demo_job s c"
    unfolding c_def by (rule key_step.crash) (simp_all add: s_def)
  moreover obtain c' where c': "(key_step demo_job)\<^sup>*\<^sup>* c c'" "procs c' 2 = Some (Answered (Inr (replicate 16 2))) \<or> procs c' 2 = Some Minted"
  proof -
    have "load_or_create (\<lambda>_. False) 0 ''.keyfile-1.tmp'' 8 (replicate 16 2) ''k'' 16 Raw crashed_disk
        = (Inr (replicate 16 2), snd (write_key (\<lambda>_. False) 0 ''.keyfile-1.tmp'' 8 ''k'' (replicate 16 2) crashed_disk))"
      by (simp add: load_or_create_def min_size_def read_key_cases lookup_file_def create_key_def write_key_def Let_def)
    from solo_run [OF demo_ok(1), of c 2 "''.keyfile-1.tmp''" 8 "replicate 16 2" "\<lambda>_. False"] this demo_ok(3)
    show ?thesis using that by (auto simp: c_def)
  qed
  moreover have "returned demo_job s 1 (replicate 16 0)" by (simp add: returned_def s_def)
  moreover have "returned demo_job c' 2 (replicate 16 2)" using c'(2) by (auto simp: returned_def)
  moreover have "replicate 16 (0 :: u8) \<noteq> replicate 16 2" by simp
  ultimately show ?thesis using s by (meson run_step)
qed

end

