(* ===== verification/Health.thy ===== *)
theory Health
  imports Prelude GoTime
begin

text \<open>
  \<open>health\<close>: the public health endpoint. \<open>health.go\<close> gives statuses, reasons and the classification of
  errors, \<open>evaluate.go\<close> the runner of one check and the evaluation of all, \<open>handler.go\<close> the cached
  response and the HTTP handler. What a check did in one evaluation is an argument (\<open>attempt\<close>); how
  its goroutine races with the deadline is the step relation \<open>runner_step\<close>.
\<close>

section \<open>Statuses and patterns\<close>

datatype Status = OK | Degraded | Down | OtherStatus string

fun rank_of :: "Status \<Rightarrow> nat" where
  "rank_of OK = 0"
| "rank_of Degraded = 1"
| "rank_of Down = 2"
| "rank_of (OtherStatus _) = 2"

definition lower_letter :: "char \<Rightarrow> bool" where
  "lower_letter c \<longleftrightarrow> (let n = of_char c :: nat in 97 \<le> n \<and> n \<le> 122)"

definition upper_letter :: "char \<Rightarrow> bool" where
  "upper_letter c \<longleftrightarrow> (let n = of_char c :: nat in 65 \<le> n \<and> n \<le> 90)"

definition digit_char :: "char \<Rightarrow> bool" where
  "digit_char c \<longleftrightarrow> (let n = of_char c :: nat in 48 \<le> n \<and> n \<le> 57)"

definition code_char :: "char \<Rightarrow> bool" where
  "code_char c \<longleftrightarrow> lower_letter c \<or> digit_char c \<or> c = CHR ''_''"

definition service_char :: "char \<Rightarrow> bool" where
  "service_char c \<longleftrightarrow> upper_letter c \<or> lower_letter c \<or> digit_char c \<or> c \<in> set ''_.-''"

definition code_pattern :: "string \<Rightarrow> bool" where
  "code_pattern s \<longleftrightarrow> 1 \<le> length s \<and> length s \<le> 64 \<and> list_all code_char s"

definition name_pattern :: "string \<Rightarrow> bool" where
  "name_pattern s \<longleftrightarrow> (case s of [] \<Rightarrow> False | c # cs \<Rightarrow> lower_letter c \<and> length cs \<le> 63 \<and> list_all code_char cs)"

definition service_pattern :: "string \<Rightarrow> bool" where
  "service_pattern s \<longleftrightarrow> (case s of [] \<Rightarrow> False
     | c # cs \<Rightarrow> (upper_letter c \<or> lower_letter c \<or> digit_char c) \<and> length cs \<le> 63 \<and> list_all service_char cs)"

section \<open>Reasons\<close>

text \<open>
  A reason is a value of an abstract type: outside the package there are the results of
  \<open>DeclareReason\<close>, which panics (\<open>None\<close>) on a code that does not match, and the zero value.
\<close>

typedef Reason = "{c :: string. c = [] \<or> code_pattern c}"
  morphisms reason_code Reason
  by auto

definition zero_reason :: Reason where
  "zero_reason = Reason []"

definition declare_reason :: "string \<Rightarrow> Reason option" where
  "declare_reason c = (if code_pattern c then Some (Reason c) else None)"

definition timeout_reason :: Reason where
  "timeout_reason = Reason ''timeout''"

lemma reason_code_simps [simp]:
  "reason_code zero_reason = []" "reason_code timeout_reason = ''timeout''"
  "declare_reason c = Some r \<longleftrightarrow> code_pattern c \<and> reason_code r = c"
proof -
  show "reason_code zero_reason = []" by (simp add: zero_reason_def Reason_inverse)
  show "reason_code timeout_reason = ''timeout''"
    by (simp add: timeout_reason_def Reason_inverse code_pattern_def code_char_def lower_letter_def)
  show "declare_reason c = Some r \<longleftrightarrow> code_pattern c \<and> reason_code r = c"
    by (auto simp: declare_reason_def Reason_inverse reason_code_inverse)
qed

text \<open>
  An error is an outcome, or any other error with a text and the errors it wraps, which \<open>errors.As\<close>
  searches in order, depth first.
\<close>

datatype go_error = Outcome Status Reason | Opaque string "go_error list"

definition degrade :: "Reason \<Rightarrow> go_error" where
  "degrade r = Outcome Degraded r"

definition fail :: "Reason \<Rightarrow> go_error" where
  "fail r = Outcome Down r"

fun as_outcome :: "go_error \<Rightarrow> (Status \<times> Reason) option"
  and as_outcomes :: "go_error list \<Rightarrow> (Status \<times> Reason) option" where
  "as_outcome (Outcome s r) = Some (s, r)"
| "as_outcome (Opaque _ es) = as_outcomes es"
| "as_outcomes [] = None"
| "as_outcomes (e # es) = (case as_outcome e of Some x \<Rightarrow> Some x | None \<Rightarrow> as_outcomes es)"

definition classify :: "go_error option \<Rightarrow> Status \<times> string" where
  "classify err =
     (case err of
        None \<Rightarrow> (OK, [])
      | Some e \<Rightarrow> (case as_outcome e of
          Some (s, r) \<Rightarrow> (s, reason_code r)
        | None \<Rightarrow> (Down, [])))"

section \<open>Running checks\<close>

record Check =
  check_name :: string
  check_timeout :: int

record CheckResult =
  result_name :: string
  result_status :: Status
  result_reason :: string

definition default_timeout :: int where
  "default_timeout = 2 * second"

definition max_timeout :: int where
  "max_timeout = 4 * second"

definition effective_timeout :: "Check \<Rightarrow> int" where
  "effective_timeout c = (if check_timeout c \<le> 0 then default_timeout else check_timeout c)"

text \<open>
  What the goroutine of a check did before its deadline: it returned, it panicked, or neither. The
  error of a run is for the log only.
\<close>

datatype attempt = Returned "go_error option" | Panicked | Unfinished

datatype run_error = CheckError go_error | PanickedError | StillRunning | DeadlineExceeded

text \<open>\<open>runner.run\<close> on a runner whose \<open>busy\<close> flag is given; the flag afterwards is the last component.\<close>

definition run_check :: "Check \<Rightarrow> bool \<Rightarrow> attempt \<Rightarrow> (CheckResult \<times> run_error option) \<times> bool" where
  "run_check c busy a =
     (let res = \<lambda>(s, r). \<lparr>result_name = check_name c, result_status = s, result_reason = r\<rparr>
      in if busy then ((res (Down, reason_code timeout_reason), Some StillRunning), True)
         else case a of
           Returned err \<Rightarrow> ((res (classify err), map_option CheckError err), False)
         | Panicked \<Rightarrow> ((res (Down, []), Some PanickedError), False)
         | Unfinished \<Rightarrow> ((res (Down, reason_code timeout_reason), Some DeadlineExceeded), True))"

definition worst :: "Status \<Rightarrow> CheckResult \<Rightarrow> Status" where
  "worst s res = (if rank_of s < rank_of (result_status res) then result_status res else s)"

definition evaluate :: "(Check \<times> bool) list \<Rightarrow> attempt list \<Rightarrow> (Status \<times> (CheckResult \<times> run_error option) list) \<times> (Check \<times> bool) list" where
  "evaluate runners attempts =
     (let outs = map2 (\<lambda>(c, busy) a. run_check c busy a) runners attempts;
          results = map fst outs
      in ((foldl worst OK (map fst results), results), zip (map fst runners) (map snd outs)))"

section \<open>The handler\<close>

record Response =
  resp_schema :: string
  resp_service :: string
  resp_status :: Status
  resp_time :: int
  resp_checks :: "CheckResult list"

record Handler =
  h_service :: string
  h_runners :: "(Check \<times> bool) list"
  h_at :: "int option"
  h_resp :: "Response option"

definition cache_for :: int where
  "cache_for = 5 * second"

definition schema :: string where
  "schema = ''ky.health/1''"

text \<open>The panics of \<open>newHandler\<close>. A check whose \<open>Run\<close> is nil is \<open>None\<close>.\<close>

datatype handler_panic = BadService | NoLogger | BadName | DuplicateName | NoRun | TimeoutTooLong

fun admit_checks :: "string set \<Rightarrow> (Check \<times> bool) list \<Rightarrow> handler_panic option" where
  "admit_checks seen [] = None"
| "admit_checks seen ((c, has_run) # cs) =
     (if \<not> name_pattern (check_name c) then Some BadName
      else if check_name c \<in> seen then Some DuplicateName
      else if \<not> has_run then Some NoRun
      else if max_timeout < check_timeout c then Some TimeoutTooLong
      else admit_checks (insert (check_name c) seen) cs)"

definition new_handler :: "string \<Rightarrow> bool \<Rightarrow> (Check \<times> bool) list \<Rightarrow> handler_panic + Handler" where
  "new_handler service has_logger checks =
     (if \<not> service_pattern service then Inl BadService
      else if \<not> has_logger then Inl NoLogger
      else case admit_checks {} checks of
        Some e \<Rightarrow> Inl e
      | None \<Rightarrow> Inr \<lparr>h_service = service, h_runners = map (\<lambda>(c, _). (c, False)) checks, h_at = None, h_resp = None\<rparr>)"

type_synonym log_line = "string \<times> string option \<times> run_error option"

definition log_lines :: "(CheckResult \<times> run_error option) list \<Rightarrow> log_line list" where
  "log_lines outs = map (\<lambda>(res, err). (result_name res, if result_reason res = [] then None else Some (result_reason res), err))
     (filter (\<lambda>(res, _). result_status res \<noteq> OK) outs)"

text \<open>
  \<open>current\<close>, under the handler's mutex: the response, the lines it logs and the handler after it.
  An instant of zero is a handler that has not answered yet.
\<close>

definition fresh :: "int \<Rightarrow> attempt list \<Rightarrow> Handler \<Rightarrow> (Response \<times> log_line list) \<times> Handler" where
  "fresh now attempts h =
     (let ((status, outs), runners) = evaluate (h_runners h) attempts;
          resp = \<lparr>resp_schema = schema, resp_service = h_service h, resp_status = status,
                  resp_time = unix now * second, resp_checks = map fst outs\<rparr>
      in ((resp, log_lines outs), h\<lparr>h_runners := runners, h_at := Some now, h_resp := Some resp\<rparr>))"

definition current :: "int \<Rightarrow> attempt list \<Rightarrow> Handler \<Rightarrow> (Response \<times> log_line list) \<times> Handler" where
  "current now attempts h =
     (case (h_at h, h_resp h) of
        (Some at, Some resp) \<Rightarrow> if sat64 (now - at) < cache_for then ((resp, []), h) else fresh now attempts h
      | _ \<Rightarrow> fresh now attempts h)"

text \<open>A check that outlived its evaluation ends, and frees its runner.\<close>

definition check_ended :: "nat \<Rightarrow> Handler \<Rightarrow> Handler" where
  "check_ended i h = h\<lparr>h_runners := (h_runners h)[i := (fst (h_runners h ! i), False)]\<rparr>"

datatype reply = NotAllowed | Reply nat "Response option"

definition serve_http :: "int \<Rightarrow> attempt list \<Rightarrow> string \<Rightarrow> Handler \<Rightarrow> reply \<times> Handler" where
  "serve_http now attempts meth h =
     (if meth \<noteq> ''GET'' \<and> meth \<noteq> ''HEAD'' then (NotAllowed, h)
      else let ((resp, _), h') = current now attempts h;
               code = (if resp_status resp = Down then 503 else 200)
           in (Reply code (if meth = ''HEAD'' then None else Some resp), h'))"

section \<open>The race of one runner\<close>

text \<open>
  A goroutine works, has freed the runner, or has reported its error into its buffered channel. The
  handler's mutex admits one evaluation at a time; \<open>waits_for\<close> is the goroutine it waits for.
\<close>

datatype goroutine = Working | Freed attempt | Reported attempt

record Runner =
  busy :: bool
  goroutines :: "nat \<Rightarrow> goroutine option"
  waits_for :: "nat option"
  answer :: "(Status \<times> string) option"

definition idle_runner :: Runner where
  "idle_runner = \<lparr>busy = False, goroutines = (\<lambda>_. None), waits_for = None, answer = None\<rparr>"

definition answer_of :: "attempt \<Rightarrow> Status \<times> string" where
  "answer_of a = (case a of Returned err \<Rightarrow> classify err | Panicked \<Rightarrow> (Down, []) | Unfinished \<Rightarrow> (Down, reason_code timeout_reason))"

inductive runner_step :: "Runner \<Rightarrow> Runner \<Rightarrow> bool" where
  still_running: "waits_for r = None \<Longrightarrow> busy r
    \<Longrightarrow> runner_step r (r\<lparr>answer := Some (Down, reason_code timeout_reason)\<rparr>)"
| launch: "waits_for r = None \<Longrightarrow> \<not> busy r \<Longrightarrow> goroutines r i = None
    \<Longrightarrow> runner_step r (r\<lparr>busy := True, goroutines := (goroutines r)(i \<mapsto> Working), waits_for := Some i, answer := None\<rparr>)"
| free_runner: "goroutines r i = Some Working \<Longrightarrow> a \<noteq> Unfinished
    \<Longrightarrow> runner_step r (r\<lparr>busy := False, goroutines := (goroutines r)(i \<mapsto> Freed a)\<rparr>)"
| report: "goroutines r i = Some (Freed a)
    \<Longrightarrow> runner_step r (r\<lparr>goroutines := (goroutines r)(i \<mapsto> Reported a)\<rparr>)"
| collect: "waits_for r = Some i \<Longrightarrow> goroutines r i = Some (Reported a)
    \<Longrightarrow> runner_step r (r\<lparr>waits_for := None, answer := Some (answer_of a)\<rparr>)"
| deadline: "waits_for r = Some i
    \<Longrightarrow> runner_step r (r\<lparr>waits_for := None, answer := Some (Down, reason_code timeout_reason)\<rparr>)"

inductive runner_reachable :: "Runner \<Rightarrow> bool" where
  start: "runner_reachable idle_runner"
| step: "runner_reachable r \<Longrightarrow> runner_step r r' \<Longrightarrow> runner_reachable r'"

inductive handler_reachable :: "Handler \<Rightarrow> Handler \<Rightarrow> bool" for h0 where
  start: "handler_reachable h0 h0"
| request: "handler_reachable h0 h \<Longrightarrow> length attempts = length (h_runners h) \<Longrightarrow> handler_reachable h0 (snd (serve_http now attempts meth h))"
| ended: "handler_reachable h0 h \<Longrightarrow> i < length (h_runners h) \<Longrightarrow> handler_reachable h0 (check_ended i h)"

section \<open>Lemmas: the race\<close>

definition working :: "Runner \<Rightarrow> nat set" where
  "working r = {i. goroutines r i = Some Working}"

definition runner_inv :: "Runner \<Rightarrow> bool" where
  "runner_inv r \<longleftrightarrow> (\<forall>i j. goroutines r i = Some Working \<longrightarrow> goroutines r j = Some Working \<longrightarrow> i = j)
     \<and> (busy r \<longleftrightarrow> (\<exists>i. goroutines r i = Some Working))
     \<and> (\<forall>i. goroutines r i = Some Working \<longrightarrow> waits_for r \<noteq> None \<longrightarrow> waits_for r = Some i)
     \<and> (\<forall>i. waits_for r = Some i \<longrightarrow> goroutines r i \<noteq> None)"

lemma runner_inv_step: "runner_step r r' \<Longrightarrow> runner_inv r \<Longrightarrow> runner_inv r'"
proof (induction rule: runner_step.induct)
  case (launch r i)
  then show ?case by (auto simp: runner_inv_def)
next
  case (free_runner r i a)
  then show ?case by (auto simp: runner_inv_def)
next
  case (report r i a)
  then have "goroutines r j = Some Working \<Longrightarrow> j \<noteq> i" for j by auto
  with report show ?case by (auto simp: runner_inv_def)
qed (auto simp: runner_inv_def)

lemma runner_reachable_inv: "runner_reachable r \<Longrightarrow> runner_inv r"
  by (induction rule: runner_reachable.induct) (auto simp: runner_inv_step, simp add: runner_inv_def idle_runner_def)

section \<open>Lemmas: what a response can say\<close>

lemma reason_code_ok: "reason_code r = [] \<or> code_pattern (reason_code r)"
  using reason_code [of r] by simp

lemma classify_reason: "snd (classify err) = [] \<or> code_pattern (snd (classify err))"
  using reason_code_ok by (auto simp: classify_def split: option.splits)

definition result_ok :: "CheckResult \<Rightarrow> bool" where
  "result_ok res \<longleftrightarrow> name_pattern (result_name res) \<and> (result_reason res = [] \<or> code_pattern (result_reason res))"

definition response_ok :: "Response \<Rightarrow> bool" where
  "response_ok resp \<longleftrightarrow> resp_schema resp = schema \<and> service_pattern (resp_service resp) \<and> list_all result_ok (resp_checks resp)"

definition handler_ok :: "Handler \<Rightarrow> bool" where
  "handler_ok h \<longleftrightarrow> service_pattern (h_service h)
     \<and> list_all (\<lambda>(c, _). name_pattern (check_name c) \<and> 0 < effective_timeout c \<and> effective_timeout c \<le> max_timeout) (h_runners h)
     \<and> (case h_resp h of None \<Rightarrow> True | Some resp \<Rightarrow> response_ok resp)"

lemma run_check_ok: "name_pattern (check_name c) \<Longrightarrow> result_ok (fst (fst (run_check c b a)))"
proof (cases a)
  case (Returned err)
  assume "name_pattern (check_name c)"
  with Returned classify_reason [of err] reason_code_ok [of timeout_reason] show ?thesis
    by (cases "classify err") (simp add: run_check_def result_ok_def Let_def)
qed (use reason_code_ok [of timeout_reason] in \<open>simp_all add: run_check_def result_ok_def Let_def\<close>)

lemma evaluate_ok:
  assumes "list_all (\<lambda>(c, _). name_pattern (check_name c) \<and> P c) runners" "evaluate runners attempts = ((status, outs), runners')"
  shows "list_all result_ok (map fst outs)" "list_all (\<lambda>(c, _). name_pattern (check_name c) \<and> P c) runners'"
proof -
  have o: "outs = map2 (\<lambda>(c, b) a. fst (run_check c b a)) runners attempts"
    using assms(2) by (auto simp: evaluate_def Let_def case_prod_unfold comp_def)
  have "list_all (\<lambda>((c, _), _). name_pattern (check_name c)) (zip runners attempts)"
    using assms(1) by (auto simp: list_all_iff dest: set_zip_leftD)
  then show "list_all result_ok (map fst outs)"
    unfolding o by (fastforce simp: list_all_iff intro: run_check_ok)
  have "runners' = zip (map fst runners) (map snd (map2 (\<lambda>(c, b) a. run_check c b a) runners attempts))"
    using assms(2) by (simp add: evaluate_def Let_def)
  then show "list_all (\<lambda>(c, _). name_pattern (check_name c) \<and> P c) runners'"
    using assms(1) by (fastforce simp: list_all_iff dest: set_zip_leftD)
qed

lemma fresh_ok:
  assumes "handler_ok h" "fresh now attempts h = ((resp, log), h')"
  shows "handler_ok h' \<and> response_ok resp"
proof -
  obtain status outs runners where e: "evaluate (h_runners h) attempts = ((status, outs), runners)"
    by (cases "evaluate (h_runners h) attempts") auto
  then show ?thesis
    using assms evaluate_ok [OF _ e, of "\<lambda>c. 0 < effective_timeout c \<and> effective_timeout c \<le> max_timeout"]
    by (auto simp: handler_ok_def fresh_def response_ok_def Let_def)
qed

lemma current_ok: "handler_ok h \<Longrightarrow> current now attempts h = ((resp, log), h') \<Longrightarrow> handler_ok h' \<and> response_ok resp"
  by (cases "h_at h"; cases "h_resp h")
    (auto simp: current_def fresh_ok split: if_splits, auto simp: handler_ok_def)

lemma serve_ok:
  assumes "handler_ok h" "serve_http now attempts meth h = (rep, h')"
  shows "handler_ok h' \<and> (\<forall>code resp. rep = Reply code (Some resp) \<longrightarrow> response_ok resp)"
proof -
  obtain resp log h1 where c: "current now attempts h = ((resp, log), h1)" by (cases "current now attempts h") auto
  from current_ok [OF assms(1) c] show ?thesis
    using assms c by (auto simp: serve_http_def Let_def split: if_splits)
qed

lemma check_ended_ok: "handler_ok h \<Longrightarrow> i < length (h_runners h) \<Longrightarrow> handler_ok (check_ended i h)"
proof -
  assume h: "handler_ok h" and i: "i < length (h_runners h)"
  let ?P = "\<lambda>(c, _ :: bool). name_pattern (check_name c) \<and> 0 < effective_timeout c \<and> effective_timeout c \<le> max_timeout"
  have "list_all ?P (h_runners h)" using h by (simp add: handler_ok_def)
  moreover from this have "?P (h_runners h ! i)" using i by (simp add: list_all_length)
  ultimately have "list_all ?P ((h_runners h)[i := (fst (h_runners h ! i), False)])"
    by (auto simp: list_all_iff dest!: set_update_subset_insert [THEN subsetD] split: prod.splits)
  with h show ?thesis by (simp add: handler_ok_def check_ended_def)
qed

lemma admit_checks_ok:
  "admit_checks seen cs = None \<Longrightarrow> list_all (\<lambda>(c, run). name_pattern (check_name c) \<and> run \<and> check_timeout c \<le> max_timeout) cs
     \<and> distinct (map (check_name \<circ> fst) cs) \<and> (\<forall>c \<in> set cs. check_name (fst c) \<notin> seen)"
  by (induction seen cs rule: admit_checks.induct) (auto split: if_splits)

lemma new_handler_ok: "new_handler service lg checks = Inr h \<Longrightarrow> handler_ok h"
  using admit_checks_ok [of "{}" checks]
  by (auto simp: new_handler_def handler_ok_def list_all_iff effective_timeout_def default_timeout_def max_timeout_def second_def
      split: if_splits option.splits)

lemma handler_reachable_ok: "handler_reachable h0 h \<Longrightarrow> handler_ok h0 \<Longrightarrow> handler_ok h"
proof (induction rule: handler_reachable.induct)
  case (request h attempts now meth)
  then show ?case using serve_ok by (metis prod.collapse)
qed (auto intro: check_ended_ok)

lemma rank_worst: "rank_of (worst s res) = max (rank_of s) (rank_of (result_status res))"
  by (simp add: worst_def)

lemma foldl_worst:
  "rank_of s \<le> rank_of (foldl worst s rs) \<and> list_all (\<lambda>r. rank_of (result_status r) \<le> rank_of (foldl worst s rs)) rs
   \<and> (foldl worst s rs = s \<or> foldl worst s rs \<in> result_status ` set rs)"
proof (induction rs arbitrary: s)
  case (Cons r rs)
  have "rank_of s \<le> rank_of (worst s r)" "rank_of (result_status r) \<le> rank_of (worst s r)" by (simp_all add: rank_worst)
  moreover have "worst s r = s \<or> worst s r = result_status r" by (simp add: worst_def)
  ultimately show ?case using Cons.IH [of "worst s r"] by auto
qed simp

section \<open>Properties\<close>


definition demo_checks :: "(Check \<times> bool) list" where
  "demo_checks = [(\<lparr>check_name = ''db'', check_timeout = 0\<rparr>, True)]"

definition demo_handler :: Handler where
  "demo_handler = \<lparr>h_service = ''ky'', h_runners = [(\<lparr>check_name = ''db'', check_timeout = 0\<rparr>, False)], h_at = None, h_resp = None\<rparr>"

definition demo_response :: Response where
  "demo_response = \<lparr>resp_schema = schema, resp_service = ''ky'', resp_status = Down, resp_time = 0,
     resp_checks = [\<lparr>result_name = ''db'', result_status = Down, result_reason = []\<rparr>]\<rparr>"

lemma demo_handler_new: "new_handler ''ky'' True demo_checks = Inr demo_handler"
  by (simp add: new_handler_def demo_checks_def demo_handler_def service_pattern_def service_char_def name_pattern_def
      lower_letter_def upper_letter_def digit_char_def code_char_def max_timeout_def second_def)

lemma demo_fresh:
  "current 0 [Returned (Some (Opaque ''dial tcp 10.0.0.7'' []))] demo_handler
     = ((demo_response, [(''db'', None, Some (CheckError (Opaque ''dial tcp 10.0.0.7'' [])))]),
        demo_handler\<lparr>h_at := Some 0, h_resp := Some demo_response\<rparr>)"
  by (simp add: current_def fresh_def demo_handler_def evaluate_def run_check_def classify_def worst_def demo_response_def
      log_lines_def unix_def Let_def)


text \<open>
  The status of the service is that of its worst check: no check is worse, and it is \<open>ok\<close> or the
  status of one of them. The reply is 503 exactly when it is \<open>down\<close>.
\<close>

theorem status_is_worst:
  assumes "fresh now attempts h = ((resp, log), h')"
  shows "list_all (\<lambda>r. rank_of (result_status r) \<le> rank_of (resp_status resp)) (resp_checks resp)
    \<and> (resp_status resp = OK \<or> resp_status resp \<in> result_status ` set (resp_checks resp))
    \<and> map fst log = map result_name (filter (\<lambda>r. result_status r \<noteq> OK) (resp_checks resp))"
proof -
  obtain status outs runners where e: "evaluate (h_runners h) attempts = ((status, outs), runners)"
    by (cases "evaluate (h_runners h) attempts") auto
  then have st: "status = foldl worst OK (map fst outs)" by (auto simp: evaluate_def Let_def comp_assoc)
  have r: "resp_status resp = status" "resp_checks resp = map fst outs" "log = log_lines outs"
    using assms e by (auto simp: fresh_def Let_def)
  have "map fst (log_lines outs) = map result_name (filter (\<lambda>r. result_status r \<noteq> OK) (map fst outs))"
    by (induction outs) (auto simp: log_lines_def)
  then show ?thesis unfolding r st using foldl_worst [of OK "map fst outs"] by auto
qed

lemma status_is_worst_witness: "list_all (\<lambda>r. rank_of (result_status r) \<le> rank_of Down) (resp_checks demo_response)"
proof -
  have "fresh 0 [Returned (Some (Opaque ''dial tcp 10.0.0.7'' []))] demo_handler
     = ((demo_response, [(''db'', None, Some (CheckError (Opaque ''dial tcp 10.0.0.7'' [])))]),
        demo_handler\<lparr>h_at := Some 0, h_resp := Some demo_response\<rparr>)"
    using demo_fresh by (simp add: current_def demo_handler_def)
  from status_is_worst [OF this] show ?thesis by (simp add: demo_response_def)
qed

text \<open>
  A check never stacks: at every moment at most one goroutine of a runner is working, the runner
  is marked busy exactly while one is, and an evaluation that gets the result of its goroutine leaves
  the runner free, so a finished check is never taken for one still running.
\<close>

theorem check_never_stacks:
  assumes "runner_reachable r" "goroutines r i = Some Working" "goroutines r j = Some Working"
  shows "i = j \<and> busy r \<and> \<not> (\<exists>k a. waits_for r = Some k \<and> goroutines r k = Some (Reported a))"
  using runner_reachable_inv [OF assms(1)] assms(2,3) unfolding runner_inv_def by fastforce

lemma check_never_stacks_witness:
  "busy (idle_runner\<lparr>busy := True, goroutines := (goroutines idle_runner)(0 \<mapsto> Working), waits_for := Some 0, answer := None\<rparr>)"
proof -
  have "runner_reachable (idle_runner\<lparr>busy := True, goroutines := (goroutines idle_runner)(0 \<mapsto> Working), waits_for := Some 0, answer := None\<rparr>)"
    by (rule runner_reachable.step [OF runner_reachable.start runner_step.launch]) (simp_all add: idle_runner_def)
  from check_never_stacks [OF this, of 0 0] show ?thesis by simp
qed

text \<open>
  One evaluation answers every request of the next five seconds: a request in that time gets the
  same response and no check runs; a later one evaluates afresh.
\<close>

theorem response_is_cached:
  assumes "current t attempts h = ((resp, log), h')" "h_at h = None" "t \<le> t'" "t' - t \<le> max_int64"
  shows "current t' attempts' h' = (if t' - t < 5000000000 then ((resp, []), h') else fresh t' attempts' h')"
proof -
  have "fresh t attempts h = ((resp, log), h')" using assms(1,2) by (simp add: current_def)
  then have "h_at h' = Some t" "h_resp h' = Some resp" by (auto simp: fresh_def Let_def split: prod.splits)
  moreover have "sat64 (t' - t) = t' - t" using assms(3,4) by (simp add: sat64_def min_int64_def)
  ultimately show ?thesis by (simp add: current_def cache_for_def second_def)
qed

lemma response_is_cached_witness:
  "current 4999999999 [] (demo_handler\<lparr>h_at := Some 0, h_resp := Some demo_response\<rparr>)
     = ((demo_response, []), demo_handler\<lparr>h_at := Some 0, h_resp := Some demo_response\<rparr>)"
  using response_is_cached [OF demo_fresh, of 4999999999 "[]"] by (simp add: demo_handler_def max_int64_def)

end
