(* ===== verification/RecoveryKey.thy ===== *)
theory RecoveryKey
  imports Prelude Codec Hashes Shamir
begin

text \<open>
  \<open>recoverykey\<close>: the suite's recovery keypair, its identifier, and its custodian shares, which are
  Shamir shares of its seed. The KEM and the HPKE contexts are those of \<open>crypto/hpke\<close>: the record
  \<open>Hpke\<close> holds the calls the packages make, and \<open>hpke_ok\<close> states what they rely on: a seed of 32
  bytes is a private key, a public key reads back from its 1216 bytes, and what a sender for the
  public key seals, the recipient with the private key opens under the same additional data; a
  ciphertext carries a tag, so it is never empty.
\<close>

section \<open>The key encapsulation and its contexts\<close>

record ('sk, 'pk, 'ctx) Hpke =
  generate_seed :: "bytes \<Rightarrow> bytes option"
  new_private_key :: "bytes \<Rightarrow> 'sk option"
  new_public_key :: "bytes \<Rightarrow> 'pk option"
  public_half :: "'sk \<Rightarrow> 'pk"
  public_key_bytes :: "'pk \<Rightarrow> bytes"
  new_sender :: "bytes \<Rightarrow> 'pk \<Rightarrow> bytes \<Rightarrow> (bytes \<times> 'ctx) option"
  new_recipient :: "bytes \<Rightarrow> 'sk \<Rightarrow> bytes \<Rightarrow> 'ctx option"
  ctx_seal :: "'ctx \<Rightarrow> bytes \<Rightarrow> bytes \<Rightarrow> bytes option"
  ctx_open :: "'ctx \<Rightarrow> bytes \<Rightarrow> bytes \<Rightarrow> bytes option"

definition seed_bytes :: nat where
  "seed_bytes = 32"

definition public_key_size :: nat where
  "public_key_size = 1184 + 32"

definition encapsulation_bytes :: nat where
  "encapsulation_bytes = 1088 + 32"

definition hpke_ok :: "('sk, 'pk, 'ctx) Hpke \<Rightarrow> bool" where
  "hpke_ok H \<longleftrightarrow>
     (\<forall>seed. length seed = seed_bytes \<longrightarrow> new_private_key H seed \<noteq> None)
     \<and> (\<forall>pk. length (public_key_bytes H pk) = public_key_size \<and> new_public_key H (public_key_bytes H pk) = Some pk)
     \<and> (\<forall>rnd sk info enc cs. new_sender H rnd (public_half H sk) info = Some (enc, cs) \<longrightarrow>
          length enc = encapsulation_bytes
          \<and> (\<exists>cr. new_recipient H enc sk info = Some cr
               \<and> (\<forall>aad pt ct. ctx_seal H cs aad pt = Some ct \<longrightarrow> ct \<noteq> [] \<and> ctx_open H cr aad ct = Some pt)))"

section \<open>Keys\<close>

datatype recoverykey_error = SeedLength | PublicKeyLength | UninitializedKey | KemFailed | ShareError shamir_error

text \<open>A key whose HPKE half is missing is Go's zero value.\<close>

record 'sk PrivateKey =
  seed :: bytes
  private_key :: "'sk option"

record 'pk PublicKey =
  public_key :: "'pk option"

definition zero_private :: "'sk PrivateKey" where
  "zero_private = \<lparr>seed = replicate seed_bytes 0, private_key = None\<rparr>"

definition from_seed :: "('sk, 'pk, 'ctx) Hpke \<Rightarrow> bytes \<Rightarrow> recoverykey_error + 'sk PrivateKey" where
  "from_seed H b =
     (if length b \<noteq> seed_bytes then Inl SeedLength
      else case new_private_key H b of
        None \<Rightarrow> Inl KemFailed
      | Some k \<Rightarrow> Inr \<lparr>seed = b, private_key = Some k\<rparr>)"

definition generate_key :: "('sk, 'pk, 'ctx) Hpke \<Rightarrow> bytes \<Rightarrow> recoverykey_error + 'sk PrivateKey" where
  "generate_key H rnd = (case generate_seed H rnd of None \<Rightarrow> Inl KemFailed | Some s \<Rightarrow> from_seed H s)"

definition parse_public_key :: "('sk, 'pk, 'ctx) Hpke \<Rightarrow> bytes \<Rightarrow> recoverykey_error + 'pk PublicKey" where
  "parse_public_key H b =
     (if length b \<noteq> public_key_size then Inl PublicKeyLength
      else case new_public_key H b of
        None \<Rightarrow> Inl KemFailed
      | Some k \<Rightarrow> Inr \<lparr>public_key = Some k\<rparr>)"

definition public_of :: "('sk, 'pk, 'ctx) Hpke \<Rightarrow> 'sk PrivateKey \<Rightarrow> 'pk PublicKey" where
  "public_of H k = \<lparr>public_key = map_option (public_half H) (private_key k)\<rparr>"

definition public_bytes :: "('sk, 'pk, 'ctx) Hpke \<Rightarrow> 'pk PublicKey \<Rightarrow> bytes option" where
  "public_bytes H p = map_option (public_key_bytes H) (public_key p)"

definition key_id :: "('sk, 'pk, 'ctx) Hpke \<Rightarrow> 'pk PublicKey \<Rightarrow> string" where
  "key_id H p = (case public_bytes H p of None \<Rightarrow> [] | Some b \<Rightarrow> hex_encode (sha256 b))"

section \<open>Custodian shares\<close>

definition split_key :: "'sk PrivateKey \<Rightarrow> int \<Rightarrow> int \<Rightarrow> bytes \<Rightarrow> recoverykey_error + Share list" where
  "split_key k threshold count rnd =
     (if private_key k = None then Inl UninitializedKey
      else case split (seed k) threshold count rnd of Inl e \<Rightarrow> Inl (ShareError e) | Inr shares \<Rightarrow> Inr shares)"

definition combine_key :: "('sk, 'pk, 'ctx) Hpke \<Rightarrow> Share list \<Rightarrow> recoverykey_error + 'sk PrivateKey" where
  "combine_key H shares =
     (case combine shares of Inl e \<Rightarrow> Inl (ShareError e) | Inr s \<Rightarrow> from_seed H s)"

section \<open>Lemmas\<close>

text \<open>The keys the constructors return.\<close>

definition genuine :: "('sk, 'pk, 'ctx) Hpke \<Rightarrow> 'sk PrivateKey \<Rightarrow> bool" where
  "genuine H k \<longleftrightarrow> length (seed k) = seed_bytes \<and> (\<exists>x. private_key k = Some x \<and> new_private_key H (seed k) = Some x)"

lemma from_seed_genuine: "from_seed H b = Inr k \<Longrightarrow> genuine H k \<and> seed k = b"
  by (auto simp: from_seed_def genuine_def split: if_splits option.splits)

lemma genuine_from_seed: "genuine H k \<Longrightarrow> from_seed H (seed k) = Inr k"
  by (auto simp: from_seed_def genuine_def split: option.splits)

lemma constructors_genuine:
  "generate_key H rnd = Inr k \<Longrightarrow> genuine H k"
  "combine_key H shares = Inr k \<Longrightarrow> genuine H k"
  by (auto simp: generate_key_def combine_key_def dest: from_seed_genuine split: option.splits sum.splits)

text \<open>Two keys whose bytes differ and have one hash.\<close>

definition keys_collide :: "('sk, 'pk, 'ctx) Hpke \<Rightarrow> 'pk PublicKey \<Rightarrow> 'pk PublicKey \<Rightarrow> bool" where
  "keys_collide H p q \<longleftrightarrow> (case (public_bytes H p, public_bytes H q) of (Some a, Some b) \<Rightarrow> a \<noteq> b \<and> sha256 a = sha256 b | _ \<Rightarrow> False)"

lemma key_id_injective:
  assumes "hpke_ok H" "key_id H p = key_id H q" "public_key p \<noteq> None" "public_key q \<noteq> None"
  shows "p = q \<or> keys_collide H p q"
proof -
  obtain x y where x: "public_key p = Some x" and y: "public_key q = Some y" using assms(3,4) by auto
  then have "sha256 (public_key_bytes H x) = sha256 (public_key_bytes H y)"
    using assms(2) hex.enc_inj by (simp add: key_id_def public_bytes_def)
  moreover have "public_key_bytes H x = public_key_bytes H y \<Longrightarrow> x = y"
    using assms(1) unfolding hpke_ok_def by (metis option.inject)
  moreover have "p = q \<longleftrightarrow> public_key p = public_key q" by (cases p; cases q) simp
  ultimately show ?thesis using x y by (auto simp: keys_collide_def public_bytes_def)
qed

section \<open>Properties\<close>

text \<open>
  Any selection of at least \<open>threshold\<close> distinct custodian shares of a key rebuilds that key, so
  its public half and its identifier are the ones the backups name; a zero key is never split.
\<close>

theorem custodians_rebuild_key:
  assumes "generate_key H rnd = Inr k" "split_key k threshold count rnd' = Inr shares"
    and "set sub \<subseteq> set shares" "distinct sub" "threshold \<le> int (length sub)"
  shows "combine_key H sub = Inr k \<and> key_id H (public_of H k) \<noteq> []
    \<and> split_key (zero_private :: 'sk PrivateKey) threshold count rnd' = Inl UninitializedKey"
proof -
  have g: "genuine H k" using constructors_genuine(1) [OF assms(1)] .
  have "split (seed k) threshold count rnd' = Inr shares"
    using assms(2) by (auto simp: split_key_def split: if_splits sum.splits)
  then have "combine sub = Inr (seed k)" using assms(3-5) by (rule combine_of_split)
  then have "combine_key H sub = Inr k" using genuine_from_seed [OF g] by (simp add: combine_key_def)
  moreover obtain x where "private_key k = Some x" using g by (auto simp: genuine_def)
  then have "key_id H (public_of H k) \<noteq> []" by (simp add: key_id_def public_bytes_def public_of_def) (metis length_sha256 list.size(3) zero_neq_numeral)
  ultimately show ?thesis by (simp add: split_key_def zero_private_def)
qed

text \<open>An HPKE that satisfies the laws, with two public keys.\<close>

definition plain_hpke :: "(bytes, bool, unit) Hpke" where
  "plain_hpke = \<lparr>generate_seed = (\<lambda>rnd. if 32 \<le> length rnd then Some (take 32 rnd) else None),
     new_private_key = (\<lambda>s. if length s = 32 then Some s else None), new_public_key = (\<lambda>b. Some (hd b = 1)),
     public_half = (\<lambda>s. hd s = 7), public_key_bytes = (\<lambda>p. replicate 1216 (if p then 1 else 0)),
     new_sender = (\<lambda>rnd pk info. Some (replicate 1120 0, ())), new_recipient = (\<lambda>enc sk info. Some ()),
     ctx_seal = (\<lambda>c aad pt. Some (0 # aad @ pt)),
     ctx_open = (\<lambda>c aad ct. if ct \<noteq> [] \<and> take (length aad) (tl ct) = aad then Some (drop (length aad) (tl ct)) else None)\<rparr>"

lemma plain_hpke_ok: "hpke_ok plain_hpke"
  by (simp add: hpke_ok_def plain_hpke_def seed_bytes_def public_key_size_def encapsulation_bytes_def)

lemma custodians_rebuild_key_witness:
  "\<exists>k shares. generate_key plain_hpke (replicate 32 7) = Inr k \<and> split_key k 2 3 (replicate 48 9) = Inr shares
     \<and> combine_key plain_hpke (take 2 shares) = Inr k"
proof -
  let ?k = "\<lparr>seed = replicate 32 7, private_key = Some (replicate 32 7)\<rparr>"
  have k: "generate_key plain_hpke (replicate 32 7) = Inr ?k"
    by (simp add: generate_key_def from_seed_def plain_hpke_def seed_bytes_def)
  have "split_ready (seed ?k) 2 3" by (simp add: split_ready_def max_secret_bytes_def)
  then obtain shares where s: "split (seed ?k) 2 3 (replicate 48 9) = Inr shares" "int (length shares) = 3"
    using split_produces [of "seed ?k" 2 3 "replicate 48 9"] by (auto simp: set_id_bytes_def)
  then have sk: "split_key ?k 2 3 (replicate 48 9) = Inr shares" by (simp add: split_key_def)
  have "distinct shares" using split_distinct [OF s(1)] .
  then have d: "set (take 2 shares) \<subseteq> set shares" "distinct (take 2 shares)" "2 \<le> int (length (take 2 shares))"
    using s(2) by (auto dest: in_set_takeD)
  show ?thesis using custodians_rebuild_key [OF k sk d] k sk by blast
qed

end
