(* ===== verification/SafePath.thy ===== *)
theory SafePath
  imports Prelude GoStrings
begin

text \<open>
  \<open>filepath.Clean\<close> on a slash-separated system and \<open>safeRelPath\<close> of \<open>capsule/extract.go\<close>, the one
  function that decides which archive members may be written and under which name.
\<close>

section \<open>Cleaning a path\<close>

text \<open>
  \<open>Clean\<close> works element by element: empty elements and \<open>.\<close> are dropped, and \<open>..\<close> removes the element
  before it unless that is itself \<open>..\<close>, or there is none, where it stays in a relative path.
\<close>

fun clean_step :: "bool \<Rightarrow> string list \<Rightarrow> string \<Rightarrow> string list" where
  "clean_step rooted out p =
     (if p = [] \<or> p = ''.'' then out
      else if p = ''..'' then
        (if out \<noteq> [] \<and> last out \<noteq> ''..'' then butlast out
         else if rooted then out else out @ [''..''])
      else out @ [p])"

definition is_abs :: "string \<Rightarrow> bool" where
  "is_abs path \<longleftrightarrow> path \<noteq> [] \<and> hd path = CHR ''/''"

definition clean_parts :: "string \<Rightarrow> string list" where
  "clean_parts path = foldl (clean_step (is_abs path)) [] (split_on (CHR ''/'') path)"

definition clean :: "string \<Rightarrow> string" where
  "clean path =
     (let s = join_with (CHR ''/'') (clean_parts path)
      in if is_abs path then CHR ''/'' # s else if s = [] then ''.'' else s)"

section \<open>\<open>safeRelPath\<close>\<close>

definition safe_rel_path :: "string \<Rightarrow> string option" where
  "safe_rel_path name =
     (if name = [] \<or> CHR 0x00 \<in> set name then None
      else if CHR 0x5C \<in> set name \<or> is_abs name then None
      else let c = clean name
           in if c = ''.'' \<or> c = ''..'' \<or> has_prefix c ''../'' \<or> is_abs c then None else Some c)"

section \<open>Lemmas: what cleaning leaves\<close>

text \<open>A path element that names something in the directory it is looked up in.\<close>

definition plain :: "string \<Rightarrow> bool" where
  "plain p \<longleftrightarrow> p \<noteq> [] \<and> p \<noteq> ''.'' \<and> p \<noteq> ''..'' \<and> CHR ''/'' \<notin> set p"

text \<open>Only a leading run of \<open>..\<close> is left in front of plain elements.\<close>

definition normal :: "string list \<Rightarrow> bool" where
  "normal ps \<longleftrightarrow> (\<exists>k qs. ps = replicate k ''..'' @ qs \<and> list_all plain qs)"

lemma normal_step:
  assumes "normal out" "CHR ''/'' \<notin> set p"
  shows "normal (clean_step False out p)"
proof -
  obtain k qs where out: "out = replicate k ''..'' @ qs" "list_all plain qs" using assms(1) by (auto simp: normal_def)
  consider "p = [] \<or> p = ''.''" | "p = ''..''" "qs = []" | "p = ''..''" "qs \<noteq> []" | "plain p"
    using assms(2) by (auto simp: plain_def)
  then show ?thesis
  proof cases
    case 1
    then show ?thesis using assms(1) by auto
  next
    case 2
    then have "clean_step False out p = replicate (Suc k) ''..'' @ []"
      using out by (cases k) (auto simp: replicate_append_same)
    then show ?thesis unfolding normal_def by (intro exI [of _ "Suc k"] exI [of _ "[]"]) simp
  next
    case 3
    then have "plain (last qs)" using out(2) by (auto simp: list_all_iff)
    then have "clean_step False out p = replicate k ''..'' @ butlast qs"
      using 3 out(1) by (auto simp: butlast_append plain_def)
    moreover have "list_all plain (butlast qs)" using out(2) by (auto simp: list_all_iff dest: in_set_butlastD)
    ultimately show ?thesis unfolding normal_def by blast
  next
    case 4
    then have "clean_step False out p = replicate k ''..'' @ (qs @ [p])" using out(1) by (simp add: plain_def)
    moreover have "list_all plain (qs @ [p])" using out(2) 4 by simp
    ultimately show ?thesis unfolding normal_def by blast
  qed
qed

lemma normal_fold:
  "normal out \<Longrightarrow> \<forall>p \<in> set ps. CHR ''/'' \<notin> set p \<Longrightarrow> normal (foldl (clean_step False) out ps)"
  by (induction ps arbitrary: out) (simp_all add: normal_step del: clean_step.simps)

lemma clean_parts_normal: "\<not> is_abs path \<Longrightarrow> normal (clean_parts path)"
proof -
  assume "\<not> is_abs path"
  moreover have "normal []" unfolding normal_def by (intro exI [of _ 0] exI [of _ "[]"]) simp
  ultimately show ?thesis
    by (simp add: clean_parts_def normal_fold split_on_sep del: clean_step.simps)
qed

lemma clean_parts_chars:
  "p \<in> set (clean_parts path) \<Longrightarrow> c \<in> set p \<Longrightarrow> c \<in> set path \<or> c = CHR ''.''"
proof -
  have step: "q \<in> set (clean_step r out p) \<Longrightarrow> q \<in> set out \<or> q = p \<or> q = ''..''" for q r out p
    by (auto split: if_splits dest: in_set_butlastD)
  have fold: "q \<in> set (foldl (clean_step r) out ps) \<Longrightarrow> q \<in> set out \<or> q \<in> set ps \<or> q = ''..''" for q r out ps
    by (induction ps arbitrary: out) (auto dest!: step simp del: clean_step.simps)
  have sub: "q \<in> set (split_on d s) \<Longrightarrow> set q \<subseteq> set s" for q d s
  proof (induction s arbitrary: q)
    case (Cons x xs)
    then show ?case by (cases "split_on d xs") (auto split: if_splits, blast+)
  qed simp
  assume "p \<in> set (clean_parts path)" "c \<in> set p"
  then have "p \<in> set (split_on (CHR ''/'') path) \<or> p = ''..''"
    using fold [of p "is_abs path" "[]"] by (auto simp: clean_parts_def simp del: clean_step.simps)
  with \<open>c \<in> set p\<close> show ?thesis using sub by auto
qed

text \<open>An accepted name is the join of plain elements of the name.\<close>

lemma safe_rel_path_parts:
  assumes "safe_rel_path name = Some c"
  shows "c = join_with (CHR ''/'') (clean_parts name) \<and> clean_parts name \<noteq> [] \<and> list_all plain (clean_parts name)
     \<and> CHR 0x00 \<notin> set c \<and> CHR 0x5C \<notin> set c"
proof -
  let ?ps = "clean_parts name"
  have n: "\<not> is_abs name" "CHR 0x00 \<notin> set name" "CHR 0x5C \<notin> set name"
    and c: "c = clean name" "c \<noteq> ''.''" "c \<noteq> ''..''" "\<not> has_prefix c ''../''"
    using assms by (auto simp: safe_rel_path_def Let_def split: if_splits)
  have j: "c = join_with (CHR ''/'') ?ps" "?ps \<noteq> []"
    using c(1,2) n(1) by (auto simp: clean_def Let_def split: if_splits)
  obtain k qs where k: "?ps = replicate k ''..'' @ qs" "list_all plain qs"
    using clean_parts_normal [OF n(1)] by (auto simp: normal_def)
  have "k = 0"
  proof (cases k)
    case (Suc m)
    then have "?ps = ''..'' # (replicate m ''..'' @ qs)" using k by simp
    with j(1) have "c = ''..'' \<or> has_prefix c ''../''"
      by (cases "replicate m ''..'' @ qs") (simp_all add: has_prefix_def)
    with c show ?thesis by simp
  qed simp
  with k have "list_all plain ?ps" by simp
  moreover have "d \<in> set (join_with e ps) \<Longrightarrow> d = e \<or> (\<exists>p \<in> set ps. d \<in> set p)" for d e ps
    by (induction e ps rule: join_with.induct) auto
  then have "d \<in> set c \<Longrightarrow> d = CHR ''/'' \<or> d = CHR ''.'' \<or> d \<in> set name" for d
    using clean_parts_chars j(1) by blast
  then have "CHR 0x00 \<notin> set c" "CHR 0x5C \<notin> set c" using n by auto
  ultimately show ?thesis using j by blast
qed

lemma fold_plain: "list_all plain ps \<Longrightarrow> foldl (clean_step r) out ps = out @ ps"
  by (induction ps arbitrary: out) (auto simp: plain_def)

lemma join_hd: "ps \<noteq> [] \<Longrightarrow> hd ps \<noteq> [] \<Longrightarrow> join_with c ps \<noteq> [] \<and> hd (join_with c ps) = hd (hd ps)"
proof (cases ps)
  case (Cons p qs)
  assume "hd ps \<noteq> []"
  with Cons show ?thesis by (cases qs) auto
qed simp

text \<open>A name of plain elements is kept as it is.\<close>

lemma clean_plain:
  assumes "list_all plain ps" "ps \<noteq> []"
  shows "clean (join_with (CHR ''/'') ps) = join_with (CHR ''/'') ps \<and> clean_parts (join_with (CHR ''/'') ps) = ps
    \<and> \<not> is_abs (join_with (CHR ''/'') ps)"
proof -
  let ?c = "join_with (CHR ''/'') ps"
  have "hd ps \<noteq> []" "CHR ''/'' \<notin> set (hd ps)" using assms by (cases ps; auto simp: plain_def)+
  then have c: "?c \<noteq> []" "\<not> is_abs ?c"
    using join_hd [OF assms(2), of "CHR ''/''"] by (auto simp: is_abs_def) (metis list.set_sel(1))
  have "clean_parts ?c = foldl (clean_step False) [] ps"
    using assms c by (simp add: clean_parts_def split_join list_all_iff plain_def del: clean_step.simps)
  then have p: "clean_parts ?c = ps" using fold_plain [OF assms(1), of False "[]"] by simp
  then show ?thesis using c by (simp add: clean_def Let_def)
qed

lemma safe_rel_path_plain:
  assumes "list_all plain ps" "ps \<noteq> []" "CHR 0x00 \<notin> set (join_with (CHR ''/'') ps)" "CHR 0x5C \<notin> set (join_with (CHR ''/'') ps)"
  shows "safe_rel_path (join_with (CHR ''/'') ps) = Some (join_with (CHR ''/'') ps)"
proof -
  let ?c = "join_with (CHR ''/'') ps"
  note c = clean_plain [OF assms(1,2)]
  have h: "hd ps \<noteq> []" "plain (hd ps)" using assms by (cases ps; auto simp: plain_def)+
  have split: "split_on (CHR ''/'') ?c = ps"
    using assms(1,2) by (intro split_join) (auto simp: list_all_iff plain_def)
  have "?c \<noteq> []" using join_hd [OF assms(2) h(1)] by blast
  moreover have "?c \<noteq> ''.''"
  proof
    assume "?c = ''.''"
    then have "ps = [''.'']" using split by simp
    with h show False by (simp add: plain_def)
  qed
  moreover have "?c \<noteq> ''..''"
  proof
    assume "?c = ''..''"
    then have "ps = [''..'']" using split by simp
    with h show False by (simp add: plain_def)
  qed
  moreover have "\<not> has_prefix ?c ''../''"
  proof
    assume "has_prefix ?c ''../''"
    then obtain t where "?c = ''../'' @ t" by (auto simp: has_prefix_iff)
    then have "ps = ''..'' # split_on (CHR ''/'') t" using split by simp
    with h show False by (simp add: plain_def)
  qed
  ultimately show ?thesis using assms(3,4) c by (simp add: safe_rel_path_def)
qed

lemma safe_rel_path_idem: "safe_rel_path name = Some c \<Longrightarrow> safe_rel_path c = Some c"
  using safe_rel_path_parts [of name c] safe_rel_path_plain by metis

end
