(* ===== verification/Capsule.thy ===== *)
theory Capsule
  imports Prelude Codec GoStrings Hashes RecoveryKey SafePath
begin

text \<open>
  \<open>capsule\<close>: the encrypted backup container. \<open>seal.go\<close> is \<open>seal\<close> and \<open>build_payload\<close>,
  \<open>container.go\<close> is \<open>parse_container\<close> and \<open>decrypt_payload\<close>, \<open>extract.go\<close> is \<open>extract_payload\<close> over a
  directory tree, \<open>manifest.go\<close> the manifest and its keyless reader, \<open>capsule.go\<close> is \<open>open_capsule\<close>.
  JSON texts and the gzipped tar are read and written by the calls in the record \<open>Formats\<close>, the laws on
  them are \<open>formats_ok\<close> in \<open>CapsuleOpen\<close>. The source writes members to the archive as it checks the files,
  to a buffer in memory; here they are collected and written at the end, \<open>ArchiveFailed\<close> being any
  error of those writes.
\<close>

section \<open>Data\<close>

record File =
  Path :: string
  Content :: bytes
  Mode :: u32

record FileEntry =
  entry_path :: string
  entry_size :: int
  entry_sum :: string
  entry_mode :: u32

record 'j Manifest =
  CapsuleID :: string
  ServiceName :: string
  AppVersion :: string
  CreatedAt :: int
  PayloadHash :: string
  KitThreshold :: int
  TotalShares :: int
  RecoveryKeyID :: string
  EncapsulatedKey :: string
  Files :: "FileEntry list"
  Dependencies :: "'j option"
  VerificationRecipe :: "'j option"

datatype capsule_error =
    NoFiles | KeyUninitialized | NotRecoverable | PathTraversal | DuplicatePath | CapsuleTooLarge | ArchiveFailed
  | EncapsulateFailed | MarshalFailed | SealFailed | UnknownContainer | CorruptCapsule | WrongRecoveryKey
  | NotBase64 | DecryptFailed | NotGzip | ArchiveBroken | EntryType | TargetNotEmpty | TargetIO

text \<open>
  A member of a tar stream: its header, its data (\<open>None\<close> when the stream ends inside it) and how many
  bytes of the stream have been read after the header and after the data.
\<close>

datatype tar_item = TarEntry string char int int "bytes option" int int | TarBroken

record 'j Formats =
  pack :: "int \<Rightarrow> (string \<times> u32 \<times> bytes) list \<Rightarrow> bytes option"
  unpack :: "bytes \<Rightarrow> (tar_item list \<times> int) option"
  header_bytes :: "string \<Rightarrow> int"
  emit_list :: "FileEntry list \<Rightarrow> bytes option"
  read_list :: "bytes \<Rightarrow> FileEntry list option"
  emit_manifest :: "'j Manifest \<Rightarrow> bytes option"
  read_manifest :: "bytes \<Rightarrow> 'j Manifest option"
  emit_container :: "string \<Rightarrow> bytes \<Rightarrow> string \<Rightarrow> bytes option"
  read_container :: "bytes \<Rightarrow> (string \<times> bytes \<times> string) option"

section \<open>Limits\<close>

definition kycap_format :: string where
  "kycap_format = ''kycap/3''"

definition max_manifest_bytes :: int where
  "max_manifest_bytes = 2 ^ 20"

definition max_file_list_bytes :: int where
  "max_file_list_bytes = max_manifest_bytes"

definition max_container_bytes :: int where
  "max_container_bytes = 384 * 2 ^ 20"

definition max_files :: nat where
  "max_files = 4096"

definition max_file_bytes :: int where
  "max_file_bytes = 64 * 2 ^ 20"

definition max_expanded_bytes :: int where
  "max_expanded_bytes = 256 * 2 ^ 20"

definition reserved_file_list :: string where
  "reserved_file_list = ''./.kycap-files.json''"

text \<open>The clamp to owner-only permissions.\<close>

definition clamp_mode :: "u32 \<Rightarrow> u32" where
  "clamp_mode m = (let p = m AND 0x1FF AND 0x1C0 in if p = 0 then 0x180 else p)"

section \<open>Building the payload\<close>

definition file_entry :: "string \<Rightarrow> u32 \<Rightarrow> bytes \<Rightarrow> FileEntry" where
  "file_entry name mode content =
     \<lparr>entry_path = name, entry_size = int (length content), entry_sum = hex_encode (sha256 content), entry_mode = mode\<rparr>"

text \<open>The loop over the files: the members written and the running total of their contents.\<close>

fun build_loop :: "File list \<Rightarrow> string set \<Rightarrow> int \<Rightarrow> capsule_error + (string \<times> u32 \<times> bytes) list \<times> int" where
  "build_loop [] seen used = Inr ([], used)"
| "build_loop (f # fs) seen used =
     (case safe_rel_path (Path f) of
        None \<Rightarrow> Inl PathTraversal
      | Some name \<Rightarrow>
          if name \<in> seen then Inl DuplicatePath
          else let sz = int (length (Content f)) in
          if max_file_bytes < sz then Inl CapsuleTooLarge
          else if max_expanded_bytes < used + sz then Inl CapsuleTooLarge
          else bindE (build_loop fs (insert name seen) (used + sz))
                 (\<lambda>(members, used'). Inr ((name, clamp_mode (Mode f), Content f) # members, used')))"

definition entries_of :: "(string \<times> u32 \<times> bytes) list \<Rightarrow> FileEntry list" where
  "entries_of members = map (\<lambda>(name, mode, content). file_entry name mode content) members"

definition build_payload :: "'j Formats \<Rightarrow> int \<Rightarrow> File list \<Rightarrow> capsule_error + bytes \<times> FileEntry list" where
  "build_payload F now files =
     (if max_files < length files then Inl CapsuleTooLarge
      else bindE (build_loop files {} 0) (\<lambda>(members, used).
        let entries = entries_of members
        in case emit_list F entries of
             None \<Rightarrow> Inl MarshalFailed
           | Some list \<Rightarrow>
               if max_file_list_bytes < int (length list) then Inl CapsuleTooLarge
               else if max_expanded_bytes < used + int (length list) then Inl CapsuleTooLarge
               else (case pack F now (members @ [(reserved_file_list, 0x180, list)]) of
                       None \<Rightarrow> Inl ArchiveFailed
                     | Some payload \<Rightarrow> Inr (payload, entries))))"

section \<open>Sealing\<close>

definition hpke_info :: bytes where
  "hpke_info = bytes_of kycap_format"

definition encode_ciphertext :: "bytes \<Rightarrow> string" where
  "encode_ciphertext b = b64_encode b64_std True b"

definition decode_ciphertext :: "string \<Rightarrow> capsule_error + bytes" where
  "decode_ciphertext s = ofOption NotBase64 (b64_decode b64_std True s)"

definition seal ::
  "('sk, 'pk, 'ctx) Hpke \<Rightarrow> 'j Formats \<Rightarrow> int \<Rightarrow> bytes \<Rightarrow> string \<Rightarrow> string \<Rightarrow> File list \<Rightarrow> 'j option \<Rightarrow> 'j option
    \<Rightarrow> int \<Rightarrow> int \<Rightarrow> 'pk PublicKey \<Rightarrow> capsule_error + bytes \<times> 'j Manifest" where
  "seal H F now rnd service version files deps recipe threshold shares to =
     (if files = [] then Inl NoFiles
      else case public_key to of
        None \<Rightarrow> Inl KeyUninitialized
      | Some pk \<Rightarrow>
          if threshold < 2 \<or> shares < threshold \<or> 255 < shares then Inl NotRecoverable
          else bindE (build_payload F now files) (\<lambda>(payload, entries).
            case new_sender H rnd pk hpke_info of
              None \<Rightarrow> Inl EncapsulateFailed
            | Some (enc, sender) \<Rightarrow>
                let m = \<lparr>CapsuleID = ''cap-'' @ service @ ''-'' @ itoa (wrap64 now), ServiceName = service,
                         AppVersion = version, CreatedAt = now, PayloadHash = hex_encode (sha256 payload),
                         KitThreshold = threshold, TotalShares = shares, RecoveryKeyID = key_id H to,
                         EncapsulatedKey = b64_encode b64_std True enc, Files = entries,
                         Dependencies = deps, VerificationRecipe = recipe\<rparr>
                in case emit_manifest F m of
                     None \<Rightarrow> Inl MarshalFailed
                   | Some manifest_bytes \<Rightarrow>
                       if max_manifest_bytes < int (length manifest_bytes) then Inl CapsuleTooLarge
                       else case ctx_seal H sender manifest_bytes payload of
                         None \<Rightarrow> Inl SealFailed
                       | Some sealed \<Rightarrow>
                           (case emit_container F kycap_format manifest_bytes (encode_ciphertext sealed) of
                              None \<Rightarrow> Inl MarshalFailed
                            | Some raw \<Rightarrow> Inr (raw, m))))"

section \<open>Parsing and decrypting\<close>

definition blank :: "bytes \<Rightarrow> bool" where
  "blank raw \<longleftrightarrow> list_all (\<lambda>b. b \<in> {0x20, 0x09, 0x0D, 0x0A}) raw"

definition parse_container :: "'j Formats \<Rightarrow> bytes \<Rightarrow> capsule_error + bytes \<times> string" where
  "parse_container F raw =
     (if max_container_bytes < int (length raw) then Inl CapsuleTooLarge
      else if blank raw then Inl UnknownContainer
      else case read_container F raw of
        None \<Rightarrow> Inl UnknownContainer
      | Some (format, manifest_bytes, ciphertext) \<Rightarrow>
          if format \<noteq> kycap_format then Inl UnknownContainer
          else if ciphertext = [] then Inl CorruptCapsule
          else if max_container_bytes < int (length ciphertext) then Inl CapsuleTooLarge
          else if max_manifest_bytes < int (length manifest_bytes) then Inl CorruptCapsule
          else Inr (manifest_bytes, ciphertext))"

definition read_unverified_manifest :: "'j Formats \<Rightarrow> bytes \<Rightarrow> capsule_error + 'j Manifest" where
  "read_unverified_manifest F raw =
     bindE (parse_container F raw) (\<lambda>(manifest_bytes, _). ofOption CorruptCapsule (read_manifest F manifest_bytes))"

definition verify_payload_hash :: "bytes \<Rightarrow> string \<Rightarrow> capsule_error option" where
  "verify_payload_hash payload want =
     (if want = [] then Some CorruptCapsule
      else if hex_encode (sha256 payload) \<noteq> want then Some CorruptCapsule
      else None)"

definition decrypt_payload ::
  "('sk, 'pk, 'ctx) Hpke \<Rightarrow> 'j Formats \<Rightarrow> bytes \<Rightarrow> 'sk PrivateKey \<Rightarrow> capsule_error + 'j Manifest \<times> bytes" where
  "decrypt_payload H F raw with =
     bindE (parse_container F raw) (\<lambda>(manifest_bytes, ciphertext).
     bindE (ofOption CorruptCapsule (read_manifest F manifest_bytes)) (\<lambda>m.
       case private_key with of
         None \<Rightarrow> Inl KeyUninitialized
       | Some sk \<Rightarrow>
           if RecoveryKeyID m \<noteq> key_id H (public_of H with) then Inl WrongRecoveryKey
           else case b64_decode b64_std True (EncapsulatedKey m) of
             None \<Rightarrow> Inl CorruptCapsule
           | Some enc \<Rightarrow>
               if length enc \<noteq> encapsulation_bytes then Inl CorruptCapsule
               else bindE (decode_ciphertext ciphertext) (\<lambda>ct.
                 case new_recipient H enc sk hpke_info of
                   None \<Rightarrow> Inl DecryptFailed
                 | Some recipient \<Rightarrow>
                     (case ctx_open H recipient manifest_bytes ct of
                        None \<Rightarrow> Inl DecryptFailed
                      | Some payload \<Rightarrow>
                          (case verify_payload_hash payload (PayloadHash m) of
                             Some e \<Rightarrow> Inl e
                           | None \<Rightarrow> Inr (m, payload))))))"

section \<open>The restore target\<close>

text \<open>
  A directory is a map from the elements of a relative path to what is there. The target is left out,
  does not exist, or exists.
\<close>

datatype node = DirNode | FileNode bytes u32

type_synonym tree = "string list \<Rightarrow> node option"

datatype target = NoTarget | Absent | Present tree

fun mkdirs :: "string list \<Rightarrow> string list \<Rightarrow> tree \<Rightarrow> tree option" where
  "mkdirs base [] t = Some t"
| "mkdirs base (p # ps) t =
     (let q = base @ [p]
      in case t q of
           None \<Rightarrow> mkdirs q ps (t(q \<mapsto> DirNode))
         | Some DirNode \<Rightarrow> mkdirs q ps t
         | Some (FileNode _ _) \<Rightarrow> None)"

text \<open>\<open>writeInto\<close>; \<open>fails\<close> says which writes the system refuses.\<close>

definition write_into :: "(string \<Rightarrow> bool) \<Rightarrow> string \<Rightarrow> bytes \<Rightarrow> u32 \<Rightarrow> tree \<Rightarrow> tree option" where
  "write_into fails path data mode t =
     (let parts = split_on (CHR ''/'') path
      in case mkdirs [] (butlast parts) t of
           None \<Rightarrow> None
         | Some t' \<Rightarrow> if t' parts \<noteq> None \<or> fails path then None else Some (t'(parts \<mapsto> FileNode data mode)))"

definition prepare_target :: "target \<Rightarrow> capsule_error + tree option" where
  "prepare_target target =
     (case target of
        NoTarget \<Rightarrow> Inr None
      | Absent \<Rightarrow> Inr (Some Map.empty)
      | Present t \<Rightarrow> if t \<noteq> Map.empty then Inl TargetNotEmpty else Inr (Some t))"

text \<open>\<open>rollback\<close>: a directory this call created is removed, another one emptied.\<close>

definition rollback :: "target \<Rightarrow> tree option \<Rightarrow> target" where
  "rollback target root =
     (case root of None \<Rightarrow> target
      | Some _ \<Rightarrow> (case target of Absent \<Rightarrow> Absent | _ \<Rightarrow> Present Map.empty))"

section \<open>Extracting\<close>

definition reconcile_file_list :: "FileEntry list \<Rightarrow> File list \<Rightarrow> capsule_error option" where
  "reconcile_file_list entries files =
     (if length entries \<noteq> length files then Some CorruptCapsule
      else if entries \<noteq> map (\<lambda>f. file_entry (Path f) (Mode f) (Content f)) files then Some CorruptCapsule
      else None)"

definition read_file_list :: "'j Formats \<Rightarrow> bytes \<Rightarrow> capsule_error + FileEntry list" where
  "read_file_list F data =
     (if max_file_list_bytes < int (length data) then Inl CapsuleTooLarge
      else ofOption CorruptCapsule (read_list F data))"

text \<open>What the loop over the archive has so far.\<close>

record Extraction =
  got_files :: "File list"
  got_list :: "FileEntry list option"
  got_names :: "string set"
  got_root :: "tree option"

text \<open>Reading the data of a member, under the budget of the whole stream.\<close>

definition read_data :: "bytes option \<Rightarrow> int \<Rightarrow> capsule_error + bytes" where
  "read_data data pos = (if max_expanded_bytes < pos then Inl CapsuleTooLarge else ofOption ArchiveBroken data)"

definition extract_entry ::
  "'j Formats \<Rightarrow> (string \<Rightarrow> bool) \<Rightarrow> string \<Rightarrow> char \<Rightarrow> int \<Rightarrow> int \<Rightarrow> bytes option \<Rightarrow> int \<Rightarrow> Extraction \<Rightarrow> capsule_error + Extraction" where
  "extract_entry F fails name flag sz mode data pos x =
     (if flag \<noteq> CHR ''0'' then Inl EntryType
      else if name = reserved_file_list then
        (if got_list x \<noteq> None then Inl DuplicatePath
         else bindE (read_data data pos) (\<lambda>b.
              bindE (read_file_list F b) (\<lambda>entries. Inr (x\<lparr>got_list := Some entries\<rparr>))))
      else if max_files \<le> length (got_files x) then Inl CapsuleTooLarge
      else if sz < 0 \<or> max_file_bytes < sz then Inl CapsuleTooLarge
      else case safe_rel_path name of
        None \<Rightarrow> Inl PathTraversal
      | Some c \<Rightarrow>
          if c \<in> got_names x then Inl DuplicatePath
          else bindE (read_data data pos) (\<lambda>b.
            if max_file_bytes < int (length b) then Inl CapsuleTooLarge
            else let m = clamp_mode (word_of_int mode);
                     x' = x\<lparr>got_names := insert c (got_names x), got_files := got_files x @ [\<lparr>Path = c, Content = b, Mode = m\<rparr>]\<rparr>
                 in case got_root x of
                      None \<Rightarrow> Inr x'
                    | Some t \<Rightarrow> (case write_into fails c b m t of
                        None \<Rightarrow> Inl TargetIO
                      | Some t' \<Rightarrow> Inr (x'\<lparr>got_root := Some t'\<rparr>))))"

fun extract_loop :: "'j Formats \<Rightarrow> (string \<Rightarrow> bool) \<Rightarrow> tar_item list \<Rightarrow> Extraction \<Rightarrow> capsule_error + Extraction" where
  "extract_loop F fails [] x = Inr x"
| "extract_loop F fails (TarBroken # items) x = Inl ArchiveBroken"
| "extract_loop F fails (TarEntry name flag sz mode data head_pos end_pos # items) x =
     (if max_expanded_bytes < head_pos then Inl CapsuleTooLarge
      else bindE (extract_entry F fails name flag sz mode data end_pos x) (extract_loop F fails items))"

text \<open>The whole extraction: the files and the list, and the target afterwards.\<close>

definition extract_payload ::
  "'j Formats \<Rightarrow> (string \<Rightarrow> bool) \<Rightarrow> bytes \<Rightarrow> target \<Rightarrow> (capsule_error + File list \<times> FileEntry list) \<times> target" where
  "extract_payload F fails payload target =
     (case unpack F payload of
        None \<Rightarrow> (Inl NotGzip, target)
      | Some (items, stream_end) \<Rightarrow>
          (case prepare_target target of
             Inl e \<Rightarrow> (Inl e, target)
           | Inr root \<Rightarrow>
               (case bindE (extract_loop F fails items \<lparr>got_files = [], got_list = None, got_names = {}, got_root = root\<rparr>)
                   (\<lambda>x. if max_expanded_bytes < stream_end then Inl CapsuleTooLarge
                        else case got_list x of
                          None \<Rightarrow> Inr x
                        | Some entries \<Rightarrow> (case reconcile_file_list entries (got_files x) of Some e \<Rightarrow> Inl e | None \<Rightarrow> Inr x)) of
                  Inl e \<Rightarrow> (Inl e, rollback target root)
                | Inr x \<Rightarrow> (Inr (got_files x, case got_list x of None \<Rightarrow> [] | Some es \<Rightarrow> es),
                            case got_root x of None \<Rightarrow> target | Some t \<Rightarrow> Present t))))"

definition open_capsule ::
  "('sk, 'pk, 'ctx) Hpke \<Rightarrow> 'j Formats \<Rightarrow> (string \<Rightarrow> bool) \<Rightarrow> bytes \<Rightarrow> 'sk PrivateKey \<Rightarrow> target
    \<Rightarrow> (capsule_error + 'j Manifest \<times> File list) \<times> target" where
  "open_capsule H F fails raw with target =
     (case decrypt_payload H F raw with of
        Inl e \<Rightarrow> (Inl e, target)
      | Inr (m, payload) \<Rightarrow>
          (case extract_payload F fails payload target of
             (Inl e, target') \<Rightarrow> (Inl e, target')
           | (Inr (files, entries), target') \<Rightarrow> (Inr (m\<lparr>Files := entries\<rparr>, files), target')))"

end
