(* ===== verification/CapsuleExtract.thy ===== *)
theory CapsuleExtract
  imports Capsule
begin

text \<open>
  What extraction guarantees: containment and clamping of everything it writes, and a target that is
  untouched by a failure. And what sealing wrote, extraction reads back.
\<close>

section \<open>Directory trees\<close>

definition file_at :: "tree \<Rightarrow> string list \<Rightarrow> bytes \<Rightarrow> u32 \<Rightarrow> bool" where
  "file_at t ps b m \<longleftrightarrow> t ps = Some (FileNode b m)"

lemma mkdirs_files: "mkdirs base ps t = Some t' \<Longrightarrow> file_at t' q b m = file_at t q b m"
proof (induction base ps t rule: mkdirs.induct)
  case (2 base p ps t)
  let ?q = "base @ [p]"
  show ?case
  proof (cases "t ?q")
    case None
    have "mkdirs ?q ps (t(?q \<mapsto> DirNode)) = Some t'" using "2.prems" None by (simp add: Let_def)
    then have "file_at t' q b m = file_at (t(?q \<mapsto> DirNode)) q b m" by (rule "2.IH"(1) [OF refl None])
    with None show ?thesis by (auto simp: file_at_def)
  next
    case (Some n)
    with 2 show ?thesis by (cases n) (simp_all add: Let_def)
  qed
qed simp

lemma write_into_files:
  assumes "write_into fails path data mode t = Some t'"
  shows "file_at t' ps b m \<longleftrightarrow> file_at t ps b m \<or> (ps = split_on (CHR ''/'') path \<and> b = data \<and> m = mode)"
proof -
  let ?parts = "split_on (CHR ''/'') path"
  obtain t1 where t1: "mkdirs [] (butlast ?parts) t = Some t1" "t1 ?parts = None" "t' = t1(?parts \<mapsto> FileNode data mode)"
    using assms by (auto simp: write_into_def Let_def split: option.splits if_splits)
  have "file_at t1 ps b m = file_at t ps b m" using mkdirs_files [OF t1(1)] .
  with t1(2,3) show ?thesis by (auto simp: file_at_def)
qed

section \<open>The loop invariant\<close>

definition name_ok :: "string \<Rightarrow> bool" where
  "name_ok c \<longleftrightarrow> (\<exists>ps. c = join_with (CHR ''/'') ps \<and> ps \<noteq> [] \<and> list_all plain ps) \<and> CHR 0x00 \<notin> set c \<and> CHR 0x5C \<notin> set c"

definition file_ok :: "File \<Rightarrow> bool" where
  "file_ok f \<longleftrightarrow> name_ok (Path f) \<and> Mode f AND 0x3F = 0 \<and> Mode f \<noteq> 0 \<and> int (length (Content f)) \<le> max_file_bytes"

definition tree_holds :: "File list \<Rightarrow> tree \<Rightarrow> bool" where
  "tree_holds fs t \<longleftrightarrow> (\<forall>ps b m. file_at t ps b m \<longleftrightarrow>
     (\<exists>f \<in> set fs. ps = split_on (CHR ''/'') (Path f) \<and> b = Content f \<and> m = Mode f))"

definition extraction_ok :: "Extraction \<Rightarrow> bool" where
  "extraction_ok x \<longleftrightarrow> got_names x = Path ` set (got_files x) \<and> distinct (map Path (got_files x))
     \<and> length (got_files x) \<le> max_files \<and> list_all file_ok (got_files x)
     \<and> (case got_root x of None \<Rightarrow> True | Some t \<Rightarrow> tree_holds (got_files x) t)"

lemma safe_name_ok: "safe_rel_path name = Some c \<Longrightarrow> name_ok c"
  using safe_rel_path_parts [of name c] by (auto simp: name_ok_def)

lemma clamp_mode_owner: "clamp_mode m AND 0x3F = 0" "clamp_mode m \<noteq> 0"
proof -
  have "(m AND 0x1FF AND 0x1C0) AND 0x3F = m AND 0x1FF AND (0x1C0 AND 0x3F)" by (simp only: and.assoc)
  also have "\<dots> = 0" by simp
  finally have "(m AND 0x1FF AND 0x1C0) AND 0x3F = 0" .
  then show "clamp_mode m AND 0x3F = 0" "clamp_mode m \<noteq> 0" by (auto simp: clamp_mode_def Let_def)
qed

lemma clamp_mode_idem [simp]: "clamp_mode (clamp_mode m) = clamp_mode m"
proof -
  have "m AND 0x1FF AND 0x1C0 AND 0x1FF AND 0x1C0 = m AND 0x1FF AND 0x1C0"
    by (simp add: and.assoc)
  then show ?thesis by (simp add: clamp_mode_def Let_def)
qed

lemma read_data_ok: "read_data data pos = Inr b \<longleftrightarrow> pos \<le> max_expanded_bytes \<and> data = Some b"
  by (auto simp: read_data_def result_simps)

lemma extract_entry_ok:
  assumes "extract_entry F fails name flag sz mode data pos x = Inr x'" "extraction_ok x"
  shows "extraction_ok x'"
proof (cases "name = reserved_file_list")
  case True
  then obtain es where "x' = x\<lparr>got_list := Some es\<rparr>"
    using assms(1) by (auto simp: extract_entry_def result_simps split: if_splits)
  with assms(2) show ?thesis by (auto simp: extraction_ok_def split: option.splits)
next
  case False
  define m where "m = clamp_mode (word_of_int mode)"
  define y where "y c b = x\<lparr>got_names := insert c (got_names x), got_files := got_files x @ [\<lparr>Path = c, Content = b, Mode = m\<rparr>]\<rparr>" for c b
  obtain c where safe: "safe_rel_path name = Some c"
    using assms(1) False by (cases "safe_rel_path name") (auto simp: extract_entry_def split: if_splits)
  from assms(1) False safe obtain b where c: "length (got_files x) < max_files" "c \<notin> got_names x" "int (length b) \<le> max_file_bytes"
    and x': "(case got_root x of None \<Rightarrow> Inr (y c b) | Some t \<Rightarrow> (case write_into fails c b m t of
        None \<Rightarrow> Inl TargetIO | Some t' \<Rightarrow> Inr ((y c b)\<lparr>got_root := Some t'\<rparr>))) = Inr x'"
    by (auto simp: extract_entry_def result_simps y_def m_def Let_def not_le not_less cong: option.case_cong split: if_splits)
  have f: "file_ok \<lparr>Path = c, Content = b, Mode = m\<rparr>"
    using c(3) safe_name_ok [OF safe] clamp_mode_owner by (simp add: file_ok_def m_def)
  show ?thesis
  proof (cases "got_root x")
    case None
    then have "x' = y c b" using x' by simp
    with None c f assms(2) show ?thesis by (auto simp: extraction_ok_def y_def)
  next
    case (Some t)
    then obtain t' where t': "write_into fails c b m t = Some t'"
      "x' = (y c b)\<lparr>got_root := Some t'\<rparr>"
      using x' by (auto split: option.splits)
    have "tree_holds (got_files x) t" using assms(2) Some by (simp add: extraction_ok_def)
    then have "tree_holds (got_files x') t'"
      using write_into_files [OF t'(1)] t'(2) unfolding tree_holds_def by (auto simp: y_def)
    with t' c f assms(2) show ?thesis by (auto simp: extraction_ok_def y_def)
  qed
qed

lemma extract_loop_ok: "extract_loop F fails items x = Inr x' \<Longrightarrow> extraction_ok x \<Longrightarrow> extraction_ok x'"
proof (induction F fails items x rule: extract_loop.induct)
  case (3 F fails name flag sz mode data head_pos end_pos items x)
  then show ?case by (auto simp: result_simps extract_entry_ok split: if_splits)
qed auto

lemma got_root_entry:
  "extract_entry F fails name flag sz mode data pos x = Inr x' \<Longrightarrow> got_root x' = None \<longleftrightarrow> got_root x = None"
  by (auto simp: extract_entry_def result_simps Let_def split: if_splits option.splits)

lemma got_root_loop: "extract_loop F fails items x = Inr x' \<Longrightarrow> got_root x' = None \<longleftrightarrow> got_root x = None"
proof (induction F fails items x rule: extract_loop.induct)
  case (3 F fails name flag sz mode data head_pos end_pos items x)
  then obtain x1 where "extract_entry F fails name flag sz mode data end_pos x = Inr x1" "extract_loop F fails items x1 = Inr x'"
    by (auto simp: result_simps split: if_splits)
  with 3 show ?case using got_root_entry [of F fails name flag sz mode data end_pos x x1] by (auto split: if_splits)
qed auto

lemma prepare_rollback: "prepare_target target = Inr root \<Longrightarrow> rollback target root = target"
  by (cases target) (auto simp: prepare_target_def rollback_def split: if_splits)

definition start_extraction :: "tree option \<Rightarrow> Extraction" where
  "start_extraction root = \<lparr>got_files = [], got_list = None, got_names = {}, got_root = root\<rparr>"

lemma start_ok: "prepare_target target = Inr root \<Longrightarrow> extraction_ok (start_extraction root)"
  by (cases target) (auto simp: prepare_target_def extraction_ok_def start_extraction_def tree_holds_def file_at_def split: if_splits)

lemma extract_payload_ok:
  assumes "extract_payload F fails payload target = (Inr (files, entries), target')"
  obtains items stream_end root x where "unpack F payload = Some (items, stream_end)" "prepare_target target = Inr root"
    "extract_loop F fails items (start_extraction root) = Inr x" "stream_end \<le> max_expanded_bytes"
    "files = got_files x" "target' = (case got_root x of None \<Rightarrow> target | Some t \<Rightarrow> Present t)"
    "case got_list x of None \<Rightarrow> entries = [] | Some es \<Rightarrow> entries = es \<and> reconcile_file_list es (got_files x) = None"
  using assms unfolding extract_payload_def start_extraction_def [symmetric]
  by (auto simp: result_simps split: option.splits sum.splits if_splits prod.splits)

lemma reconcile_ok: "reconcile_file_list es fs = None \<longleftrightarrow> es = map (\<lambda>f. file_entry (Path f) (Mode f) (Content f)) fs"
  by (auto simp: reconcile_file_list_def)

section \<open>What sealing wrote is read back\<close>

text \<open>
  A tar stream: behind each header of \<open>hb\<close> bytes the data, padded to blocks of 512 bytes; two blocks
  end the stream.
\<close>

definition padded :: "int \<Rightarrow> int" where
  "padded n = 512 * ((n + 511) div 512)"

fun tar_items :: "(string \<Rightarrow> int) \<Rightarrow> int \<Rightarrow> (string \<times> u32 \<times> bytes) list \<Rightarrow> tar_item list" where
  "tar_items hb pos [] = []"
| "tar_items hb pos ((name, mode, data) # ms) =
     (let h = pos + hb name; n = int (length data)
      in TarEntry name (CHR ''0'') n (uint mode) (Some data) h (h + n) # tar_items hb (h + padded n) ms)"

fun tar_end :: "(string \<Rightarrow> int) \<Rightarrow> int \<Rightarrow> (string \<times> u32 \<times> bytes) list \<Rightarrow> int" where
  "tar_end hb pos [] = pos + 1024"
| "tar_end hb pos ((name, mode, data) # ms) = tar_end hb (pos + hb name + padded (int (length data))) ms"

lemma padded_ge: "n \<le> padded n"
proof -
  have "(n + 511) mod 512 \<le> 511" using pos_mod_bound [of 512 "n + 511"] by linarith
  then show ?thesis using mult_div_mod_eq [of 512 "n + 511"] unfolding padded_def by linarith
qed

lemma tar_end_ge: "\<forall>n. 0 \<le> hb n \<Longrightarrow> pos + 1024 \<le> tar_end hb pos ms"
proof (induction ms arbitrary: pos)
  case (Cons m ms)
  obtain name mode data where m: "m = (name, mode, data)" by (cases m) auto
  have "pos \<le> pos + hb name + padded (int (length data))"
    using Cons.prems padded_ge [of "int (length data)"] by (smt (verit) of_nat_0_le_iff)
  with Cons.IH [OF Cons.prems, of "pos + hb name + padded (int (length data))"] m show ?case by simp
qed simp

text \<open>The files as they come back: the normalised path and the clamped mode.\<close>

definition normal_file :: "File \<Rightarrow> File" where
  "normal_file f = \<lparr>Path = the (safe_rel_path (Path f)), Content = Content f, Mode = clamp_mode (Mode f)\<rparr>"

definition member_of :: "File \<Rightarrow> string \<times> u32 \<times> bytes" where
  "member_of f = (Path f, Mode f, Content f)"

definition acceptable :: "File \<Rightarrow> bool" where
  "acceptable f \<longleftrightarrow> safe_rel_path (Path f) \<noteq> None \<and> int (length (Content f)) \<le> max_file_bytes"

lemma build_loop_ok:
  "build_loop fs seen used = Inr (members, used') \<Longrightarrow>
     members = map (member_of \<circ> normal_file) fs \<and> list_all acceptable fs
     \<and> distinct (map (Path \<circ> normal_file) fs) \<and> (\<forall>f \<in> set fs. Path (normal_file f) \<notin> seen)
     \<and> used' = used + (\<Sum>f \<leftarrow> fs. int (length (Content f)))"
proof (induction fs arbitrary: seen used members)
  case (Cons f fs)
  then obtain name where n: "safe_rel_path (Path f) = Some name" by (cases "safe_rel_path (Path f)") auto
  with Cons.prems obtain ms where ms: "name \<notin> seen" "int (length (Content f)) \<le> max_file_bytes"
    "build_loop fs (insert name seen) (used + int (length (Content f))) = Inr (ms, used')"
    "members = (name, clamp_mode (Mode f), Content f) # ms"
    by (auto simp: result_simps Let_def not_less split: if_splits)
  from Cons.IH [OF ms(3)] ms n show ?case
    by (auto simp: member_of_def normal_file_def acceptable_def)
qed auto

lemma clean_not_reserved: "safe_rel_path p = Some c \<Longrightarrow> c \<noteq> reserved_file_list"
proof
  assume s: "safe_rel_path p = Some c" and r: "c = reserved_file_list"
  have "safe_rel_path c = Some c" using s by (rule safe_rel_path_idem)
  moreover have nm: "CHR ''/'' \<notin> set ''.''" "CHR ''/'' \<notin> set ''.kycap-files.json''" by simp_all
  have "c = ''.'' @ CHR ''/'' # ''.kycap-files.json''" by (simp add: r reserved_file_list_def)
  then have "split_on (CHR ''/'') c = [''.'', ''.kycap-files.json'']"
    by (simp only: split_on_append [OF nm(1)] split_on_none [OF nm(2)])
  then have "clean_parts c = [''.kycap-files.json'']"
    by (simp add: clean_parts_def)
  ultimately show False using safe_rel_path_parts [of c c] r by (simp add: reserved_file_list_def)
qed

text \<open>One member that sealing wrote: only the reading of its data can fail.\<close>

lemma extract_member_data:
  assumes "acceptable f" "Path (normal_file f) \<notin> got_names x" "length (got_files x) < max_files"
  shows "extract_entry F fails (Path (normal_file f)) (CHR ''0'') (int (length (Content f))) (uint (clamp_mode (Mode f)))
      data pos x
    = bindE (read_data data pos) (\<lambda>b.
        if max_file_bytes < int (length b) then Inl CapsuleTooLarge
        else let x' = x\<lparr>got_names := insert (Path (normal_file f)) (got_names x),
                        got_files := got_files x @ [\<lparr>Path = Path (normal_file f), Content = b, Mode = clamp_mode (Mode f)\<rparr>]\<rparr>
             in case got_root x of
                  None \<Rightarrow> Inr x'
                | Some t \<Rightarrow> (case write_into fails (Path (normal_file f)) b (clamp_mode (Mode f)) t of
                    None \<Rightarrow> Inl TargetIO
                  | Some t' \<Rightarrow> Inr (x'\<lparr>got_root := Some t'\<rparr>)))"
proof -
  obtain c where c: "safe_rel_path (Path f) = Some c" using assms(1) by (auto simp: acceptable_def)
  then have p: "Path (normal_file f) = c" by (simp add: normal_file_def)
  have "safe_rel_path c = Some c" "c \<noteq> reserved_file_list"
    using c safe_rel_path_idem clean_not_reserved by blast+
  then show ?thesis
    using assms p unfolding extract_entry_def p Let_def word_of_int_uint clamp_mode_idem by (simp add: acceptable_def)
qed

lemma extract_member:
  assumes "acceptable f" "Path (normal_file f) \<notin> got_names x" "length (got_files x) < max_files"
    "pos \<le> max_expanded_bytes" "got_root x = None"
  shows "extract_entry F fails (Path (normal_file f)) (CHR ''0'') (int (length (Content f))) (uint (clamp_mode (Mode f)))
      (Some (Content f)) pos x
    = Inr (x\<lparr>got_names := insert (Path (normal_file f)) (got_names x), got_files := got_files x @ [normal_file f]\<rparr>)"
proof -
  have r: "read_data (Some (Content f)) pos = Inr (Content f)" using assms(4) by (simp add: read_data_ok)
  have sz: "\<not> max_file_bytes < int (length (Content f))" using assms(1) by (simp add: acceptable_def)
  show ?thesis
    unfolding extract_member_data [OF assms(1-3)] r using sz assms(5) by (simp add: normal_file_def)
qed

text \<open>
  All of them: the loop runs past them, unless the stream is longer than the budget.
\<close>

lemma extract_members:
  assumes "list_all acceptable fs" "distinct (map (Path \<circ> normal_file) fs)" "\<forall>f \<in> set fs. Path (normal_file f) \<notin> got_names x"
    "length (got_files x) + length fs \<le> max_files" "got_root x = None" "\<forall>n. 0 \<le> hb n"
  shows "(extract_loop F fails (tar_items hb pos (map (member_of \<circ> normal_file) fs @ ms)) x = Inl CapsuleTooLarge
      \<and> max_expanded_bytes < tar_end hb pos (map (member_of \<circ> normal_file) fs @ ms))
    \<or> extract_loop F fails (tar_items hb pos (map (member_of \<circ> normal_file) fs @ ms)) x
    = extract_loop F fails (tar_items hb (tar_end hb pos (map (member_of \<circ> normal_file) fs) - 1024) ms)
        (x\<lparr>got_names := Path ` normal_file ` set fs \<union> got_names x, got_files := got_files x @ map normal_file fs\<rparr>)"
  using assms
proof (induction fs arbitrary: x pos)
  case Nil
  then show ?case by simp
next
  case (Cons f fs)
  let ?n = "int (length (Content f))"
  let ?h = "pos + hb (Path (normal_file f))"
  let ?rest = "map (member_of \<circ> normal_file) fs"
  let ?all = "map (member_of \<circ> normal_file) (f # fs) @ ms"
  let ?x = "x\<lparr>got_names := insert (Path (normal_file f)) (got_names x), got_files := got_files x @ [normal_file f]\<rparr>"
  have m: "member_of (normal_file f) = (Path (normal_file f), clamp_mode (Mode f), Content f)"
    by (simp add: member_of_def normal_file_def)
  have e: "tar_end hb pos ?all = tar_end hb (?h + padded ?n) (?rest @ ms)"
    by (simp add: m)
  have end_ge: "?h + padded ?n + 1024 \<le> tar_end hb pos ?all"
    unfolding e by (rule tar_end_ge [OF Cons.prems(6)])
  have acc: "acceptable f" and fresh: "Path (normal_file f) \<notin> got_names x"
    and room: "length (got_files x) < max_files" and mem: "got_root x = None"
    using Cons.prems(1,3,4,5) by simp_all
  show ?case
  proof (cases "?h + ?n \<le> max_expanded_bytes")
    case False
    then have big: "max_expanded_bytes < tar_end hb pos ?all" using end_ge padded_ge [of ?n] by linarith
    have "extract_loop F fails (tar_items hb pos ?all) x = Inl CapsuleTooLarge"
    proof (cases "?h \<le> max_expanded_bytes")
      case True
      have "read_data (Some (Content f)) (?h + ?n) = Inl CapsuleTooLarge" using False by (simp add: read_data_def)
      then have "extract_entry F fails (Path (normal_file f)) (CHR ''0'') ?n (uint (clamp_mode (Mode f))) (Some (Content f)) (?h + ?n) x = Inl CapsuleTooLarge"
        unfolding extract_member_data [OF acc fresh room] by simp
      with True show ?thesis by (simp add: m Let_def)
    qed (simp add: m Let_def)
    with big show ?thesis by blast
  next
    case True
    then have pos: "?h \<le> max_expanded_bytes" "?h + ?n \<le> max_expanded_bytes" by linarith+
    have one: "extract_entry F fails (Path (normal_file f)) (CHR ''0'') ?n (uint (clamp_mode (Mode f))) (Some (Content f)) (?h + ?n) x = Inr ?x"
      by (rule extract_member [OF acc fresh room pos(2) mem])
    have step: "extract_loop F fails (tar_items hb pos ?all) x = extract_loop F fails (tar_items hb (?h + padded ?n) (?rest @ ms)) ?x"
      using pos one by (simp add: m Let_def)
    have "\<forall>g \<in> set fs. Path (normal_file g) \<notin> got_names ?x"
    proof
      fix g assume "g \<in> set fs"
      then have "Path (normal_file g) \<in> set (map (Path \<circ> normal_file) fs)" by simp
      moreover have "Path (normal_file f) \<notin> set (map (Path \<circ> normal_file) fs)" using Cons.prems(2) by simp
      ultimately have "Path (normal_file g) \<noteq> Path (normal_file f)" by metis
      with Cons.prems(3) \<open>g \<in> set fs\<close> show "Path (normal_file g) \<notin> got_names ?x" by simp
    qed
    with Cons.prems have ih: "(extract_loop F fails (tar_items hb (?h + padded ?n) (?rest @ ms)) ?x = Inl CapsuleTooLarge
        \<and> max_expanded_bytes < tar_end hb (?h + padded ?n) (?rest @ ms))
      \<or> extract_loop F fails (tar_items hb (?h + padded ?n) (?rest @ ms)) ?x
      = extract_loop F fails (tar_items hb (tar_end hb (?h + padded ?n) ?rest - 1024) ms)
        (?x\<lparr>got_names := Path ` normal_file ` set fs \<union> got_names ?x, got_files := got_files ?x @ map normal_file fs\<rparr>)"
      by (intro Cons.IH) simp_all
    have rec: "?x\<lparr>got_names := Path ` normal_file ` set fs \<union> got_names ?x, got_files := got_files ?x @ map normal_file fs\<rparr>
      = x\<lparr>got_names := Path ` normal_file ` set (f # fs) \<union> got_names x, got_files := got_files x @ map normal_file (f # fs)\<rparr>"
      by simp
    have t: "tar_end hb pos (map (member_of \<circ> normal_file) (f # fs)) = tar_end hb (?h + padded ?n) ?rest"
      by (simp add: m)
    show ?thesis using ih unfolding step e rec t .
  qed
qed

section \<open>Properties\<close>

text \<open>
  C13: Containment. Whatever a payload holds, a restore that succeeds has written, beneath a target that
  was empty or absent, exactly the files it returns: each under a distinct relative path of plain
  elements without \<open>..\<close>, NUL or backslash, with owner-only permissions and at most 64 MiB, and no more
  than 4096 of them; the file list, when there is one, describes exactly these.
\<close>

theorem extraction_is_contained:
  assumes "extract_payload F fails payload target = (Inr (files, entries), target')"
  shows "list_all (\<lambda>f. name_ok (Path f) \<and> Mode f AND 0x3F = 0 \<and> Mode f \<noteq> 0 \<and> length (Content f) \<le> 67108864) files
    \<and> distinct (map Path files) \<and> length files \<le> 4096
    \<and> (entries = [] \<or> entries = map (\<lambda>f. file_entry (Path f) (Mode f) (Content f)) files)
    \<and> (case target of
         NoTarget \<Rightarrow> target' = NoTarget
       | Absent \<Rightarrow> (\<exists>t. target' = Present t \<and> tree_holds files t)
       | Present t0 \<Rightarrow> t0 = Map.empty \<and> (\<exists>t. target' = Present t \<and> tree_holds files t))"
proof -
  obtain items stream_end root x where u: "unpack F payload = Some (items, stream_end)" and x: "prepare_target target = Inr root"
    "extract_loop F fails items (start_extraction root) = Inr x" and le: "stream_end \<le> max_expanded_bytes" and y:
    "files = got_files x" "target' = (case got_root x of None \<Rightarrow> target | Some t \<Rightarrow> Present t)"
    "case got_list x of None \<Rightarrow> entries = [] | Some es \<Rightarrow> entries = es \<and> reconcile_file_list es (got_files x) = None"
    by (rule extract_payload_ok [OF assms])
  have ok: "extraction_ok x" using extract_loop_ok [OF x(2) start_ok [OF x(1)]] .
  have root: "got_root x = None \<longleftrightarrow> root = None" using got_root_loop [OF x(2)] by (simp add: start_extraction_def)
  have "entries = [] \<or> entries = map (\<lambda>f. file_entry (Path f) (Mode f) (Content f)) files"
    using y(1,3) by (auto simp: reconcile_ok split: option.splits)
  moreover have "list_all (\<lambda>f. name_ok (Path f) \<and> Mode f AND 0x3F = 0 \<and> Mode f \<noteq> 0 \<and> length (Content f) \<le> 67108864) files"
    using ok by (auto simp: extraction_ok_def file_ok_def max_file_bytes_def list_all_iff y(1))
  moreover have "case target of NoTarget \<Rightarrow> target' = NoTarget | Absent \<Rightarrow> (\<exists>t. target' = Present t \<and> tree_holds files t)
       | Present t0 \<Rightarrow> t0 = Map.empty \<and> (\<exists>t. target' = Present t \<and> tree_holds files t)"
    using ok root x(1) y(1,2) by (cases target) (auto simp: prepare_target_def extraction_ok_def split: if_splits option.splits)
  ultimately show ?thesis using ok by (auto simp: extraction_ok_def max_files_def y(1))
qed


text \<open>A payload with one member, and one with a member that leaves the target.\<close>

definition one_member :: "string \<Rightarrow> unit Formats" where
  "one_member name = \<lparr>pack = (\<lambda>_ _. None), unpack = (\<lambda>_. Some ([TarEntry name (CHR ''0'') 1 0x1FF (Some [7]) 512 513], 2048)),
     header_bytes = (\<lambda>_. 512), emit_list = (\<lambda>_. None), read_list = (\<lambda>_. None), emit_manifest = (\<lambda>_. None),
     read_manifest = (\<lambda>_. None), emit_container = (\<lambda>_ _ _. None), read_container = (\<lambda>_. None)\<rparr>"

lemma safe_a: "safe_rel_path ''a'' = Some ''a''"
  by (simp add: safe_rel_path_def is_abs_def clean_def clean_parts_def has_prefix_def Let_def)

lemma extraction_is_contained_witness:
  "\<exists>t. extract_payload (one_member ''a'') (\<lambda>_. False) [] Absent = (Inr ([\<lparr>Path = ''a'', Content = [7], Mode = 0x1C0\<rparr>], []), Present t)
     \<and> tree_holds [\<lparr>Path = ''a'', Content = [7], Mode = 0x1C0\<rparr>] t"
proof -
  let ?t = "[[''a''] \<mapsto> FileNode [7] 0x1C0]"
  have w: "write_into (\<lambda>_. False) ''a'' [7] 0x1C0 Map.empty = Some ?t" by (simp add: write_into_def Let_def)
  have e: "extract_payload (one_member ''a'') (\<lambda>_. False) [] Absent = (Inr ([\<lparr>Path = ''a'', Content = [7], Mode = 0x1C0\<rparr>], []), Present ?t)"
    by (simp add: extract_payload_def one_member_def prepare_target_def extract_entry_def read_data_def safe_a clamp_mode_def
        reserved_file_list_def w Let_def max_files_def max_file_bytes_def max_expanded_bytes_def)
  show ?thesis using extraction_is_contained [OF e] e by auto
qed


end
