(* ===== verification/CapsuleOpen.thy ===== *)
theory CapsuleOpen
  imports CapsuleExtract
begin

text \<open>
  \<open>Seal\<close> followed by \<open>Open\<close>: exactly what comes back, and the capsules that do not open. The laws on
  the archive and the JSON texts are \<open>formats_ok\<close>.
\<close>

section \<open>Laws of the texts\<close>

text \<open>What \<open>encoding/json\<close> makes of a string: bytes that are not valid UTF-8 become U+FFFD.\<close>

definition coerced :: "string \<Rightarrow> string" where
  "coerced s = map_runes (\<lambda>r. r) s"

definition coerced_entry :: "FileEntry \<Rightarrow> FileEntry" where
  "coerced_entry e = e\<lparr>entry_path := coerced (entry_path e), entry_sum := coerced (entry_sum e)\<rparr>"

definition coerced_manifest :: "'j Manifest \<Rightarrow> 'j Manifest" where
  "coerced_manifest m = m\<lparr>CapsuleID := coerced (CapsuleID m), ServiceName := coerced (ServiceName m),
     AppVersion := coerced (AppVersion m), PayloadHash := coerced (PayloadHash m),
     RecoveryKeyID := coerced (RecoveryKeyID m), EncapsulatedKey := coerced (EncapsulatedKey m), Files := []\<rparr>"

text \<open>
  A tar stream gives back its members, each behind a header of at least 512 bytes and padded to 512.
  JSON gives back what was encoded, its strings coerced; the file list of a manifest is not encoded,
  and its free-form parts come back in the reader's own shape. The manifest inside the container comes
  back byte for byte.
\<close>

definition formats_ok :: "'j Formats \<Rightarrow> bool" where
  "formats_ok F \<longleftrightarrow>
     (\<forall>n. 512 \<le> header_bytes F n)
     \<and> (\<forall>now ms b. pack F now ms = Some b
          \<longrightarrow> list_all (\<lambda>(name, mode, data). (name_ok name \<or> name = reserved_file_list) \<and> mode < 0x200) ms
          \<longrightarrow> unpack F b = Some (tar_items (header_bytes F) 0 ms, tar_end (header_bytes F) 0 ms))
     \<and> (\<forall>es b. emit_list F es = Some b \<longrightarrow> read_list F b = Some (map coerced_entry es))
     \<and> (\<forall>m b. emit_manifest F m = Some b
          \<longrightarrow> (\<exists>d r. read_manifest F b = Some ((coerced_manifest m)\<lparr>Dependencies := d, VerificationRecipe := r\<rparr>)))
     \<and> (\<forall>m b ct raw. emit_manifest F m = Some b \<longrightarrow> list_all is_ascii ct
          \<longrightarrow> emit_container F kycap_format b ct = Some raw
          \<longrightarrow> read_container F raw = Some (kycap_format, b, ct) \<and> length ct \<le> length raw \<and> \<not> blank raw)"

lemma formats_okD:
  assumes "formats_ok F"
  shows "512 \<le> header_bytes F n"
    "pack F now ms = Some b \<Longrightarrow> list_all (\<lambda>(name, mode, data). (name_ok name \<or> name = reserved_file_list) \<and> mode < 0x200) ms
       \<Longrightarrow> unpack F b = Some (tar_items (header_bytes F) 0 ms, tar_end (header_bytes F) 0 ms)"
    "emit_list F es = Some b \<Longrightarrow> read_list F b = Some (map coerced_entry es)"
    "emit_manifest F m = Some b
       \<Longrightarrow> \<exists>d r. read_manifest F b = Some ((coerced_manifest m)\<lparr>Dependencies := d, VerificationRecipe := r\<rparr>)"
    "emit_manifest F m = Some b \<Longrightarrow> list_all is_ascii ct \<Longrightarrow> emit_container F kycap_format b ct = Some raw
       \<Longrightarrow> read_container F raw = Some (kycap_format, b, ct) \<and> length ct \<le> length raw \<and> \<not> blank raw"
  using assms unfolding formats_ok_def by blast+

lemma coerced_ascii: "list_all is_ascii s \<Longrightarrow> coerced s = s"
proof -
  assume s: "list_all is_ascii s"
  have "encode_rune (of_char c) = [c]" if "is_ascii c" for c
    using that by (simp add: is_ascii_def)
  then have m: "map (\<lambda>c. encode_rune (of_char c)) s = map (\<lambda>c. [c]) s" using s by (simp add: list_all_iff)
  have "concat (map (\<lambda>c. encode_rune (of_char c)) s) = s" unfolding m by (rule concat_map_singleton)
  then show ?thesis
    by (simp add: coerced_def map_runes_def runes_ascii [OF s] comp_def)
qed

lemma b64_ascii: "list_all is_ascii (b64_encode b64_std True bs)"
proof -
  have "set (b64_encode b64_std True bs) \<subseteq> set b64_std \<union> {CHR ''=''}" using b64_encode_set [of b64_std True bs] by simp
  moreover have "\<forall>c \<in> set b64_std \<union> {CHR ''=''}. is_ascii c" by (simp add: b64_std_def is_ascii_def)
  ultimately show ?thesis by (auto simp: list_all_iff)
qed

section \<open>The payload\<close>

text \<open>The length of the archive stream of these files, and the files whose path JSON keeps.\<close>

definition stream_length :: "'j Formats \<Rightarrow> File list \<Rightarrow> int" where
  "stream_length F files =
     (case emit_list F (map (\<lambda>f. file_entry (Path f) (Mode f) (Content f)) (map normal_file files)) of
        None \<Rightarrow> 0
      | Some list \<Rightarrow> tar_end (header_bytes F) 0 (map (member_of \<circ> normal_file) files @ [(reserved_file_list, 0x180, list)]))"

definition kept_path :: "File \<Rightarrow> bool" where
  "kept_path f \<longleftrightarrow> coerced (Path (normal_file f)) = Path (normal_file f)"

lemma entries_of_members:
  "entries_of (map (member_of \<circ> normal_file) files) = map (\<lambda>f. file_entry (Path f) (Mode f) (Content f)) (map normal_file files)"
  by (simp add: entries_of_def member_of_def)

lemma clamp_mode_small: "clamp_mode m < 0x200"
proof -
  have "m AND 0x1FF AND 0x1C0 \<le> 0x1C0" by (simp add: word_and_le1 word_and_le2)
  then have "m AND 0x1FF AND 0x1C0 < 0x200" by (rule order_le_less_trans) simp
  then show ?thesis by (simp add: clamp_mode_def Let_def)
qed

lemma build_payload_ok:
  assumes "build_payload F now files = Inr (payload, entries)"
  obtains list where "length files \<le> max_files" "list_all acceptable files" "distinct (map (Path \<circ> normal_file) files)"
    "entries = map (\<lambda>f. file_entry (Path f) (Mode f) (Content f)) (map normal_file files)"
    "emit_list F entries = Some list" "int (length list) \<le> max_file_list_bytes"
    "pack F now (map (member_of \<circ> normal_file) files @ [(reserved_file_list, 0x180, list)]) = Some payload"
proof -
  obtain members used where b: "build_loop files {} 0 = Inr (members, used)" and l: "length files \<le> max_files"
    and rest: "bindE (Inr (members, used)) (\<lambda>(members, used).
        let entries = entries_of members
        in case emit_list F entries of
             None \<Rightarrow> Inl MarshalFailed
           | Some list \<Rightarrow>
               if max_file_list_bytes < int (length list) then Inl CapsuleTooLarge
               else if max_expanded_bytes < used + int (length list) then Inl CapsuleTooLarge
               else (case pack F now (members @ [(reserved_file_list, 0x180, list)]) of
                       None \<Rightarrow> Inl ArchiveFailed
                     | Some payload \<Rightarrow> Inr (payload, entries))) = Inr (payload, entries)"
    using assms unfolding build_payload_def by (auto simp: bindE_eq_Inr not_less split: if_splits)
  from build_loop_ok [OF b] have m: "members = map (member_of \<circ> normal_file) files" "list_all acceptable files"
    "distinct (map (Path \<circ> normal_file) files)" by simp_all
  obtain list where "emit_list F (entries_of members) = Some list" "int (length list) \<le> max_file_list_bytes"
    "pack F now (members @ [(reserved_file_list, 0x180, list)]) = Some payload" "entries = entries_of members"
    using rest by (auto simp: Let_def not_less split: option.splits if_splits)
  with l m show ?thesis using that by (simp add: entries_of_members)
qed

text \<open>
  Reading the archive back: too long a stream is refused, otherwise the files and the list as encoded.
\<close>

lemma extract_sealed:
  assumes "formats_ok F" "build_payload F now files = Inr (payload, entries)"
  shows "extract_payload F fails payload NoTarget =
    (if max_expanded_bytes < stream_length F files then Inl CapsuleTooLarge
     else if \<not> list_all kept_path files then Inl CorruptCapsule
     else Inr (map normal_file files, entries), NoTarget)"
proof -
  let ?hb = "header_bytes F"
  let ?ms = "map (member_of \<circ> normal_file) files"
  let ?fe = "\<lambda>f. file_entry (Path f) (Mode f) (Content f)"
  obtain list where l: "length files \<le> max_files" and acc: "list_all acceptable files"
    and dist: "distinct (map (Path \<circ> normal_file) files)" and es: "entries = map ?fe (map normal_file files)"
    and list: "emit_list F entries = Some list" and short: "int (length list) \<le> max_file_list_bytes"
    and packed: "pack F now (?ms @ [(reserved_file_list, 0x180, list)]) = Some payload"
    by (rule build_payload_ok [OF assms(2)])
  let ?all = "?ms @ [(reserved_file_list, 0x180, list)]"
  have names: "name_ok (Path (normal_file f))" if "f \<in> set files" for f
    using that acc safe_name_ok by (auto simp: acceptable_def list_all_iff normal_file_def)
  have "list_all (\<lambda>(name, mode, data). (name_ok name \<or> name = reserved_file_list) \<and> mode < 0x200) ?all"
    using names clamp_mode_small by (auto simp: list_all_iff member_of_def normal_file_def)
  then have up: "unpack F payload = Some (tar_items ?hb 0 ?all, tar_end ?hb 0 ?all)"
    by (rule formats_okD(2) [OF assms(1) packed])
  have len: "stream_length F files = tar_end ?hb 0 ?all" using list es by (simp add: stream_length_def)
  have hb: "\<forall>n. 0 \<le> ?hb n" using formats_okD(1) [OF assms(1)] by (meson order_trans zero_le_numeral)
  let ?x0 = "start_extraction None"
  let ?h = "tar_end ?hb 0 ?ms - 1024 + ?hb reserved_file_list"
  let ?x1 = "?x0\<lparr>got_names := Path ` normal_file ` set files \<union> got_names ?x0, got_files := got_files ?x0 @ map normal_file files\<rparr>"
  have loop: "(extract_loop F fails (tar_items ?hb 0 ?all) ?x0 = Inl CapsuleTooLarge \<and> max_expanded_bytes < tar_end ?hb 0 ?all)
    \<or> extract_loop F fails (tar_items ?hb 0 ?all) ?x0
      = extract_loop F fails (tar_items ?hb (tar_end ?hb 0 ?ms - 1024) [(reserved_file_list, 0x180, list)]) ?x1"
    by (rule extract_members) (use acc dist l hb in \<open>simp_all add: start_extraction_def\<close>)
  have read: "read_list F list = Some (map coerced_entry entries)" using formats_okD(3) [OF assms(1) list] .
  have last: "extract_loop F fails (tar_items ?hb (tar_end ?hb 0 ?ms - 1024) [(reserved_file_list, 0x180, list)]) ?x1
      = (if max_expanded_bytes < ?h \<or> max_expanded_bytes < ?h + int (length list) then Inl CapsuleTooLarge
         else Inr (?x1\<lparr>got_list := Some (map coerced_entry entries)\<rparr>))"
    using short read by (simp add: Let_def extract_entry_def read_data_def read_file_list_def start_extraction_def)
  have tail: "tar_end hb pos (ms @ [(n, m, d)]) = tar_end hb pos ms + hb n + padded (int (length d))" for hb pos ms n m d
    by (induction ms arbitrary: pos) auto
  have "?h + int (length list) \<le> tar_end ?hb 0 ?all" unfolding tail using padded_ge [of "int (length list)"] by linarith
  then have big: "max_expanded_bytes < ?h \<or> max_expanded_bytes < ?h + int (length list) \<Longrightarrow> max_expanded_bytes < tar_end ?hb 0 ?all"
    by linarith
  have hexes: "coerced (hex_encode b) = hex_encode b" for b using coerced_ascii [OF ascii_hex] .
  have rec: "map coerced_entry entries = map ?fe (map normal_file files) \<longleftrightarrow> list_all kept_path files"
    by (simp add: es list_all_iff kept_path_def coerced_entry_def file_entry_def hexes)
  have kept: "list_all kept_path files \<Longrightarrow> map coerced_entry entries = entries" using rec es by simp
  show ?thesis
  proof (cases "max_expanded_bytes < tar_end ?hb 0 ?all")
    case True
    have "\<exists>e. extract_loop F fails (tar_items ?hb 0 ?all) ?x0 = e \<and> (e = Inl CapsuleTooLarge \<or> (\<exists>x. e = Inr x))"
      using loop last by (auto split: if_splits)
    with True show ?thesis
      by (auto simp: extract_payload_def up prepare_target_def rollback_def len start_extraction_def)
  next
    case False
    then have e: "extract_loop F fails (tar_items ?hb 0 ?all) ?x0 = Inr (?x1\<lparr>got_list := Some (map coerced_entry entries)\<rparr>)"
      using loop last big by (auto split: if_splits)
    show ?thesis
    proof (cases "list_all kept_path files")
      case True
      then have "reconcile_file_list entries (map normal_file files) = None" by (simp add: reconcile_ok es)
      with True False e show ?thesis
        by (simp add: extract_payload_def up prepare_target_def rollback_def len start_extraction_def kept)
    next
      case unkept: False
      then have "reconcile_file_list (map coerced_entry entries) (map normal_file files) \<noteq> None"
        using rec by (simp add: reconcile_ok)
      then have "reconcile_file_list (map coerced_entry entries) (map normal_file files) = Some CorruptCapsule"
        by (auto simp: reconcile_file_list_def split: if_splits)
      with False unkept e show ?thesis
        by (simp add: extract_payload_def up prepare_target_def rollback_def len start_extraction_def)
    qed
  qed
qed

section \<open>The container\<close>

lemma seal_ok:
  assumes "seal H F now rnd service version files deps recipe threshold shares to = Inr (raw, m)"
  shows "\<exists>pk payload enc sender manifest_bytes sealed. public_key to = Some pk
    \<and> build_payload F now files = Inr (payload, Files m) \<and> new_sender H rnd pk hpke_info = Some (enc, sender)
    \<and> PayloadHash m = hex_encode (sha256 payload) \<and> RecoveryKeyID m = key_id H to
    \<and> EncapsulatedKey m = b64_encode b64_std True enc
    \<and> emit_manifest F m = Some manifest_bytes \<and> int (length manifest_bytes) \<le> max_manifest_bytes
    \<and> ctx_seal H sender manifest_bytes payload = Some sealed
    \<and> emit_container F kycap_format manifest_bytes (encode_ciphertext sealed) = Some raw
    \<and> KitThreshold m = threshold \<and> TotalShares m = shares \<and> ServiceName m = service
    \<and> 2 \<le> threshold \<and> threshold \<le> shares \<and> shares \<le> 255 \<and> files \<noteq> []"
proof -
  obtain pk where pk: "public_key to = Some pk" using assms by (auto simp: seal_def split: if_splits option.splits)
  obtain payload entries where b: "build_payload F now files = Inr (payload, entries)"
    using assms pk by (cases "build_payload F now files") (auto simp: seal_def split: if_splits)
  obtain enc sender where snd: "new_sender H rnd pk hpke_info = Some (enc, sender)"
    using assms pk b by (cases "new_sender H rnd pk hpke_info") (auto simp: seal_def split: if_splits)
  define m0 where "m0 = \<lparr>CapsuleID = ''cap-'' @ service @ ''-'' @ itoa (wrap64 now), ServiceName = service,
     AppVersion = version, CreatedAt = now, PayloadHash = hex_encode (sha256 payload),
     KitThreshold = threshold, TotalShares = shares, RecoveryKeyID = key_id H to,
     EncapsulatedKey = b64_encode b64_std True enc, Files = entries,
     Dependencies = deps, VerificationRecipe = recipe\<rparr>"
  have rest: "(case emit_manifest F m0 of
      None \<Rightarrow> Inl MarshalFailed
    | Some mb \<Rightarrow>
        if max_manifest_bytes < int (length mb) then Inl CapsuleTooLarge
        else case ctx_seal H sender mb payload of
          None \<Rightarrow> Inl SealFailed
        | Some sealed \<Rightarrow>
            (case emit_container F kycap_format mb (encode_ciphertext sealed) of
               None \<Rightarrow> Inl MarshalFailed
             | Some raw \<Rightarrow> Inr (raw, m0))) = Inr (raw, m)"
    using assms unfolding m0_def by (simp add: seal_def pk b snd Let_def split: if_splits cong: option.case_cong if_cong)
  then have "m0 = m" by (auto split: option.splits if_splits)
  with rest obtain mb sealed where "emit_manifest F m = Some mb" "int (length mb) \<le> max_manifest_bytes"
    "ctx_seal H sender mb payload = Some sealed" "emit_container F kycap_format mb (encode_ciphertext sealed) = Some raw"
    by (auto simp: not_less split: option.splits if_splits)
  moreover have "PayloadHash m = hex_encode (sha256 payload)" "RecoveryKeyID m = key_id H to"
    "EncapsulatedKey m = b64_encode b64_std True enc" "Files m = entries"
    "KitThreshold m = threshold" "TotalShares m = shares" "ServiceName m = service"
    by (simp_all add: m0_def flip: \<open>m0 = m\<close>)
  moreover have "2 \<le> threshold" "threshold \<le> shares" "shares \<le> 255" "files \<noteq> []"
    using assms pk by (auto simp: seal_def split: if_splits)
  ultimately show ?thesis using pk b snd by blast
qed

lemma seal_fields:
  assumes "seal H F now rnd service version files deps recipe threshold shares to = Inr (raw, m)"
  shows "KitThreshold m = threshold \<and> TotalShares m = shares \<and> ServiceName m = service
    \<and> 2 \<le> threshold \<and> threshold \<le> shares \<and> shares \<le> 255 \<and> files \<noteq> []"
  using seal_ok [OF assms] by blast

lemma parse_sealed:
  assumes "formats_ok F" "emit_manifest F m = Some mb" "int (length mb) \<le> max_manifest_bytes" "sealed \<noteq> []"
    "emit_container F kycap_format mb (encode_ciphertext sealed) = Some raw"
  shows "parse_container F raw
    = (if max_container_bytes < int (length raw) then Inl CapsuleTooLarge else Inr (mb, encode_ciphertext sealed))"
proof -
  have "list_all is_ascii (encode_ciphertext sealed)" unfolding encode_ciphertext_def by (rule b64_ascii)
  from formats_okD(5) [OF assms(1,2) this assms(5)]
  have "read_container F raw = Some (kycap_format, mb, encode_ciphertext sealed)"
    "length (encode_ciphertext sealed) \<le> length raw" "\<not> blank raw" by simp_all
  moreover have "encode_ciphertext sealed \<noteq> []"
    using b64_decode_encode [of b64_std True sealed] b64_decode_encode [of b64_std True "[]"] assms(4)
    by (auto simp: encode_ciphertext_def)
  ultimately show ?thesis using assms(3) by (auto simp: parse_container_def)
qed

text \<open>Decrypting gives back the payload and the manifest, as JSON keeps it.\<close>

lemma decrypt_sealed:
  assumes "hpke_ok H" "formats_ok F" "genuine H k"
    and "seal H F now rnd service version files deps recipe threshold shares (public_of H k) = Inr (raw, m)"
  obtains payload d r where "build_payload F now files = Inr (payload, Files m)"
    "decrypt_payload H F raw k = (if max_container_bytes < int (length raw) then Inl CapsuleTooLarge
       else Inr ((coerced_manifest m)\<lparr>Dependencies := d, VerificationRecipe := r\<rparr>, payload))"
proof -
  obtain pk payload enc sender mb sealed where pk: "public_key (public_of H k) = Some pk"
    and b: "build_payload F now files = Inr (payload, Files m)" and snd: "new_sender H rnd pk hpke_info = Some (enc, sender)"
    and m: "PayloadHash m = hex_encode (sha256 payload)" "RecoveryKeyID m = key_id H (public_of H k)"
      "EncapsulatedKey m = b64_encode b64_std True enc"
    and mb: "emit_manifest F m = Some mb" "int (length mb) \<le> max_manifest_bytes"
    and sl: "ctx_seal H sender mb payload = Some sealed"
    and raw: "emit_container F kycap_format mb (encode_ciphertext sealed) = Some raw"
    using seal_ok [OF assms(4)] by blast
  obtain sk where sk: "private_key k = Some sk" "pk = public_half H sk"
    using assms(3) pk by (auto simp: genuine_def public_of_def)
  obtain cr where enc: "length enc = encapsulation_bytes" and cr: "new_recipient H enc sk hpke_info = Some cr"
    and sealed: "sealed \<noteq> []" and opens: "ctx_open H cr mb sealed = Some payload"
    using assms(1) snd sl unfolding sk(2) hpke_ok_def by metis
  obtain d r where rm: "read_manifest F mb = Some ((coerced_manifest m)\<lparr>Dependencies := d, VerificationRecipe := r\<rparr>)"
    using formats_okD(4) [OF assms(2) mb(1)] by blast
  have id: "list_all is_ascii (key_id H (public_of H k))"
    by (simp add: key_id_def public_bytes_def public_of_def ascii_hex split: option.split)
  have keep: "coerced (PayloadHash m) = PayloadHash m" "coerced (RecoveryKeyID m) = RecoveryKeyID m"
    "coerced (EncapsulatedKey m) = EncapsulatedKey m"
    unfolding m by (intro coerced_ascii ascii_hex b64_ascii id)+
  have hash: "hex_encode (sha256 payload) \<noteq> []" using length_sha256 [of payload] by (metis hex_encode_Nil_iff list.size(3) zero_neq_numeral)
  have "decrypt_payload H F raw k = (if max_container_bytes < int (length raw) then Inl CapsuleTooLarge
       else Inr ((coerced_manifest m)\<lparr>Dependencies := d, VerificationRecipe := r\<rparr>, payload))"
    using parse_sealed [OF assms(2) mb sealed raw] enc cr opens hash keep
    by (simp add: decrypt_payload_def rm sk(1) coerced_manifest_def m b64_decode_encode encode_ciphertext_def
        decode_ciphertext_def verify_payload_hash_def)
  with b show ?thesis by (rule that)
qed

lemma decrypt_ok:
  assumes "decrypt_payload H F raw k = Inr (m, payload)"
  shows "\<exists>mb ct sk enc c cr. parse_container F raw = Inr (mb, ct) \<and> read_manifest F mb = Some m \<and> private_key k = Some sk
    \<and> RecoveryKeyID m = key_id H (public_of H k) \<and> b64_decode b64_std True (EncapsulatedKey m) = Some enc
    \<and> decode_ciphertext ct = Inr c \<and> new_recipient H enc sk hpke_info = Some cr \<and> ctx_open H cr mb c = Some payload
    \<and> PayloadHash m = hex_encode (sha256 payload)"
proof -
  obtain mb ct where p0: "parse_container F raw = Inr (mb, ct)"
    using assms by (cases "parse_container F raw") (auto simp: decrypt_payload_def)
  obtain m1 where p: "read_manifest F mb = Some m1"
    using assms p0 by (cases "read_manifest F mb") (auto simp: decrypt_payload_def)
  obtain sk where sk: "private_key k = Some sk" "RecoveryKeyID m1 = key_id H (public_of H k)"
    using assms p0 p by (auto simp: decrypt_payload_def split: option.splits if_splits)
  obtain enc where enc: "b64_decode b64_std True (EncapsulatedKey m1) = Some enc" "length enc = encapsulation_bytes"
    using assms p0 p sk by (auto simp: decrypt_payload_def split: option.splits if_splits)
  obtain c where c: "decode_ciphertext ct = Inr c"
    using assms p0 p sk enc by (cases "decode_ciphertext ct") (auto simp: decrypt_payload_def)
  obtain cr pl where cr: "new_recipient H enc sk hpke_info = Some cr" "ctx_open H cr mb c = Some pl"
    using assms p0 p sk enc c by (auto simp: decrypt_payload_def split: option.splits if_splits)
  have "PayloadHash m = hex_encode (sha256 payload) \<and> pl = payload \<and> m1 = m"
    using assms p0 p sk enc c cr by (auto simp: decrypt_payload_def verify_payload_hash_def split: option.splits if_splits)
  then show ?thesis using p0 p sk enc c cr by blast
qed

text \<open>Once its parts are the same, what a container says of itself no longer matters.\<close>

lemma decrypt_same_parts:
  assumes "parse_container F raw = Inr (mb, ct)" "parse_container F raw' = Inr (mb, ct')"
    "decode_ciphertext ct = decode_ciphertext ct'"
  shows "decrypt_payload H F raw k = decrypt_payload H F raw' k"
  unfolding decrypt_payload_def assms(1,2) bindE_Inr prod.case assms(3) ..

lemma open_sealed:
  assumes "hpke_ok H" "formats_ok F" "genuine H k"
    and "seal H F now rnd service version files deps recipe threshold shares (public_of H k) = Inr (raw, m)"
  shows "\<exists>d r. open_capsule H F fails raw k NoTarget =
    (if max_container_bytes < int (length raw) \<or> max_expanded_bytes < stream_length F files then Inl CapsuleTooLarge
     else if \<not> list_all kept_path files then Inl CorruptCapsule
     else Inr ((coerced_manifest m)\<lparr>Dependencies := d, VerificationRecipe := r, Files := Files m\<rparr>, map normal_file files),
     NoTarget)"
proof -
  obtain payload d r where b: "build_payload F now files = Inr (payload, Files m)"
    and d: "decrypt_payload H F raw k = (if max_container_bytes < int (length raw) then Inl CapsuleTooLarge
       else Inr ((coerced_manifest m)\<lparr>Dependencies := d, VerificationRecipe := r\<rparr>, payload))"
    by (rule decrypt_sealed [OF assms])
  show ?thesis
    by (intro exI [of _ d] exI [of _ r]) (simp add: open_capsule_def d extract_sealed [OF assms(2) b])
qed

section \<open>Properties\<close>

text \<open>
  C2: What \<open>Open\<close> makes of a capsule \<open>Seal\<close> wrote for its key: it returns the files with normalised
  paths and clamped modes, and the sealed manifest with the file list, exactly when the container and
  the archive stream are within their limits and every path is valid UTF-8. Past the limits it reports
  a capsule that is too large, and a path that JSON does not keep makes it report corruption.
\<close>

theorem open_of_sealed:
  assumes "hpke_ok H" "formats_ok F" "genuine H k"
    and "seal H F now rnd service version files deps recipe threshold shares (public_of H k) = Inr (raw, m)"
  shows "\<exists>d r. open_capsule H F fails raw k NoTarget =
    (if max_container_bytes < int (length raw) \<or> max_expanded_bytes < stream_length F files then Inl CapsuleTooLarge
     else if \<not> list_all kept_path files then Inl CorruptCapsule
     else Inr ((coerced_manifest m)\<lparr>Dependencies := d, VerificationRecipe := r, Files := Files m\<rparr>, map normal_file files),
     NoTarget)"
  using open_sealed [OF assms] .

text \<open>
  The wrong kit. A capsule sealed to one recovery key, opened with another, is refused as sealed to a
  different key, whatever the target, which is left alone; otherwise the two public keys collide under SHA-256.
\<close>

theorem wrong_kit_is_named:
  assumes "hpke_ok H" "formats_ok F" "genuine H k" "genuine H other" "public_of H other \<noteq> public_of H k"
    and "seal H F now rnd service version files deps recipe threshold shares (public_of H k) = Inr (raw, m)"
    and "int (length raw) \<le> max_container_bytes"
  shows "open_capsule H F fails raw other target = (Inl WrongRecoveryKey, target) \<or> keys_collide H (public_of H other) (public_of H k)"
proof -
  obtain payload d r where "decrypt_payload H F raw k = Inr ((coerced_manifest m)\<lparr>Dependencies := d, VerificationRecipe := r\<rparr>, payload)"
    using decrypt_sealed [OF assms(1-3,6)] assms(7) by (metis not_less)
  from decrypt_ok [OF this] obtain mb ct where p: "parse_container F raw = Inr (mb, ct)"
    "read_manifest F mb = Some ((coerced_manifest m)\<lparr>Dependencies := d, VerificationRecipe := r\<rparr>)"
    "RecoveryKeyID ((coerced_manifest m)\<lparr>Dependencies := d, VerificationRecipe := r\<rparr>) = key_id H (public_of H k)"
    by blast
  obtain sk where sk: "private_key other = Some sk" using assms(4) by (auto simp: genuine_def)
  have set: "public_key (public_of H other) \<noteq> None" "public_key (public_of H k) \<noteq> None"
    using assms(3,4) by (auto simp: genuine_def public_of_def)
  have "key_id H (public_of H k) \<noteq> key_id H (public_of H other) \<or> keys_collide H (public_of H other) (public_of H k)"
    using key_id_injective [OF assms(1) _ set] assms(5) by metis
  then show ?thesis
    using p sk by (auto simp: open_capsule_def decrypt_payload_def)
qed

text \<open>
  What an authenticated encryption promises of one sealed message: under the encapsulated key of this
  capsule nothing opens but its own ciphertext, with its own manifest as additional data.
\<close>

definition only_message :: "('sk, 'pk, 'ctx) Hpke \<Rightarrow> 'j Formats \<Rightarrow> 'sk PrivateKey \<Rightarrow> bytes \<Rightarrow> string \<Rightarrow> bool" where
  "only_message H F k raw key \<longleftrightarrow>
     (\<forall>sk enc cr aad ct pt. private_key k = Some sk \<longrightarrow> b64_decode b64_std True key = Some enc
        \<longrightarrow> new_recipient H enc sk hpke_info = Some cr \<longrightarrow> ctx_open H cr aad ct = Some pt
        \<longrightarrow> (\<exists>c. parse_container F raw = Inr (aad, c) \<and> decode_ciphertext c = Inr ct))"


section \<open>An instance\<close>

text \<open>
  Formats that satisfy the laws and encode one payload, one list and one manifest; an HPKE that seals and
  opens one message; a key and the manifest of a capsule sealed to it.
\<close>

definition strict_hpke :: "(bytes, bool, unit) Hpke" where
  "strict_hpke = plain_hpke\<lparr>
     ctx_seal := (\<lambda>c aad pt. if aad = [3] \<and> pt = [1] then Some [0, 3, 1] else None),
     ctx_open := (\<lambda>c aad ct. if aad = [3] \<and> ct = [0, 3, 1] then Some [1] else None)\<rparr>"

lemma strict_hpke_ok: "hpke_ok strict_hpke"
  using plain_hpke_ok by (auto simp: hpke_ok_def strict_hpke_def)

definition one_formats :: "(string \<times> u32 \<times> bytes) list \<Rightarrow> FileEntry list \<Rightarrow> unit Manifest \<Rightarrow> unit Formats" where
  "one_formats ms es m = \<lparr>pack = (\<lambda>now ms'. if ms' = ms then Some [1] else None),
     unpack = (\<lambda>b. Some (tar_items (\<lambda>_. 512) 0 ms, tar_end (\<lambda>_. 512) 0 ms)), header_bytes = (\<lambda>_. 512),
     emit_list = (\<lambda>es'. if es' = es then Some [2] else None), read_list = (\<lambda>b. Some (map coerced_entry es)),
     emit_manifest = (\<lambda>m'. if m' = m then Some [3] else None), read_manifest = (\<lambda>b. Some (coerced_manifest m)),
     emit_container = (\<lambda>f b ct. if b = [3] then Some (3 # bytes_of ct) else None),
     read_container = (\<lambda>raw. Some (kycap_format, [3], string_of (tl raw)))\<rparr>"

lemma one_formats_ok: "formats_ok (one_formats ms es m)"
proof -
  have "coerced_manifest m = (coerced_manifest m)\<lparr>Dependencies := d, VerificationRecipe := r\<rparr>
    \<longleftrightarrow> d = Dependencies m \<and> r = VerificationRecipe m" for d r
    by (cases m) (auto simp: coerced_manifest_def)
  then show ?thesis by (auto simp: formats_ok_def one_formats_def blank_def)
qed

definition key0 :: "bytes PrivateKey" where
  "key0 = \<lparr>seed = replicate 32 7, private_key = Some (replicate 32 7)\<rparr>"

definition manifest0 :: "FileEntry list \<Rightarrow> unit Manifest" where
  "manifest0 es = \<lparr>CapsuleID = ''cap-s-'' @ itoa (wrap64 5), ServiceName = ''s'', AppVersion = ''1'', CreatedAt = 5,
     PayloadHash = hex_encode (sha256 [1]), KitThreshold = 2, TotalShares = 3,
     RecoveryKeyID = key_id strict_hpke (public_of strict_hpke key0),
     EncapsulatedKey = b64_encode b64_std True (replicate 1120 0), Files = es,
     Dependencies = None, VerificationRecipe = None\<rparr>"

lemma key0_genuine: "genuine strict_hpke key0"
  by (simp add: genuine_def key0_def strict_hpke_def plain_hpke_def seed_bytes_def)

text \<open>Sealing any files whose archive these formats write.\<close>

definition files_formats :: "File list \<Rightarrow> unit Formats" where
  "files_formats files = (let es = map (\<lambda>f. file_entry (Path f) (Mode f) (Content f)) (map normal_file files)
     in one_formats (map (member_of \<circ> normal_file) files @ [(reserved_file_list, 0x180, [2])]) es (manifest0 es))"

lemma seal0:
  assumes "build_loop files {} 0 = Inr (map (member_of \<circ> normal_file) files, used)" "files \<noteq> []" "length files \<le> 4096" "used < 2 ^ 20"
  shows "seal strict_hpke (files_formats files) 5 [] ''s'' ''1'' files None None 2 3 (public_of strict_hpke key0)
    = Inr (3 # bytes_of (encode_ciphertext [0, 3, 1]), manifest0 (map (\<lambda>f. file_entry (Path f) (Mode f) (Content f)) (map normal_file files)))"
proof -
  let ?es = "map (\<lambda>f. file_entry (Path f) (Mode f) (Content f)) (map normal_file files)"
  let ?F = "files_formats files"
  have f: "pack ?F 5 (map (member_of \<circ> normal_file) files @ [(reserved_file_list, 0x180, [2])]) = Some [1]"
    "emit_list ?F ?es = Some [2]" "emit_manifest ?F (manifest0 ?es) = Some [3]" "emit_container ?F f [3] ct = Some (3 # bytes_of ct)" for f ct
    by (simp_all add: files_formats_def Let_def one_formats_def)
  have b: "build_payload ?F 5 files = Inr ([1], ?es)"
    using assms by (simp add: build_payload_def max_files_def max_file_list_bytes_def max_manifest_bytes_def max_expanded_bytes_def
        entries_of_members f Let_def del: map_map)
  have pk: "public_key (public_of strict_hpke key0) = Some True" by (simp add: public_of_def key0_def strict_hpke_def plain_hpke_def)
  have h: "new_sender strict_hpke rnd pk info = Some (replicate 1120 0, ())" "ctx_seal strict_hpke c [3] [1] = Some [0, 3, 1]" for rnd pk info c
    by (simp_all add: strict_hpke_def plain_hpke_def)
  show ?thesis
    using assms(2) f(3) unfolding seal_def pk b bindE_Inr prod.case option.case h Let_def manifest0_def
    by (simp add: f(4) h(2) max_manifest_bytes_def del: map_map cong: option.case_cong)
qed

definition file0 :: File where
  "file0 = \<lparr>Path = ''a'', Content = [7], Mode = 0x1A4\<rparr>"

lemma normal_file0: "normal_file file0 = \<lparr>Path = ''a'', Content = [7], Mode = 0x180\<rparr>"
  by (simp add: normal_file_def file0_def safe_a clamp_mode_def Let_def)

lemma build0: "build_loop [file0] {} 0 = Inr (map (member_of \<circ> normal_file) [file0], 1)"
  by (simp add: normal_file0 member_of_def) (simp add: file0_def safe_a clamp_mode_def Let_def max_file_bytes_def max_expanded_bytes_def)

lemmas sealed0 = seal0 [OF build0]

definition raw0 :: bytes where
  "raw0 = 3 # bytes_of (encode_ciphertext [0, 3, 1])"

lemma length_raw0: "int (length raw0) \<le> max_container_bytes"
  by (simp add: raw0_def encode_ciphertext_def max_container_bytes_def)

lemma formats0_ok: "formats_ok (files_formats files)"
  by (simp add: files_formats_def Let_def one_formats_ok)

lemma limits0: "list_all kept_path [file0]" "stream_length (files_formats [file0]) [file0] = 3072"
proof -
  have "is_ascii CHR ''a''" by (simp add: is_ascii_def)
  then show "list_all kept_path [file0]" by (simp add: kept_path_def normal_file0 coerced_ascii)
  show "stream_length (files_formats [file0]) [file0] = 3072"
    by (simp add: stream_length_def files_formats_def one_formats_def Let_def normal_file0 member_of_def padded_def)
qed

lemmas seal_file0 = sealed0 [folded raw0_def, simplified]

lemma parse0: "parse_container (files_formats [file0]) raw0 = Inr ([3], encode_ciphertext [0, 3, 1])"
proof -
  let ?F = "files_formats [file0]"
  have m: "emit_manifest ?F (manifest0 (map (\<lambda>f. file_entry (Path f) (Mode f) (Content f)) (map normal_file [file0]))) = Some [3]"
    "emit_container ?F kycap_format [3] (encode_ciphertext [0, 3, 1]) = Some raw0"
    by (simp_all add: files_formats_def Let_def one_formats_def raw0_def)
  have "int (length [3 :: u8]) \<le> max_manifest_bytes" "[0 :: u8, 3, 1] \<noteq> []" by (simp_all add: max_manifest_bytes_def)
  from parse_sealed [OF formats0_ok m(1) this m(2)] show ?thesis using length_raw0 by simp
qed

lemma only_message0: "only_message strict_hpke (files_formats [file0]) key0 raw0 key"
proof -
  have "decode_ciphertext (encode_ciphertext [0, 3, 1]) = Inr [0, 3, 1]"
    by (simp only: decode_ciphertext_def encode_ciphertext_def b64_decode_encode [OF b64_std_alphabet] ofOption_simps)
  then show ?thesis by (auto simp: only_message_def parse0 strict_hpke_def split: if_splits)
qed

lemma open0:
  "\<exists>m'. open_capsule strict_hpke (files_formats [file0]) fails raw0 key0 NoTarget = (Inr (m', [normal_file file0]), NoTarget)
     \<and> EncapsulatedKey m' = b64_encode b64_std True (replicate 1120 0)"
  using open_sealed [OF strict_hpke_ok formats0_ok key0_genuine seal_file0, of fails] length_raw0 limits0
  by (auto simp: max_expanded_bytes_def coerced_manifest_def manifest0_def coerced_ascii b64_ascii)

lemma open_of_sealed_witness:
  "\<exists>m m'. seal strict_hpke (files_formats [file0]) 5 [] ''s'' ''1'' [file0] None None 2 3 (public_of strict_hpke key0) = Inr (raw0, m)
     \<and> open_capsule strict_hpke (files_formats [file0]) (\<lambda>_. False) raw0 key0 NoTarget
       = (Inr (m', [\<lparr>Path = ''a'', Content = [7], Mode = 0x180\<rparr>]), NoTarget)"
  using open_of_sealed [OF strict_hpke_ok formats0_ok key0_genuine seal_file0, of "\<lambda>_. False"] seal_file0 length_raw0 limits0
  by (auto simp: max_expanded_bytes_def normal_file0)

lemma wrong_kit_is_named_witness:
  "open_capsule strict_hpke (files_formats [file0]) (\<lambda>_. False) raw0 \<lparr>seed = replicate 32 9, private_key = Some (replicate 32 9)\<rparr> Absent
     = (Inl WrongRecoveryKey, Absent)
   \<or> keys_collide strict_hpke (public_of strict_hpke \<lparr>seed = replicate 32 9, private_key = Some (replicate 32 9)\<rparr>) (public_of strict_hpke key0)"
proof -
  let ?k = "\<lparr>seed = replicate 32 9, private_key = Some (replicate 32 9)\<rparr> :: bytes PrivateKey"
  have g: "genuine strict_hpke ?k" by (simp add: genuine_def strict_hpke_def plain_hpke_def seed_bytes_def)
  have d: "public_of strict_hpke ?k \<noteq> public_of strict_hpke key0"
    by (simp add: public_of_def key0_def strict_hpke_def plain_hpke_def)
  show ?thesis
    by (rule wrong_kit_is_named [OF strict_hpke_ok formats0_ok key0_genuine g d seal_file0 length_raw0])
qed


section \<open>Capsules that seal and do not restore\<close>

text \<open>
  A path that is not valid UTF-8 is sealed, and the capsule never opens: JSON replaces the byte in the
  file list, which then does not describe the member.
\<close>

definition file_ff :: File where
  "file_ff = \<lparr>Path = [CHR 0xFF], Content = [7], Mode = 0x180\<rparr>"

lemma safe_ff: "safe_rel_path [CHR 0xFF] = Some [CHR 0xFF]"
  by (simp add: safe_rel_path_def is_abs_def clean_def clean_parts_def has_prefix_def Let_def)

lemma invalid_utf8_seals_but_never_opens:
  "(\<exists>m. seal strict_hpke (files_formats [file_ff]) 5 [] ''s'' ''1'' [file_ff] None None 2 3 (public_of strict_hpke key0) = Inr (raw0, m))
    \<and> open_capsule strict_hpke (files_formats [file_ff]) (\<lambda>_. False) raw0 key0 NoTarget = (Inl CorruptCapsule, NoTarget)"
proof -
  have n: "normal_file file_ff = file_ff" by (simp add: normal_file_def file_ff_def safe_ff clamp_mode_def Let_def)
  have b: "build_loop [file_ff] {} 0 = Inr (map (member_of \<circ> normal_file) [file_ff], 1)"
    by (simp add: n member_of_def) (simp add: file_ff_def safe_ff clamp_mode_def Let_def max_file_bytes_def max_expanded_bytes_def)
  note s = seal0 [OF b, folded raw0_def, simplified]
  have "runes [CHR 0xFF] = [(rune_error, [CHR 0xFF])]" by (simp add: runes.simps decode_rune.simps Let_def)
  then have "coerced [CHR 0xFF] = encode_rune rune_error" by (simp add: coerced_def map_runes_def)
  then have "\<not> list_all kept_path [file_ff]"
    by (simp add: kept_path_def n) (simp add: file_ff_def encode_rune_def rune_error_def Let_def)
  moreover have "stream_length (files_formats [file_ff]) [file_ff] = 3072"
    by (simp add: stream_length_def files_formats_def one_formats_def Let_def n member_of_def padded_def) (simp add: file_ff_def)
  ultimately show ?thesis
    using open_sealed [OF strict_hpke_ok formats0_ok key0_genuine s, of "\<lambda>_. False"] s length_raw0
    by (auto simp: max_expanded_bytes_def)
qed

text \<open>
  A file and a file beneath it seal and open in memory, but no directory can hold both: the restore
  fails, and the target is as it was.
\<close>

definition nested :: "File list" where
  "nested = [\<lparr>Path = ''a'', Content = [7], Mode = 0x180\<rparr>, \<lparr>Path = ''a/b'', Content = [8], Mode = 0x180\<rparr>]"

lemma safe_ab: "safe_rel_path ''a/b'' = Some ''a/b''"
  using safe_rel_path_plain [of "[''a'', ''b'']"] by (simp add: plain_def)

lemma normal_nested: "map normal_file nested = nested"
  by (simp add: nested_def normal_file_def safe_a safe_ab clamp_mode_def Let_def)

lemma split_ab: "split_on (CHR ''/'') ''a'' = [''a'']" "split_on (CHR ''/'') ''a/b'' = [''a'', ''b'']"
  by simp_all

lemma nested_loop:
  "extract_loop F (\<lambda>_. False) (tar_items (\<lambda>_. 512) 0 (map (member_of \<circ> normal_file) nested @ ms)) (start_extraction (Some Map.empty))
    = Inl TargetIO"
proof -
  have m: "map (member_of \<circ> normal_file) nested = [(''a'', 0x180, [7]), (''a/b'', 0x180, [8])]"
    using normal_nested by (simp add: nested_def member_of_def)
  have w1: "write_into (\<lambda>_. False) ''a'' [7] 0x180 Map.empty = Some [[''a''] \<mapsto> FileNode [7] 0x180]"
    by (simp add: write_into_def split_ab(1) Let_def del: split_on.simps)
  have w2: "write_into (\<lambda>_. False) ''a/b'' [8] 0x180 [[''a''] \<mapsto> FileNode [7] 0x180] = None"
    by (simp add: write_into_def split_ab(2) Let_def del: split_on.simps)
  have n: "''a'' \<noteq> reserved_file_list" "''a/b'' \<noteq> reserved_file_list" by (simp_all add: reserved_file_list_def)
  have c: "clamp_mode 0x180 = 0x180" by (simp add: clamp_mode_def Let_def)
  show ?thesis
    unfolding m by (simp add: extract_entry_def n safe_a safe_ab read_data_def start_extraction_def c w1 w2 Let_def padded_def
        max_files_def max_file_bytes_def max_expanded_bytes_def)
qed

lemma nested_files_seal_but_never_restore:
  "(\<exists>m. seal strict_hpke (files_formats nested) 5 [] ''s'' ''1'' nested None None 2 3 (public_of strict_hpke key0) = Inr (raw0, m))
    \<and> (\<exists>m. open_capsule strict_hpke (files_formats nested) (\<lambda>_. False) raw0 key0 NoTarget = (Inr (m, nested), NoTarget))
    \<and> open_capsule strict_hpke (files_formats nested) (\<lambda>_. False) raw0 key0 Absent = (Inl TargetIO, Absent)"
proof -
  let ?F = "files_formats nested"
  have b: "build_loop nested {} 0 = Inr (map (member_of \<circ> normal_file) nested, 2)"
    unfolding map_map [symmetric] normal_nested
    by (simp add: nested_def member_of_def safe_a safe_ab clamp_mode_def Let_def max_file_bytes_def max_expanded_bytes_def)
  have ne: "nested \<noteq> []" "length nested \<le> 4096" "(2 :: int) < 2 ^ 20" by (simp_all add: nested_def)
  note s = seal0 [OF b ne, folded raw0_def]
  have asc: "list_all is_ascii ''a''" "list_all is_ascii ''a/b''" by (simp_all add: is_ascii_def)
  have kept: "list_all kept_path nested"
    using normal_nested by (simp add: kept_path_def nested_def coerced_ascii [OF asc(1)] coerced_ascii [OF asc(2)])
  have len: "stream_length ?F nested = 4096"
    unfolding stream_length_def map_map [symmetric] files_formats_def normal_nested
    by (simp add: one_formats_def Let_def normal_nested) (simp add: nested_def member_of_def padded_def)
  have open_mem: "\<exists>m. open_capsule strict_hpke ?F (\<lambda>_. False) raw0 key0 NoTarget = (Inr (m, nested), NoTarget)"
    using open_sealed [OF strict_hpke_ok formats0_ok key0_genuine s, of "\<lambda>_. False"] length_raw0 kept len normal_nested
    by (auto simp: max_expanded_bytes_def)
  obtain payload d r m where d: "decrypt_payload strict_hpke ?F raw0 key0 = Inr (m\<lparr>Dependencies := d, VerificationRecipe := r\<rparr>, payload)"
    using decrypt_sealed [OF strict_hpke_ok formats0_ok key0_genuine s] length_raw0 by (metis not_less)
  have u: "unpack ?F payload = Some (tar_items (\<lambda>_. 512) 0 (map (member_of \<circ> normal_file) nested @ [(reserved_file_list, 0x180, [2])]),
      tar_end (\<lambda>_. 512) 0 (map (member_of \<circ> normal_file) nested @ [(reserved_file_list, 0x180, [2])]))"
    by (simp add: files_formats_def one_formats_def Let_def)
  have "open_capsule strict_hpke ?F (\<lambda>_. False) raw0 key0 Absent = (Inl TargetIO, Absent)"
    using nested_loop [of ?F "[(reserved_file_list, 0x180, [2])]"]
    by (simp add: open_capsule_def d extract_payload_def u prepare_target_def rollback_def start_extraction_def del: map_map)
  with s open_mem show ?thesis by blast
qed

end
