(* ===== verification/OidcVerify.thy ===== *)
theory OidcVerify
  imports Complex_Main Prelude Codec GoStrings GoTime Hashes
begin

text \<open>
  \<open>oidcverify\<close>: RS256 tokens checked against the issuer's published keys. \<open>verify_jwt\<close>, \<open>verify_nonce\<close>
  and \<open>verify_logout\<close> are the functions of \<open>oidcverify.go\<close> and \<open>logout.go\<close>, \<open>key_first\<close>, \<open>key_second\<close>
  and \<open>key_finish\<close> the three critical sections of \<open>key\<close>, which \<open>key_of\<close> runs one after the other and
  \<open>key_step\<close> interleaves. JSON, \<open>net/url\<close>, RSA and the HTTP exchange are the calls in \<open>Reads\<close> and the
  replies; \<open>clk i\<close> is the clock at the \<open>i\<close>th place of the code that reads it.
\<close>

section \<open>Instants\<close>

text \<open>
  \<open>time.Time\<close> holds the seconds since the year 1 in 64 bits, and the nanoseconds. \<open>time.Unix\<close> wraps
  around, \<open>Add\<close> and \<open>Sub\<close> saturate.
\<close>

type_synonym instant = "int \<times> int"

definition zero_time :: instant where
  "zero_time = (0, 0)"

definition unix_time :: "int \<Rightarrow> instant" where
  "unix_time i = (wrap64 (i + 62135596800), 0)"

definition before :: "instant \<Rightarrow> instant \<Rightarrow> bool" where
  "before a b \<longleftrightarrow> fst a < fst b \<or> (fst a = fst b \<and> snd a < snd b)"

definition add_seconds :: "int \<Rightarrow> int \<Rightarrow> int" where
  "add_seconds s d =
     (let r = wrap64 (s + d) in if (s < r) = (0 < d) then r else if 0 < d then max_int64 else - max_int64)"

definition time_add :: "instant \<Rightarrow> int \<Rightarrow> instant" where
  "time_add t d =
     (let n = snd t + d mod second
      in if n < second then (add_seconds (fst t) (d div second), n)
         else (add_seconds (fst t) (d div second + 1), n - second))"

definition nanos :: "instant \<Rightarrow> int" where
  "nanos t = fst t * second + snd t"

definition time_sub :: "instant \<Rightarrow> instant \<Rightarrow> int" where
  "time_sub t u = sat64 (nanos t - nanos u)"

section \<open>Data\<close>

datatype oidc_error =
    Malformed | TokenType | Algorithm | UnknownKey | Signature | IssuerMismatch | AudienceMismatch | Expired
  | NotYetValid | IssuedInFuture | NoSubject | NonceMismatch | JwksFailed | InsecureIssuer | LogoutInvalid

record rsa_key =
  modulus :: nat
  exponent :: nat

record Claims =
  Issuer :: string
  Subject :: string
  Audience :: "string list"
  ExpiresAt :: instant
  IssuedAt :: instant
  NotBefore :: instant
  Nonce :: string
  KeyID :: string
  Raw :: "string \<rightharpoonup> bytes"

record Verifier =
  for_issuer :: string
  for_audience :: string
  AllowMultipleAudiences :: bool
  JWKSURL :: string
  Leeway :: int
  MinRefresh :: int
  MaxAge :: int

record Cache =
  keys :: "string \<rightharpoonup> rsa_key"
  fetched_at :: instant
  attempted_at :: instant

record jwk =
  Kty :: string
  Kid :: string
  Alg :: string
  Use :: string
  jwk_N :: string
  jwk_E :: string

text \<open>A JSON object is \<open>Some None\<close> for \<open>null\<close>. A parsed URL is its scheme, its host and whether it has user information.\<close>

record Reads =
  parse_url :: "string \<Rightarrow> (string \<times> string \<times> bool) option"
  read_header :: "bytes \<Rightarrow> (string \<times> string \<times> string) option"
  read_object :: "bytes \<Rightarrow> (string \<rightharpoonup> bytes) option option"
  read_text :: "bytes \<Rightarrow> string option"
  read_texts :: "bytes \<Rightarrow> string list option"
  read_number :: "bytes \<Rightarrow> string option"
  parse_float :: "string \<Rightarrow> rat option"
  read_jwks :: "bytes \<Rightarrow> jwk list option"
  rsa_verify :: "rsa_key \<Rightarrow> bytes \<Rightarrow> bytes \<Rightarrow> bool"

datatype http_reply = NoReply | Redirected | Reply int bytes

section \<open>Defaults\<close>

definition leeway :: "Verifier \<Rightarrow> int" where
  "leeway V = (if Leeway V = 0 then 60 * second else Leeway V)"

definition max_age :: "Verifier \<Rightarrow> int" where
  "max_age V = (if MaxAge V = 0 then 3600 * second else MaxAge V)"

definition min_refresh :: "Verifier \<Rightarrow> int" where
  "min_refresh V = (if MinRefresh V = 0 then 30 * second else MinRefresh V)"

section \<open>Key discovery\<close>

definition require_https :: "Reads \<Rightarrow> string \<Rightarrow> bool" where
  "require_https R u \<longleftrightarrow>
     (case parse_url R u of None \<Rightarrow> False
      | Some (scheme, host, user) \<Rightarrow> scheme = ''https'' \<and> host \<noteq> [] \<and> \<not> user)"

definition trim_right :: "char \<Rightarrow> string \<Rightarrow> string" where
  "trim_right c s = rev (dropWhile (\<lambda>x. x = c) (rev s))"

definition jwks_url :: "Reads \<Rightarrow> Verifier \<Rightarrow> oidc_error + string" where
  "jwks_url R V =
     (if \<not> require_https R (for_issuer V) then Inl InsecureIssuer
      else let u = (if JWKSURL V = [] then trim_right (CHR ''/'') (for_issuer V) @ ''/.well-known/jwks.json'' else JWKSURL V)
           in if \<not> require_https R u then Inl InsecureIssuer else Inr u)"

definition be_nat :: "bytes \<Rightarrow> nat" where
  "be_nat b = foldl (\<lambda>a x. 256 * a + unat x) 0 b"

definition rsa_from_jwk :: "jwk \<Rightarrow> rsa_key option" where
  "rsa_from_jwk k =
     (case (b64_decode b64_url False (jwk_N k), b64_decode b64_url False (jwk_E k)) of
        (Some nb, Some eb) \<Rightarrow>
          let n = be_nat nb; e = be_nat eb
          in if n < 2 ^ 2047 \<or> 2 ^ 63 \<le> e \<or> e < 3 then None else Some \<lparr>modulus = n, exponent = e\<rparr>
      | _ \<Rightarrow> None)"

definition usable :: "jwk \<Rightarrow> bool" where
  "usable k \<longleftrightarrow> Kty k = ''RSA'' \<and> Kid k \<noteq> [] \<and> (Alg k = [] \<or> Alg k = ''RS256'') \<and> (Use k = [] \<or> Use k = ''sig'')"

fun collect_keys :: "jwk list \<Rightarrow> (string \<rightharpoonup> rsa_key) \<Rightarrow> (string \<rightharpoonup> rsa_key)" where
  "collect_keys [] out = out"
| "collect_keys (k # ks) out =
     (if \<not> usable k then collect_keys ks out
      else case rsa_from_jwk k of
        None \<Rightarrow> collect_keys ks out
      | Some pub \<Rightarrow> collect_keys ks (out(Kid k \<mapsto> pub)))"

definition fetch :: "Reads \<Rightarrow> Verifier \<Rightarrow> (string \<Rightarrow> http_reply) \<Rightarrow> oidc_error + (string \<rightharpoonup> rsa_key)" where
  "fetch R V get =
     bindE (jwks_url R V) (\<lambda>u.
       case get u of
         NoReply \<Rightarrow> Inl JwksFailed
       | Redirected \<Rightarrow> Inl JwksFailed
       | Reply status body \<Rightarrow>
           if status \<noteq> 200 then Inl JwksFailed
           else (case read_jwks R (take (2 ^ 20) body) of
                   None \<Rightarrow> Inl JwksFailed
                 | Some ks \<Rightarrow> Inr (collect_keys ks Map.empty)))"

section \<open>The cached key set\<close>

definition recent_attempt :: "Verifier \<Rightarrow> instant \<Rightarrow> Cache \<Rightarrow> bool" where
  "recent_attempt V now c \<longleftrightarrow> attempted_at c \<noteq> zero_time \<and> time_sub now (attempted_at c) < min_refresh V"

definition lookup_key :: "Cache \<Rightarrow> string \<Rightarrow> oidc_error + rsa_key" where
  "lookup_key c kid = (case keys c kid of Some k \<Rightarrow> Inr k | None \<Rightarrow> Inl UnknownKey)"

text \<open>The sections under the state mutex: before the fetch lock, once it is held, and after the fetch.\<close>

definition key_first :: "Verifier \<Rightarrow> instant \<Rightarrow> Cache \<Rightarrow> string \<Rightarrow> (oidc_error + rsa_key) option" where
  "key_first V now c kid =
     (if keys c kid \<noteq> None \<and> time_sub now (fetched_at c) < max_age V then Some (lookup_key c kid)
      else if recent_attempt V now c then Some (lookup_key c kid)
      else None)"

definition key_second ::
  "Verifier \<Rightarrow> instant \<Rightarrow> instant \<Rightarrow> instant \<Rightarrow> Cache \<Rightarrow> string \<Rightarrow> (oidc_error + rsa_key) option \<times> Cache" where
  "key_second V t1 t2 t3 c kid =
     (if keys c kid \<noteq> None \<and> time_sub t1 (fetched_at c) < max_age V then (Some (lookup_key c kid), c)
      else if recent_attempt V t2 c then (Some (lookup_key c kid), c)
      else (None, c\<lparr>attempted_at := t3\<rparr>))"

definition key_finish ::
  "instant \<Rightarrow> oidc_error + (string \<rightharpoonup> rsa_key) \<Rightarrow> Cache \<Rightarrow> string \<Rightarrow> (oidc_error + rsa_key) \<times> Cache" where
  "key_finish t4 fetched c kid =
     (case fetched of
        Inl e \<Rightarrow> (case keys c kid of Some k \<Rightarrow> Inr k | None \<Rightarrow> Inl e, c)
      | Inr ks \<Rightarrow> let c' = c\<lparr>keys := ks, fetched_at := t4\<rparr> in (lookup_key c' kid, c'))"

definition key_of ::
  "Reads \<Rightarrow> Verifier \<Rightarrow> (nat \<Rightarrow> instant) \<Rightarrow> (string \<Rightarrow> http_reply) \<Rightarrow> Cache \<Rightarrow> string \<Rightarrow> (oidc_error + rsa_key) \<times> Cache" where
  "key_of R V clk get c kid =
     (case key_first V (clk 0) c kid of
        Some r \<Rightarrow> (r, c)
      | None \<Rightarrow>
          (case key_second V (clk 1) (clk 2) (clk 3) c kid of
             (Some r, c') \<Rightarrow> (r, c')
           | (None, c') \<Rightarrow> key_finish (clk 4) (fetch R V get) c' kid))"

section \<open>Claims\<close>

definition claim_text :: "Reads \<Rightarrow> (string \<rightharpoonup> bytes) \<Rightarrow> string \<Rightarrow> string" where
  "claim_text R raw name =
     (case raw name of None \<Rightarrow> [] | Some b \<Rightarrow> (case read_text R b of None \<Rightarrow> [] | Some s \<Rightarrow> s))"

definition truncate_rat :: "rat \<Rightarrow> int" where
  "truncate_rat q = (if q < 0 then \<lceil>q\<rceil> else \<lfloor>q\<rfloor>)"

definition numeric_date :: "Reads \<Rightarrow> bytes option \<Rightarrow> oidc_error + instant" where
  "numeric_date R raw =
     (case raw of
        None \<Rightarrow> Inr zero_time
      | Some b0 \<Rightarrow>
          if b0 = [] then Inr zero_time
          else let s = trim_space (string_of b0)
               in if s = [] \<or> (hd s \<noteq> CHR ''-'' \<and> \<not> is_digit (hd s)) then Inl Malformed
                  else (case read_number R (bytes_of s) of
                     None \<Rightarrow> Inl Malformed
                   | Some n \<Rightarrow>
                       (case parse_int 64 n of
                          Some i \<Rightarrow> Inr (unix_time i)
                        | None \<Rightarrow>
                            (case parse_float R n of
                               None \<Rightarrow> Inl Malformed
                             | Some q \<Rightarrow>
                                 if 2 ^ 63 \<le> q \<or> q < - (2 ^ 63) then Inl Malformed
                                 else Inr (unix_time (truncate_rat q))))))"

definition parse_audience :: "Reads \<Rightarrow> bytes option \<Rightarrow> oidc_error + string list" where
  "parse_audience R raw =
     (case raw of
        None \<Rightarrow> Inr []
      | Some a \<Rightarrow>
          (case read_text R a of
             Some s \<Rightarrow> Inr [s]
           | None \<Rightarrow> ofOption Malformed (read_texts R a)))"

definition parse_claims :: "Reads \<Rightarrow> bytes \<Rightarrow> oidc_error + Claims" where
  "parse_claims R payload =
     (case read_object R payload of
        Some (Some raw) \<Rightarrow>
          bindE (parse_audience R (raw ''aud'')) (\<lambda>aud.
          bindE (numeric_date R (raw ''exp'')) (\<lambda>ex.
          bindE (numeric_date R (raw ''iat'')) (\<lambda>ia.
          bindE (numeric_date R (raw ''nbf'')) (\<lambda>nb.
            Inr \<lparr>Issuer = claim_text R raw ''iss'', Subject = claim_text R raw ''sub'', Audience = aud,
                 ExpiresAt = ex, IssuedAt = ia, NotBefore = nb, Nonce = claim_text R raw ''nonce'',
                 KeyID = [], Raw = raw\<rparr>))))
      | _ \<Rightarrow> Inl Malformed)"

definition audience_ok :: "Verifier \<Rightarrow> string list \<Rightarrow> bool" where
  "audience_ok V aud \<longleftrightarrow>
     (case aud of
        [] \<Rightarrow> False
      | [a] \<Rightarrow> a = for_audience V
      | _ \<Rightarrow> AllowMultipleAudiences V \<and> for_audience V \<in> set aud)"

definition check_claims :: "Verifier \<Rightarrow> instant \<Rightarrow> Claims \<Rightarrow> oidc_error + Claims" where
  "check_claims V now c =
     (let lw = leeway V in
      if Issuer c \<noteq> for_issuer V then Inl IssuerMismatch
      else if \<not> audience_ok V (Audience c) then Inl AudienceMismatch
      else if ExpiresAt c = zero_time \<or> \<not> before now (time_add (ExpiresAt c) lw) then Inl Expired
      else if NotBefore c \<noteq> zero_time \<and> before (time_add now lw) (NotBefore c) then Inl NotYetValid
      else if IssuedAt c \<noteq> zero_time \<and> before (time_add now lw) (IssuedAt c) then Inl IssuedInFuture
      else Inr c)"

section \<open>Verifying\<close>

definition decode_segment :: "string \<Rightarrow> bytes option" where
  "decode_segment s =
     (if CHR ''='' \<in> set s \<or> CHR ''+'' \<in> set s \<or> CHR ''/'' \<in> set s then None
      else b64_decode b64_url False s)"

text \<open>Everything before the key is looked up: the key's name, the signed text, the payload and the signature.\<close>

definition parse_token :: "Reads \<Rightarrow> Verifier \<Rightarrow> string \<Rightarrow> string \<Rightarrow> oidc_error + string \<times> string \<times> bytes \<times> bytes" where
  "parse_token R V token typ =
     bindE (jwks_url R V) (\<lambda>_.
       case split_on (CHR ''.'') token of
         [h, p, s] \<Rightarrow>
           bindE (ofOption Malformed (decode_segment h)) (\<lambda>hb.
           bindE (ofOption Malformed (read_header R hb)) (\<lambda>(alg, kid, ty).
             if alg \<noteq> ''RS256'' then Inl Algorithm
             else if typ \<noteq> [] \<and> ty \<noteq> typ then Inl TokenType
             else if typ = [] \<and> ty \<noteq> [] \<and> ty \<noteq> ''JWT'' \<and> ty \<noteq> ''at+jwt'' then Inl TokenType
             else bindE (ofOption Malformed (decode_segment s)) (\<lambda>sig.
                  bindE (ofOption Malformed (decode_segment p)) (\<lambda>payload.
                    Inr (kid, h @ ''.'' @ p, payload, sig)))))
       | _ \<Rightarrow> Inl Malformed)"

definition verify_jwt ::
  "Reads \<Rightarrow> Verifier \<Rightarrow> (nat \<Rightarrow> instant) \<Rightarrow> (string \<Rightarrow> http_reply) \<Rightarrow> Cache \<Rightarrow> string \<Rightarrow> string \<Rightarrow> (oidc_error + Claims) \<times> Cache" where
  "verify_jwt R V clk get c token typ =
     (case parse_token R V token typ of
        Inl e \<Rightarrow> (Inl e, c)
      | Inr (kid, msg, payload, sig) \<Rightarrow>
          (case key_of R V clk get c kid of
             (Inl e, c') \<Rightarrow> (Inl e, c')
           | (Inr key, c') \<Rightarrow>
               (if \<not> rsa_verify R key (sha256 (bytes_of msg)) sig then Inl Signature
                else bindE (parse_claims R payload) (\<lambda>cl. check_claims V (clk 5) (cl\<lparr>KeyID := kid\<rparr>)), c')))"

definition verify_nonce ::
  "Reads \<Rightarrow> Verifier \<Rightarrow> (nat \<Rightarrow> instant) \<Rightarrow> (string \<Rightarrow> http_reply) \<Rightarrow> Cache \<Rightarrow> string \<Rightarrow> string \<Rightarrow> (oidc_error + Claims) \<times> Cache" where
  "verify_nonce R V clk get c token nonce =
     (case verify_jwt R V clk get c token [] of
        (Inl e, c') \<Rightarrow> (Inl e, c')
      | (Inr cl, c') \<Rightarrow>
          (if Raw cl ''events'' \<noteq> None then Inl TokenType
           else if Subject cl = [] then Inl NoSubject
           else if nonce \<noteq> [] \<and> Nonce cl \<noteq> nonce then Inl NonceMismatch
           else Inr cl, c'))"

definition verify_token ::
  "Reads \<Rightarrow> Verifier \<Rightarrow> (nat \<Rightarrow> instant) \<Rightarrow> (string \<Rightarrow> http_reply) \<Rightarrow> Cache \<Rightarrow> string \<Rightarrow> (oidc_error + Claims) \<times> Cache" where
  "verify_token R V clk get c token = verify_nonce R V clk get c token []"

section \<open>Logout tokens\<close>

record LogoutClaims =
  logout_issuer :: string
  logout_subject :: string
  SessionID :: string
  logout_audience :: "string list"
  JWTID :: string
  logout_issued :: instant
  logout_expires :: instant
  ReplayUntil :: instant
  logout_key :: string

definition backchannel_logout_event :: string where
  "backchannel_logout_event = ''http://schemas.openid.net/event/backchannel-logout''"

definition max_logout_token_age :: int where
  "max_logout_token_age = 5 * 60 * second"

text \<open>A claim that is absent is empty; one that is there must be a string that is not.\<close>

definition logout_text :: "Reads \<Rightarrow> (string \<rightharpoonup> bytes) \<Rightarrow> string \<Rightarrow> string option" where
  "logout_text R raw name =
     (case raw name of
        None \<Rightarrow> Some []
      | Some b \<Rightarrow> (case read_text R b of None \<Rightarrow> None | Some s \<Rightarrow> if s = [] then None else Some s))"

definition logout_event :: "Reads \<Rightarrow> (string \<rightharpoonup> bytes) \<Rightarrow> bool" where
  "logout_event R raw \<longleftrightarrow>
     (case raw ''events'' of
        None \<Rightarrow> False
      | Some b \<Rightarrow>
          (case read_object R b of
             Some (Some events) \<Rightarrow>
               (case events backchannel_logout_event of
                  None \<Rightarrow> False
                | Some e \<Rightarrow> (case read_object R e of Some (Some _) \<Rightarrow> True | _ \<Rightarrow> False))
           | _ \<Rightarrow> False))"

definition replay_until :: "Verifier \<Rightarrow> Claims \<Rightarrow> instant" where
  "replay_until V c =
     (let r = time_add (ExpiresAt c) (leeway V);
          f = time_add (time_add (IssuedAt c) max_logout_token_age) (leeway V)
      in if before f r then f else r)"

definition check_logout :: "Reads \<Rightarrow> Verifier \<Rightarrow> instant \<Rightarrow> Claims \<Rightarrow> oidc_error + LogoutClaims" where
  "check_logout R V now c =
     (if Raw c ''nonce'' \<noteq> None \<or> Raw c ''token_use'' \<noteq> None then Inl LogoutInvalid
      else case (logout_text R (Raw c) ''sub'', logout_text R (Raw c) ''sid'', logout_text R (Raw c) ''jti'') of
        (Some sub, Some sid, Some jti) \<Rightarrow>
          if (sub = [] \<and> sid = []) \<or> jti = [] \<or> IssuedAt c = zero_time \<or> \<not> before (IssuedAt c) (ExpiresAt c)
          then Inl LogoutInvalid
          else if \<not> logout_event R (Raw c) then Inl LogoutInvalid
          else if \<not> before now (replay_until V c) then Inl Expired
          else Inr \<lparr>logout_issuer = Issuer c, logout_subject = sub, SessionID = sid, logout_audience = Audience c,
                 JWTID = jti, logout_issued = IssuedAt c, logout_expires = ExpiresAt c,
                 ReplayUntil = replay_until V c, logout_key = KeyID c\<rparr>
      | _ \<Rightarrow> Inl LogoutInvalid)"

definition verify_logout ::
  "Reads \<Rightarrow> Verifier \<Rightarrow> (nat \<Rightarrow> instant) \<Rightarrow> (string \<Rightarrow> http_reply) \<Rightarrow> Cache \<Rightarrow> string \<Rightarrow> (oidc_error + LogoutClaims) \<times> Cache" where
  "verify_logout R V clk get c token =
     (case verify_jwt R V clk get c token ''logout+jwt'' of
        (Inl e, c') \<Rightarrow> (Inl e, c')
      | (Inr cl, c') \<Rightarrow> (check_logout R V (clk 6) cl, c'))"

section \<open>The middleware\<close>

text \<open>The status and body of a rejection and the reason handed to \<open>onReject\<close>, or the claims passed on.\<close>

datatype served = Answered int string oidc_error | Next Claims

definition reject_body :: string where
  "reject_body = ''{'' @ [CHR 0x22] @ ''error'' @ [CHR 0x22] @ '':'' @ [CHR 0x22] @ ''invalid_token'' @ [CHR 0x22] @ ''}''"

definition reject :: "oidc_error \<Rightarrow> served" where
  "reject e = Answered 401 reject_body e"

definition oidc_middleware ::
  "Reads \<Rightarrow> Verifier \<Rightarrow> (nat \<Rightarrow> instant) \<Rightarrow> (string \<Rightarrow> http_reply) \<Rightarrow> Cache \<Rightarrow> string \<Rightarrow> served \<times> Cache" where
  "oidc_middleware R V clk get c auth =
     (if length auth \<le> 7 \<or> map ascii_lower (take 7 auth) \<noteq> ''bearer '' then (reject Malformed, c)
      else case verify_token R V clk get c (trim_space (drop 7 auth)) of
        (Inl e, c') \<Rightarrow> (reject e, c')
      | (Inr cl, c') \<Rightarrow> (Next cl, c'))"

end
