(* ===== verification/OidcTokens.thy ===== *)
theory OidcTokens
  imports OidcVerify
begin

text \<open>
  What an accepted token satisfies, that a token serves one purpose only, and how long a logout token
  can be accepted.
\<close>

section \<open>Keys and tokens\<close>

lemma lookup_key_ok: "lookup_key c kid = Inr k \<longleftrightarrow> keys c kid = Some k"
  by (simp add: lookup_key_def split: option.split)

lemma key_first_ok: "key_first V now c kid = Some (Inr k) \<Longrightarrow> keys c kid = Some k"
  by (auto simp: key_first_def lookup_key_ok split: if_splits)

lemma key_second_ok:
  "key_second V t1 t2 t3 c kid = (Some (Inr k), c') \<Longrightarrow> c' = c \<and> keys c kid = Some k"
  "key_second V t1 t2 t3 c kid = (None, c') \<Longrightarrow> c' = c\<lparr>attempted_at := t3\<rparr> \<and> \<not> recent_attempt V t2 c"
  by (auto simp: key_second_def lookup_key_ok split: if_splits)

lemma key_finish_ok: "key_finish t4 fetched c kid = (Inr k, c') \<Longrightarrow> keys c' kid = Some k"
  by (auto simp: key_finish_def lookup_key_ok Let_def split: sum.splits option.splits)

lemma key_of_ok: "key_of R V clk get c kid = (Inr k, c') \<Longrightarrow> keys c' kid = Some k"
proof -
  assume k: "key_of R V clk get c kid = (Inr k, c')"
  show ?thesis
  proof (cases "key_first V (clk 0) c kid")
    case None
    obtain r c1 where s: "key_second V (clk 1) (clk 2) (clk 3) c kid = (r, c1)" by fastforce
    with k None show ?thesis
      using key_second_ok(1) [of V "clk 1" "clk 2" "clk 3" c kid k c1] key_finish_ok [of "clk 4" "fetch R V get" c1 kid k c']
      by (cases r) (auto simp: key_of_def)
  next
    case (Some r)
    with k show ?thesis using key_first_ok [of V "clk 0" c kid k] by (simp add: key_of_def)
  qed
qed

text \<open>The parts of a token that passes the checks on its header.\<close>

definition token_parts :: "Reads \<Rightarrow> string \<Rightarrow> string \<Rightarrow> string \<Rightarrow> string \<Rightarrow> bytes \<Rightarrow> bytes \<Rightarrow> bool" where
  "token_parts R token typ kid msg payload sig \<longleftrightarrow>
     (\<exists>h p s hb. split_on (CHR ''.'') token = [h, p, s] \<and> decode_segment h = Some hb
        \<and> read_header R hb = Some (''RS256'', kid, typ) \<and> msg = h @ ''.'' @ p
        \<and> decode_segment p = Some payload \<and> decode_segment s = Some sig)"

definition fits_purpose :: "string \<Rightarrow> string \<Rightarrow> bool" where
  "fits_purpose typ ty \<longleftrightarrow> (if typ = [] then ty \<in> {[], ''JWT'', ''at+jwt''} else ty = typ)"

lemma parse_token_ok:
  "parse_token R V token typ = Inr (kid, msg, payload, sig)
    \<longleftrightarrow> is_ok (jwks_url R V) \<and> (\<exists>ty. fits_purpose typ ty \<and> token_parts R token ty kid msg payload sig)"
proof (cases "jwks_url R V")
  case (Inr u)
  show ?thesis
  proof (cases "\<exists>h p s. split_on (CHR ''.'') token = [h, p, s]")
    case True
    then obtain h p s where hps: "split_on (CHR ''.'') token = [h, p, s]" by blast
    have parts: "token_parts R token ty kid msg payload sig \<longleftrightarrow> (\<exists>hb. decode_segment h = Some hb
        \<and> read_header R hb = Some (''RS256'', kid, ty) \<and> msg = h @ ''.'' @ p
        \<and> decode_segment p = Some payload \<and> decode_segment s = Some sig)" for ty
      unfolding token_parts_def hps by blast
    have purpose: "fits_purpose typ ty \<longleftrightarrow> \<not> (typ \<noteq> [] \<and> ty \<noteq> typ)
        \<and> \<not> (typ = [] \<and> ty \<noteq> [] \<and> ty \<noteq> ''JWT'' \<and> ty \<noteq> ''at+jwt'')" for ty
      unfolding fits_purpose_def by (cases "typ = []") auto
    note unfolded = parse_token_def Inr hps bindE_Inr list.case parts purpose
    show ?thesis
    proof (cases "decode_segment h")
      case (Some hb)
      note h = Some
      show ?thesis
      proof (cases "read_header R hb")
        case (Some x)
        then obtain alg k ty where x: "read_header R hb = Some (alg, k, ty)" by (cases x) auto
        show ?thesis
        proof (cases "alg = ''RS256'' \<and> fits_purpose typ ty")
          case True
          then show ?thesis unfolding unfolded
            by (cases "decode_segment s"; cases "decode_segment p") (simp_all add: h x del: char.inject, blast?)
        next
          case False
          then show ?thesis unfolding unfolded by (auto simp: h x)
        qed
      qed (simp add: unfolded h)
    qed (simp add: unfolded)
  next
    case False
    then have "parse_token R V token typ = Inl Malformed"
      by (auto simp: parse_token_def Inr split: list.splits)
    with False show ?thesis by (auto simp: token_parts_def)
  qed
qed (simp add: parse_token_def)

lemma token_parts_unique:
  assumes "token_parts R token ty kid msg payload sig" "token_parts R token ty' kid' msg' payload' sig'"
  shows "ty = ty' \<and> kid = kid' \<and> msg = msg' \<and> payload = payload' \<and> sig = sig'"
  using assms by (auto simp: token_parts_def)

lemma verify_jwt_ok:
  "verify_jwt R V clk get c token typ = (Inr cl, c') \<longleftrightarrow>
     is_ok (jwks_url R V) \<and> (\<exists>ty kid msg payload sig key m. fits_purpose typ ty \<and> token_parts R token ty kid msg payload sig
       \<and> key_of R V clk get c kid = (Inr key, c') \<and> rsa_verify R key (sha256 (bytes_of msg)) sig
       \<and> parse_claims R payload = Inr m \<and> check_claims V (clk 5) (m\<lparr>KeyID := kid\<rparr>) = Inr cl)"
  (is "?L \<longleftrightarrow> ?R")
proof
  assume ?L
  then obtain kid msg payload sig where p: "parse_token R V token typ = Inr (kid, msg, payload, sig)"
    by (cases "parse_token R V token typ") (auto simp: verify_jwt_def)
  obtain key where k: "key_of R V clk get c kid = (Inr key, c')"
    using \<open>?L\<close> p by (auto simp: verify_jwt_def split: sum.splits prod.splits)
  have "rsa_verify R key (sha256 (bytes_of msg)) sig"
    "bindE (parse_claims R payload) (\<lambda>cl. check_claims V (clk 5) (cl\<lparr>KeyID := kid\<rparr>)) = Inr cl"
    using \<open>?L\<close> p k by (auto simp: verify_jwt_def split: if_splits)
  with p k show ?R unfolding parse_token_ok bindE_eq_Inr by blast
next
  assume ?R
  then obtain ty kid msg payload sig key m where a: "is_ok (jwks_url R V)" "fits_purpose typ ty" "token_parts R token ty kid msg payload sig"
    and b: "key_of R V clk get c kid = (Inr key, c')" "rsa_verify R key (sha256 (bytes_of msg)) sig"
       "parse_claims R payload = Inr m" "check_claims V (clk 5) (m\<lparr>KeyID := kid\<rparr>) = Inr cl"
    by blast
  have "parse_token R V token typ = Inr (kid, msg, payload, sig)" using a by (auto simp: parse_token_ok)
  with b show ?L by (simp add: verify_jwt_def)
qed

lemma check_claims_ok:
  "check_claims V now c = Inr cl \<longleftrightarrow> cl = c \<and> Issuer c = for_issuer V \<and> audience_ok V (Audience c)
     \<and> ExpiresAt c \<noteq> zero_time \<and> before now (time_add (ExpiresAt c) (leeway V))
     \<and> (NotBefore c = zero_time \<or> \<not> before (time_add now (leeway V)) (NotBefore c))
     \<and> (IssuedAt c = zero_time \<or> \<not> before (time_add now (leeway V)) (IssuedAt c))"
  by (auto simp: check_claims_def Let_def split: if_splits)

lemma auth_purpose: "fits_purpose [] ty \<longleftrightarrow> ty \<in> {[], ''JWT'', ''at+jwt''}"
  by (simp add: fits_purpose_def)

lemma audience_ok_iff:
  "audience_ok V aud \<longleftrightarrow> for_audience V \<in> set aud \<and> (aud = [for_audience V] \<or> (AllowMultipleAudiences V \<and> 2 \<le> length aud))"
  by (cases aud; cases "tl aud") (auto simp: audience_ok_def)

section \<open>Properties\<close>

text \<open>
  C8: Exactly which authentication tokens are accepted: three base64url parts; a header naming RS256, a
  purpose that is not logout and the key the issuer publishes under the named identifier; a signature by that
  key over the first two parts; this issuer; this client as the audience, alone unless several are allowed;
  an expiry that has not passed, and no start or issue time in the future, all within the leeway; a subject;
  no logout events; and the expected nonce.
\<close>

theorem token_accepted_iff:
  "verify_nonce R V clk get c token nonce = (Inr cl, c') \<longleftrightarrow>
     is_ok (jwks_url R V)
     \<and> (\<exists>ty kid msg payload sig key m. ty \<in> {[], ''JWT'', ''at+jwt''} \<and> token_parts R token ty kid msg payload sig
       \<and> key_of R V clk get c kid = (Inr key, c') \<and> keys c' kid = Some key \<and> rsa_verify R key (sha256 (bytes_of msg)) sig
       \<and> parse_claims R payload = Inr m \<and> cl = m\<lparr>KeyID := kid\<rparr>)
     \<and> Issuer cl = for_issuer V
     \<and> for_audience V \<in> set (Audience cl) \<and> (Audience cl = [for_audience V] \<or> (AllowMultipleAudiences V \<and> 2 \<le> length (Audience cl)))
     \<and> ExpiresAt cl \<noteq> zero_time \<and> before (clk 5) (time_add (ExpiresAt cl) (leeway V))
     \<and> (NotBefore cl = zero_time \<or> \<not> before (time_add (clk 5) (leeway V)) (NotBefore cl))
     \<and> (IssuedAt cl = zero_time \<or> \<not> before (time_add (clk 5) (leeway V)) (IssuedAt cl))
     \<and> Subject cl \<noteq> [] \<and> Raw cl ''events'' = None \<and> (nonce = [] \<or> Nonce cl = nonce)"
  (is "?L \<longleftrightarrow> ?R")
proof -
  have "?L \<longleftrightarrow> verify_jwt R V clk get c token [] = (Inr cl, c') \<and> Raw cl ''events'' = None \<and> Subject cl \<noteq> []
      \<and> (nonce = [] \<or> Nonce cl = nonce)"
    by (auto simp: verify_nonce_def split: prod.splits sum.splits if_splits)
  also have "\<dots> \<longleftrightarrow> ?R"
    unfolding verify_jwt_ok check_claims_ok audience_ok_iff auth_purpose using key_of_ok [of R V clk get c] by blast
  finally show ?thesis .
qed

text \<open>
  Purposes are kept apart. A token accepted for authentication is refused as a logout token, with any
  cache, at any time and whatever the issuer publishes.
\<close>

theorem purposes_are_disjoint:
  assumes "verify_nonce R V clk get c token nonce = (Inr cl, c')"
  shows "fst (verify_logout R W clk' get' d token) \<noteq> Inr l"
proof
  assume "fst (verify_logout R W clk' get' d token) = Inr l"
  then obtain cl' d' where "verify_jwt R W clk' get' d token ''logout+jwt'' = (Inr cl', d')"
    by (auto simp: verify_logout_def split: prod.splits sum.splits)
  then obtain kid msg payload sig where l: "token_parts R token ''logout+jwt'' kid msg payload sig"
    by (auto simp: verify_jwt_ok fits_purpose_def)
  from assms have "\<exists>x. verify_jwt R V clk get c token [] = (Inr x, c')"
    by (auto simp: verify_nonce_def split: prod.splits sum.splits if_splits)
  then obtain ty kid' msg' payload' sig' where "fits_purpose [] ty" "token_parts R token ty kid' msg' payload' sig'"
    unfolding verify_jwt_ok by blast
  then show False using token_parts_unique [OF l, of ty kid' msg' payload' sig'] by (auto simp: fits_purpose_def)
qed

text \<open>
  C19: The replay window of a logout token. A token accepted once is accepted before its \<open>ReplayUntil\<close>
  and never at or after it, under any cache and reply; that is at most five minutes and twice the leeway
  after it was issued. So a receiver that remembers its identifier until then refuses every replay.
\<close>

theorem logout_accepted_only_before_replay_until:
  assumes "verify_logout R V clk get c token = (Inr l, c')" "\<not> before (clk' 6) (ReplayUntil l)"
  shows "\<exists>e. fst (verify_logout R V clk' get' d token) = Inl e \<and> before (clk 6) (ReplayUntil l)
    \<and> \<not> before (time_add (time_add (logout_issued l) max_logout_token_age) (leeway V)) (ReplayUntil l)"
proof -
  obtain cl where cl: "verify_jwt R V clk get c token ''logout+jwt'' = (Inr cl, c')" "check_logout R V (clk 6) cl = Inr l"
    using assms(1) by (auto simp: verify_logout_def split: prod.splits sum.splits)
  then have l: "before (clk 6) (replay_until V cl)" "ReplayUntil l = replay_until V cl" "logout_issued l = IssuedAt cl"
    by (auto simp: check_logout_def split: if_splits option.splits prod.splits)
  obtain ty kid msg payload sig m where p: "token_parts R token ty kid msg payload sig"
    "parse_claims R payload = Inr m" "cl = m\<lparr>KeyID := kid\<rparr>"
    using cl(1) by (auto simp: verify_jwt_ok check_claims_ok)
  have "\<exists>e. fst (verify_logout R V clk' get' d token) = Inl e"
  proof (rule ccontr)
    assume "\<nexists>e. fst (verify_logout R V clk' get' d token) = Inl e"
    then obtain l' d' where "verify_logout R V clk' get' d token = (Inr l', d')"
      by (metis prod.collapse sum.exhaust)
    then obtain cl' where cl': "verify_jwt R V clk' get' d token ''logout+jwt'' = (Inr cl', d')" "check_logout R V (clk' 6) cl' = Inr l'"
      by (auto simp: verify_logout_def split: prod.splits sum.splits)
    obtain ty' kid' msg' payload' sig' m' where p': "token_parts R token ty' kid' msg' payload' sig'"
      "parse_claims R payload' = Inr m'" "cl' = m'\<lparr>KeyID := kid'\<rparr>"
      using cl'(1) by (auto simp: verify_jwt_ok check_claims_ok)
    have "cl' = cl" using token_parts_unique [OF p(1) p'(1)] p p' by simp
    with cl'(2) have "before (clk' 6) (replay_until V cl)"
      by (auto simp: check_logout_def split: if_splits option.splits prod.splits)
    with l assms(2) show False by simp
  qed
  moreover have "\<not> before f (replay_until V cl)"
    if "f = time_add (time_add (IssuedAt cl) max_logout_token_age) (leeway V)" for f
    unfolding replay_until_def that by (auto simp: Let_def before_def)
  ultimately show ?thesis using l by auto
qed

section \<open>Spellings and far dates\<close>

text \<open>
  The signature part of a token has several spellings: the decoder ignores the unused low bits of the last
  symbol and skips line breaks, so verification does not tell these tokens apart.
\<close>

lemma signature_spellings:
  assumes "CHR ''.'' \<notin> set h" "CHR ''.'' \<notin> set p"
  shows "verify_jwt R V clk get c (h @ ''.'' @ p @ ''.'' @ ''QQ'') typ = verify_jwt R V clk get c (h @ ''.'' @ p @ ''.'' @ ''QR'') typ"
proof -
  have parts: "split_on (CHR ''.'') (h @ ''.'' @ p @ ''.'' @ s) = [h, p, s]" if "CHR ''.'' \<notin> set s" for s
    using that split_on_append [OF assms(1), of "p @ ''.'' @ s"] split_on_append [OF assms(2), of s] by (simp add: split_on_none)
  have q: "CHR ''.'' \<notin> set ''QQ''" "CHR ''.'' \<notin> set ''QR''" by simp_all
  have e: "decode_segment ''QQ'' = decode_segment ''QR''"
    by (simp add: decode_segment_def b64_decode_def strip_newlines_def b64_url_def b64_byte1_def)
  have "parse_token R V (h @ ''.'' @ p @ ''.'' @ ''QQ'') typ = parse_token R V (h @ ''.'' @ p @ ''.'' @ ''QR'') typ"
    unfolding parse_token_def parts [OF q(1)] parts [OF q(2)] list.case e by (rule refl)
  then show ?thesis by (simp add: verify_jwt_def)
qed

text \<open>
  A start or issue time close to the largest 64-bit number of seconds wraps around in \<open>time.Unix\<close> and
  counts as the distant past: such a token is not refused as not yet valid.
\<close>

lemma far_future_is_past:
  "\<not> before (time_add (unix_time 0) (60 * second)) (unix_time max_int64)" "unix_time max_int64 \<noteq> zero_time"
  by (simp_all add: unix_time_def wrap64_def max_int64_def time_add_def second_def add_seconds_def before_def zero_time_def Let_def)

section \<open>Instances\<close>

text \<open>An issuer with one key, and readers that take the bytes of a claim as its text.\<close>

definition reads0 :: "string \<Rightarrow> Reads" where
  "reads0 typ = \<lparr>parse_url = (\<lambda>_. Some (''https'', ''h'', False)), read_header = (\<lambda>_. Some (''RS256'', ''k'', typ)),
     read_object = (\<lambda>b. if b = [0x41] then Some (Some [''iss'' \<mapsto> bytes_of ''i'', ''sub'' \<mapsto> bytes_of ''s'',
          ''aud'' \<mapsto> bytes_of ''a'', ''iat'' \<mapsto> bytes_of ''1'', ''exp'' \<mapsto> bytes_of ''9'', ''jti'' \<mapsto> bytes_of ''j''])
        else if b = [0x42] then Some (Some [''iss'' \<mapsto> bytes_of ''i'', ''sub'' \<mapsto> bytes_of ''s'',
          ''aud'' \<mapsto> bytes_of ''a'', ''iat'' \<mapsto> bytes_of ''1'', ''exp'' \<mapsto> bytes_of ''9'', ''jti'' \<mapsto> bytes_of ''j'', ''events'' \<mapsto> [1]])
        else Some (Some (\<lambda>_. Some [2]))),
     read_text = (\<lambda>b. Some (string_of b)), read_texts = (\<lambda>_. None), read_number = (\<lambda>b. Some (string_of b)),
     parse_float = (\<lambda>_. None), read_jwks = (\<lambda>_. None), rsa_verify = (\<lambda>_ _ _. True)\<rparr>"

definition verifier0 :: Verifier where
  "verifier0 = \<lparr>for_issuer = ''i'', for_audience = ''a'', AllowMultipleAudiences = False, JWKSURL = [],
     Leeway = 0, MinRefresh = 0, MaxAge = 0\<rparr>"

definition cache0 :: Cache where
  "cache0 = \<lparr>keys = [''k'' \<mapsto> \<lparr>modulus = 1, exponent = 3\<rparr>], fetched_at = unix_time 5, attempted_at = unix_time 5\<rparr>"

lemma decode0: "decode_segment ''QQ'' = Some [0x41]" "decode_segment ''Qg'' = Some [0x42]"
  by (simp_all add: decode_segment_def b64_decode_def strip_newlines_def b64_url_def b64_byte1_def)

lemma jwks0: "is_ok (jwks_url (reads0 typ) verifier0)"
  by (simp add: jwks_url_def require_https_def reads0_def Let_def)

lemma key0: "key_of (reads0 typ) verifier0 (\<lambda>_. unix_time 5) get cache0 ''k'' = (Inr \<lparr>modulus = 1, exponent = 3\<rparr>, cache0)"
  by (simp add: key_of_def key_first_def cache0_def lookup_key_def time_sub_def sat64_def max_int64_def min_int64_def max_age_def verifier0_def second_def)

lemma split0: "split_on (CHR ''.'') ''QQ.QQ.QQ'' = [''QQ'', ''QQ'', ''QQ'']" "split_on (CHR ''.'') ''QQ.Qg.QQ'' = [''QQ'', ''Qg'', ''QQ'']"
proof -
  have q: "CHR ''.'' \<notin> set ''QQ''" "CHR ''.'' \<notin> set ''Qg''" by simp_all
  have "''QQ.QQ.QQ'' = ''QQ'' @ CHR ''.'' # ''QQ'' @ CHR ''.'' # ''QQ''" "''QQ.Qg.QQ'' = ''QQ'' @ CHR ''.'' # ''Qg'' @ CHR ''.'' # ''QQ''" by simp_all
  then show "split_on (CHR ''.'') ''QQ.QQ.QQ'' = [''QQ'', ''QQ'', ''QQ'']" "split_on (CHR ''.'') ''QQ.Qg.QQ'' = [''QQ'', ''Qg'', ''QQ'']"
    by (simp_all only: split_on_append [OF q(1)] split_on_append [OF q(2)] split_on_none [OF q(1)])
qed

lemma parts0: "token_parts (reads0 typ) ''QQ.QQ.QQ'' typ ''k'' ''QQ.QQ'' [0x41] [0x41]"
  "token_parts (reads0 typ) ''QQ.Qg.QQ'' typ ''k'' ''QQ.Qg'' [0x42] [0x41]"
  unfolding token_parts_def split0 by (simp_all add: decode0) (simp_all add: reads0_def)

lemma date0: "numeric_date (reads0 typ) (Some (bytes_of ''1'')) = Inr (unix_time 1)"
  "numeric_date (reads0 typ) (Some (bytes_of ''9'')) = Inr (unix_time 9)"
proof -
  have t: "trim_space ''1'' = ''1''" "trim_space ''9'' = ''9''" by (intro trim_space_id; simp add: is_ascii_def is_space_def)+
  have rn: "read_number (reads0 typ) b = Some (string_of b)" for b by (simp add: reads0_def)
  have ne: "bytes_of ''1'' \<noteq> []" "bytes_of ''9'' \<noteq> []" by simp_all
  have dg: "is_digit (CHR ''1'')" "is_digit (CHR ''9'')" by (simp_all add: is_digit_def)
  have p: "parse_int 64 ''1'' = Some 1" "parse_int 64 ''9'' = Some 9"
    by (simp_all add: parse_int_def parse_uint_def dec_val_def is_digit_def Let_def)
  show "numeric_date (reads0 typ) (Some (bytes_of ''1'')) = Inr (unix_time 1)" "numeric_date (reads0 typ) (Some (bytes_of ''9'')) = Inr (unix_time 9)"
    by (simp_all add: numeric_date_def rn t ne p dg del: bytes_of_Cons)
qed

lemma claims0: "\<exists>m. parse_claims (reads0 typ) [0x41] = Inr m \<and> Issuer m = ''i'' \<and> Subject m = ''s'' \<and> Audience m = [''a'']
    \<and> ExpiresAt m = unix_time 9 \<and> IssuedAt m = unix_time 1 \<and> NotBefore m = zero_time \<and> Raw m ''events'' = None"
  "\<exists>m. parse_claims (reads0 typ) [0x42] = Inr m \<and> Issuer m = ''i'' \<and> Subject m = ''s'' \<and> Audience m = [''a'']
    \<and> ExpiresAt m = unix_time 9 \<and> IssuedAt m = unix_time 1 \<and> NotBefore m = zero_time
    \<and> Raw m = [''iss'' \<mapsto> bytes_of ''i'', ''sub'' \<mapsto> bytes_of ''s'', ''aud'' \<mapsto> bytes_of ''a'', ''iat'' \<mapsto> bytes_of ''1'',
        ''exp'' \<mapsto> bytes_of ''9'', ''jti'' \<mapsto> bytes_of ''j'', ''events'' \<mapsto> [1]]"
proof -
  have o: "read_object (reads0 typ) [0x41] = Some (Some [''iss'' \<mapsto> bytes_of ''i'', ''sub'' \<mapsto> bytes_of ''s'',
      ''aud'' \<mapsto> bytes_of ''a'', ''iat'' \<mapsto> bytes_of ''1'', ''exp'' \<mapsto> bytes_of ''9'', ''jti'' \<mapsto> bytes_of ''j''])"
    "read_object (reads0 typ) [0x42] = Some (Some [''iss'' \<mapsto> bytes_of ''i'', ''sub'' \<mapsto> bytes_of ''s'',
      ''aud'' \<mapsto> bytes_of ''a'', ''iat'' \<mapsto> bytes_of ''1'', ''exp'' \<mapsto> bytes_of ''9'', ''jti'' \<mapsto> bytes_of ''j'', ''events'' \<mapsto> [1]])"
    by (simp_all add: reads0_def)
  have t: "read_text (reads0 typ) b = Some (string_of b)" for b by (simp add: reads0_def)
  have n: "numeric_date (reads0 typ) None = Inr zero_time" by (simp add: numeric_date_def)
  show "\<exists>m. parse_claims (reads0 typ) [0x41] = Inr m \<and> Issuer m = ''i'' \<and> Subject m = ''s'' \<and> Audience m = [''a'']
    \<and> ExpiresAt m = unix_time 9 \<and> IssuedAt m = unix_time 1 \<and> NotBefore m = zero_time \<and> Raw m ''events'' = None"
    by (simp add: parse_claims_def o parse_audience_def t date0 n claim_text_def del: bytes_of_Cons)
  show "\<exists>m. parse_claims (reads0 typ) [0x42] = Inr m \<and> Issuer m = ''i'' \<and> Subject m = ''s'' \<and> Audience m = [''a'']
    \<and> ExpiresAt m = unix_time 9 \<and> IssuedAt m = unix_time 1 \<and> NotBefore m = zero_time
    \<and> Raw m = [''iss'' \<mapsto> bytes_of ''i'', ''sub'' \<mapsto> bytes_of ''s'', ''aud'' \<mapsto> bytes_of ''a'', ''iat'' \<mapsto> bytes_of ''1'',
        ''exp'' \<mapsto> bytes_of ''9'', ''jti'' \<mapsto> bytes_of ''j'', ''events'' \<mapsto> [1]]"
    by (simp add: parse_claims_def o parse_audience_def t date0 n claim_text_def del: bytes_of_Cons)
qed

lemma times0: "before (unix_time 5) (time_add (unix_time 9) (leeway verifier0))" "before (unix_time 1) (unix_time 9)"
  "\<not> before (time_add (unix_time 5) (leeway verifier0)) (unix_time 1)" "unix_time 1 \<noteq> zero_time" "unix_time 9 \<noteq> zero_time"
  by (simp_all add: leeway_def verifier0_def unix_time_def wrap64_def time_add_def second_def add_seconds_def before_def zero_time_def Let_def)

lemma accepted0:
  "\<exists>cl. verify_nonce (reads0 ''JWT'') verifier0 (\<lambda>_. unix_time 5) get cache0 ''QQ.QQ.QQ'' [] = (Inr cl, cache0)"
proof -
  obtain m where m: "parse_claims (reads0 ''JWT'') [0x41] = Inr m" "Issuer m = ''i''" "Subject m = ''s''" "Audience m = [''a'']"
    "ExpiresAt m = unix_time 9" "IssuedAt m = unix_time 1" "NotBefore m = zero_time" "Raw m ''events'' = None"
    using claims0(1) by blast
  have r: "rsa_verify (reads0 ''JWT'') k d s" for k d s by (simp add: reads0_def)
  have c: "check_claims verifier0 (unix_time 5) (m\<lparr>KeyID := ''k''\<rparr>) = Inr (m\<lparr>KeyID := ''k''\<rparr>)"
    using m times0 by (simp add: check_claims_ok audience_ok_def) (simp add: verifier0_def)
  have "verify_jwt (reads0 ''JWT'') verifier0 (\<lambda>_. unix_time 5) get cache0 ''QQ.QQ.QQ'' [] = (Inr (m\<lparr>KeyID := ''k''\<rparr>), cache0)"
    unfolding verify_jwt_ok using jwks0 parts0(1) key0 r m(1) c fits_purpose_def by fastforce
  with m show ?thesis by (simp add: verify_nonce_def)
qed

lemma token_accepted_iff_witness:
  "\<exists>cl. verify_nonce (reads0 ''JWT'') verifier0 (\<lambda>_. unix_time 5) (\<lambda>_. NoReply) cache0 ''QQ.QQ.QQ'' [] = (Inr cl, cache0)
     \<and> Issuer cl = ''i'' \<and> ''a'' \<in> set (Audience cl) \<and> Subject cl \<noteq> []"
proof -
  obtain cl where cl: "verify_nonce (reads0 ''JWT'') verifier0 (\<lambda>_. unix_time 5) (\<lambda>_. NoReply) cache0 ''QQ.QQ.QQ'' [] = (Inr cl, cache0)"
    using accepted0 by blast
  have v: "for_issuer verifier0 = ''i''" "for_audience verifier0 = ''a''" by (simp_all add: verifier0_def)
  from cl have "Issuer cl = for_issuer verifier0 \<and> for_audience verifier0 \<in> set (Audience cl) \<and> Subject cl \<noteq> []"
    unfolding token_accepted_iff by blast
  with cl v show ?thesis by auto
qed

lemma purposes_are_disjoint_witness:
  "\<exists>cl. verify_nonce (reads0 ''JWT'') verifier0 (\<lambda>_. unix_time 5) (\<lambda>_. NoReply) cache0 ''QQ.QQ.QQ'' [] = (Inr cl, cache0)
     \<and> (\<forall>l. fst (verify_logout (reads0 ''JWT'') verifier0 (\<lambda>_. unix_time 5) (\<lambda>_. NoReply) cache0 ''QQ.QQ.QQ'') \<noteq> Inr l)"
  using accepted0 [of "\<lambda>_. NoReply"] purposes_are_disjoint by blast

lemma logout0:
  "\<exists>l. verify_logout (reads0 ''logout+jwt'') verifier0 (\<lambda>_. unix_time 5) get cache0 ''QQ.Qg.QQ'' = (Inr l, cache0)
     \<and> ReplayUntil l = time_add (unix_time 9) (leeway verifier0)"
proof -
  let ?R = "reads0 ''logout+jwt''"
  obtain m where m: "parse_claims ?R [0x42] = Inr m" "Issuer m = ''i''" "Audience m = [''a'']"
    "ExpiresAt m = unix_time 9" "IssuedAt m = unix_time 1" "NotBefore m = zero_time"
    "Raw m = [''iss'' \<mapsto> bytes_of ''i'', ''sub'' \<mapsto> bytes_of ''s'', ''aud'' \<mapsto> bytes_of ''a'', ''iat'' \<mapsto> bytes_of ''1'',
        ''exp'' \<mapsto> bytes_of ''9'', ''jti'' \<mapsto> bytes_of ''j'', ''events'' \<mapsto> [1]]"
    using claims0(2) by blast
  let ?m = "m\<lparr>KeyID := ''k''\<rparr>"
  have r: "rsa_verify ?R k d s" for k d s by (simp add: reads0_def)
  have c: "check_claims verifier0 (unix_time 5) ?m = Inr ?m"
    using m times0 by (simp add: check_claims_ok audience_ok_def) (simp add: verifier0_def)
  have p: "fits_purpose ''logout+jwt'' ''logout+jwt''" by (simp add: fits_purpose_def)
  have j: "verify_jwt ?R verifier0 (\<lambda>_. unix_time 5) get cache0 ''QQ.Qg.QQ'' ''logout+jwt'' = (Inr ?m, cache0)"
    unfolding verify_jwt_ok using jwks0 parts0(2) key0 r m(1) c p by fastforce
  have t: "read_text ?R b = Some (string_of b)" for b by (simp add: reads0_def)
  have o: "read_object ?R [1] = Some (Some (\<lambda>_. Some [2]))" "read_object ?R [2] = Some (Some (\<lambda>_. Some [2]))"
    by (simp_all add: reads0_def)
  have e: "logout_event ?R (Raw m)" by (simp add: logout_event_def m o del: bytes_of_Cons)
  have u: "replay_until verifier0 ?m = time_add (unix_time 9) (leeway verifier0)"
    by (simp add: replay_until_def m max_logout_token_age_def leeway_def verifier0_def unix_time_def wrap64_def time_add_def second_def
        add_seconds_def before_def Let_def)
  have "check_logout ?R verifier0 (unix_time 5) ?m = Inr \<lparr>logout_issuer = ''i'', logout_subject = ''s'', SessionID = [],
      logout_audience = [''a''], JWTID = ''j'', logout_issued = unix_time 1, logout_expires = unix_time 9,
      ReplayUntil = time_add (unix_time 9) (leeway verifier0), logout_key = ''k''\<rparr>"
    using e times0 unfolding check_logout_def u
    by (simp add: m logout_text_def t del: bytes_of_Cons)
  with j show ?thesis by (simp add: verify_logout_def)
qed

lemma logout_accepted_only_before_replay_until_witness:
  "\<exists>l e. verify_logout (reads0 ''logout+jwt'') verifier0 (\<lambda>_. unix_time 5) (\<lambda>_. NoReply) cache0 ''QQ.Qg.QQ'' = (Inr l, cache0)
     \<and> fst (verify_logout (reads0 ''logout+jwt'') verifier0 (\<lambda>_. unix_time 100) (\<lambda>_. NoReply) cache0 ''QQ.Qg.QQ'') = Inl e"
proof -
  obtain l where l: "verify_logout (reads0 ''logout+jwt'') verifier0 (\<lambda>_. unix_time 5) (\<lambda>_. NoReply) cache0 ''QQ.Qg.QQ'' = (Inr l, cache0)"
    "ReplayUntil l = time_add (unix_time 9) (leeway verifier0)" using logout0 by blast
  have "\<not> before ((\<lambda>_. unix_time 100) (6 :: nat)) (ReplayUntil l)"
    by (simp add: l(2) leeway_def verifier0_def unix_time_def wrap64_def time_add_def second_def add_seconds_def before_def Let_def)
  from logout_accepted_only_before_replay_until [OF l(1) this] l(1) show ?thesis by blast
qed

end
