(* ===== verification/OidcKeys.thy ===== *)
theory OidcKeys
  imports OidcTokens
begin

text \<open>
  The key cache under concurrent verifications: the critical sections of \<open>key\<close> as atomic steps of any number
  of callers, the fetch lock between them and a clock that does not run backwards. At most one fetch is under
  way, fetches are at least \<open>MinRefresh\<close> apart, and every key used was published.
\<close>

section \<open>The step relation\<close>

datatype key_phase = Idle | WantsLock string | HasLock string | Fetching string | Answered_key "oidc_error + rsa_key"

text \<open>
  \<open>attempts\<close> and \<open>published\<close> record, newest first, when a fetch was started and the key sets fetches returned.
\<close>

record FetchSystem =
  cache :: Cache
  fetch_lock :: "nat option"
  phase :: "nat \<Rightarrow> key_phase"
  clock :: instant
  attempts :: "instant list"
  published :: "(string \<rightharpoonup> rsa_key) list"

definition empty_cache :: Cache where
  "empty_cache = \<lparr>keys = Map.empty, fetched_at = zero_time, attempted_at = zero_time\<rparr>"

definition key_start :: "instant \<Rightarrow> FetchSystem" where
  "key_start t = \<lparr>cache = empty_cache, fetch_lock = None, phase = (\<lambda>_. Idle), clock = t, attempts = [], published = []\<rparr>"

definition no_earlier :: "instant \<Rightarrow> instant \<Rightarrow> bool" where
  "no_earlier a b \<longleftrightarrow> nanos a \<le> nanos b"

inductive cache_step :: "Verifier \<Rightarrow> FetchSystem \<Rightarrow> FetchSystem \<Rightarrow> bool" for V where
  step_cached: "phase s i = Idle \<Longrightarrow> no_earlier (clock s) now \<Longrightarrow> key_first V now (cache s) kid = Some r
    \<Longrightarrow> cache_step V s (s\<lparr>phase := (phase s)(i := Answered_key r), clock := now\<rparr>)"
| step_want: "phase s i = Idle \<Longrightarrow> no_earlier (clock s) now \<Longrightarrow> key_first V now (cache s) kid = None
    \<Longrightarrow> cache_step V s (s\<lparr>phase := (phase s)(i := WantsLock kid), clock := now\<rparr>)"
| step_lock: "phase s i = WantsLock kid \<Longrightarrow> fetch_lock s = None
    \<Longrightarrow> cache_step V s (s\<lparr>phase := (phase s)(i := HasLock kid), fetch_lock := Some i\<rparr>)"
| step_waited: "phase s i = HasLock kid \<Longrightarrow> no_earlier (clock s) t1 \<Longrightarrow> no_earlier t1 t2 \<Longrightarrow> no_earlier t2 t3
    \<Longrightarrow> key_second V t1 t2 t3 (cache s) kid = (Some r, c')
    \<Longrightarrow> cache_step V s (s\<lparr>phase := (phase s)(i := Answered_key r), fetch_lock := None, clock := t3, cache := c'\<rparr>)"
| step_fetch: "phase s i = HasLock kid \<Longrightarrow> no_earlier (clock s) t1 \<Longrightarrow> no_earlier t1 t2 \<Longrightarrow> no_earlier t2 t3
    \<Longrightarrow> key_second V t1 t2 t3 (cache s) kid = (None, c')
    \<Longrightarrow> cache_step V s (s\<lparr>phase := (phase s)(i := Fetching kid), clock := t3, cache := c', attempts := t3 # attempts s\<rparr>)"
| step_finish: "phase s i = Fetching kid \<Longrightarrow> no_earlier (clock s) t4 \<Longrightarrow> key_finish t4 fetched (cache s) kid = (r, c')
    \<Longrightarrow> cache_step V s (s\<lparr>phase := (phase s)(i := Answered_key r), fetch_lock := None, clock := t4, cache := c',
          published := (case fetched of Inl _ \<Rightarrow> published s | Inr ks \<Rightarrow> ks # published s)\<rparr>)"
| step_again: "phase s i = Answered_key r \<Longrightarrow> cache_step V s (s\<lparr>phase := (phase s)(i := Idle)\<rparr>)"

section \<open>Invariants\<close>

fun spaced :: "int \<Rightarrow> instant list \<Rightarrow> bool" where
  "spaced gap [] = True"
| "spaced gap [t] = True"
| "spaced gap (t # u # ts) = (gap \<le> nanos t - nanos u \<and> spaced gap (u # ts))"

definition in_section :: "key_phase \<Rightarrow> bool" where
  "in_section p \<longleftrightarrow> (case p of HasLock _ \<Rightarrow> True | Fetching _ \<Rightarrow> True | _ \<Rightarrow> False)"

definition locks_ok :: "FetchSystem \<Rightarrow> bool" where
  "locks_ok s \<longleftrightarrow> (\<forall>i. in_section (phase s i) \<longleftrightarrow> fetch_lock s = Some i)"

definition times_ok :: "Verifier \<Rightarrow> FetchSystem \<Rightarrow> bool" where
  "times_ok V s \<longleftrightarrow> 0 < nanos (clock s) \<and> spaced (min_refresh V) (attempts s)
     \<and> attempted_at (cache s) = (case attempts s of [] \<Rightarrow> zero_time | t # _ \<Rightarrow> t)
     \<and> (\<forall>t \<in> set (attempts s). 0 < nanos t)"

definition was_published :: "FetchSystem \<Rightarrow> rsa_key \<Rightarrow> bool" where
  "was_published s k \<longleftrightarrow> (\<exists>ks \<in> set (published s). k \<in> ran ks)"

definition keys_ok :: "FetchSystem \<Rightarrow> bool" where
  "keys_ok s \<longleftrightarrow> (\<forall>k \<in> ran (keys (cache s)). was_published s k)
     \<and> (\<forall>i k. phase s i = Answered_key (Inr k) \<longrightarrow> was_published s k)"

lemma in_section_simps [simp]: "in_section (HasLock k)" "in_section (Fetching k)" "\<not> in_section Idle"
  "\<not> in_section (WantsLock k)" "\<not> in_section (Answered_key r)"
  by (simp_all add: in_section_def)

lemma in_section_cong: "p = q \<Longrightarrow> in_section p = in_section q"
  by simp

lemma sat64_ge: "m \<le> sat64 d \<Longrightarrow> min_int64 < m \<Longrightarrow> m \<le> d"
  by (auto simp: sat64_def split: if_splits)

lemma nanos_zero [simp]: "nanos zero_time = 0"
  by (simp add: nanos_def zero_time_def)

lemma spaced_Cons: "spaced gap ts \<Longrightarrow> (case ts of [] \<Rightarrow> True | u # _ \<Rightarrow> gap \<le> nanos t - nanos u) \<Longrightarrow> spaced gap (t # ts)"
  by (cases ts) auto

lemma lookup_ran: "lookup_key c kid = Inr k \<Longrightarrow> k \<in> ran (keys c)"
  by (auto simp: lookup_key_ok ran_def)

lemma key_first_ran: "key_first V now c kid = Some (Inr k) \<Longrightarrow> k \<in> ran (keys c)"
  using key_first_ok [of V now c kid k] by (auto simp: ran_def)

lemma locks_step: "cache_step V s s' \<Longrightarrow> locks_ok s \<Longrightarrow> locks_ok s'"
proof (induction rule: cache_step.induct)
  case (step_lock s i kid)
  then have "\<not> in_section (phase s j)" for j by (simp add: locks_ok_def)
  then show ?case by (simp add: locks_ok_def)
next
  case (step_waited s i kid t1 t2 t3 r c')
  then have "fetch_lock s = Some i" unfolding locks_ok_def by (metis in_section_simps(1))
  with step_waited show ?case by (auto simp: locks_ok_def)
next
  case (step_fetch s i kid t1 t2 t3 c')
  then have "fetch_lock s = Some i" unfolding locks_ok_def by (metis in_section_simps(1))
  with step_fetch show ?case by (auto simp: locks_ok_def)
next
  case (step_finish s i kid t4 fetched r c')
  then have "fetch_lock s = Some i" unfolding locks_ok_def by (metis in_section_simps(2))
  with step_finish show ?case by (auto simp: locks_ok_def)
qed (auto simp: locks_ok_def dest: in_section_cong)

lemma times_step:
  assumes "cache_step V s s'" "times_ok V s" "min_int64 < min_refresh V"
  shows "times_ok V s'"
  using assms
proof (induction rule: cache_step.induct)
  case (step_waited s i kid t1 t2 t3 r c')
  have "c' = cache s" using step_waited(5) by (auto simp: key_second_def split: if_splits)
  with step_waited show ?case by (simp add: times_ok_def no_earlier_def)
next
  case (step_fetch s i kid t1 t2 t3 c')
  have c: "c' = (cache s)\<lparr>attempted_at := t3\<rparr>" "\<not> recent_attempt V t2 (cache s)"
    using key_second_ok(2) [OF step_fetch(5)] by simp_all
  have le: "0 < nanos t3" "nanos t2 \<le> nanos t3" using step_fetch(2-4,6) by (simp_all add: no_earlier_def times_ok_def)
  have gap: "case attempts s of [] \<Rightarrow> True | u # _ \<Rightarrow> min_refresh V \<le> nanos t3 - nanos u"
  proof (cases "attempts s")
    case (Cons u us)
    then have u: "attempted_at (cache s) = u" "0 < nanos u" using step_fetch(6) by (simp_all add: times_ok_def)
    then have "u \<noteq> zero_time" by auto
    then have "min_refresh V \<le> time_sub t2 u" using c(2) u by (simp add: recent_attempt_def)
    then have "min_refresh V \<le> nanos t2 - nanos u" using sat64_ge [OF _ step_fetch(7)] by (simp add: time_sub_def)
    with le Cons show ?thesis by simp
  qed simp
  have "spaced (min_refresh V) (t3 # attempts s)"
    by (rule spaced_Cons [OF _ gap]) (use step_fetch(6) in \<open>simp add: times_ok_def\<close>)
  with step_fetch(6) c(1) le show ?case by (simp add: times_ok_def)
next
  case (step_finish s i kid t4 fetched r c')
  have "attempted_at c' = attempted_at (cache s)"
    using step_finish(3) by (auto simp: key_finish_def Let_def split: sum.splits)
  with step_finish show ?case by (simp add: times_ok_def no_earlier_def)
qed (simp_all add: times_ok_def no_earlier_def)

lemma keys_step: "cache_step V s s' \<Longrightarrow> keys_ok s \<Longrightarrow> keys_ok s'"
proof (induction rule: cache_step.induct)
  case (step_cached s i now kid r)
  then show ?case using key_first_ran [of V now "cache s" kid] by (auto simp: keys_ok_def was_published_def)
next
  case (step_waited s i kid t1 t2 t3 r c')
  have "c' = cache s" "r = Inr k \<Longrightarrow> k \<in> ran (keys (cache s))" for k
    using step_waited(5) lookup_ran by (auto simp: key_second_def split: if_splits)
  with step_waited show ?case by (auto simp: keys_ok_def was_published_def)
next
  case (step_fetch s i kid t1 t2 t3 c')
  then show ?case using key_second_ok(2) [OF step_fetch(5)] by (auto simp: keys_ok_def was_published_def)
next
  case (step_finish s i kid t4 fetched r c')
  have k: "r = Inr k \<Longrightarrow> k \<in> ran (keys c')" for k
    using key_finish_ok [of t4 fetched "cache s" kid k c'] step_finish(3) by (auto simp: ran_def)
  show ?case
  proof (cases fetched)
    case (Inl e)
    then have "c' = cache s" using step_finish(3) by (simp add: key_finish_def)
    with Inl k step_finish(4) show ?thesis by (auto simp: keys_ok_def was_published_def)
  next
    case (Inr ks)
    then have "keys c' = ks" using step_finish(3) by (auto simp: key_finish_def Let_def)
    with Inr k step_finish(4) show ?thesis by (auto simp: keys_ok_def was_published_def)
  qed
qed (auto simp: keys_ok_def was_published_def)

definition cache_reachable :: "Verifier \<Rightarrow> instant \<Rightarrow> FetchSystem \<Rightarrow> bool" where
  "cache_reachable V t s \<longleftrightarrow> (cache_step V)\<^sup>*\<^sup>* (key_start t) s"

lemma reachable_ok:
  assumes "cache_reachable V t s" "0 < nanos t" "min_int64 < min_refresh V"
  shows "locks_ok s \<and> times_ok V s \<and> keys_ok s"
  using assms(1) unfolding cache_reachable_def
proof (induction rule: rtranclp_induct)
  case base
  then show ?case using assms(2)
    by (simp add: locks_ok_def times_ok_def keys_ok_def key_start_def empty_cache_def ran_def)
next
  case (step s s')
  then show ?case using locks_step times_step [OF _ _ assms(3)] keys_step by blast
qed

section \<open>Properties\<close>

text \<open>
  C18: However many verifications run at once and whatever key identifiers their tokens name, at most one
  of them is fetching keys, consecutive fetches are started at least \<open>MinRefresh\<close> apart, and a key that is
  returned was in a key set the issuer published.
\<close>

theorem fetches_are_rate_limited:
  assumes "cache_reachable V t s" "0 < nanos t" "min_int64 < min_refresh V"
  shows "(phase s i = Fetching kid \<and> phase s j = Fetching kid' \<longrightarrow> i = j)
    \<and> spaced (min_refresh V) (attempts s)
    \<and> (phase s i = Answered_key (Inr k) \<longrightarrow> was_published s k)"
proof -
  note ok = reachable_ok [OF assms]
  have "fetch_lock s = Some i" if "phase s i = Fetching kid" for i kid
  proof -
    have "in_section (phase s i)" using that by simp
    with ok show ?thesis by (simp add: locks_ok_def)
  qed
  then have "phase s i = Fetching kid \<and> phase s j = Fetching kid' \<longrightarrow> i = j" by (metis option.inject)
  moreover have "spaced (min_refresh V) (attempts s)" using ok by (simp add: times_ok_def)
  moreover have "phase s i = Answered_key (Inr k) \<longrightarrow> was_published s k" using ok by (simp add: keys_ok_def)
  ultimately show ?thesis by blast
qed

text \<open>
  An issuer that cannot be reached does not log anyone out: while a key is cached, looking it up
  answers with it however old the set is and whatever the fetch does, as long as the fetch does not return
  a set without it; a key the issuer has withdrawn is gone with the first successful fetch.
\<close>

theorem stale_keys_survive_outages:
  assumes "keys c kid = Some k"
  shows "(\<forall>e. fetch R V get = Inl e \<longrightarrow> fst (key_of R V clk get c kid) = Inr k)
    \<and> (\<forall>ks c'. key_of R V clk get c kid = (Inl UnknownKey, c') \<longrightarrow> fetch R V get = Inr ks \<longrightarrow> ks kid = None \<and> keys c' = ks)"
proof -
  have first: "key_first V now c kid = None \<or> key_first V now c kid = Some (Inr k)" for now
    using assms by (simp add: key_first_def lookup_key_def)
  have second: "key_second V t1 t2 t3 c kid = (None, c\<lparr>attempted_at := t3\<rparr>) \<or> key_second V t1 t2 t3 c kid = (Some (Inr k), c)" for t1 t2 t3
    using assms by (simp add: key_second_def lookup_key_def)
  consider "key_of R V clk get c kid = (Inr k, c)"
    | "key_of R V clk get c kid = key_finish (clk 4) (fetch R V get) (c\<lparr>attempted_at := clk 3\<rparr>) kid"
  proof (cases "key_first V (clk 0) c kid")
    case None
    with second [of "clk 1" "clk 2" "clk 3"] that show ?thesis
      by (elim disjE) (simp_all add: key_of_def)
  next
    case (Some r)
    with first [of "clk 0"] that(1) show ?thesis by (simp add: key_of_def)
  qed
  then show ?thesis
  proof cases
    case 1
    then show ?thesis by simp
  next
    case 2
    show ?thesis unfolding 2
      by (cases "fetch R V get") (simp_all add: key_finish_def lookup_key_def Let_def assms split: option.split)
  qed
qed

section \<open>Instances\<close>

lemma key_start0: "cache_reachable verifier0 (unix_time 5) (key_start (unix_time 5))"
  by (simp add: cache_reachable_def)

lemma start0: "0 < nanos (unix_time 5)" "min_int64 < min_refresh verifier0"
  by (simp_all add: nanos_def unix_time_def wrap64_def second_def min_refresh_def verifier0_def min_int64_def)

text \<open>One caller fetches, is answered, and a second one with an unknown identifier is not let through.\<close>

definition fetching0 :: FetchSystem where
  "fetching0 = (key_start (unix_time 5))\<lparr>phase := (\<lambda>_. Idle)(0 := Fetching ''k''), fetch_lock := Some 0,
     cache := empty_cache\<lparr>attempted_at := unix_time 5\<rparr>, attempts := [unix_time 5]\<rparr>"

lemma fetching0_reachable: "cache_reachable verifier0 (unix_time 5) fetching0"
proof -
  let ?t = "unix_time 5"
  let ?s = "key_start ?t"
  let ?w = "?s\<lparr>phase := (phase ?s)(0 := WantsLock ''k''), clock := ?t\<rparr>"
  let ?h = "?w\<lparr>phase := (phase ?w)(0 := HasLock ''k''), fetch_lock := Some 0\<rparr>"
  let ?f = "?h\<lparr>phase := (phase ?h)(0 := Fetching ''k''), clock := ?t, cache := (cache ?h)\<lparr>attempted_at := ?t\<rparr>, attempts := ?t # attempts ?h\<rparr>"
  have e: "cache ?s = empty_cache" "phase ?s 0 = Idle" "clock ?s = ?t" by (simp_all add: key_start_def)
  have w: "cache_step verifier0 ?s ?w"
    by (rule step_want) (simp_all add: e no_earlier_def key_first_def empty_cache_def recent_attempt_def)
  have h: "cache_step verifier0 ?w ?h" by (rule step_lock) (simp_all add: key_start_def)
  have f: "cache_step verifier0 ?h ?f"
    by (rule step_fetch [of _ _ "''k''" ?t ?t]) (simp_all add: e no_earlier_def key_second_def empty_cache_def recent_attempt_def)
  have eq: "?f = fetching0" by (simp add: fetching0_def key_start_def)
  have "(cache_step verifier0)\<^sup>*\<^sup>* ?s ?f"
    by (rule rtranclp.rtrancl_into_rtrancl [of "cache_step verifier0", OF _ f],
        rule rtranclp.rtrancl_into_rtrancl [of "cache_step verifier0", OF _ h],
        rule r_into_rtranclp [of "cache_step verifier0"], rule w)
  then show ?thesis unfolding cache_reachable_def eq .
qed

lemma fetches_are_rate_limited_witness:
  "phase fetching0 0 = Fetching ''k'' \<and> spaced (30 * second) (attempts fetching0)"
  using fetches_are_rate_limited [OF fetching0_reachable start0]
  by (simp add: fetching0_def min_refresh_def verifier0_def)

lemma stale_keys_survive_outages_witness:
  "fst (key_of (reads0 ''JWT'') verifier0 (\<lambda>_. unix_time 99999) (\<lambda>_. NoReply) cache0 ''k'') = Inr \<lparr>modulus = 1, exponent = 3\<rparr>"
proof -
  have k: "keys cache0 ''k'' = Some \<lparr>modulus = 1, exponent = 3\<rparr>" by (simp add: cache0_def)
  have "fetch (reads0 ''JWT'') verifier0 (\<lambda>_. NoReply) = Inl JwksFailed"
    using jwks0 [of "''JWT''"] by (auto simp: fetch_def is_ok_iff)
  then show ?thesis using stale_keys_survive_outages [OF k] by blast
qed

end
