(* ===== verification/Logging.thy ===== *)
theory Logging
  imports Prelude Codec GoStrings GoTime AuditChain
begin

text \<open>
  \<open>logging\<close>: the builder of log lines. A line is the list of keys and values handed to \<open>slog\<close>'s JSON
  handler, in order. The vocabulary of declared keys is the set \<open>register\<close> extends; \<open>handle\<close>, \<open>with_attrs\<close>
  and \<open>filter_attrs\<close> are the methods of \<open>handler\<close> in \<open>logging.go\<close>, \<open>sanitize\<close>, \<open>unwrap_kind\<close> and the
  constructors are those of \<open>field.go\<close>, \<open>declare_event\<close> is \<open>event.go\<close> and \<open>audit_line\<close> is \<open>audit.go\<close>.
\<close>

section \<open>Sanitizing\<close>

definition max_value_bytes :: nat where
  "max_value_bytes = 256"

definition trunc_marker :: string where
  "trunc_marker = encode_rune 0x2026"

definition control :: "nat \<Rightarrow> bool" where
  "control r \<longleftrightarrow> r < 0x20 \<or> r = 0x7F \<or> (0x80 \<le> r \<and> r \<le> 0x9F) \<or> r = rune_error"

fun sanitize_loop :: "string \<Rightarrow> nat list \<Rightarrow> string \<times> bool" where
  "sanitize_loop b [] = (b, False)"
| "sanitize_loop b (r # rs) =
     (let w = encode_rune (if control r then rune_error else r)
      in if max_value_bytes - length trunc_marker < length b + length w then (b @ trunc_marker, True)
         else sanitize_loop (b @ w) rs)"

definition sanitize :: "string \<Rightarrow> string \<times> bool" where
  "sanitize s = sanitize_loop [] (map fst (runes s))"

section \<open>Values and fields\<close>

text \<open>
  The kinds of an \<open>slog.Value\<close>; times are nanoseconds since 1970 in UTC, floats their bits. A list of
  strings arises in audit records only, \<open>VOther\<close> is any other value, a group or a \<open>LogValuer\<close>.
\<close>

datatype slog_value =
    VString string | VInt int | VUint u64 | VFloat u64 | VBool bool | VDuration int | VTime int
  | VStrings "string list" | VOther

text \<open>What an attribute can carry: a raw value, or one of the package's unexported types.\<close>

datatype attr_value = Raw slog_value | EventValue string | AuditValue AuditRecord bool | FieldValue slog_value bool

record Field =
  field_key :: string
  field_val :: slog_value
  field_cut :: bool

definition zero_field :: Field where
  "zero_field = \<lparr>field_key = [], field_val = VOther, field_cut = False\<rparr>"

definition field_attr :: "Field \<Rightarrow> string \<times> attr_value" where
  "field_attr f = (if field_key f = [] then ([], Raw VOther) else (field_key f, FieldValue (field_val f) (field_cut f)))"

definition string_field :: "string \<Rightarrow> string \<Rightarrow> Field" where
  "string_field name v = (case sanitize v of (s, clipped) \<Rightarrow> \<lparr>field_key = name, field_val = VString s, field_cut = clipped\<rparr>)"

definition int_field :: "string \<Rightarrow> int \<Rightarrow> Field" where
  "int_field name v = \<lparr>field_key = name, field_val = VInt v, field_cut = False\<rparr>"

definition bool_field :: "string \<Rightarrow> bool \<Rightarrow> Field" where
  "bool_field name v = \<lparr>field_key = name, field_val = VBool v, field_cut = False\<rparr>"

definition time_field :: "string \<Rightarrow> int \<Rightarrow> Field" where
  "time_field name v = \<lparr>field_key = name, field_val = VTime v, field_cut = False\<rparr>"

section \<open>The vocabulary\<close>

definition reserved_keys :: "string list" where
  "reserved_keys = [''timestamp'', ''level'', ''message'', ''app'', ''event'', ''request_id'', ''severity'', ''facility'',
     ''dropped_fields'', ''truncated_fields'', ''seq'', ''prev'', ''hash'', ''fields'', ''audit_fields_mismatch'']"

definition lower_letter :: "char \<Rightarrow> bool" where
  "lower_letter c = (let n = of_char c :: nat in 97 \<le> n \<and> n \<le> 122)"

definition key_pattern :: "string \<Rightarrow> bool" where
  "key_pattern s \<longleftrightarrow> (case s of [] \<Rightarrow> False
     | c # cs \<Rightarrow> lower_letter c \<and> list_all (\<lambda>d. lower_letter d \<or> is_digit d \<or> d = CHR ''_'') cs)"

definition rename_slog_key :: "string \<Rightarrow> string" where
  "rename_slog_key k = (if k = ''time'' then ''timestamp'' else if k = ''msg'' then ''message'' else k)"

datatype logging_panic = IsReserved string | RenamedKey string | BadName string | AlreadyDeclared string | NoMessage string

definition register :: "string \<Rightarrow> string set \<Rightarrow> logging_panic + string set" where
  "register name declared =
     (if name \<in> set reserved_keys then Inl (IsReserved name)
      else if rename_slog_key name \<noteq> name then Inl (RenamedKey name)
      else if \<not> key_pattern name then Inl (BadName name)
      else if name \<in> declared then Inl (AlreadyDeclared name)
      else Inr (insert name declared))"

fun register_all :: "string list \<Rightarrow> string set \<Rightarrow> logging_panic + string set" where
  "register_all [] declared = Inr declared"
| "register_all (n # ns) declared = bindE (register n declared) (register_all ns)"

definition shared_vocabulary :: "string list" where
  "shared_vocabulary = [''route'', ''method'', ''status'', ''duration_ms'', ''bytes'', ''outcome'', ''user_id'', ''device_id'',
     ''container_id'', ''object_id'', ''attachment_id'', ''upload_id'', ''session_id'', ''audit_id'', ''count'', ''reason_code'',
     ''retry_after_s'', ''version'', ''error_kind'', ''error_text'', ''remote_ip'', ''user_agent'', ''action'', ''target_id'',
     ''actor_id'', ''capsule_id'', ''share_index'', ''zone'', ''qname'']"

section \<open>Errors as fields\<close>

text \<open>
  An error is a leaf, wraps one error, or joins several of which some may be \<open>nil\<close>; each has its own text.
\<close>

datatype go_error = Leaf string | Wrapped string go_error | Joined string "go_error option list"

definition unwrap_budget_exceeded :: string where
  "unwrap_budget_exceeded = ''error_kind_unwrap_budget_exceeded''"

definition newline :: char where
  "newline = CHR 0x0A"

fun unwrap_kind :: "go_error \<Rightarrow> nat \<Rightarrow> string \<times> nat"
and unwrap_kinds :: "go_error option list \<Rightarrow> nat \<Rightarrow> string list \<times> nat" where
  "unwrap_kind e 0 = (unwrap_budget_exceeded, 0)"
| "unwrap_kind (Leaf text) (Suc b) = (text, b)"
| "unwrap_kind (Wrapped text e) (Suc b) = unwrap_kind e b"
| "unwrap_kind (Joined text es) (Suc b) = (case unwrap_kinds es b of (kinds, b') \<Rightarrow> (join_with newline kinds, b'))"
| "unwrap_kinds [] b = ([], b)"
| "unwrap_kinds (None # es) b = (case unwrap_kinds es b of (kinds, b') \<Rightarrow> ([] # kinds, b'))"
| "unwrap_kinds (Some e # es) b =
     (case unwrap_kind e b of (k, b1) \<Rightarrow> (case unwrap_kinds es b1 of (kinds, b') \<Rightarrow> (k # kinds, b')))"

fun error_text :: "go_error \<Rightarrow> string" where
  "error_text (Leaf text) = text"
| "error_text (Wrapped text e) = text"
| "error_text (Joined text es) = text"

definition err_field :: "go_error option \<Rightarrow> Field" where
  "err_field e = (case e of None \<Rightarrow> zero_field | Some e \<Rightarrow> string_field ''error_kind'' (fst (unwrap_kind e 100)))"

definition err_text_field :: "go_error option \<Rightarrow> Field" where
  "err_text_field e = (case e of None \<Rightarrow> zero_field | Some e \<Rightarrow> string_field ''error_text'' (error_text e))"

section \<open>Events\<close>

record Event =
  event_name :: string
  event_message :: string
  event_level :: int

definition declare_event :: "string \<Rightarrow> string \<Rightarrow> int \<Rightarrow> string set \<Rightarrow> logging_panic + Event \<times> string set" where
  "declare_event name message lvl events =
     (if \<not> key_pattern name then Inl (BadName name)
      else if message = [] then Inl (NoMessage name)
      else if name \<in> events then Inl (AlreadyDeclared name)
      else Inr (\<lparr>event_name = name, event_message = message, event_level = lvl\<rparr>, insert name events))"

text \<open>The starter set.\<close>

definition starter_events :: "(string \<times> string \<times> int) list" where
  "starter_events =
     [(''started'', ''service started'', 0), (''stopped'', ''service stopped'', 0), (''config_loaded'', ''configuration loaded'', 0),
      (''auth_succeeded'', ''authentication succeeded'', 0), (''auth_failed'', ''authentication failed'', 4),
      (''auth_locked'', ''account locked after repeated failures'', 4), (''session_created'', ''session created'', 0),
      (''session_revoked'', ''session revoked'', 0), (''mfa_challenged'', ''second factor requested'', 0),
      (''mfa_failed'', ''second factor rejected'', 4), (''rate_limited'', ''request rate limited'', 4),
      (''admin_action'', ''administrative action performed'', 4), (''key_created'', ''key created'', 0),
      (''key_rotated'', ''key rotated'', 0), (''capsule_sealed'', ''capsule sealed'', 0), (''capsule_opened'', ''capsule opened'', 0),
      (''capsule_open_failed'', ''capsule failed to open'', 4), (''share_issued'', ''recovery share issued'', 0),
      (''share_redeemed'', ''recovery share redeemed'', 4), (''recovery_code_redeemed'', ''recovery code redeemed'', 4),
      (''audit_chain_broken'', ''audit chain failed verification'', 8)]"

fun declare_events :: "(string \<times> string \<times> int) list \<Rightarrow> string set \<Rightarrow> logging_panic + Event list \<times> string set" where
  "declare_events [] evs = Inr ([], evs)"
| "declare_events ((n, m, l) # ds) evs =
     bindE (declare_event n m l evs) (\<lambda>(e, evs). bindE (declare_events ds evs) (\<lambda>(es, evs). Inr (e # es, evs)))"

definition severity_of :: "int \<Rightarrow> int" where
  "severity_of l = (if 8 \<le> l then 3 else if 4 \<le> l then 4 else if 0 \<le> l then 6 else 7)"

section \<open>Configuration\<close>

text \<open>\<open>slog.Level.UnmarshalText\<close>: a name and an offset.\<close>

definition level_name :: "string \<Rightarrow> int option" where
  "level_name s = (if s = ''DEBUG'' then Some (- 4) else if s = ''INFO'' then Some 0
     else if s = ''WARN'' then Some 4 else if s = ''ERROR'' then Some 8 else None)"

definition parse_level :: "(nat \<Rightarrow> nat) \<Rightarrow> string \<Rightarrow> int option" where
  "parse_level up s =
     (let name = takeWhile (\<lambda>c. c \<noteq> CHR ''+'' \<and> c \<noteq> CHR ''-'') s;
          rest = dropWhile (\<lambda>c. c \<noteq> CHR ''+'' \<and> c \<noteq> CHR ''-'') s
      in case (if rest = [] then Some 0 else atoi rest) of
           None \<Rightarrow> None
         | Some offset \<Rightarrow> map_option (\<lambda>l. wrap64 (l + offset)) (level_name (to_upper up name)))"

text \<open>\<open>FromEnv\<close>: the level, if the variable holds one; \<open>None\<close> outside is an error.\<close>

definition level_from_env :: "(nat \<Rightarrow> nat) \<Rightarrow> string option \<Rightarrow> int option option" where
  "level_from_env up env =
     (case env of
        None \<Rightarrow> Some None
      | Some raw \<Rightarrow> if raw = [] then Some None else map_option Some (parse_level up (to_upper up raw)))"

record LogHandler =
  h_app :: string
  h_facility :: int
  h_attrs :: "(string \<times> slog_value) list"
  attr_dropped :: nat
  attr_truncated :: nat

record Logger =
  ops :: LogHandler
  sec :: LogHandler
  log_level :: int

definition new_handler :: "string \<Rightarrow> int \<Rightarrow> LogHandler" where
  "new_handler app facility = \<lparr>h_app = app, h_facility = facility, h_attrs = [], attr_dropped = 0, attr_truncated = 0\<rparr>"

definition new_logger :: "string \<Rightarrow> int option \<Rightarrow> Logger option" where
  "new_logger app lvl =
     (if \<not> key_pattern (map (\<lambda>c. if c = CHR ''-'' then CHR ''_'' else c) app) then None
      else Some \<lparr>ops = new_handler app 16, sec = new_handler app 10,
                 log_level = (case lvl of None \<Rightarrow> 0 | Some l \<Rightarrow> l)\<rparr>)"

section \<open>The handler\<close>

definition audit_attrs :: "AuditRecord \<Rightarrow> bool \<Rightarrow> (string \<times> slog_value) list" where
  "audit_attrs r mismatch =
     [(''seq'', VUint (Seq r)), (''prev'', VString (Prev r)), (''hash'', VString (Hash r)), (''fields'', VStrings (Fields r))]
     @ (if mismatch then [(''audit_fields_mismatch'', VBool True)] else [])"

definition scalar :: "slog_value \<Rightarrow> bool" where
  "scalar v \<longleftrightarrow> (case v of VInt _ \<Rightarrow> True | VUint _ \<Rightarrow> True | VFloat _ \<Rightarrow> True | VBool _ \<Rightarrow> True
     | VDuration _ \<Rightarrow> True | VTime _ \<Rightarrow> True | _ \<Rightarrow> False)"

text \<open>One attribute: what is kept of it, and how many were dropped and clipped.\<close>

definition filter_attr :: "string set \<Rightarrow> string \<times> attr_value \<Rightarrow> (string \<times> slog_value) list \<times> nat \<times> nat" where
  "filter_attr declared a =
     (case a of (k, v) \<Rightarrow>
        (case v of
           EventValue name \<Rightarrow> ([(''event'', VString name)], 0, 0)
         | AuditValue r mismatch \<Rightarrow> (audit_attrs r mismatch, 0, 0)
         | FieldValue x clipped \<Rightarrow> ([(k, x)], 0, if clipped then 1 else 0)
         | Raw x \<Rightarrow>
             if k \<in> set reserved_keys \<or> k \<notin> declared then ([], 1, 0)
             else (case x of
                     VString s \<Rightarrow> (case sanitize s of (s', clipped) \<Rightarrow> ([(k, VString s')], 0, if clipped then 1 else 0))
                   | _ \<Rightarrow> if scalar x then ([(k, x)], 0, 0) else ([], 1, 0))))"

fun filter_attrs :: "string set \<Rightarrow> (string \<times> attr_value) list \<Rightarrow> (string \<times> slog_value) list \<times> nat \<times> nat" where
  "filter_attrs declared [] = ([], 0, 0)"
| "filter_attrs declared (a # as) =
     (case filter_attr declared a of (k1, d1, t1) \<Rightarrow>
      (case filter_attrs declared as of (k2, d2, t2) \<Rightarrow> (k1 @ k2, d1 + d2, t1 + t2)))"

definition with_attrs :: "string set \<Rightarrow> (string \<times> attr_value) list \<Rightarrow> LogHandler \<Rightarrow> LogHandler" where
  "with_attrs declared as h =
     (case filter_attrs declared as of (kept, d, t) \<Rightarrow>
        h\<lparr>h_attrs := h_attrs h @ kept, attr_dropped := attr_dropped h + d, attr_truncated := attr_truncated h + t\<rparr>)"

record slog_record =
  rec_time :: int
  rec_level :: int
  rec_message :: string
  rec_attrs :: "(string \<times> attr_value) list"

text \<open>\<open>Handle\<close>: the line as the JSON handler writes it, its own keys renamed; \<open>rid\<close> is the identifier on the context.\<close>

definition handle :: "string set \<Rightarrow> LogHandler \<Rightarrow> string option \<Rightarrow> slog_record \<Rightarrow> (string \<times> slog_value) list" where
  "handle declared h rid r =
     (case filter_attrs declared (rec_attrs r) of (kept, d, t) \<Rightarrow>
        let (msg, msg_cut) = sanitize (rec_message r);
            rid = (case rid of None \<Rightarrow> None | Some i \<Rightarrow> if i = [] then None else Some (sanitize i));
            dropped = d + attr_dropped h;
            truncated = t + attr_truncated h + (if msg_cut then 1 else 0)
              + (case rid of Some (_, True) \<Rightarrow> 1 | _ \<Rightarrow> 0)
        in [(''timestamp'', VTime (rec_time r)), (''level'', VInt (rec_level r)), (''message'', VString msg)]
           @ h_attrs h
           @ [(''app'', VString (h_app h))]
           @ (case rid of None \<Rightarrow> [] | Some (i, _) \<Rightarrow> [(''request_id'', VString i)])
           @ kept
           @ [(''severity'', VInt (severity_of (rec_level r))), (''facility'', VInt (h_facility h))]
           @ (if 0 < dropped then [(''dropped_fields'', VInt (int dropped))] else [])
           @ (if 0 < truncated then [(''truncated_fields'', VInt (int truncated))] else []))"

section \<open>Writing lines\<close>

definition build_attrs :: "Event \<Rightarrow> (string \<times> attr_value) list \<Rightarrow> Field list \<Rightarrow> (string \<times> attr_value) list" where
  "build_attrs ev extra fs =
     (''event'', EventValue (event_name ev)) # extra @ filter (\<lambda>a. fst a \<noteq> []) (map field_attr fs)"

text \<open>\<open>Log\<close> and \<open>Security\<close> are \<open>emit\<close> on the two handlers; a line below the level is not written.\<close>

definition emit :: "string set \<Rightarrow> int \<Rightarrow> LogHandler \<Rightarrow> int \<Rightarrow> string option \<Rightarrow> Event \<Rightarrow> Field list \<Rightarrow> (string \<times> slog_value) list option" where
  "emit declared lvl h now rid ev fs =
     (if event_level ev < lvl then None
      else Some (handle declared h rid \<lparr>rec_time = now, rec_level = event_level ev, rec_message = event_message ev,
                  rec_attrs = build_attrs ev [] fs\<rparr>))"

definition log_line :: "string set \<Rightarrow> Logger \<Rightarrow> int \<Rightarrow> string option \<Rightarrow> Event \<Rightarrow> Field list \<Rightarrow> (string \<times> slog_value) list option" where
  "log_line declared l now rid ev fs = emit declared (log_level l) (ops l) now rid ev fs"

definition security_line :: "string set \<Rightarrow> Logger \<Rightarrow> int \<Rightarrow> string option \<Rightarrow> Event \<Rightarrow> Field list \<Rightarrow> (string \<times> slog_value) list option" where
  "security_line declared l now rid ev fs = emit declared (log_level l) (sec l) now rid ev fs"

text \<open>\<open>time.RFC3339Nano\<close>, for years of four digits.\<close>

definition pad9 :: "nat \<Rightarrow> string" where
  "pad9 n = replicate (9 - length (utoa n)) (CHR ''0'') @ utoa n"

definition rfc3339_nano :: "int \<Rightarrow> string" where
  "rfc3339_nano t =
     (let ns = nat (t mod second)
      in take 19 (rfc3339_format t)
         @ (if ns = 0 then [] else CHR ''.'' # rev (dropWhile (\<lambda>c. c = CHR ''0'') (rev (pad9 ns)))) @ ''Z'')"

text \<open>\<open>renderValue\<close>; the constructors make no other kinds.\<close>

definition render_value :: "slog_value \<Rightarrow> string" where
  "render_value v = (case v of VTime t \<Rightarrow> rfc3339_nano t | VInt i \<Rightarrow> itoa i
     | VBool b \<Rightarrow> if b then ''true'' else ''false'' | VString s \<Rightarrow> s | _ \<Rightarrow> [])"

definition audit_fields :: "Field list \<Rightarrow> string list" where
  "audit_fields fs = map (\<lambda>f. field_key f @ ''='' @ render_value (field_val f)) (filter (\<lambda>f. field_key f \<noteq> []) fs)"

text \<open>\<open>Audit\<close>: the line, at any level, and the error of writing it.\<close>

definition audit_line :: "string set \<Rightarrow> Logger \<Rightarrow> int \<Rightarrow> string option \<Rightarrow> Event \<Rightarrow> AuditRecord \<Rightarrow> Field list \<Rightarrow> (string \<times> slog_value) list" where
  "audit_line declared l now rid ev r fs =
     (let mismatch = (fs \<noteq> [] \<and> audit_fields fs \<noteq> Fields r);
          fs' = (if mismatch then [] else fs)
      in handle declared (sec l) rid \<lparr>rec_time = now, rec_level = event_level ev, rec_message = event_message ev,
           rec_attrs = build_attrs ev [(''audit'', AuditValue r mismatch)] fs'\<rparr>)"

definition write_audit ::
  "((string \<times> slog_value) list \<Rightarrow> 'e option) \<Rightarrow> string set \<Rightarrow> Logger \<Rightarrow> int \<Rightarrow> string option \<Rightarrow> Event \<Rightarrow> AuditRecord \<Rightarrow> Field list \<Rightarrow> 'e option" where
  "write_audit write declared l now rid ev r fs = write (audit_line declared l now rid ev r fs)"

end
