(* ===== verification/LoggingLines.thy ===== *)
theory LoggingLines
  imports Logging
begin

text \<open>
  What may appear on a line: sanitized values, the declared keys and the handler's own, each of these at
  most once; that an error is named by its leaves; and that an audit line carries its record.
\<close>

section \<open>Sanitized text\<close>

text \<open>The rune that is written for a rune.\<close>

definition shown :: "nat \<Rightarrow> nat" where
  "shown r = (if control r \<or> \<not> valid_rune r then rune_error else r)"

lemma valid_shown [simp]: "valid_rune (shown r)"
  by (simp add: shown_def valid_rune_def rune_error_def)

lemma shown_shown [simp]: "shown (shown r) = shown r"
  by (simp add: shown_def)

lemma shown_marker [simp]: "shown 0x2026 = 0x2026"
  by (simp add: shown_def control_def valid_rune_def rune_error_def)

lemma encode_shown: "encode_rune (if control r then rune_error else r) = encode_rune (shown r)"
proof (cases "control r \<or> valid_rune r")
  case False
  then have "(0xD800 \<le> r \<and> r \<le> 0xDFFF) \<or> 0x10FFFF < r" by (auto simp: valid_rune_def)
  then have "encode_rune r = encode_rune rune_error" by (simp add: encode_rune_def rune_error_def)
  with False show ?thesis by (simp add: shown_def)
qed (auto simp: shown_def)

definition texts :: "nat list \<Rightarrow> string" where
  "texts rs = concat (map encode_rune rs)"

lemma texts_simps [simp]: "texts [] = []" "texts (r # rs) = encode_rune r @ texts rs" "texts (rs @ ss) = texts rs @ texts ss"
  by (simp_all add: texts_def)

lemma trunc_marker_texts: "trunc_marker = texts [0x2026]" "length trunc_marker = 3"
  by (simp_all add: trunc_marker_def encode_rune_def)

lemma runes_texts: "list_all (\<lambda>r. shown r = r) rs \<Longrightarrow> map fst (runes (texts rs)) = rs"
proof -
  assume "list_all (\<lambda>r. shown r = r) rs"
  then have "list_all valid_rune rs" by (auto simp: list_all_iff) (metis valid_shown)
  then show ?thesis by (simp add: texts_def runes_encode comp_def)
qed

lemma sanitize_loop_Cons:
  "sanitize_loop b (r # rs) = (if 253 < length b + length (encode_rune (shown r)) then (b @ trunc_marker, True)
     else sanitize_loop (b @ encode_rune (shown r)) rs)"
  by (simp add: encode_shown [symmetric] Let_def max_value_bytes_def trunc_marker_texts(2))

declare sanitize_loop.simps(2) [simp del]

lemma sanitize_loop_ok:
  "length b \<le> 253 \<Longrightarrow> \<exists>ws. sanitize_loop b rs = (b @ texts (map shown ws) @ (if snd (sanitize_loop b rs) then trunc_marker else []), snd (sanitize_loop b rs))
     \<and> length b + length (texts (map shown ws)) \<le> 253 \<and> (\<not> snd (sanitize_loop b rs) \<longrightarrow> ws = rs)"
proof (induction rs arbitrary: b)
  case Nil
  then show ?case by simp
next
  case (Cons r rs)
  show ?case
  proof (cases "253 < length b + length (encode_rune (shown r))")
    case True
    then show ?thesis using Cons.prems by (intro exI [of _ "[]"]) (simp add: sanitize_loop_Cons)
  next
    case False
    let ?b = "b @ encode_rune (shown r)"
    have "length ?b \<le> 253" using False by simp
    from Cons.IH [OF this] obtain ws where
      "sanitize_loop ?b rs = (?b @ texts (map shown ws) @ (if snd (sanitize_loop ?b rs) then trunc_marker else []), snd (sanitize_loop ?b rs))"
      "length ?b + length (texts (map shown ws)) \<le> 253" "\<not> snd (sanitize_loop ?b rs) \<longrightarrow> ws = rs" by blast
    with False show ?thesis by (intro exI [of _ "r # ws"]) (simp add: sanitize_loop_Cons)
  qed
qed

lemma sanitize_loop_through:
  "length b + length (texts ws) \<le> 253 \<Longrightarrow> list_all (\<lambda>r. shown r = r) ws \<Longrightarrow> sanitize_loop b (ws @ rs) = sanitize_loop (b @ texts ws) rs"
  by (induction ws arbitrary: b) (auto simp: sanitize_loop_Cons)

lemma sanitize_cases:
  obtains ws where "list_all (\<lambda>r. shown r = r) ws" "length (texts ws) \<le> 253"
    "sanitize s = (texts ws, False) \<or> sanitize s = (texts ws @ trunc_marker, True)"
proof -
  obtain ws where "sanitize s = (texts (map shown ws) @ (if snd (sanitize s) then trunc_marker else []), snd (sanitize s))"
    "length (texts (map shown ws)) \<le> 253"
    using sanitize_loop_ok [of "[]" "map fst (runes s)"] by (auto simp: sanitize_def)
  then show ?thesis by (intro that [of "map shown ws"]) (auto simp: list_all_iff split: if_splits)
qed

text \<open>Text that may stand on a line: valid UTF-8 without control characters, of at most 256 bytes.\<close>

definition clean_text :: "string \<Rightarrow> bool" where
  "clean_text s \<longleftrightarrow> length s \<le> 256 \<and> list_all (\<lambda>(r, w). w = encode_rune r \<and> valid_rune r \<and> (control r \<longrightarrow> r = rune_error)) (runes s)"

lemma clean_texts:
  assumes "list_all (\<lambda>r. shown r = r) ws" "length (texts ws) \<le> 256"
  shows "clean_text (texts ws)"
proof -
  have "list_all valid_rune ws" using assms(1) by (auto simp: list_all_iff) (metis valid_shown)
  then have "runes (texts ws) = map (\<lambda>r. (r, encode_rune r)) ws" by (simp add: texts_def runes_encode)
  moreover have "\<forall>r \<in> set ws. valid_rune r \<and> (control r \<longrightarrow> r = rune_error)"
    using assms(1) \<open>list_all valid_rune ws\<close> by (auto simp: list_all_iff shown_def)
  ultimately show ?thesis using assms(2) by (auto simp: clean_text_def list_all_iff)
qed

lemma clean_is_texts:
  assumes "clean_text s"
  shows "texts (map fst (runes s)) = s \<and> list_all (\<lambda>r. shown r = r) (map fst (runes s))"
proof -
  have m: "map snd (runes s) = map (\<lambda>x. encode_rune (fst x)) (runes s)"
    using assms by (auto simp: clean_text_def list_all_iff)
  have "texts (map fst (runes s)) = concat (map snd (runes s))" unfolding m texts_def by (simp add: comp_def)
  then have "texts (map fst (runes s)) = s" by (simp add: concat_runes)
  then show ?thesis using assms by (auto simp: clean_text_def list_all_iff shown_def)
qed

lemma sanitize_keeps:
  assumes "clean_text s" "length s \<le> 253"
  shows "sanitize s = (s, False)"
  using sanitize_loop_through [of "[]" "map fst (runes s)" "[]"] clean_is_texts [OF assms(1)] assms(2)
  by (simp add: sanitize_def)

lemma sanitize_clean: "clean_text (fst (sanitize s))"
proof -
  obtain ws where ws: "list_all (\<lambda>r. shown r = r) ws" "length (texts ws) \<le> 253"
    "sanitize s = (texts ws, False) \<or> sanitize s = (texts ws @ trunc_marker, True)"
    by (rule sanitize_cases)
  have "length (texts (ws @ [0x2026])) \<le> 256" using ws(2) trunc_marker_texts by simp
  then have "clean_text (texts (ws @ [0x2026]))" using ws(1) by (intro clean_texts) simp_all
  moreover have "clean_text (texts ws)" using ws(1,2) by (intro clean_texts) simp_all
  ultimately have "clean_text (texts ws)" "clean_text (texts ws @ trunc_marker)" by (simp_all add: trunc_marker_texts(1))
  with ws(3) show ?thesis by auto
qed

lemma sanitize_again: "fst (sanitize (fst (sanitize s))) = fst (sanitize s)"
proof -
  obtain ws where ws: "list_all (\<lambda>r. shown r = r) ws" "length (texts ws) \<le> 253"
    "sanitize s = (texts ws, False) \<or> sanitize s = (texts ws @ trunc_marker, True)"
    by (rule sanitize_cases)
  have r: "map fst (runes (texts ws)) = ws" "map fst (runes (texts (ws @ [0x2026]))) = ws @ [0x2026]"
    using ws(1) by (auto intro!: runes_texts simp del: texts_simps(3))
  have "sanitize (texts ws) = (texts ws, False)"
    using sanitize_loop_through [of "[]" ws "[]"] ws by (simp add: sanitize_def r)
  moreover have "fst (sanitize (texts (ws @ [0x2026]))) = texts (ws @ [0x2026])"
    using sanitize_loop_through [of "[]" ws "[0x2026]"] ws
    by (simp add: sanitize_def r del: texts_simps(3)) (simp add: sanitize_loop_Cons trunc_marker_def)
  ultimately show ?thesis using ws(3) by (auto simp: trunc_marker_texts(1))
qed

section \<open>The vocabulary\<close>

lemma register_ok:
  "register n D = Inr D' \<longleftrightarrow> D' = insert n D \<and> n \<notin> D \<and> n \<notin> set reserved_keys \<and> rename_slog_key n = n \<and> key_pattern n"
  by (auto simp: register_def)

text \<open>A vocabulary is what successful registrations make of the empty one.\<close>

inductive vocabulary :: "string set \<Rightarrow> bool" where
  none_declared: "vocabulary {}"
| one_declared: "vocabulary D \<Longrightarrow> register n D = Inr D' \<Longrightarrow> vocabulary D'"

lemma vocabulary_keys:
  "vocabulary D \<Longrightarrow> D \<inter> set reserved_keys = {} \<and> [] \<notin> D \<and> ''time'' \<notin> D \<and> ''msg'' \<notin> D"
  by (induction rule: vocabulary.induct) (auto simp: register_ok key_pattern_def rename_slog_key_def split: if_splits)

section \<open>Lines\<close>

text \<open>The attributes the package's own types may be under: what only its constructors make.\<close>

definition attr_ok :: "string set \<Rightarrow> string \<times> attr_value \<Rightarrow> bool" where
  "attr_ok D a \<longleftrightarrow> (case snd a of FieldValue v c \<Rightarrow> fst a \<in> D \<and> (case v of VString s \<Rightarrow> clean_text s | _ \<Rightarrow> scalar v) | _ \<Rightarrow> True)"

definition declared_field :: "string set \<Rightarrow> Field \<Rightarrow> bool" where
  "declared_field D f \<longleftrightarrow> f = zero_field \<or> (\<exists>n s i b t. n \<in> D
     \<and> (f = string_field n s \<or> f = int_field n i \<or> f = bool_field n b \<or> f = time_field n t))"

text \<open>The keys of the package's own values.\<close>

definition own_keys :: "attr_value \<Rightarrow> string list" where
  "own_keys v = (case v of EventValue _ \<Rightarrow> [''event''] | AuditValue r m \<Rightarrow> map fst (audit_attrs r m) | _ \<Rightarrow> [])"

text \<open>What stands on a line from the caller: a declared key with a scalar or clean text.\<close>

definition pair_ok :: "string set \<Rightarrow> string \<times> slog_value \<Rightarrow> bool" where
  "pair_ok D p \<longleftrightarrow> fst p \<in> D \<and> (case snd p of VString s \<Rightarrow> clean_text s | v \<Rightarrow> scalar v)"

lemma string_field_eq: "string_field n s = \<lparr>field_key = n, field_val = VString (fst (sanitize s)), field_cut = snd (sanitize s)\<rparr>"
  by (simp add: string_field_def split: prod.splits)

lemma field_attr_ok: "declared_field D f \<Longrightarrow> attr_ok D (field_attr f)"
  by (auto simp: declared_field_def attr_ok_def field_attr_def string_field_eq int_field_def bool_field_def time_field_def
      zero_field_def scalar_def sanitize_clean)

lemma filter_attr_pairs:
  assumes "attr_ok D a" "p \<in> set (fst (filter_attr D a))"
  shows "pair_ok D p \<or> fst p \<in> set (own_keys (snd a))"
proof -
  obtain k v where a: "a = (k, v)" by (cases a)
  show ?thesis
  proof (cases v)
    case (Raw x)
    have "clean_text s'" if "sanitize s = (s', c)" for s s' c using sanitize_clean [of s] that by simp
    then show ?thesis using assms Raw a
      by (cases x) (auto simp: filter_attr_def pair_ok_def scalar_def split: if_splits prod.splits)
  next
    case (FieldValue x c)
    then show ?thesis using assms a by (auto simp: filter_attr_def pair_ok_def attr_ok_def split: slog_value.splits)
  qed (use assms a in \<open>auto simp: filter_attr_def own_keys_def\<close>)
qed

lemma filter_attr_reserved:
  assumes "vocabulary D" "attr_ok D a"
  shows "filter (\<lambda>k. k \<in> set reserved_keys) (map fst (fst (filter_attr D a))) = own_keys (snd a)"
proof -
  obtain k v where a: "a = (k, v)" by (cases a)
  have d: "x \<in> D \<Longrightarrow> x \<notin> set reserved_keys" for x using vocabulary_keys [OF assms(1)] by auto
  show ?thesis
  proof (cases v)
    case (Raw x)
    then show ?thesis using a d
      by (cases x) (auto simp: filter_attr_def own_keys_def split: prod.splits)
  next
    case (FieldValue x c)
    then show ?thesis using assms(2) a d by (auto simp: filter_attr_def own_keys_def attr_ok_def)
  next
    case (EventValue n)
    then show ?thesis using a by (simp add: filter_attr_def own_keys_def reserved_keys_def)
  next
    case (AuditValue r m)
    then show ?thesis using a by (simp add: filter_attr_def own_keys_def reserved_keys_def audit_attrs_def)
  qed
qed

lemma filter_attrs_Cons: "fst (filter_attrs D (a # as)) = fst (filter_attr D a) @ fst (filter_attrs D as)"
  by (simp split: prod.splits)

declare filter_attrs.simps(2) [simp del]

lemma filter_attrs_pairs:
  "list_all (attr_ok D) as \<Longrightarrow> p \<in> set (fst (filter_attrs D as)) \<Longrightarrow> pair_ok D p \<or> (\<exists>a \<in> set as. fst p \<in> set (own_keys (snd a)))"
  by (induction as) (auto simp: filter_attrs_Cons dest: filter_attr_pairs)

lemma filter_attrs_reserved:
  "vocabulary D \<Longrightarrow> list_all (attr_ok D) as
    \<Longrightarrow> filter (\<lambda>k. k \<in> set reserved_keys) (map fst (fst (filter_attrs D as))) = concat (map (own_keys \<circ> snd) as)"
  by (induction as) (simp_all add: filter_attrs_Cons filter_attr_reserved)

definition raw_attrs :: "(string \<times> slog_value) list \<Rightarrow> (string \<times> attr_value) list" where
  "raw_attrs as = map (\<lambda>(k, x). (k, Raw x)) as"

lemma raw_attrs_ok: "list_all (attr_ok D) (raw_attrs as)" "concat (map (own_keys \<circ> snd) (raw_attrs as)) = []"
  by (auto simp: raw_attrs_def attr_ok_def own_keys_def list_all_iff split: prod.splits)

lemma build_attrs_ok:
  assumes "list_all (declared_field D) fs" "extra = [] \<or> extra = [(''audit'', AuditValue r m)]"
  shows "list_all (attr_ok D) (build_attrs ev extra fs)"
    "concat (map (own_keys \<circ> snd) (build_attrs ev extra fs)) = ''event'' # concat (map (own_keys \<circ> snd) extra)"
proof -
  have f: "list_all (attr_ok D) (filter (\<lambda>a. fst a \<noteq> []) (map field_attr fs))"
    using assms(1) field_attr_ok by (auto simp: list_all_iff)
  then show "list_all (attr_ok D) (build_attrs ev extra fs)"
    using assms(2) by (auto simp: build_attrs_def attr_ok_def)
  have o: "own_keys (snd (field_attr f)) = []" for f by (simp add: field_attr_def own_keys_def)
  have "concat (map (own_keys \<circ> snd) (filter (\<lambda>a. fst a \<noteq> []) (map field_attr fs))) = []"
    by (induction fs) (simp_all add: o)
  then show "concat (map (own_keys \<circ> snd) (build_attrs ev extra fs)) = ''event'' # concat (map (own_keys \<circ> snd) extra)"
    by (simp add: build_attrs_def) (simp add: own_keys_def)
qed

text \<open>What a line is made of.\<close>

lemma handle_parts:
  obtains msg rq tl where "handle D h rid r = [(''timestamp'', VTime (rec_time r)), (''level'', VInt (rec_level r)), (''message'', VString msg)]
      @ h_attrs h @ (''app'', VString (h_app h)) # rq @ fst (filter_attrs D (rec_attrs r))
      @ (''severity'', VInt (severity_of (rec_level r))) # (''facility'', VInt (h_facility h)) # tl"
    "clean_text msg" "rq = [] \<or> (\<exists>i. rq = [(''request_id'', VString i)] \<and> clean_text i)"
    "\<exists>d t. tl \<in> {[], [(''dropped_fields'', d)], [(''truncated_fields'', t)], [(''dropped_fields'', d), (''truncated_fields'', t)]}"
proof -
  obtain kept d t where k: "filter_attrs D (rec_attrs r) = (kept, d, t)" by (metis prod_cases3)
  let ?rid = "case rid of None \<Rightarrow> None | Some i \<Rightarrow> if i = [] then None else Some (sanitize i)"
  let ?n = "d + attr_dropped h"
  let ?t = "t + attr_truncated h + (if snd (sanitize (rec_message r)) then 1 else 0) + (case ?rid of Some (_, True) \<Rightarrow> 1 | _ \<Rightarrow> 0)"
  let ?rq = "case ?rid of None \<Rightarrow> [] | Some (i, _) \<Rightarrow> [(''request_id'', VString i)]"
  show thesis
  proof (rule that [of "fst (sanitize (rec_message r))" ?rq
        "(if 0 < ?n then [(''dropped_fields'', VInt (int ?n))] else []) @ (if 0 < ?t then [(''truncated_fields'', VInt (int ?t))] else [])"])
    show "clean_text (fst (sanitize (rec_message r)))" by (rule sanitize_clean)
    have "clean_text i" if "sanitize x = (i, c)" for x i c using sanitize_clean [of x] that by simp
    then show "?rq = [] \<or> (\<exists>i. ?rq = [(''request_id'', VString i)] \<and> clean_text i)"
      by (auto split: option.splits prod.splits)
  qed (auto simp: handle_def k Let_def split: prod.splits)
qed

lemma with_attrs_raw:
  assumes "h = with_attrs D (raw_attrs preset) (new_handler app fac)"
  shows "h_app h = app" "h_facility h = fac" "h_attrs h = fst (filter_attrs D (raw_attrs preset))"
  using assms by (simp_all add: with_attrs_def new_handler_def split: prod.splits)

text \<open>
  The lines of a logger: through the typed calls, or through the \<open>slog\<close> handler with any raw attributes, in
  both cases with any raw attributes attached before.
\<close>

definition written :: "string set \<Rightarrow> string \<Rightarrow> int \<Rightarrow> (string \<times> slog_value) list \<Rightarrow> bool" where
  "written D app fac line \<longleftrightarrow>
     (\<exists>preset rid now lv msg ev r m fs raws as. list_all (declared_field D) fs
        \<and> (as = raw_attrs raws \<or> as = build_attrs ev [] fs \<or> as = build_attrs ev [(''audit'', AuditValue r m)] fs)
        \<and> line = handle D (with_attrs D (raw_attrs preset) (new_handler app fac)) rid
             \<lparr>rec_time = now, rec_level = lv, rec_message = msg, rec_attrs = as\<rparr>)"

lemma no_presets: "with_attrs D (raw_attrs []) h = h"
  by (simp add: with_attrs_def raw_attrs_def)

lemma typed_calls_written:
  assumes "new_logger app lvl = Some l" "list_all (declared_field D) fs"
  shows "log_line D l now rid ev fs = Some line \<Longrightarrow> written D app 16 line"
    "security_line D l now rid ev fs = Some line \<Longrightarrow> written D app 10 line"
    "written D app 10 (audit_line D l now rid ev r fs)"
proof -
  have l: "ops l = with_attrs D (raw_attrs []) (new_handler app 16)" "sec l = with_attrs D (raw_attrs []) (new_handler app 10)"
    using assms(1) by (auto simp: new_logger_def no_presets split: if_splits)
  show "log_line D l now rid ev fs = Some line \<Longrightarrow> written D app 16 line"
    "security_line D l now rid ev fs = Some line \<Longrightarrow> written D app 10 line"
    using assms(2) by (auto simp: log_line_def security_line_def emit_def written_def l split: if_splits) metis+
  have "list_all (declared_field D) (if b then [] else fs)" for b using assms(2) by simp
  then show "written D app 10 (audit_line D l now rid ev r fs)"
    unfolding audit_line_def written_def l Let_def by blast
qed

lemma written_parts:
  assumes "vocabulary D" "written D app fac line"
  obtains t lv msg pre rq kept tl where "line = [(''timestamp'', VTime t), (''level'', VInt lv), (''message'', VString msg)]
      @ pre @ (''app'', VString app) # rq @ kept @ (''severity'', VInt (severity_of lv)) # (''facility'', VInt fac) # tl"
    "clean_text msg" "rq = [] \<or> (\<exists>i. rq = [(''request_id'', VString i)] \<and> clean_text i)"
    "\<exists>d t. tl \<in> {[], [(''dropped_fields'', d)], [(''truncated_fields'', t)], [(''dropped_fields'', d), (''truncated_fields'', t)]}"
    "list_all (pair_ok D) pre" "list_all (\<lambda>p. pair_ok D p \<or> fst p \<in> {''event'', ''seq'', ''prev'', ''hash'', ''fields'', ''audit_fields_mismatch''}) kept"
    "filter (\<lambda>k. k \<in> set reserved_keys) (map fst kept) \<in> {[], [''event''], [''event'', ''seq'', ''prev'', ''hash'', ''fields''],
       [''event'', ''seq'', ''prev'', ''hash'', ''fields'', ''audit_fields_mismatch'']}"
proof -
  obtain preset rid now lv msg0 ev r m fs raws as where f: "list_all (declared_field D) fs"
    and as: "as = raw_attrs raws \<or> as = build_attrs ev [] fs \<or> as = build_attrs ev [(''audit'', AuditValue r m)] fs"
    and line: "line = handle D (with_attrs D (raw_attrs preset) (new_handler app fac)) rid
             \<lparr>rec_time = now, rec_level = lv, rec_message = msg0, rec_attrs = as\<rparr>"
    using assms(2) unfolding written_def by blast
  let ?h = "with_attrs D (raw_attrs preset) (new_handler app fac)"
  let ?kept = "fst (filter_attrs D as)"
  have own: "concat (map (own_keys \<circ> snd) [(''audit'', AuditValue r m)])
      = [''seq'', ''prev'', ''hash'', ''fields''] @ (if m then [''audit_fields_mismatch''] else [])"
    by (simp add: own_keys_def audit_attrs_def)
  have ok: "list_all (attr_ok D) as" and keys: "concat (map (own_keys \<circ> snd) as) \<in> {[], [''event''],
      [''event'', ''seq'', ''prev'', ''hash'', ''fields''], [''event'', ''seq'', ''prev'', ''hash'', ''fields'', ''audit_fields_mismatch'']}"
    using as build_attrs_ok [OF f, where extra = "[]" and ev = ev] build_attrs_ok [OF f, where extra = "[(''audit'', AuditValue r m)]" and ev = ev]
      raw_attrs_ok(1) [of D raws] raw_attrs_ok(2) [of raws] own by (auto simp del: list.map)
  have res: "filter (\<lambda>k. k \<in> set reserved_keys) (map fst ?kept) = concat (map (own_keys \<circ> snd) as)"
    by (rule filter_attrs_reserved [OF assms(1) ok])
  have kept: "list_all (\<lambda>p. pair_ok D p \<or> fst p \<in> {''event'', ''seq'', ''prev'', ''hash'', ''fields'', ''audit_fields_mismatch''}) ?kept"
  proof -
    define ks where "ks = concat (map (own_keys \<circ> snd) as)"
    have "set ks \<subseteq> {''event'', ''seq'', ''prev'', ''hash'', ''fields'', ''audit_fields_mismatch''}"
      using keys unfolding ks_def [symmetric] by auto
    moreover have "pair_ok D p \<or> fst p \<in> set ks" if "p \<in> set ?kept" for p
      using filter_attrs_pairs [OF ok that] by (auto simp: ks_def)
    ultimately show ?thesis unfolding list_all_iff by blast
  qed
  have pre: "list_all (pair_ok D) (h_attrs ?h)"
    using filter_attrs_pairs [OF raw_attrs_ok(1)] raw_attrs_ok(2) [of preset] with_attrs_raw(3) [OF refl]
    by (fastforce simp: list_all_iff)
  show thesis
  proof (rule handle_parts [of D ?h rid "\<lparr>rec_time = now, rec_level = lv, rec_message = msg0, rec_attrs = as\<rparr>"], goal_cases)
    case (1 msg rq tl)
    then show ?case
      using that [of now lv msg "h_attrs ?h" rq ?kept tl] line with_attrs_raw(1,2) [OF refl] pre kept res keys
      by simp
  qed
qed

lemma reserved_in [simp]:
  "filter (\<lambda>k. k \<in> set reserved_keys) (map fst pre) = []" if "vocabulary D" "list_all (pair_ok D) pre"
  using that vocabulary_keys [OF that(1)] by (auto simp: filter_empty_conv list_all_iff pair_ok_def)

section \<open>Properties\<close>

text \<open>
  C21: What stands on a line. Whatever fields, raw attributes, message and request identifier a caller passes,
  every key of the line is declared or one of the handler's own, each of those stands on it at most once, so
  none can be contradicted, and the caller's values are scalars or clean text of at most 256 bytes without
  control characters.
\<close>

theorem lines_keep_the_vocabulary:
  assumes "vocabulary D" "written D app fac line"
  shows "list_all (\<lambda>p. pair_ok D p \<or> fst p \<in> set reserved_keys) line
    \<and> distinct (filter (\<lambda>k. k \<in> set reserved_keys) (map fst line))
    \<and> (\<forall>s. (''message'', VString s) \<in> set line \<or> (''request_id'', VString s) \<in> set line \<longrightarrow> clean_text s)
    \<and> (''app'', VString app) \<in> set line \<and> (''facility'', VInt fac) \<in> set line"
proof -
  obtain t lv msg pre rq kept tl where line: "line = [(''timestamp'', VTime t), (''level'', VInt lv), (''message'', VString msg)]
      @ pre @ (''app'', VString app) # rq @ kept @ (''severity'', VInt (severity_of lv)) # (''facility'', VInt fac) # tl"
    and clean: "clean_text msg" "rq = [] \<or> (\<exists>i. rq = [(''request_id'', VString i)] \<and> clean_text i)"
    and tl: "\<exists>d t. tl \<in> {[], [(''dropped_fields'', d)], [(''truncated_fields'', t)], [(''dropped_fields'', d), (''truncated_fields'', t)]}"
    and pre: "list_all (pair_ok D) pre"
    and kept: "list_all (\<lambda>p. pair_ok D p \<or> fst p \<in> {''event'', ''seq'', ''prev'', ''hash'', ''fields'', ''audit_fields_mismatch''}) kept"
    and own: "filter (\<lambda>k. k \<in> set reserved_keys) (map fst kept) \<in> {[], [''event''], [''event'', ''seq'', ''prev'', ''hash'', ''fields''],
       [''event'', ''seq'', ''prev'', ''hash'', ''fields'', ''audit_fields_mismatch'']}"
    by (rule written_parts [OF assms])
  have m: "''message'' \<notin> D" "''request_id'' \<notin> D" using vocabulary_keys [OF assms(1)] by (auto simp: reserved_keys_def)
  have sub: "set [''timestamp'', ''level'', ''message'', ''app'', ''request_id'', ''severity'', ''facility'', ''dropped_fields'', ''truncated_fields'',
      ''event'', ''seq'', ''prev'', ''hash'', ''fields'', ''audit_fields_mismatch''] = set reserved_keys"
    unfolding reserved_keys_def by (simp add: insert_commute)
  have "list_all (\<lambda>p. pair_ok D p \<or> fst p \<in> set reserved_keys) kept"
    using kept unfolding sub [symmetric] by (auto simp: list_all_iff)
  moreover have "list_all (\<lambda>p. pair_ok D p \<or> fst p \<in> set reserved_keys) (rq @ tl)"
    using clean(2) tl unfolding sub [symmetric] by auto
  ultimately have 1: "list_all (\<lambda>p. pair_ok D p \<or> fst p \<in> set reserved_keys) line"
    using pre unfolding line sub [symmetric] by (auto simp: list_all_iff)
  have r: "filter (\<lambda>k. k \<in> set reserved_keys) (map fst line)
      = [''timestamp'', ''level'', ''message'', ''app''] @ map fst rq @ filter (\<lambda>k. k \<in> set reserved_keys) (map fst kept)
        @ [''severity'', ''facility''] @ map fst tl"
  proof -
    have "filter (\<lambda>k. k \<in> set reserved_keys) (map fst rq) = map fst rq" "filter (\<lambda>k. k \<in> set reserved_keys) (map fst tl) = map fst tl"
      using clean(2) tl unfolding sub [symmetric] by auto
    moreover have "''timestamp'' \<in> set reserved_keys" "''level'' \<in> set reserved_keys" "''message'' \<in> set reserved_keys"
      "''app'' \<in> set reserved_keys" "''severity'' \<in> set reserved_keys" "''facility'' \<in> set reserved_keys"
      by (simp_all add: reserved_keys_def)
    ultimately show ?thesis
      using reserved_in [OF assms(1) pre] unfolding line by simp
  qed
  have 2: "distinct (filter (\<lambda>k. k \<in> set reserved_keys) (map fst line))"
    unfolding r using clean(2) tl own by (elim insertE emptyE disjE exE conjE) simp_all
  have 3: "clean_text s" if "(''message'', VString s) \<in> set line \<or> (''request_id'', VString s) \<in> set line" for s
    using that clean tl pre kept m unfolding line by (auto simp: list_all_iff pair_ok_def)
  have 4: "(''app'', VString app) \<in> set line \<and> (''facility'', VInt fac) \<in> set line" unfolding line by simp
  show ?thesis using 1 2 3 4 by blast
qed

text \<open>
  Sanitizing. The result is valid UTF-8 without control characters and at most 256 bytes with its
  marker; text that is already clean and leaves room for the marker is kept as it is; and sanitizing twice
  changes nothing more.
\<close>

theorem sanitize_makes_clean_text:
  "clean_text (fst (sanitize s)) \<and> fst (sanitize (fst (sanitize s))) = fst (sanitize s)
    \<and> (clean_text s \<and> length s \<le> 253 \<longrightarrow> sanitize s = (s, False))"
  using sanitize_clean sanitize_again sanitize_keeps by blast

section \<open>Errors\<close>

fun leaves :: "go_error \<Rightarrow> string list" and branch_leaves :: "go_error option list \<Rightarrow> string list" where
  "leaves (Leaf text) = [text]"
| "leaves (Wrapped text e) = leaves e"
| "leaves (Joined text es) = branch_leaves es"
| "branch_leaves [] = []"
| "branch_leaves (None # es) = branch_leaves es"
| "branch_leaves (Some e # es) = leaves e @ branch_leaves es"

lemma join_append:
  "xs \<noteq> [] \<Longrightarrow> ys \<noteq> [] \<Longrightarrow> join_with c (xs @ ys) = join_with c xs @ c # join_with c ys"
  by (induction xs rule: induct_list012) (auto simp: join_Cons)

lemma nonempty_of_length: "length as = length es \<Longrightarrow> (as = []) = (es = [])"
  by auto

lemma unwrap_pieces:
  "\<exists>ps. ps \<noteq> [] \<and> fst (unwrap_kind e b) = join_with newline ps \<and> set ps \<subseteq> set (leaves e) \<union> {[], unwrap_budget_exceeded}"
  "\<exists>ps. (es = [] \<longleftrightarrow> ps = []) \<and> join_with newline (fst (unwrap_kinds es b)) = join_with newline ps
     \<and> length (fst (unwrap_kinds es b)) = length es \<and> set ps \<subseteq> set (branch_leaves es) \<union> {[], unwrap_budget_exceeded}"
proof (induction e b and es b rule: unwrap_kind_unwrap_kinds.induct)
  case (1 e)
  then show ?case by (intro exI [of _ "[unwrap_budget_exceeded]"]) simp
next
  case (2 t b)
  then show ?case by (intro exI [of _ "[t]"]) simp
next
  case (4 t es b)
  then obtain ps where ps: "es = [] \<longleftrightarrow> ps = []" "join_with newline (fst (unwrap_kinds es b)) = join_with newline ps"
    "set ps \<subseteq> set (branch_leaves es) \<union> {[], unwrap_budget_exceeded}" by blast
  have "fst (unwrap_kind (Joined t es) (Suc b)) = join_with newline (if ps = [] then [[]] else ps)"
    using ps(2) by (cases "unwrap_kinds es b") auto
  with ps(3) show ?case by (intro exI [of _ "if ps = [] then [[]] else ps"]) auto
next
  case (6 es b)
  then obtain ps where ps: "es = [] \<longleftrightarrow> ps = []" "join_with newline (fst (unwrap_kinds es b)) = join_with newline ps"
    "length (fst (unwrap_kinds es b)) = length es" "set ps \<subseteq> set (branch_leaves es) \<union> {[], unwrap_budget_exceeded}" by blast
  have "join_with newline (fst (unwrap_kinds (None # es) b)) = join_with newline ([] # ps)"
    using ps by (cases "unwrap_kinds es b"; cases "ps = []") (auto simp: join_Cons dest!: nonempty_of_length)
  moreover have "length (fst (unwrap_kinds (None # es) b)) = length (None # es)"
    using ps(3) by (cases "unwrap_kinds es b") simp
  ultimately show ?case using ps(4) by (intro exI [of _ "[] # ps"]) auto
next
  case (7 e es b)
  obtain k b1 where k: "unwrap_kind e b = (k, b1)" by fastforce
  from 7(1) obtain qs where qs: "qs \<noteq> []" "k = join_with newline qs" "set qs \<subseteq> set (leaves e) \<union> {[], unwrap_budget_exceeded}"
    using k by auto
  from 7(2) [OF k [symmetric]] obtain ps where ps: "es = [] \<longleftrightarrow> ps = []" "join_with newline (fst (unwrap_kinds es b1)) = join_with newline ps"
    "length (fst (unwrap_kinds es b1)) = length es" "set ps \<subseteq> set (branch_leaves es) \<union> {[], unwrap_budget_exceeded}" by blast
  have "join_with newline (fst (unwrap_kinds (Some e # es) b)) = join_with newline (qs @ ps)"
    using k qs ps by (cases "unwrap_kinds es b1"; cases "ps = []") (auto simp: join_append join_Cons dest!: nonempty_of_length)
  moreover have "length (fst (unwrap_kinds (Some e # es) b)) = length (Some e # es)"
    using k ps(3) by (cases "unwrap_kinds es b1") simp
  ultimately show ?case using qs ps by (intro exI [of _ "qs @ ps"]) auto
qed auto

text \<open>
  \<open>Err\<close> names an error by its leaves only: the text it logs is the sanitized join of leaf texts, empty
  ones for missing branches and the marker of an exhausted budget. The text of a wrapper or of a join,
  where paths, queries and tokens are added, never reaches a line.
\<close>

theorem err_field_shows_only_leaves:
  "\<exists>ps. field_key (err_field (Some e)) = ''error_kind''
     \<and> field_val (err_field (Some e)) = VString (fst (sanitize (join_with newline ps)))
     \<and> set ps \<subseteq> set (leaves e) \<union> {[], unwrap_budget_exceeded}"
  using unwrap_pieces(1) [of e 100] by (auto simp: err_field_def string_field_eq)

section \<open>Audit lines\<close>

definition audit_keys :: "string set" where
  "audit_keys = {''seq'', ''prev'', ''hash'', ''fields'', ''audit_fields_mismatch''}"

lemma audit_keys_reserved: "audit_keys \<subseteq> set reserved_keys"
  by (simp add: audit_keys_def reserved_keys_def)

text \<open>The typed fields of a line: what \<open>filter\<close> makes of those a caller passed.\<close>

lemma field_attrs_kept:
  assumes "list_all (declared_field D) fs" "vocabulary D"
  shows "fst (filter_attrs D (filter (\<lambda>a. fst a \<noteq> []) (map field_attr fs)))
     = map (\<lambda>f. (field_key f, field_val f)) (filter (\<lambda>f. field_key f \<noteq> []) fs)"
  using assms(1)
proof (induction fs)
  case (Cons f fs)
  have "fst (field_attr f) = field_key f" by (simp add: field_attr_def)
  moreover have "fst (filter_attr D (field_attr f)) = [(field_key f, field_val f)]" if "field_key f \<noteq> []"
    using that by (simp add: field_attr_def filter_attr_def)
  ultimately show ?case using Cons by (simp add: filter_attrs_Cons)
qed simp

lemma audit_kept:
  assumes "list_all (declared_field D) fs" "vocabulary D"
  shows "fst (filter_attrs D (build_attrs ev [(''audit'', AuditValue r m)] fs))
     = (''event'', VString (event_name ev)) # audit_attrs r m @ map (\<lambda>f. (field_key f, field_val f)) (filter (\<lambda>f. field_key f \<noteq> []) fs)"
  by (simp add: build_attrs_def filter_attrs_Cons field_attrs_kept [OF assms]) (simp add: filter_attr_def)

lemma filter_own [simp]:
  assumes "vocabulary D"
  shows "filter (\<lambda>p. fst p \<in> D) (audit_attrs r m) = []" "filter (\<lambda>p. fst p \<in> audit_keys) (audit_attrs r m) = audit_attrs r m"
proof -
  have "set (map fst (audit_attrs r m)) \<subseteq> audit_keys" by (auto simp: audit_attrs_def audit_keys_def)
  then show "filter (\<lambda>p. fst p \<in> audit_keys) (audit_attrs r m) = audit_attrs r m"
    by (auto simp: filter_id_conv)
  show "filter (\<lambda>p. fst p \<in> D) (audit_attrs r m) = []"
    using \<open>set _ \<subseteq> _\<close> vocabulary_keys [OF assms] audit_keys_reserved by (fastforce simp: filter_empty_conv)
qed

lemma declared_key: "declared_field D f \<Longrightarrow> field_key f \<noteq> [] \<Longrightarrow> field_key f \<in> D"
  unfolding declared_field_def zero_field_def string_field_eq int_field_def bool_field_def time_field_def
  by (elim disjE exE conjE) simp_all

lemma filter_fields:
  assumes "vocabulary D" "list_all (declared_field D) fs"
  defines "kept \<equiv> map (\<lambda>f. (field_key f, field_val f)) (filter (\<lambda>f. field_key f \<noteq> []) fs)"
  shows "filter (\<lambda>p. fst p \<in> D) kept = kept" "filter (\<lambda>p. fst p \<in> audit_keys) kept = []"
proof -
  have "fst p \<in> D" if "p \<in> set kept" for p using that assms(2) declared_key by (auto simp: kept_def list_all_iff)
  then show "filter (\<lambda>p. fst p \<in> D) kept = kept" "filter (\<lambda>p. fst p \<in> audit_keys) kept = []"
    using vocabulary_keys [OF assms(1)] audit_keys_reserved by (auto simp: filter_id_conv filter_empty_conv)
qed

text \<open>The keys of the handler that no caller can use.\<close>

definition head_keys :: "string set" where
  "head_keys = {''timestamp'', ''level'', ''message'', ''app'', ''event'', ''request_id'', ''severity'', ''facility'', ''dropped_fields'', ''truncated_fields''}"

lemma head_keys_apart: "vocabulary D \<Longrightarrow> k \<in> head_keys \<Longrightarrow> k \<notin> D \<and> k \<notin> audit_keys"
proof -
  assume "vocabulary D" "k \<in> head_keys"
  moreover have "head_keys \<subseteq> set reserved_keys" by (simp add: head_keys_def reserved_keys_def)
  moreover have "head_keys \<inter> audit_keys = {}" by (simp add: head_keys_def audit_keys_def)
  ultimately show ?thesis using vocabulary_keys by blast
qed

lemma audit_line_shape:
  assumes "vocabulary D" "new_logger app lvl = Some l" "list_all (declared_field D) fs"
    "mismatch = (fs \<noteq> [] \<and> audit_fields fs \<noteq> Fields r)"
  shows "\<exists>before after. audit_line D l now rid ev r fs = before @ audit_attrs r mismatch
      @ map (\<lambda>f. (field_key f, field_val f)) (filter (\<lambda>f. field_key f \<noteq> []) (if mismatch then [] else fs)) @ after
    \<and> fst ` set before \<subseteq> head_keys \<and> fst ` set after \<subseteq> head_keys"
proof -
  let ?fs = "if mismatch then [] else fs"
  have l: "h_attrs (sec l) = []" using assms(2) by (auto simp: new_logger_def new_handler_def split: if_splits)
  have f: "list_all (declared_field D) ?fs" using assms(3) by simp
  let ?r = "\<lparr>rec_time = now, rec_level = event_level ev, rec_message = event_message ev,
     rec_attrs = build_attrs ev [(''audit'', AuditValue r mismatch)] ?fs\<rparr>"
  have a: "audit_line D l now rid ev r fs = handle D (sec l) rid ?r"
    by (simp add: audit_line_def assms(4) Let_def cong: if_cong)
  obtain msg rq tl where h: "handle D (sec l) rid ?r = [(''timestamp'', VTime now), (''level'', VInt (event_level ev)), (''message'', VString msg)]
      @ (''app'', VString (h_app (sec l))) # rq @ fst (filter_attrs D (rec_attrs ?r))
      @ (''severity'', VInt (severity_of (event_level ev))) # (''facility'', VInt (h_facility (sec l))) # tl"
    "rq = [] \<or> (\<exists>i. rq = [(''request_id'', VString i)])"
    "\<exists>d t. tl \<in> {[], [(''dropped_fields'', d)], [(''truncated_fields'', t)], [(''dropped_fields'', d), (''truncated_fields'', t)]}"
    by (rule handle_parts [of D "sec l" rid ?r]) (auto simp: l)
  have k: "fst (filter_attrs D (rec_attrs ?r)) = (''event'', VString (event_name ev)) # audit_attrs r mismatch
      @ map (\<lambda>f. (field_key f, field_val f)) (filter (\<lambda>f. field_key f \<noteq> []) ?fs)"
    using audit_kept [OF f assms(1)] by simp
  show ?thesis
    using h(2,3) unfolding a h(1) k
    by (intro exI [of _ "[(''timestamp'', VTime now), (''level'', VInt (event_level ev)), (''message'', VString msg),
        (''app'', VString (h_app (sec l)))] @ rq @ [(''event'', VString (event_name ev))]"]
        exI [of _ "(''severity'', VInt (severity_of (event_level ev))) # (''facility'', VInt (h_facility (sec l))) # tl"])
      (auto simp: head_keys_def)
qed

text \<open>
  An audit line. The keys of a chain record stand on it once, with the record's own values, so a
  verifier that decodes the line gets the record back; and the flat keys beside them are the record's
  fields, or are withheld and the line says so.
\<close>

theorem audit_line_carries_record:
  assumes "vocabulary D" "new_logger app lvl = Some l" "list_all (declared_field D) fs"
  shows "filter (\<lambda>p. fst p \<in> audit_keys) (audit_line D l now rid ev r fs) = audit_attrs r (fs \<noteq> [] \<and> audit_fields fs \<noteq> Fields r)
    \<and> map (\<lambda>p. fst p @ ''='' @ render_value (snd p)) (filter (\<lambda>p. fst p \<in> D) (audit_line D l now rid ev r fs))
      = (if audit_fields fs = Fields r then Fields r else [])"
proof -
  let ?m = "fs \<noteq> [] \<and> audit_fields fs \<noteq> Fields r"
  let ?fs = "if ?m then [] else fs"
  have f: "list_all (declared_field D) ?fs" using assms(3) by simp
  obtain before after where line: "audit_line D l now rid ev r fs = before @ audit_attrs r ?m
      @ map (\<lambda>f. (field_key f, field_val f)) (filter (\<lambda>f. field_key f \<noteq> []) ?fs) @ after"
    and heads: "fst ` set before \<subseteq> head_keys" "fst ` set after \<subseteq> head_keys"
    using audit_line_shape [OF assms refl] by blast
  have none: "filter (\<lambda>p. fst p \<in> D) xs = []" "filter (\<lambda>p. fst p \<in> audit_keys) xs = []" if "fst ` set xs \<subseteq> head_keys"
    for xs :: "(string \<times> slog_value) list"
    using that head_keys_apart [OF assms(1)] by (auto simp: filter_empty_conv)
  have rendered: "map (\<lambda>p. fst p @ ''='' @ render_value (snd p)) (map (\<lambda>f. (field_key f, field_val f)) (filter (\<lambda>f. field_key f \<noteq> []) ?fs))
      = (if audit_fields fs = Fields r then Fields r else [])"
    by (auto simp: audit_fields_def comp_def)
  show ?thesis
    unfolding line using filter_fields [OF assms(1) f] filter_own [OF assms(1)] none [OF heads(1)] none [OF heads(2)] rendered
    by (simp only: filter_append append_Nil append_Nil2 conj_commute)
qed

section \<open>The shared vocabulary\<close>

lemma register_all_vocabulary: "vocabulary D \<Longrightarrow> register_all ns D = Inr D' \<Longrightarrow> vocabulary D'"
proof (induction ns arbitrary: D)
  case (Cons n ns)
  then obtain D1 where "register n D = Inr D1" "register_all ns D1 = Inr D'"
    by (cases "register n D") auto
  with Cons show ?case using one_declared by blast
qed simp

text \<open>A list of names registers when each can and none is twice in it.\<close>

lemma register_all_ok:
  "list_all (\<lambda>n. n \<notin> set reserved_keys \<and> rename_slog_key n = n \<and> key_pattern n) ns \<Longrightarrow> distinct ns \<Longrightarrow> set ns \<inter> D = {}
    \<Longrightarrow> register_all ns D = Inr (set ns \<union> D)"
proof (induction ns arbitrary: D)
  case (Cons n ns)
  then have "register n D = Inr (insert n D)" by (simp add: register_ok)
  moreover have "register_all ns (insert n D) = Inr (set ns \<union> insert n D)" using Cons by auto
  ultimately show ?case by simp
qed simp

lemma shared_names_ok:
  "list_all (\<lambda>n. n \<notin> set reserved_keys \<and> rename_slog_key n = n \<and> key_pattern n) shared_vocabulary" "distinct shared_vocabulary"
  by (simp_all add: shared_vocabulary_def reserved_keys_def rename_slog_key_def key_pattern_def lower_letter_def)

lemma shared_registers: "register_all shared_vocabulary {} = Inr (set shared_vocabulary)"
  using register_all_ok [OF shared_names_ok, of "{}"] by simp

lemma shared_is_vocabulary: "vocabulary (set shared_vocabulary)"
  using register_all_vocabulary [OF none_declared shared_registers] .

lemma user_id_shared: "''user_id'' \<in> set shared_vocabulary"
  by (simp add: shared_vocabulary_def)

section \<open>Witnesses\<close>

lemma sample_logger: "new_logger ''app'' None = Some \<lparr>ops = new_handler ''app'' 16, sec = new_handler ''app'' 10, log_level = 0\<rparr>"
  by (simp add: new_logger_def key_pattern_def lower_letter_def)

lemma sample_field: "list_all (declared_field (set shared_vocabulary)) [string_field ''user_id'' ''u1'']"
  using user_id_shared by (auto simp: declared_field_def)

lemma lines_keep_the_vocabulary_witness:
  "\<exists>line. written (set shared_vocabulary) ''app'' 10 line \<and> (''app'', VString ''app'') \<in> set line
    \<and> distinct (filter (\<lambda>k. k \<in> set reserved_keys) (map fst line))"
  using lines_keep_the_vocabulary [OF shared_is_vocabulary typed_calls_written(3) [OF sample_logger sample_field]]
    typed_calls_written(3) [OF sample_logger sample_field] by blast

lemma sample_text: "''u1'' = texts [0x75, 0x31]" "clean_text ''u1''"
proof -
  show t: "''u1'' = texts [0x75, 0x31]" by (simp add: encode_rune_def char_of_def bit_iff_odd)
  show "clean_text ''u1''" unfolding t
    by (rule clean_texts) (simp_all add: shown_def control_def valid_rune_def rune_error_def encode_rune_def)
qed

lemma sanitize_makes_clean_text_witness: "clean_text ''u1'' \<and> sanitize ''u1'' = (''u1'', False)"
  using sanitize_makes_clean_text [of "''u1''"] sample_text(2) by simp

definition sample_record :: AuditRecord where
  "sample_record = \<lparr>Seq = 1, Prev = ''p'', Hash = ''h'', Fields = [''user_id=u1'']\<rparr>"

lemma audit_line_carries_record_witness:
  "filter (\<lambda>p. fst p \<in> audit_keys) (audit_line (set shared_vocabulary) \<lparr>ops = new_handler ''app'' 16, sec = new_handler ''app'' 10, log_level = 0\<rparr>
      0 None \<lparr>event_name = ''login'', event_message = ''login'', event_level = 0\<rparr> sample_record [string_field ''user_id'' ''u1''])
    = audit_attrs sample_record False"
proof -
  have "audit_fields [string_field ''user_id'' ''u1''] = Fields sample_record"
    using sanitize_keeps [OF sample_text(2)] by (simp add: sample_record_def audit_fields_def string_field_def render_value_def)
  then show ?thesis
    using audit_line_carries_record [OF shared_is_vocabulary sample_logger sample_field, of 0 None _ sample_record] by simp
qed

section \<open>The starter events\<close>

text \<open>Every declaration of the package at start-up passes: none of them panics.\<close>

lemma declare_events_ok:
  "list_all (\<lambda>(n, m, l). key_pattern n \<and> m \<noteq> []) ds \<Longrightarrow> distinct (map fst ds) \<Longrightarrow> set (map fst ds) \<inter> evs = {}
    \<Longrightarrow> declare_events ds evs = Inr (map (\<lambda>(n, m, l). \<lparr>event_name = n, event_message = m, event_level = l\<rparr>) ds, set (map fst ds) \<union> evs)"
proof (induction ds arbitrary: evs)
  case (Cons d ds)
  obtain n m l where d: "d = (n, m, l)" by (cases d)
  with Cons.prems have e: "declare_event n m l evs = Inr (\<lparr>event_name = n, event_message = m, event_level = l\<rparr>, insert n evs)"
    by (simp add: declare_event_def)
  have "declare_events ds (insert n evs)
      = Inr (map (\<lambda>(n, m, l). \<lparr>event_name = n, event_message = m, event_level = l\<rparr>) ds, set (map fst ds) \<union> insert n evs)"
    using Cons.prems d by (intro Cons.IH) auto
  with e d show ?case by simp
qed simp

lemma starter_names_ok: "list_all (\<lambda>(n, m, l). key_pattern n \<and> m \<noteq> []) starter_events" "distinct (map fst starter_events)"
  by (simp_all add: starter_events_def key_pattern_def lower_letter_def)

text \<open>
  Start-up. The declarations the package makes when it is initialised all pass: the keys of the shared
  vocabulary and the starter events register, in their order, without one of the panics.
\<close>

theorem start_up_does_not_panic:
  "register_all shared_vocabulary {} = Inr (set shared_vocabulary)
    \<and> (\<exists>evs. declare_events starter_events {} = Inr (evs, event_name ` set evs) \<and> length evs = 21)"
proof -
  let ?evs = "map (\<lambda>(n, m, l). \<lparr>event_name = n, event_message = m, event_level = l\<rparr>) starter_events"
  have "event_name ` set ?evs = set (map fst starter_events)" by (force simp: image_iff)
  then have "declare_events starter_events {} = Inr (?evs, event_name ` set ?evs)"
    using declare_events_ok [OF starter_names_ok, of "{}"] by simp
  moreover have "length ?evs = 21" by (simp add: starter_events_def)
  ultimately show ?thesis using shared_registers by blast
qed

end
