(* ===== verification/CapsuleRestore.thy ===== *)
theory CapsuleRestore
  imports CapsuleOpen "HOL-Library.Sublist"
begin

text \<open>
  Restoring to a directory: an extraction into an empty or absent target does what the extraction into
  memory does, and holds the files, as long as the system refuses no write and no file lies beneath
  another. With the results on sealing: what was sealed is restored on disk.
\<close>

section \<open>Making directories\<close>

text \<open>The prefixes of \<open>ps\<close> below \<open>base\<close> become directories where there is nothing.\<close>

lemma mkdirs_ok:
  assumes "\<And>us b m. us \<noteq> [] \<Longrightarrow> prefix us ps \<Longrightarrow> t (base @ us) \<noteq> Some (FileNode b m)"
  shows "\<exists>t'. mkdirs base ps t = Some t'
    \<and> (\<forall>q. t' q = (if t q = None \<and> (\<exists>us. us \<noteq> [] \<and> prefix us ps \<and> q = base @ us) then Some DirNode else t q))"
  using assms
proof (induction ps arbitrary: base t)
  case Nil
  then show ?case by auto
next
  case (Cons p ps)
  let ?q = "base @ [p]"
  have below: "(\<exists>us. us \<noteq> [] \<and> prefix us (p # ps) \<and> q = base @ us) \<longleftrightarrow> q = ?q \<or> (\<exists>us. us \<noteq> [] \<and> prefix us ps \<and> q = ?q @ us)" for q
  proof
    assume "\<exists>us. us \<noteq> [] \<and> prefix us (p # ps) \<and> q = base @ us"
    then obtain us where us: "us \<noteq> []" "prefix us (p # ps)" "q = base @ us" by blast
    then obtain vs where "us = p # vs" "prefix vs ps" by (cases us) auto
    with us show "q = ?q \<or> (\<exists>us. us \<noteq> [] \<and> prefix us ps \<and> q = ?q @ us)" by (cases "vs = []") auto
  next
    assume "q = ?q \<or> (\<exists>us. us \<noteq> [] \<and> prefix us ps \<and> q = ?q @ us)"
    then show "\<exists>us. us \<noteq> [] \<and> prefix us (p # ps) \<and> q = base @ us"
    proof
      assume "\<exists>us. us \<noteq> [] \<and> prefix us ps \<and> q = ?q @ us"
      then obtain us where "us \<noteq> []" "prefix us ps" "q = ?q @ us" by blast
      then show ?thesis by (intro exI [of _ "p # us"]) simp
    qed (intro exI [of _ "[p]"], simp)
  qed
  have free: "us \<noteq> [] \<Longrightarrow> prefix us ps \<Longrightarrow> t (?q @ us) \<noteq> Some (FileNode b m)" for us b m
    using Cons.prems [of "p # us" b m] by simp
  show ?case
  proof (cases "t ?q")
    case None
    let ?t = "t(?q \<mapsto> DirNode)"
    have "us \<noteq> [] \<Longrightarrow> prefix us ps \<Longrightarrow> ?t (?q @ us) \<noteq> Some (FileNode b m)" for us b m using free by simp
    from Cons.IH [of ?t ?q, OF this] obtain t' where t': "mkdirs ?q ps ?t = Some t'"
      "\<forall>q. t' q = (if ?t q = None \<and> (\<exists>us. us \<noteq> [] \<and> prefix us ps \<and> q = ?q @ us) then Some DirNode else ?t q)" by blast
    have "mkdirs base (p # ps) t = Some t'" using t'(1) None by (simp add: Let_def)
    moreover have "t' q = (if t q = None \<and> (\<exists>us. us \<noteq> [] \<and> prefix us (p # ps) \<and> q = base @ us) then Some DirNode else t q)" for q
    proof (cases "q = ?q")
      case True
      then show ?thesis using t'(2) None unfolding below by simp
    next
      case False
      then have "?t q = t q" by simp
      then show ?thesis using t'(2) False unfolding below by metis
    qed
    ultimately show ?thesis by blast
  next
    case (Some n)
    have "n = DirNode" using Cons.prems [of "[p]"] Some by (cases n) auto
    moreover from Cons.IH [of t ?q, OF free] obtain t' where t': "mkdirs ?q ps t = Some t'"
      "\<forall>q. t' q = (if t q = None \<and> (\<exists>us. us \<noteq> [] \<and> prefix us ps \<and> q = ?q @ us) then Some DirNode else t q)" by blast
    moreover have "t' q = (if t q = None \<and> (\<exists>us. us \<noteq> [] \<and> prefix us (p # ps) \<and> q = base @ us) then Some DirNode else t q)" for q
      unfolding below using t'(2) Some by (metis option.distinct(1))
    ultimately show ?thesis using Some by (auto simp: Let_def)
  qed
qed

lemma prefix_butlast: "ps \<noteq> [] \<Longrightarrow> prefix us (butlast ps) \<longleftrightarrow> strict_prefix us ps"
  by (cases ps rule: rev_cases) (auto simp: strict_prefix_def)

abbreviation parts_of :: "string \<Rightarrow> string list" where
  "parts_of path \<equiv> split_on (CHR ''/'') path"

lemma write_into_ok:
  assumes "\<And>us b m. us \<noteq> [] \<Longrightarrow> strict_prefix us (parts_of path) \<Longrightarrow> t us \<noteq> Some (FileNode b m)"
    and "t (parts_of path) = None" "\<not> fails path"
  shows "\<exists>t'. write_into fails path data mode t = Some t'
    \<and> (\<forall>q. t' q = (if q = parts_of path then Some (FileNode data mode)
         else if t q = None \<and> q \<noteq> [] \<and> strict_prefix q (parts_of path) then Some DirNode else t q))"
proof -
  have ne: "parts_of path \<noteq> []" by simp
  have "us \<noteq> [] \<Longrightarrow> prefix us (butlast (parts_of path)) \<Longrightarrow> t ([] @ us) \<noteq> Some (FileNode b m)" for us b m
    using assms(1) prefix_butlast [OF ne] by simp
  from mkdirs_ok [of "butlast (parts_of path)" t "[]", OF this] obtain t1 where
    t1: "mkdirs [] (butlast (parts_of path)) t = Some t1"
    "\<forall>q. t1 q = (if t q = None \<and> q \<noteq> [] \<and> strict_prefix q (parts_of path) then Some DirNode else t q)"
    unfolding append_Nil prefix_butlast [OF ne] by auto
  have "t1 (parts_of path) = None" using t1(2) assms(2) by simp
  then show ?thesis using t1 assms(3) by (simp add: write_into_def Let_def)
qed

section \<open>The simulation\<close>

text \<open>No file lies beneath another.\<close>

definition apart :: "string set \<Rightarrow> bool" where
  "apart names \<longleftrightarrow> (\<forall>a \<in> names. \<forall>b \<in> names. \<not> strict_prefix (parts_of a) (parts_of b))"

text \<open>What is in the tree: files under the names so far, directories above them.\<close>

definition tree_of :: "string set \<Rightarrow> tree \<Rightarrow> bool" where
  "tree_of names t \<longleftrightarrow>
     (\<forall>q b m. t q = Some (FileNode b m) \<longrightarrow> (\<exists>c \<in> names. q = parts_of c))
     \<and> (\<forall>q. t q = Some DirNode \<longrightarrow> (\<exists>c \<in> names. strict_prefix q (parts_of c)))"

lemma write_apart:
  assumes "tree_of names t" "apart (insert c names)" "c \<notin> names" "\<not> fails c"
  shows "\<exists>t'. write_into fails c data mode t = Some t' \<and> tree_of (insert c names) t'"
proof -
  have no_file: "t us \<noteq> Some (FileNode b m)" if us: "us \<noteq> []" "strict_prefix us (parts_of c)" for us b m
    using assms(1,2) us unfolding tree_of_def apart_def by (metis insert_iff)
  have free: "t (parts_of c) = None"
  proof (cases "t (parts_of c)")
    case (Some n)
    show ?thesis
    proof (cases n)
      case DirNode
      then show ?thesis using assms(1,2) Some unfolding tree_of_def apart_def by (metis insert_iff)
    next
      case (FileNode b m)
      then obtain d where "d \<in> names" "parts_of c = parts_of d" using assms(1) Some unfolding tree_of_def by metis
      then have "c \<in> names" using split_on_inj by metis
      then show ?thesis using assms(3) by simp
    qed
  qed simp
  from write_into_ok [of c t fails data mode, OF no_file free assms(4)] obtain t' where t': "write_into fails c data mode t = Some t'"
    "\<forall>q. t' q = (if q = parts_of c then Some (FileNode data mode)
         else if t q = None \<and> q \<noteq> [] \<and> strict_prefix q (parts_of c) then Some DirNode else t q)" by blast
  have "tree_of (insert c names) t'"
    using assms(1) t'(2) unfolding tree_of_def by (auto split: if_splits)
  with t'(1) show ?thesis by blast
qed

lemma entry_names_grow:
  "extract_entry F fails name flag sz mode data pos x = Inr x' \<Longrightarrow> got_names x \<subseteq> got_names x'"
  by (auto simp: extract_entry_def result_simps Let_def split: if_splits option.splits)

lemma loop_names_grow: "extract_loop F fails items x = Inr x' \<Longrightarrow> got_names x \<subseteq> got_names x'"
proof (induction F fails items x rule: extract_loop.induct)
  case (3 F fails name flag sz mode data head_pos end_pos items x)
  then obtain x1 where "extract_entry F fails name flag sz mode data end_pos x = Inr x1" "extract_loop F fails items x1 = Inr x'"
    "got_names x1 \<subseteq> got_names x'" by (auto simp: result_simps split: if_splits)
  with entry_names_grow show ?case by fast
qed auto

text \<open>An entry that is accepted in memory is written to disk.\<close>

lemma entry_on_disk:
  assumes "extract_entry F fails name flag sz mode data pos x = Inr x'" "got_root x = None"
    and "tree_of (got_names x) t" "apart (got_names x')" "\<forall>c \<in> got_names x'. \<not> fails c"
  shows "\<exists>t'. extract_entry F fails name flag sz mode data pos (x\<lparr>got_root := Some t\<rparr>) = Inr (x'\<lparr>got_root := Some t'\<rparr>)
    \<and> tree_of (got_names x') t'"
proof (cases "name = reserved_file_list")
  case True
  with assms show ?thesis
    by (intro exI [of _ t]) (auto simp: extract_entry_def result_simps split: if_splits)
next
  case False
  then obtain c b where c: "flag = CHR ''0''" "length (got_files x) < max_files" "0 \<le> sz" "sz \<le> max_file_bytes"
    "safe_rel_path name = Some c" "c \<notin> got_names x" "read_data data pos = Inr b" "int (length b) \<le> max_file_bytes"
    and x': "x' = x\<lparr>got_names := insert c (got_names x),
       got_files := got_files x @ [\<lparr>Path = c, Content = b, Mode = clamp_mode (word_of_int mode)\<rparr>]\<rparr>"
    using assms(1,2) by (auto simp: extract_entry_def result_simps Let_def not_le not_less split: if_splits option.splits)
  from write_apart [OF assms(3), of c fails b "clamp_mode (word_of_int mode)"] assms(4,5) c(6) x' obtain t' where
    "write_into fails c b (clamp_mode (word_of_int mode)) t = Some t'" "tree_of (insert c (got_names x)) t'" by auto
  then show ?thesis
    using False c x' by (intro exI [of _ t']) (simp add: extract_entry_def Let_def)
qed

lemma loop_on_disk:
  "extract_loop F fails items x = Inr x' \<Longrightarrow> got_root x = None \<Longrightarrow> tree_of (got_names x) t \<Longrightarrow> apart (got_names x')
    \<Longrightarrow> \<forall>c \<in> got_names x'. \<not> fails c
    \<Longrightarrow> \<exists>t'. extract_loop F fails items (x\<lparr>got_root := Some t\<rparr>) = Inr (x'\<lparr>got_root := Some t'\<rparr>)"
proof (induction F fails items x arbitrary: t rule: extract_loop.induct)
  case (3 F fails name flag sz mode data head_pos end_pos items x)
  from 3(2) obtain x1 where pos: "\<not> max_expanded_bytes < head_pos"
    and e: "extract_entry F fails name flag sz mode data end_pos x = Inr x1" and l: "extract_loop F fails items x1 = Inr x'"
    by (auto simp: result_simps split: if_splits)
  have sub: "got_names x1 \<subseteq> got_names x'" by (rule loop_names_grow [OF l])
  then have ap: "apart (got_names x1)" "\<forall>c \<in> got_names x1. \<not> fails c" using 3(5,6) by (auto simp: apart_def)
  from entry_on_disk [OF e 3(3,4) ap] obtain t1 where
    t1: "extract_entry F fails name flag sz mode data end_pos (x\<lparr>got_root := Some t\<rparr>) = Inr (x1\<lparr>got_root := Some t1\<rparr>)"
    "tree_of (got_names x1) t1" by blast
  have "got_root x1 = None" using got_root_entry [OF e] 3(3) by simp
  from 3(1) [OF pos l this t1(2) 3(5,6)] obtain t' where
    "extract_loop F fails items (x1\<lparr>got_root := Some t1\<rparr>) = Inr (x'\<lparr>got_root := Some t'\<rparr>)" by blast
  then show ?case using t1(1) pos by (intro exI [of _ t']) simp
qed auto

lemma empty_tree: "tree_of {} Map.empty"
  by (simp add: tree_of_def)

definition empty_target :: "target \<Rightarrow> bool" where
  "empty_target target \<longleftrightarrow> target = Absent \<or> target = Present Map.empty"

lemma payload_on_disk:
  assumes "extract_payload F fails payload NoTarget = (Inr (files, entries), NoTarget)" "empty_target target"
    and "apart (Path ` set files)" "\<forall>f \<in> set files. \<not> fails (Path f)"
  shows "\<exists>t. extract_payload F fails payload target = (Inr (files, entries), Present t) \<and> tree_holds files t"
proof -
  obtain items stream_end x where up: "unpack F payload = Some (items, stream_end)" "stream_end \<le> max_expanded_bytes"
    and l: "extract_loop F fails items (start_extraction None) = Inr x" and f: "files = got_files x"
    and es: "case got_list x of None \<Rightarrow> entries = [] | Some es \<Rightarrow> entries = es \<and> reconcile_file_list es (got_files x) = None"
    by (rule extract_payload_ok [OF assms(1)]) (auto simp: prepare_target_def)
  have prep: "prepare_target target = Inr (Some Map.empty)" using assms(2) by (auto simp: empty_target_def prepare_target_def)
  have "extraction_ok x" using extract_loop_ok [OF l] start_ok [of NoTarget] by (simp add: prepare_target_def)
  then have names: "got_names x = Path ` set files" by (simp add: extraction_ok_def f)
  have "got_root (start_extraction None) = None" "tree_of (got_names (start_extraction None)) Map.empty"
    by (simp_all add: start_extraction_def empty_tree)
  from loop_on_disk [OF l this] assms(3,4) obtain t where
    "extract_loop F fails items (start_extraction None\<lparr>got_root := Some Map.empty\<rparr>) = Inr (x\<lparr>got_root := Some t\<rparr>)"
    unfolding names by auto
  then have t: "extract_loop F fails items (start_extraction (Some Map.empty)) = Inr (x\<lparr>got_root := Some t\<rparr>)"
    by (simp add: start_extraction_def)
  have "extraction_ok (x\<lparr>got_root := Some t\<rparr>)" by (rule extract_loop_ok [OF t start_ok [OF prep]])
  then have "tree_holds files t" by (simp add: extraction_ok_def f)
  moreover have "extract_payload F fails payload target = (Inr (files, entries), Present t)"
    using up prep t es f by (cases "got_list x") (simp_all add: extract_payload_def start_extraction_def [symmetric])
  ultimately show ?thesis by blast
qed

text \<open>A capsule within the limits.\<close>

definition within_limits :: "'j Formats \<Rightarrow> bytes \<Rightarrow> File list \<Rightarrow> bool" where
  "within_limits F raw files \<longleftrightarrow> int (length raw) \<le> max_container_bytes \<and> stream_length F files \<le> max_expanded_bytes
     \<and> list_all kept_path files"

lemma open_on_disk:
  assumes "hpke_ok H" "formats_ok F" "genuine H k"
    and "seal H F now rnd service version files deps recipe threshold shares (public_of H k) = Inr (raw, m)"
    and "within_limits F raw files" "empty_target target"
    and "apart (Path ` set (map normal_file files))" "\<forall>f \<in> set (map normal_file files). \<not> fails (Path f)"
  shows "\<exists>d r t. open_capsule H F fails raw k target
      = (Inr ((coerced_manifest m)\<lparr>Dependencies := d, VerificationRecipe := r, Files := Files m\<rparr>, map normal_file files), Present t)
    \<and> tree_holds (map normal_file files) t"
proof -
  obtain payload d r where b: "build_payload F now files = Inr (payload, Files m)"
    and d: "decrypt_payload H F raw k = (if max_container_bytes < int (length raw) then Inl CapsuleTooLarge
       else Inr ((coerced_manifest m)\<lparr>Dependencies := d, VerificationRecipe := r\<rparr>, payload))"
    by (rule decrypt_sealed [OF assms(1-4)])
  have lim: "\<not> max_container_bytes < int (length raw)" "\<not> max_expanded_bytes < stream_length F files" "list_all kept_path files"
    using assms(5) by (simp_all add: within_limits_def)
  have "extract_payload F fails payload NoTarget = (Inr (map normal_file files, Files m), NoTarget)"
    using extract_sealed [OF assms(2) b, of fails] lim by simp
  from payload_on_disk [OF this assms(6-8)] obtain t where
    "extract_payload F fails payload target = (Inr (map normal_file files, Files m), Present t)" "tree_holds (map normal_file files) t" by blast
  then show ?thesis using lim(1) by (intro exI [of _ d] exI [of _ r] exI [of _ t]) (simp add: open_capsule_def d)
qed

section \<open>Properties\<close>

text \<open>
  Restoring what was sealed. A capsule \<open>Seal\<close> wrote within the limits, opened with its key into a directory
  that is empty or absent, leaves exactly the sealed files there, each with its contents, its normalised
  path and its clamped mode, provided no write is refused and no file's path lies beneath another's.
\<close>

theorem sealed_restores_to_disk:
  assumes "hpke_ok H" "formats_ok F" "genuine H k"
    and "seal H F now rnd service version files deps recipe threshold shares (public_of H k) = Inr (raw, m)"
    and "within_limits F raw files" "empty_target target"
    and "apart (Path ` set (map normal_file files))" "\<forall>f \<in> set (map normal_file files). \<not> fails (Path f)"
  shows "\<exists>m' t. open_capsule H F fails raw k target = (Inr (m', map normal_file files), Present t) \<and> tree_holds (map normal_file files) t"
  using open_on_disk [OF assms] by blast

lemma within0: "within_limits (files_formats [file0]) raw0 [file0]"
  using length_raw0 limits0 by (simp add: within_limits_def max_expanded_bytes_def)

lemma sealed_restores_to_disk_witness:
  "\<exists>m' t. open_capsule strict_hpke (files_formats [file0]) (\<lambda>_. False) raw0 key0 Absent = (Inr (m', [normal_file file0]), Present t)
     \<and> t [''a''] = Some (FileNode [7] 0x180)"
proof -
  have "apart (Path ` set (map normal_file [file0]))" by (simp add: apart_def normal_file0)
  from sealed_restores_to_disk [OF strict_hpke_ok formats0_ok key0_genuine seal_file0 within0 _ this, of Absent "\<lambda>_. False"]
  obtain m' t where "open_capsule strict_hpke (files_formats [file0]) (\<lambda>_. False) raw0 key0 Absent = (Inr (m', [normal_file file0]), Present t)"
    "tree_holds [normal_file file0] t" by (auto simp: empty_target_def)
  moreover from this(2) have "file_at t [''a''] [7] 0x180" unfolding tree_holds_def normal_file0 by simp
  ultimately show ?thesis by (auto simp: file_at_def)
qed

end
