(* ===== verification/RecoveryPin.thy ===== *)
theory RecoveryPin
  imports Prelude Codec GoStrings SafePath KeyFile RecoveryKey
begin

text \<open>
  \<open>recoveryclient\<close>, the pinned key: \<open>settings.go\<close> is the record \<open>Settings\<close>, the product's key-value
  store, whose promises are the locale \<open>settings_store\<close>; \<open>pin.go\<close> is \<open>store_recovery_key\<close> and
  \<open>load_recovery_key\<close> over that store and the disk of \<open>KeyFile\<close>, and \<open>parse_pin_request\<close>.
\<close>

section \<open>Settings\<close>

datatype setting_error = NotFound | StoreFailed string

record 's Settings =
  get_setting :: "'s \<Rightarrow> string \<Rightarrow> setting_error + string"
  set_setting :: "'s \<Rightarrow> string \<Rightarrow> string \<Rightarrow> setting_error option \<times> 's"
  delete_setting :: "'s \<Rightarrow> string \<Rightarrow> setting_error option \<times> 's"

text \<open>
  What the client relies on. A read that answers tells the truth; a write that reports success happened
  and touched nothing else; one that reports an error may or may not have happened.
\<close>

locale settings_store =
  fixes S :: "'s Settings" and view :: "'s \<Rightarrow> string \<rightharpoonup> string"
  assumes get_found: "get_setting S s k = Inr v \<Longrightarrow> view s k = Some v"
    and get_missing: "get_setting S s k = Inl NotFound \<Longrightarrow> view s k = None"
    and set_done: "set_setting S s k v = (None, s') \<Longrightarrow> view s' = (view s)(k \<mapsto> v)"
    and set_failed: "set_setting S s k v = (Some e, s') \<Longrightarrow> view s' = view s \<or> view s' = (view s)(k \<mapsto> v)"
    and delete_done: "delete_setting S s k = (None, s') \<Longrightarrow> view s' = (view s)(k := None)"
    and delete_failed: "delete_setting S s k = (Some e, s') \<Longrightarrow> view s' = view s \<or> view s' = (view s)(k := None)"

text \<open>A store whose reads always answer; writes may still fail.\<close>

locale readable_store = settings_store +
  assumes get_answers: "get_setting S s k = (case view s k of None \<Rightarrow> Inl NotFound | Some v \<Rightarrow> Inr v)"

text \<open>The store of the package's own tests.\<close>

definition mem_settings :: "(string \<rightharpoonup> string) Settings" where
  "mem_settings = \<lparr>get_setting = (\<lambda>m k. case m k of None \<Rightarrow> Inl NotFound | Some v \<Rightarrow> Inr v),
     set_setting = (\<lambda>m k v. (None, m(k \<mapsto> v))), delete_setting = (\<lambda>m k. (None, m(k := None)))\<rparr>"

section \<open>Names and errors\<close>

definition setting_key_id :: string where
  "setting_key_id = ''kyrecovery_key_id''"

definition setting_threshold :: string where
  "setting_threshold = ''kyrecovery_threshold''"

definition setting_total_shares :: string where
  "setting_total_shares = ''kyrecovery_total_shares''"

definition recovery_public_key_file :: string where
  "recovery_public_key_file = ''recovery.pub''"

datatype pin_error =
    NotPaired | KeyMismatch | ZeroKey | BadTopology | OtherKeyPinned | OtherKeyStored
  | SettingError setting_error | BadNumber | KeyFileError keyfile_error | KeyError recoverykey_error | NotAPublicKey

record 'pk RecoveryKey =
  recovery_public :: "'pk PublicKey"
  recovery_threshold :: int
  recovery_total :: int

text \<open>\<open>filepath.Join\<close> of a directory and a name.\<close>

definition join_path :: "string \<Rightarrow> string \<Rightarrow> string" where
  "join_path dir name = clean (if dir = [] then name else dir @ ''/'' @ name)"

definition recovery_key_path :: "string \<Rightarrow> string" where
  "recovery_key_path data_dir = join_path data_dir recovery_public_key_file"

definition valid_topology :: "int \<Rightarrow> int \<Rightarrow> bool" where
  "valid_topology threshold shares \<longleftrightarrow> 2 \<le> threshold \<and> threshold \<le> shares \<and> shares \<le> 255"

section \<open>Pinning\<close>

text \<open>\<open>bindS\<close> runs a write and, when it succeeds, the rest.\<close>

definition bindS :: "setting_error option \<times> 's \<Rightarrow> ('s \<Rightarrow> pin_error option \<times> 's) \<Rightarrow> pin_error option \<times> 's" where
  "bindS r f = (case r of (Some e, s) \<Rightarrow> (Some (SettingError e), s) | (None, s) \<Rightarrow> f s)"

text \<open>
  The file part of \<open>StoreRecoveryKey\<close>: the key is stored, or it is already there. The arguments before
  the path are those of \<open>store_key\<close>.
\<close>

definition store_public ::
  "('sk, 'pk, 'ctx) Hpke \<Rightarrow> (syscall \<Rightarrow> bool) \<Rightarrow> nat \<Rightarrow> string \<Rightarrow> nat \<Rightarrow> string \<Rightarrow> 'pk PublicKey \<Rightarrow> Disk \<Rightarrow> pin_error option \<times> Disk" where
  "store_public H fails euid tmp i path p d =
     (case store_key fails euid tmp i path (case public_bytes H p of None \<Rightarrow> [] | Some b \<Rightarrow> b) Raw d of
        (None, d') \<Rightarrow> (None, d')
      | (Some Exists, d') \<Rightarrow>
          (case load_encoded euid d' path (int public_key_size) Raw of
             Inl e \<Rightarrow> (Some (KeyFileError e), d')
           | Inr existing \<Rightarrow>
               (case parse_public_key H existing of
                  Inl _ \<Rightarrow> (Some OtherKeyStored, d')
                | Inr pk \<Rightarrow> if key_id H pk \<noteq> key_id H p then (Some OtherKeyStored, d') else (None, d')))
      | (Some e, d') \<Rightarrow> (Some (KeyFileError e), d'))"

definition store_recovery_key ::
  "('sk, 'pk, 'ctx) Hpke \<Rightarrow> 's Settings \<Rightarrow> (syscall \<Rightarrow> bool) \<Rightarrow> nat \<Rightarrow> string \<Rightarrow> nat \<Rightarrow> string \<Rightarrow> 'pk RecoveryKey \<Rightarrow> Disk \<Rightarrow> 's
    \<Rightarrow> pin_error option \<times> Disk \<times> 's" where
  "store_recovery_key H S fails euid tmp i data_dir k d s =
     (if public_key (recovery_public k) = None then (Some ZeroKey, d, s)
      else if \<not> valid_topology (recovery_threshold k) (recovery_total k) then (Some BadTopology, d, s)
      else let path = recovery_key_path data_dir;
               own = key_id H (recovery_public k);
               pinned = get_setting S s setting_key_id
      in if (case pinned of Inl NotFound \<Rightarrow> False | Inl (StoreFailed _) \<Rightarrow> True | Inr _ \<Rightarrow> False)
         then (Some (SettingError (projl pinned)), d, s)
         else if (case pinned of Inl _ \<Rightarrow> False | Inr p \<Rightarrow> p \<noteq> own) then (Some OtherKeyPinned, d, s)
         else case store_public H fails euid tmp i path (recovery_public k) d of
           (Some e, d') \<Rightarrow> (Some e, d', s)
         | (None, d') \<Rightarrow>
             (case bindS (set_setting S s setting_key_id own) (\<lambda>s.
                bindS (set_setting S s setting_threshold (itoa (recovery_threshold k))) (\<lambda>s.
                bindS (set_setting S s setting_total_shares (itoa (recovery_total k))) (\<lambda>s. (None, s)))) of
                (e, s') \<Rightarrow> (e, d', s')))"

section \<open>Loading\<close>

definition int_setting :: "'s Settings \<Rightarrow> 's \<Rightarrow> string \<Rightarrow> pin_error + int" where
  "int_setting S s key =
     (case get_setting S s key of
        Inl NotFound \<Rightarrow> Inl NotPaired
      | Inl e \<Rightarrow> Inl (SettingError e)
      | Inr v \<Rightarrow> ofOption BadNumber (atoi v))"

definition load_recovery_key ::
  "('sk, 'pk, 'ctx) Hpke \<Rightarrow> 's Settings \<Rightarrow> nat \<Rightarrow> string \<Rightarrow> Disk \<Rightarrow> 's \<Rightarrow> pin_error + 'pk RecoveryKey" where
  "load_recovery_key H S euid data_dir d s =
     (case load_encoded euid d (recovery_key_path data_dir) (int public_key_size) Raw of
        Inl NotExist \<Rightarrow> Inl NotPaired
      | Inl e \<Rightarrow> Inl (KeyFileError e)
      | Inr raw \<Rightarrow>
          (case parse_public_key H raw of
             Inl e \<Rightarrow> Inl (KeyError e)
           | Inr pk \<Rightarrow>
               (case get_setting S s setting_key_id of
                  Inl NotFound \<Rightarrow> Inl NotPaired
                | Inl e \<Rightarrow> Inl (SettingError e)
                | Inr pin \<Rightarrow>
                    if pin \<noteq> key_id H pk then Inl KeyMismatch
                    else bindE (int_setting S s setting_threshold) (\<lambda>threshold.
                         bindE (int_setting S s setting_total_shares) (\<lambda>shares.
                         Inr \<lparr>recovery_public = pk, recovery_threshold = threshold, recovery_total = shares\<rparr>)))))"

section \<open>Keys pasted by an operator\<close>

text \<open>\<open>strings.Join(strings.Fields(s), "")\<close>: the text without its white space.\<close>

definition strip_space :: "string \<Rightarrow> string" where
  "strip_space s = concat (map snd (filter (\<lambda>x. \<not> is_space (fst x)) (runes s)))"

definition parse_pin_request :: "('sk, 'pk, 'ctx) Hpke \<Rightarrow> string \<Rightarrow> int \<Rightarrow> int \<Rightarrow> pin_error + 'pk RecoveryKey" where
  "parse_pin_request H text threshold shares =
     (case b64_decode b64_std True (strip_space text) of
        None \<Rightarrow> Inl NotAPublicKey
      | Some raw \<Rightarrow>
          if length raw \<noteq> public_key_size then Inl NotAPublicKey
          else case parse_public_key H raw of
            Inl _ \<Rightarrow> Inl NotAPublicKey
          | Inr pub \<Rightarrow>
              if \<not> valid_topology threshold shares then Inl BadTopology
              else Inr \<lparr>recovery_public = pub, recovery_threshold = threshold, recovery_total = shares\<rparr>)"

section \<open>Interpretations\<close>

interpretation mem: readable_store mem_settings "\<lambda>m. m"
  by unfold_locales (auto simp: mem_settings_def split: option.splits)

section \<open>Lemmas\<close>

lemma key_path_simps [simp]:
  "setting_key_id \<noteq> setting_threshold" "setting_key_id \<noteq> setting_total_shares" "setting_threshold \<noteq> setting_total_shares"
  "setting_threshold \<noteq> setting_key_id" "setting_total_shares \<noteq> setting_key_id" "setting_total_shares \<noteq> setting_threshold"
  by (simp_all add: setting_key_id_def setting_threshold_def setting_total_shares_def)

text \<open>A key file that was stored loads.\<close>

lemma stored_key_loads:
  assumes "store_key fails euid tmp i path key Raw d = (None, d')"
  shows "load_encoded euid d' path (int (length key)) Raw = Inr key"
proof -
  have sz: "\<not> int (length key) < min_size" and w: "write_key fails euid tmp i path key d = (None, d')"
    using assms by (auto simp: store_key_def split: if_splits)
  let ?f = "\<lparr>kind = Regular, perm = 0x180, owner = euid, content = key, synced = True\<rparr>"
  have "tmp \<noteq> path" and d': "entries d' path = Some i" "files d' i = Some ?f"
    using w by (auto simp: write_key_def Let_def remove_name_def sync_dir_def link_file_def sync_file_def write_file_def
        update_file_def create_temp_def split: if_splits)
  then have l: "lookup_file d' path = Some (i, ?f)" by (simp add: lookup_file_def)
  then have "open_key d' d' path = Inr (i, ?f)" by (simp add: open_key_def follow_def)
  moreover have "check_key_info euid ?f = None" by (simp add: check_key_info_def)
  ultimately show ?thesis using sz d' by (simp add: load_encoded_def read_key_def accept_key_def)
qed

lemma store_public_loads:
  assumes "hpke_ok H" "store_public H fails euid tmp i path p d = (None, d')" "public_key p \<noteq> None"
  shows "\<exists>b pk. load_encoded euid d' path (int public_key_size) Raw = Inr b \<and> parse_public_key H b = Inr pk \<and> key_id H pk = key_id H p"
proof -
  obtain x where x: "public_key p = Some x" using assms(3) by auto
  then have b: "public_bytes H p = Some (public_key_bytes H x)" and l: "length (public_key_bytes H x) = public_key_size"
    and n: "new_public_key H (public_key_bytes H x) = Some x"
    using assms(1) by (simp_all add: public_bytes_def hpke_ok_def)
  show ?thesis
  proof (cases "fst (store_key fails euid tmp i path (public_key_bytes H x) Raw d) = None")
    case True
    then have "store_key fails euid tmp i path (public_key_bytes H x) Raw d = (None, d')"
      using assms(2) b by (auto simp: store_public_def split: prod.splits option.splits)
    from stored_key_loads [OF this] have "load_encoded euid d' path (int public_key_size) Raw = Inr (public_key_bytes H x)"
      by (simp add: l)
    moreover have "parse_public_key H (public_key_bytes H x) = Inr p"
      using l n x by (simp add: parse_public_key_def)
    ultimately show ?thesis by blast
  next
    case False
    then show ?thesis using assms(2) b
      by (auto simp: store_public_def split: prod.splits option.splits keyfile_error.splits sum.splits if_splits)
  qed
qed

context settings_store
begin

text \<open>A chain of writes to one key that is fixed and others leaves the fixed one.\<close>

lemma set_keeps:
  assumes "set_setting S s k v = (e, s')" "k = key \<longrightarrow> view s key = Some v" "view s key = Some x"
  shows "view s' key = Some x"
  using assms set_done [of s k v s'] set_failed [of s k v _ s'] by (cases e) fastforce+

lemma delete_keeps:
  assumes "delete_setting S s k = (e, s')" "k \<noteq> key"
  shows "view s' key = view s key"
  using assms delete_done [of s k s'] delete_failed [of s k _ s'] by (cases e) fastforce+

lemma set_other:
  assumes "set_setting S s k v = (e, s')" "k \<noteq> key"
  shows "view s' key = view s key"
  using assms set_done [of s k v s'] set_failed [of s k v _ s'] by (cases e) fastforce+

lemma load_pinned:
  assumes "load_recovery_key H S euid dir d s = Inr k"
  shows "view s setting_key_id = Some (key_id H (recovery_public k))"
  using assms get_found by (auto simp: load_recovery_key_def result_simps split: sum.splits keyfile_error.splits setting_error.splits if_splits)

lemma store_keeps_pin:
  assumes "store_recovery_key H S fails euid tmp i dir k d s = (e, d', s')" "view s setting_key_id = Some pin"
  shows "view s' setting_key_id = Some pin \<and> (e = None \<longrightarrow> key_id H (recovery_public k) = pin)"
proof (cases "get_setting S s setting_key_id")
  case (Inl err)
  then have "err \<noteq> NotFound" using get_missing assms(2) by force
  with Inl assms show ?thesis
    by (cases err) (auto simp: store_recovery_key_def Let_def split: if_splits)
next
  case (Inr p)
  then have p: "p = pin" using get_found assms(2) by force
  show ?thesis
  proof (cases "p = key_id H (recovery_public k)")
    case False
    with Inr assms show ?thesis by (auto simp: store_recovery_key_def Let_def split: if_splits)
  next
    case True
    obtain e1 s1 where s1: "set_setting S s setting_key_id pin = (e1, s1)" by force
    obtain e2 s2 where s2: "set_setting S s1 setting_threshold (itoa (recovery_threshold k)) = (e2, s2)" by force
    obtain e3 s3 where s3: "set_setting S s2 setting_total_shares (itoa (recovery_total k)) = (e3, s3)" by force
    have v1: "view s1 setting_key_id = Some pin" using set_keeps [OF s1 _ assms(2)] assms(2) by simp
    have v2: "view s2 setting_key_id = Some pin" using set_keeps [OF s2 _ v1] by simp
    have v3: "view s3 setting_key_id = Some pin" using set_keeps [OF s3 _ v2] by simp
    have "s' \<in> {s, s1, s2, s3}"
      using assms(1) Inr True p s1 s2 s3
      by (auto simp: store_recovery_key_def Let_def bindS_def split: if_splits prod.splits option.splits)
    then show ?thesis using v1 v2 v3 assms(2) True p by auto
  qed
qed

end

context readable_store
begin

lemma stored_settings:
  assumes "store_recovery_key H S fails euid tmp i dir k d s = (None, d', s')"
  shows "get_setting S s' setting_key_id = Inr (key_id H (recovery_public k))"
    "get_setting S s' setting_threshold = Inr (itoa (recovery_threshold k))"
    "get_setting S s' setting_total_shares = Inr (itoa (recovery_total k))"
    "store_public H fails euid tmp i (recovery_key_path dir) (recovery_public k) d = (None, d')"
    "public_key (recovery_public k) \<noteq> None" "valid_topology (recovery_threshold k) (recovery_total k)"
proof -
  obtain e1 s1 where s1: "set_setting S s setting_key_id (key_id H (recovery_public k)) = (e1, s1)" by force
  obtain e2 s2 where s2: "set_setting S s1 setting_threshold (itoa (recovery_threshold k)) = (e2, s2)" by force
  obtain e3 s3 where s3: "set_setting S s2 setting_total_shares (itoa (recovery_total k)) = (e3, s3)" by force
  have e: "e1 = None" "e2 = None" "e3 = None" "s' = s3"
    and "store_public H fails euid tmp i (recovery_key_path dir) (recovery_public k) d = (None, d')"
    and "public_key (recovery_public k) \<noteq> None" "valid_topology (recovery_threshold k) (recovery_total k)"
    using assms s1 s2 s3
    by (auto simp: store_recovery_key_def Let_def bindS_def split: if_splits prod.splits option.splits sum.splits setting_error.splits)
  then show "store_public H fails euid tmp i (recovery_key_path dir) (recovery_public k) d = (None, d')"
    "public_key (recovery_public k) \<noteq> None" "valid_topology (recovery_threshold k) (recovery_total k)" by simp_all
  have "view s3 = (view s)(setting_key_id \<mapsto> key_id H (recovery_public k), setting_threshold \<mapsto> itoa (recovery_threshold k),
      setting_total_shares \<mapsto> itoa (recovery_total k))"
    using s1 s2 s3 unfolding e by (simp add: set_done)
  then show "get_setting S s' setting_key_id = Inr (key_id H (recovery_public k))"
    "get_setting S s' setting_threshold = Inr (itoa (recovery_threshold k))"
    "get_setting S s' setting_total_shares = Inr (itoa (recovery_total k))"
    by (simp_all add: e get_answers)
qed

lemma stored_loads:
  assumes "hpke_ok H" "store_recovery_key H S fails euid tmp i dir k d s = (None, d', s')"
  shows "\<exists>pk. load_recovery_key H S euid dir d' s' = Inr (k\<lparr>recovery_public := pk\<rparr>) \<and> (pk = recovery_public k \<or> keys_collide H pk (recovery_public k))"
proof -
  note st = stored_settings [OF assms(2)]
  obtain b pk where b: "load_encoded euid d' (recovery_key_path dir) (int public_key_size) Raw = Inr b"
    "parse_public_key H b = Inr pk" "key_id H pk = key_id H (recovery_public k)"
    using store_public_loads [OF assms(1) st(4,5)] by blast
  have "public_key pk \<noteq> None" using b(2) by (auto simp: parse_public_key_def split: if_splits option.splits)
  then have same: "pk = recovery_public k \<or> keys_collide H pk (recovery_public k)"
    using key_id_injective [OF assms(1) b(3) _ st(5)] by blast
  have "atoi (itoa (recovery_threshold k)) = Some (recovery_threshold k)" "atoi (itoa (recovery_total k)) = Some (recovery_total k)"
    using st(6) by (auto simp: valid_topology_def intro!: atoi_itoa)
  then have "load_recovery_key H S euid dir d' s' = Inr \<lparr>recovery_public = pk, recovery_threshold = recovery_threshold k, recovery_total = recovery_total k\<rparr>"
    using b st by (simp add: load_recovery_key_def int_setting_def)
  with same show ?thesis by (intro exI [of _ pk]) (cases k, simp)
qed

end

end
