(* ===== verification/RecoveryPairing.thy ===== *)
theory RecoveryPairing
  imports RecoveryPin GoTime Derive
begin

text \<open>
  \<open>recoveryclient\<close>, the pairing and the schedule: \<open>pairing.go\<close> over the settings and the pinned key,
  \<open>sealer.go\<close>, whose interface \<open>Sealer\<close> is the record of that name with its promise in the locale
  \<open>sealer\<close>, and \<open>schedule.go\<close>. AES-GCM (\<open>crypto/aes\<close>, \<open>crypto/cipher\<close>) is the record \<open>Aead\<close>.
\<close>

section \<open>Sealers\<close>

text \<open>\<open>rnd\<close> is what the system's randomness gives.\<close>

record Sealer =
  seal_value :: "bytes \<Rightarrow> bytes \<Rightarrow> string option"
  open_value :: "string \<Rightarrow> bytes option"

locale sealer =
  fixes X :: Sealer
  assumes opens: "seal_value X rnd clear = Some sealed \<Longrightarrow> open_value X sealed = Some clear"
    and sealed_nonempty: "seal_value X rnd clear = Some sealed \<Longrightarrow> sealed \<noteq> []"

record Aead =
  nonce_size :: nat
  aead_seal :: "bytes \<Rightarrow> bytes \<Rightarrow> bytes \<Rightarrow> bytes"
  aead_open :: "bytes \<Rightarrow> bytes \<Rightarrow> bytes \<Rightarrow> bytes option"

definition aead_ok :: "Aead \<Rightarrow> bool" where
  "aead_ok A \<longleftrightarrow> 0 < nonce_size A
     \<and> (\<forall>key nonce clear. length nonce = nonce_size A \<longrightarrow> aead_open A key nonce (aead_seal A key nonce clear) = Some clear)"

definition aes_gcm_sealer :: "Aead \<Rightarrow> bytes \<Rightarrow> Sealer" where
  "aes_gcm_sealer A sub = \<lparr>
     seal_value = (\<lambda>rnd clear.
       if length rnd < nonce_size A then None
       else let nonce = take (nonce_size A) rnd in Some (b64_encode b64_std True (nonce @ aead_seal A sub nonce clear))),
     open_value = (\<lambda>sealed.
       case b64_decode b64_std True sealed of
         None \<Rightarrow> None
       | Some raw \<Rightarrow>
           if length raw < nonce_size A then None
           else aead_open A sub (take (nonce_size A) raw) (drop (nonce_size A) raw))\<rparr>"

definition new_aes_gcm_sealer :: "Aead \<Rightarrow> bytes \<Rightarrow> string \<Rightarrow> Sealer option" where
  "new_aes_gcm_sealer A key label =
     (if length key < 32 \<or> label = [] then None else Some (aes_gcm_sealer A (hkdf key (bytes_of label) 32)))"

section \<open>Pairing\<close>

definition setting_url :: string where
  "setting_url = ''kyrecovery_url''"

definition setting_token :: string where
  "setting_token = ''kyrecovery_token_enc''"

definition setting_last_deposit :: string where
  "setting_last_deposit = ''kyrecovery_last_deposit''"

datatype pairing_error =
    PinError pin_error | KeyPinMissing pin_error | EmptyToken | TokenNotSealed | TokenWontOpen | BadReceiptText

record 'pk Pairing =
  pairing_url :: string
  pairing_token :: string
  pairing_key :: "'pk RecoveryKey"

definition store_pairing :: "'s Settings \<Rightarrow> Sealer \<Rightarrow> bytes \<Rightarrow> string \<Rightarrow> string \<Rightarrow> 's \<Rightarrow> pairing_error option \<times> 's" where
  "store_pairing S X rnd url token s =
     (let token = trim_space token
      in if token = [] then (Some EmptyToken, s)
         else case seal_value X rnd (bytes_of token) of
           None \<Rightarrow> (Some TokenNotSealed, s)
         | Some sealed \<Rightarrow>
             (case set_setting S s setting_url url of
                (Some e, s') \<Rightarrow> (Some (PinError (SettingError e)), s')
              | (None, s') \<Rightarrow>
                  (case set_setting S s' setting_token sealed of
                     (e, s'') \<Rightarrow> (map_option (\<lambda>e. PinError (SettingError e)) e, s''))))"

definition clear_pairing :: "'s Settings \<Rightarrow> 's \<Rightarrow> pairing_error option \<times> 's" where
  "clear_pairing S s =
     (if get_setting S s setting_url = Inl NotFound \<and> get_setting S s setting_token = Inl NotFound
      then (Some (PinError NotPaired), s)
      else case delete_setting S s setting_token of
        (Some e, s') \<Rightarrow> (Some (PinError (SettingError e)), s')
      | (None, s') \<Rightarrow>
          (case delete_setting S s' setting_url of
             (e, s'') \<Rightarrow> (map_option (\<lambda>e. PinError (SettingError e)) e, s'')))"

definition has_pairing :: "'s Settings \<Rightarrow> 's \<Rightarrow> bool" where
  "has_pairing S s =
     (case get_setting S s setting_url of
        Inl _ \<Rightarrow> False
      | Inr u \<Rightarrow> u \<noteq> [] \<and> (case get_setting S s setting_token of Inl _ \<Rightarrow> False | Inr t \<Rightarrow> t \<noteq> []))"

definition not_paired :: "setting_error \<Rightarrow> pairing_error" where
  "not_paired e = (case e of NotFound \<Rightarrow> PinError NotPaired | StoreFailed _ \<Rightarrow> PinError (SettingError e))"

text \<open>An unusable key beside a pairing is reported, not skipped; \<open>Run\<close> makes the same distinction.\<close>

definition pairing_key_error :: "'s Settings \<Rightarrow> 's \<Rightarrow> pin_error \<Rightarrow> pairing_error" where
  "pairing_key_error S s e = (if e \<in> {NotPaired, KeyMismatch} \<and> has_pairing S s then KeyPinMissing e else PinError e)"

definition load_pairing ::
  "('sk, 'pk, 'ctx) Hpke \<Rightarrow> 's Settings \<Rightarrow> Sealer \<Rightarrow> nat \<Rightarrow> string \<Rightarrow> Disk \<Rightarrow> 's \<Rightarrow> pairing_error + 'pk Pairing" where
  "load_pairing H S X euid data_dir d s =
     (case load_recovery_key H S euid data_dir d s of
        Inl e \<Rightarrow> Inl (pairing_key_error S s e)
      | Inr key \<Rightarrow>
          (case get_setting S s setting_url of
             Inl e \<Rightarrow> Inl (not_paired e)
           | Inr url \<Rightarrow>
               (case get_setting S s setting_token of
                  Inl e \<Rightarrow> Inl (not_paired e)
                | Inr sealed \<Rightarrow>
                    if url = [] \<or> sealed = [] then Inl (PinError NotPaired)
                    else case open_value X sealed of
                      None \<Rightarrow> Inl TokenWontOpen
                    | Some clear \<Rightarrow> Inr \<lparr>pairing_url = url, pairing_token = string_of clear, pairing_key = key\<rparr>)))"

text \<open>\<open>LastDeposit\<close>; \<open>read_receipt\<close> is \<open>encoding/json\<close>.\<close>

definition last_deposit :: "(string \<Rightarrow> 'r option) \<Rightarrow> 's Settings \<Rightarrow> 's \<Rightarrow> pairing_error + 'r option" where
  "last_deposit read_receipt S s =
     (case get_setting S s setting_last_deposit of
        Inl NotFound \<Rightarrow> Inr None
      | Inl e \<Rightarrow> Inl (PinError (SettingError e))
      | Inr v \<Rightarrow> if v = [] then Inr None else (case read_receipt v of None \<Rightarrow> Inl BadReceiptText | Some r \<Rightarrow> Inr (Some r)))"

section \<open>The schedule\<close>

definition setting_interval :: string where
  "setting_interval = ''backup_interval_sec''"

definition setting_last_attempt :: string where
  "setting_last_attempt = ''backup_last_attempt''"

text \<open>In seconds; durations are nanoseconds.\<close>

definition min_interval :: int where
  "min_interval = 15 * 60"

definition max_interval :: int where
  "max_interval = 366 * 24 * 3600"

datatype schedule_error = BadInterval | BadIntervalText | BadAttemptText | ScheduleSetting setting_error

definition valid_seconds :: "int \<Rightarrow> bool" where
  "valid_seconds sec \<longleftrightarrow> sec = 0 \<or> (min_interval \<le> sec \<and> sec \<le> max_interval)"

definition schedule_interval :: "'s Settings \<Rightarrow> int \<Rightarrow> 's \<Rightarrow> schedule_error + int" where
  "schedule_interval S default_interval s =
     (case get_setting S s setting_interval of
        Inl NotFound \<Rightarrow> Inr default_interval
      | Inl e \<Rightarrow> Inl (ScheduleSetting e)
      | Inr v \<Rightarrow>
          (case parse_int 64 v of
             None \<Rightarrow> Inl BadIntervalText
           | Some sec \<Rightarrow> if \<not> valid_seconds sec then Inl BadInterval else Inr (wrap64 (sec * second))))"

definition set_interval :: "'s Settings \<Rightarrow> int \<Rightarrow> 's \<Rightarrow> schedule_error option \<times> 's" where
  "set_interval S sec s =
     (if \<not> valid_seconds sec then (Some BadInterval, s)
      else case set_setting S s setting_interval (itoa sec) of (e, s') \<Rightarrow> (map_option ScheduleSetting e, s'))"

text \<open>Go's zero time, the first of January of the year 1, stands for never attempted.\<close>

definition zero_instant :: int where
  "zero_instant = - 62135596800 * second"

definition last_attempt :: "'s Settings \<Rightarrow> 's \<Rightarrow> schedule_error + int" where
  "last_attempt S s =
     (case get_setting S s setting_last_attempt of
        Inl NotFound \<Rightarrow> Inr zero_instant
      | Inl e \<Rightarrow> Inl (ScheduleSetting e)
      | Inr v \<Rightarrow> if v = [] then Inr zero_instant else ofOption BadAttemptText (rfc3339_parse v))"

definition mark_attempt :: "'s Settings \<Rightarrow> int \<Rightarrow> 's \<Rightarrow> setting_error option \<times> 's" where
  "mark_attempt S clock s = set_setting S s setting_last_attempt (rfc3339_format clock)"

text \<open>\<open>NextRun\<close> at the time \<open>clock\<close>; \<open>None\<close> is off.\<close>

definition next_run :: "'s Settings \<Rightarrow> int \<Rightarrow> int \<Rightarrow> 's \<Rightarrow> schedule_error + int option" where
  "next_run S default_interval clock s =
     (case schedule_interval S default_interval s of
        Inl e \<Rightarrow> Inl e
      | Inr interval \<Rightarrow>
          if interval = 0 then Inr None
          else bindE (last_attempt S s) (\<lambda>l. Inr (Some (if l = zero_instant then clock else l + interval))))"

section \<open>Lemmas: sealers\<close>

lemma aes_gcm_opens:
  assumes "aead_ok A" "seal_value (aes_gcm_sealer A sub) rnd c = Some sealed"
  shows "open_value (aes_gcm_sealer A sub) sealed = Some c" "sealed \<noteq> []"
proof -
  let ?n = "take (nonce_size A) rnd"
  have n: "length ?n = nonce_size A" and s: "sealed = b64_encode b64_std True (?n @ aead_seal A sub ?n c)"
    using assms(2) by (auto simp: aes_gcm_sealer_def Let_def split: if_splits)
  show "open_value (aes_gcm_sealer A sub) sealed = Some c"
    using assms(1) n unfolding s by (simp add: aes_gcm_sealer_def b64std.dec_enc aead_ok_def)
  have "?n @ aead_seal A sub ?n c \<noteq> []" using assms(1) n by (auto simp: aead_ok_def)
  then show "sealed \<noteq> []" using b64std.dec_enc [of "?n @ aead_seal A sub ?n c"] b64std.dec_enc [of "[]"] s
    by (metis option.inject b64_encode.simps(1))
qed

text \<open>An AEAD that keeps its promise, for examples: the text in the clear.\<close>

definition clear_aead :: Aead where
  "clear_aead = \<lparr>nonce_size = 12, aead_seal = (\<lambda>_ _ c. c), aead_open = (\<lambda>_ _ c. Some c)\<rparr>"

lemma clear_aead_ok: "aead_ok clear_aead"
  by (simp add: aead_ok_def clear_aead_def)

interpretation gcm: sealer "aes_gcm_sealer clear_aead sub" for sub
  using aes_gcm_opens [OF clear_aead_ok] by unfold_locales

lemma new_sealer_promise: "aead_ok A \<Longrightarrow> new_aes_gcm_sealer A key label = Some X \<Longrightarrow> sealer X"
  by (auto simp: new_aes_gcm_sealer_def sealer_def dest: aes_gcm_opens split: if_splits)

section \<open>Lemmas: pairing and schedule\<close>

text \<open>The keys of the settings are distinct.\<close>

lemmas setting_defs = setting_key_id_def setting_threshold_def setting_total_shares_def setting_url_def setting_token_def
  setting_last_deposit_def setting_interval_def setting_last_attempt_def

lemma setting_keys [simp]:
  "setting_key_id \<noteq> setting_url" "setting_key_id \<noteq> setting_token" "setting_threshold \<noteq> setting_url" "setting_threshold \<noteq> setting_token"
  "setting_total_shares \<noteq> setting_url" "setting_total_shares \<noteq> setting_token"
  "setting_url \<noteq> setting_key_id" "setting_url \<noteq> setting_threshold" "setting_url \<noteq> setting_total_shares"
  "setting_token \<noteq> setting_key_id" "setting_token \<noteq> setting_threshold" "setting_token \<noteq> setting_total_shares"
  "setting_url \<noteq> setting_token" "setting_token \<noteq> setting_url"
  "setting_last_deposit \<noteq> setting_key_id" "setting_last_attempt \<noteq> setting_key_id" "setting_interval \<noteq> setting_key_id"
  "setting_last_attempt \<noteq> setting_interval" "setting_interval \<noteq> setting_last_attempt"
  by (simp_all add: setting_defs)

text \<open>What loads reads only its own settings.\<close>

lemma load_key_reads:
  assumes "\<And>k. k \<in> {setting_key_id, setting_threshold, setting_total_shares} \<Longrightarrow> get_setting S s' k = get_setting S s k"
  shows "load_recovery_key H S euid dir d s' = load_recovery_key H S euid dir d s"
proof -
  have "get_setting S s' setting_key_id = get_setting S s setting_key_id" "get_setting S s' setting_threshold = get_setting S s setting_threshold"
    "get_setting S s' setting_total_shares = get_setting S s setting_total_shares"
    using assms by simp_all
  then show ?thesis by (simp only: load_recovery_key_def int_setting_def)
qed

lemma readable:
  assumes "readable_store S view"
  shows "get_setting S s k = (case view s k of None \<Rightarrow> Inl NotFound | Some v \<Rightarrow> Inr v)"
    "set_setting S s k v = (None, s') \<Longrightarrow> view s' = (view s)(k \<mapsto> v)"
  using readable_store.get_answers [OF assms] settings_store.set_done [OF readable_store.axioms(1) [OF assms]] by blast+

lemma pairing_loads:
  assumes "readable_store S view" "sealer X" "load_recovery_key H S euid dir d s = Inr key"
    and "store_pairing S X rnd url token s = (None, s')" "url \<noteq> []"
  shows "load_pairing H S X euid dir d s' = Inr \<lparr>pairing_url = url, pairing_token = trim_space token, pairing_key = key\<rparr>"
proof -
  obtain sealed s1 where x: "seal_value X rnd (bytes_of (trim_space token)) = Some sealed"
    "set_setting S s setting_url url = (None, s1)" "set_setting S s1 setting_token sealed = (None, s')"
    using assms(4) by (auto simp: store_pairing_def Let_def split: if_splits option.splits prod.splits)
  have v: "view s' = (view s)(setting_url \<mapsto> url, setting_token \<mapsto> sealed)"
    using x(2,3) by (simp add: readable(2) [OF assms(1)])
  have "load_recovery_key H S euid dir d s' = Inr key"
    using assms(3) by (subst load_key_reads [of S s' s]) (auto simp: readable(1) [OF assms(1)] v)
  moreover have "open_value X sealed = Some (bytes_of (trim_space token))" "sealed \<noteq> []"
    using assms(2) x(1) unfolding sealer_def by blast+
  ultimately show ?thesis using assms(5) by (simp add: load_pairing_def readable(1) [OF assms(1)] v)
qed

lemma interval_cases:
  assumes "schedule_interval S preset s = Inr iv"
  shows "iv = preset \<or> iv = 0 \<or> (min_interval * second \<le> iv \<and> iv \<le> max_interval * second)"
proof -
  have "wrap64 (sec * second) = sec * second" if "valid_seconds sec" for sec
    using that by (intro wrap64_id) (auto simp: valid_seconds_def min_interval_def max_interval_def second_def max_int64_def min_int64_def)
  with assms show ?thesis
    by (auto simp: schedule_interval_def valid_seconds_def second_def split: sum.splits setting_error.splits option.splits if_splits)
qed

lemma next_after_attempt:
  assumes "readable_store S view" "mark_attempt S t s = (None, s')" "four_digit_year t" "0 < unix t"
    and "schedule_interval S preset s = Inr iv" "iv \<noteq> 0"
  shows "next_run S preset clock s' = Inr (Some (unix t * second + iv))"
proof -
  have v: "view s' = (view s)(setting_last_attempt \<mapsto> rfc3339_format t)"
    using assms(2) readable(2) [OF assms(1)] by (simp add: mark_attempt_def)
  then have "schedule_interval S preset s' = schedule_interval S preset s"
    by (simp add: schedule_interval_def readable(1) [OF assms(1)])
  moreover have "rfc3339_format t \<noteq> []"
    by (simp add: rfc3339_format_def Let_def split: prod.splits)
  then have "last_attempt S s' = Inr (unix t * second)"
    using rfc3339_round_trip [OF assms(3)] by (simp add: last_attempt_def readable(1) [OF assms(1)] v)
  moreover have "unix t * second \<noteq> zero_instant" using assms(4) by (simp add: zero_instant_def second_def)
  ultimately show ?thesis using assms(5,6) by (simp add: next_run_def)
qed

section \<open>Properties\<close>

text \<open>
  The pinned key. A key that \<open>StoreRecoveryKey\<close> stored is the one \<open>LoadRecoveryKey\<close> returns, with its
  topology, whether the file was written now or found there; otherwise the key that was
  found there collides with it under SHA-256.
\<close>

theorem pinned_key_loads:
  assumes "hpke_ok H" "readable_store S view" "store_recovery_key H S fails euid tmp i dir k d s = (None, d', s')"
  shows "\<exists>pk. load_recovery_key H S euid dir d' s' = Inr (k\<lparr>recovery_public := pk\<rparr>) \<and> (pk = recovery_public k \<or> keys_collide H pk (recovery_public k))"
  using readable_store.stored_loads [OF assms(2,1,3)] .

text \<open>
  The pairing. Once a key is pinned, a pairing that was stored is loaded back: the URL, the token
  without the white space around it, and the pinned key.
\<close>

theorem stored_pairing_loads:
  assumes "readable_store S view" "sealer X" "load_recovery_key H S euid dir d s = Inr key"
    and "store_pairing S X rnd url token s = (None, s')" "url \<noteq> []"
  shows "load_pairing H S X euid dir d s' = Inr \<lparr>pairing_url = url, pairing_token = trim_space token, pairing_key = key\<rparr>"
  using pairing_loads [OF assms] .

text \<open>
  No silent gap. On an instance that has a pairing, loading it never answers that the instance is not
  paired, which a scheduler skips quietly: a key that is missing or does not match its pin is reported.
\<close>

theorem paired_instance_reports:
  assumes "readable_store S view" "has_pairing S s"
  shows "load_pairing H S X euid dir d s \<notin> {Inl (PinError NotPaired), Inl (PinError KeyMismatch)}"
  using assms(2) by (auto simp: load_pairing_def has_pairing_def pairing_key_error_def readable(1) [OF assms(1)]
      split: sum.splits option.splits if_splits)

text \<open>
  The schedule. An interval that is read is the default, off, or between a quarter of an hour and 366
  days, whatever stands in the row; and after an attempt marked at \<open>t\<close> the next run is due exactly one
  interval after the second of \<open>t\<close>, whenever it is asked for, so a failing run waits.
\<close>

theorem schedule_waits:
  assumes "readable_store S view" "mark_attempt S t s = (None, s')" "four_digit_year t" "0 < unix t"
    and "schedule_interval S preset s = Inr iv" "iv \<noteq> 0"
  shows "next_run S preset clock s' = Inr (Some (unix t * second + iv))
    \<and> (iv = preset \<or> (min_interval * second \<le> iv \<and> iv \<le> max_interval * second))"
  using next_after_attempt [OF assms] interval_cases [OF assms(5)] assms(6) by blast

lemma mem_readable: "readable_store mem_settings (\<lambda>m. m)"
  by (rule mem.readable_store_axioms)

lemma paired_instance_reports_witness:
  "\<forall>d. load_pairing plain_hpke mem_settings (aes_gcm_sealer clear_aead []) 0 ''/d'' d [setting_url \<mapsto> ''https://h'', setting_token \<mapsto> ''t'']
     \<notin> {Inl (PinError NotPaired), Inl (PinError KeyMismatch)}"
  by (rule allI, rule paired_instance_reports [OF mem_readable]) (simp add: has_pairing_def mem_settings_def)

lemma schedule_waits_witness:
  "\<exists>s'. mark_attempt mem_settings 5000000000 Map.empty = (None, s')
     \<and> next_run mem_settings (3600 * second) 7 s' = Inr (Some (unix 5000000000 * second + 3600 * second))"
proof -
  have m: "mark_attempt mem_settings 5000000000 Map.empty = (None, [setting_last_attempt \<mapsto> rfc3339_format 5000000000])"
    by (simp add: mark_attempt_def mem_settings_def)
  have u: "unix 5000000000 = 5" by (simp add: unix_def second_def)
  have y: "four_digit_year 5000000000" by (rule four_digit_year_near) (simp_all add: u)
  have i: "schedule_interval mem_settings (3600 * second) Map.empty = Inr (3600 * second)" by (simp add: schedule_interval_def mem_settings_def)
  show ?thesis using schedule_waits [OF mem_readable m y _ i, of 7] m u by (simp add: second_def)
qed

end
