(* ===== verification/RecoveryLocal.thy ===== *)
theory RecoveryLocal
  imports Prelude Codec GoStrings "HOL-Library.Multiset"
begin

text \<open>
  \<open>recoveryclient\<close>, the local backup directory: \<open>local.go\<close> and \<open>FilenameSafe\<close> of \<open>payload.go\<close>. A
  directory is the list of its entries with their names; a write to it is \<open>put_entry\<close>, \<open>remove_entry\<close> or
  the rename of a temporary file. \<open>fails\<close> says which system calls fail. \<open>sort.Slice\<close> is not stable, so the
  sort is an argument, \<open>sorts\<close> what is known of it.
\<close>

section \<open>Names\<close>

definition safe_byte :: "char \<Rightarrow> bool" where
  "safe_byte c = (let n = of_char c :: nat in (97 \<le> n \<and> n \<le> 122) \<or> (65 \<le> n \<and> n \<le> 90) \<or> (48 \<le> n \<and> n \<le> 57) \<or> c = CHR ''-'')"

definition escape_byte :: "char \<Rightarrow> string" where
  "escape_byte c = (if safe_byte c then [c] else CHR ''_'' # hex_encode [of_char c])"

definition app_name_safe :: "string \<Rightarrow> string" where
  "app_name_safe s = (if s = [] then ''_'' else concat (map escape_byte s))"

definition local_prefix :: "string \<Rightarrow> string" where
  "local_prefix app = app_name_safe app @ ''.''"

definition filename_safe :: "string \<Rightarrow> string" where
  "filename_safe s =
     map (\<lambda>(r, _). if r < 128 \<and> (safe_byte (char_of r) \<or> char_of r \<in> {CHR ''.'', CHR ''_''}) then char_of r else CHR ''-'') (runes s)"

definition temp_prefix :: string where
  "temp_prefix = ''.kycap-''"

definition has_suffix :: "string \<Rightarrow> string \<Rightarrow> bool" where
  "has_suffix s t \<longleftrightarrow> has_prefix (rev s) (rev t)"

section \<open>The directory\<close>

record local_entry =
  is_dir :: bool
  entry_data :: bytes
  mod_time :: int

type_synonym listing = "(string \<times> local_entry) list"

record LocalCopy =
  copy_name :: string
  copy_size :: int
  created_at :: int

datatype local_call =
    MakeDir | ReadDirectory | StatEntry string | RemoveEntry string | MakeTempFile | WriteTempFile | SyncTempFile
  | CloseTempFile | ChmodTempFile | RenameTempFile

datatype local_error = BadKeep | CallFailed local_call

definition remove_entry :: "string \<Rightarrow> listing \<Rightarrow> listing" where
  "remove_entry n d = filter (\<lambda>e. fst e \<noteq> n) d"

definition put_entry :: "string \<Rightarrow> local_entry \<Rightarrow> listing \<Rightarrow> listing" where
  "put_entry n e d = (n, e) # remove_entry n d"

definition stale_temp :: int where
  "stale_temp = 3600 * 10 ^ 9"

definition stale :: "int \<Rightarrow> string \<times> local_entry \<Rightarrow> bool" where
  "stale clock e \<longleftrightarrow> \<not> is_dir (snd e) \<and> has_prefix (fst e) temp_prefix \<and> stale_temp < clock - mod_time (snd e)"

definition sweep_stale_temp :: "(local_call \<Rightarrow> bool) \<Rightarrow> int \<Rightarrow> listing \<Rightarrow> listing" where
  "sweep_stale_temp fails clock d =
     (if fails ReadDirectory then d
      else filter (\<lambda>e. \<not> (stale clock e \<and> \<not> fails (StatEntry (fst e)) \<and> \<not> fails (RemoveEntry (fst e)))) d)"

section \<open>Listing and writing\<close>

definition own_name :: "string \<Rightarrow> string \<Rightarrow> bool" where
  "own_name app n \<longleftrightarrow> has_prefix n (local_prefix app) \<and> has_suffix n ''.kycap''"

definition copy_of :: "string \<times> local_entry \<Rightarrow> LocalCopy" where
  "copy_of e = \<lparr>copy_name = fst e, copy_size = int (length (entry_data (snd e))), created_at = mod_time (snd e)\<rparr>"

text \<open>\<open>None\<close> is a directory that is not there; a listing without a directory is empty.\<close>

definition list_local_copies ::
  "(LocalCopy list \<Rightarrow> LocalCopy list) \<Rightarrow> (local_call \<Rightarrow> bool) \<Rightarrow> string \<Rightarrow> listing option \<Rightarrow> local_error + LocalCopy list" where
  "list_local_copies sorter fails app d =
     (case d of
        None \<Rightarrow> Inr []
      | Some d \<Rightarrow>
          if fails ReadDirectory then Inl (CallFailed ReadDirectory)
          else Inr (sorter (map copy_of (filter (\<lambda>e. \<not> is_dir (snd e) \<and> own_name app (fst e) \<and> \<not> fails (StatEntry (fst e))) d))))"

fun prune :: "(local_call \<Rightarrow> bool) \<Rightarrow> LocalCopy list \<Rightarrow> listing \<Rightarrow> local_error option \<times> listing" where
  "prune fails [] d = (None, d)"
| "prune fails (c # cs) d =
     (if fails (RemoveEntry (copy_name c)) then (Some (CallFailed (RemoveEntry (copy_name c))), d)
      else prune fails cs (remove_entry (copy_name c) d))"

text \<open>
  \<open>WriteLocalCopy\<close>: the name the copy has, once it is renamed, and the error. \<open>tmp\<close> is the temporary name
  the system chose. A temporary file that cannot be removed stays.
\<close>

definition write_local_copy ::
  "(LocalCopy list \<Rightarrow> LocalCopy list) \<Rightarrow> (local_call \<Rightarrow> bool) \<Rightarrow> string \<Rightarrow> int \<Rightarrow> string \<Rightarrow> string \<Rightarrow> bytes \<Rightarrow> int \<Rightarrow> listing option
    \<Rightarrow> (string option \<times> local_error option) \<times> listing option" where
  "write_local_copy sorter fails tmp clock app capsule_id raw keep dir =
     (if keep < 1 then ((None, Some BadKeep), dir)
      else if fails MakeDir then ((None, Some (CallFailed MakeDir)), dir)
      else let d = sweep_stale_temp fails clock (case dir of None \<Rightarrow> [] | Some d \<Rightarrow> d);
               final = local_prefix app @ filename_safe capsule_id @ ''.kycap'';
               file = (\<lambda>b. \<lparr>is_dir = False, entry_data = b, mod_time = clock\<rparr>);
               clean_up = (\<lambda>c b. ((None, Some (CallFailed c)), Some (if fails (RemoveEntry tmp) then put_entry tmp (file b) d else d)))
      in if fails MakeTempFile then ((None, Some (CallFailed MakeTempFile)), Some d)
         else if fails WriteTempFile then clean_up WriteTempFile []
         else if fails SyncTempFile then clean_up SyncTempFile raw
         else if fails CloseTempFile then clean_up CloseTempFile raw
         else if fails ChmodTempFile then clean_up ChmodTempFile raw
         else if fails RenameTempFile \<or> (\<exists>e \<in> set d. fst e = final \<and> is_dir (snd e)) then clean_up RenameTempFile raw
         else let d' = put_entry final (file raw) d
         in case list_local_copies sorter fails app (Some d') of
              Inl e \<Rightarrow> ((Some final, Some e), Some d')
            | Inr copies \<Rightarrow>
                (case prune fails (drop (nat (min keep (int (length copies)))) copies) d' of
                   (e, d'') \<Rightarrow> ((Some final, e), Some d'')))"

section \<open>Lemmas: names\<close>

definition sorts :: "(LocalCopy list \<Rightarrow> LocalCopy list) \<Rightarrow> bool" where
  "sorts sorter \<longleftrightarrow> (\<forall>cs. mset (sorter cs) = mset cs \<and> sorted_wrt (\<lambda>a b. created_at b \<le> created_at a) (sorter cs))"

lemma underscore_unsafe: "\<not> safe_byte (CHR ''_'')"
  by (simp add: safe_byte_def)

lemma escape_byte_ext: "escape_byte a @ xs = escape_byte b @ ys \<Longrightarrow> a = b \<and> xs = ys"
proof -
  assume e: "escape_byte a @ xs = escape_byte b @ ys"
  then have same: "safe_byte a = safe_byte b"
    using underscore_unsafe by (auto simp: escape_byte_def simp del: hex_encode.simps split: if_splits)
  show ?thesis
  proof (cases "safe_byte a")
    case True
    then show ?thesis using e same by (simp add: escape_byte_def)
  next
    case False
    with e same have h: "hex_encode [of_char a] @ xs = hex_encode [of_char b] @ ys"
      by (simp add: escape_byte_def del: hex_encode.simps)
    have l: "length (hex_encode [of_char a]) = length (hex_encode [of_char b])" by (simp only: length_hex_encode length_Cons)
    have both: "hex_encode [of_char a] = hex_encode [of_char b] \<and> xs = ys" by (rule iffD1 [OF append_eq_same_length [OF l] h])
    then have "xs = ys" by (rule conjunct2)
    from both have "[of_char a :: u8] = [of_char b]" by (simp only: hex.enc_inj)
    then have "unat (of_char a :: u8) = unat (of_char b :: u8)" by simp
    then have "a = b" by (simp add: of_char_eq_iff)
    with \<open>xs = ys\<close> show ?thesis by simp
  qed
qed

lemma escape_byte_not_Nil [simp]: "escape_byte c \<noteq> []"
  by (simp add: escape_byte_def)

lemma escape_bytes_inj: "concat (map escape_byte s) = concat (map escape_byte t) \<Longrightarrow> s = t"
proof (induction s arbitrary: t)
  case Nil
  then show ?case by (cases t) auto
next
  case (Cons a s)
  then obtain b u where "t = b # u" by (cases t) auto
  with Cons show ?case by (auto dest: escape_byte_ext)
qed

lemma app_name_safe_inj: "app_name_safe s = app_name_safe t \<Longrightarrow> s = t"
proof -
  have "concat (map escape_byte u) \<noteq> ''_''" for u
  proof (cases u)
    case (Cons a v)
    have "escape_byte a @ x \<noteq> ''_''" for x
      by (auto simp: escape_byte_def underscore_unsafe)
    then show ?thesis using Cons by simp
  qed simp
  moreover assume "app_name_safe s = app_name_safe t"
  ultimately show "s = t" using escape_bytes_inj [of s t] by (auto simp: app_name_safe_def split: if_splits)
qed

lemma app_name_safe_no_dot: "CHR ''.'' \<notin> set (app_name_safe s)"
proof -
  have "CHR ''.'' \<notin> set (hex_encode b)" for b
    using hex_encode_lower [of b] by (auto simp: list_all_iff is_lower_hex_def)
  then have "CHR ''.'' \<notin> set (escape_byte c)" for c
    by (auto simp: escape_byte_def safe_byte_def simp del: hex_encode.simps)
  then show ?thesis by (auto simp: app_name_safe_def)
qed

lemma own_name_app:
  assumes "own_name app n" "own_name other n"
  shows "app = other"
proof -
  have "takeWhile (\<lambda>c. c \<noteq> CHR ''.'') n = app_name_safe a" if "own_name a n" for a
  proof -
    from that have "\<exists>r. n = app_name_safe a @ CHR ''.'' # r"
      by (auto simp: own_name_def has_prefix_iff local_prefix_def)
    then obtain r where r: "n = app_name_safe a @ CHR ''.'' # r" by blast
    have "takeWhile (\<lambda>c. c \<noteq> CHR ''.'') (app_name_safe a @ CHR ''.'' # r)
        = app_name_safe a @ takeWhile (\<lambda>c. c \<noteq> CHR ''.'') (CHR ''.'' # r)"
      by (rule takeWhile_append2) (use app_name_safe_no_dot [of a] in blast)
    then show ?thesis unfolding r by simp
  qed
  with assms show ?thesis using app_name_safe_inj by metis
qed

section \<open>Lemmas: writing\<close>

lemma final_own: "own_name app (local_prefix app @ filename_safe i @ ''.kycap'')"
  by (simp add: own_name_def has_suffix_def has_prefix_def)

lemma prune_keeps: "prune fails cs d = (e, d') \<Longrightarrow> x \<in> set d \<Longrightarrow> fst x \<notin> copy_name ` set cs \<Longrightarrow> x \<in> set d'"
  by (induction fails cs d rule: prune.induct) (auto simp: remove_entry_def split: if_splits)

lemma prune_done: "prune fails cs d = (None, d') \<Longrightarrow> d' = filter (\<lambda>x. fst x \<notin> copy_name ` set cs) d"
  by (induction fails cs d rule: prune.induct) (auto simp: remove_entry_def conj_commute split: if_splits)

lemma put_entry_simps [simp]:
  "(n, e) \<in> set (put_entry n e d)" "fst x \<noteq> n \<Longrightarrow> x \<in> set (put_entry n e d) \<longleftrightarrow> x \<in> set d"
  by (auto simp: put_entry_def remove_entry_def)

lemma put_entry_distinct [simp]: "distinct (map fst d) \<Longrightarrow> distinct (map fst (put_entry n e d))"
  by (auto simp: put_entry_def remove_entry_def distinct_map_filter)

lemma sweep_keeps: "x \<in> set d \<Longrightarrow> \<not> stale clock x \<Longrightarrow> x \<in> set (sweep_stale_temp fails clock d)"
  by (simp add: sweep_stale_temp_def)

lemma sweep_sub: "set (sweep_stale_temp fails clock d) \<subseteq> set d"
  by (auto simp: sweep_stale_temp_def)

lemma sweep_distinct: "distinct (map fst d) \<Longrightarrow> distinct (map fst (sweep_stale_temp fails clock d))"
  by (simp add: sweep_stale_temp_def distinct_map_filter)

text \<open>The copies of the listing: those of the directory's own files.\<close>

lemma listed_copies:
  assumes "sorts sorter" "list_local_copies sorter fails app (Some d) = Inr copies" "c \<in> set copies"
  shows "\<exists>e. (copy_name c, e) \<in> set d \<and> \<not> is_dir e \<and> own_name app (copy_name c) \<and> created_at c = mod_time e"
proof -
  have "set (sorter cs) = set cs" for cs using assms(1) unfolding sorts_def by (metis set_mset_mset)
  then show ?thesis using assms(2,3) by (fastforce simp: list_local_copies_def copy_of_def split: if_splits)
qed

text \<open>
  What every outcome leaves: entries that are not this instance's files, and its files as long as the new
  copy has not its name.
\<close>

lemma write_leaves:
  assumes "sorts sorter" "distinct (map fst d)" "tmp \<notin> fst ` set d"
    and "write_local_copy sorter fails tmp clock app capsule_id raw keep (Some d) = ((name, e), Some d')"
    and "x \<in> set d" "\<not> stale clock x" "is_dir (snd x) \<or> \<not> own_name app (fst x) \<or> name = None"
  shows "x \<in> set d'"
proof -
  let ?d = "sweep_stale_temp fails clock d"
  let ?final = "local_prefix app @ filename_safe capsule_id @ ''.kycap''"
  let ?f = "\<lparr>is_dir = False, entry_data = raw, mod_time = clock\<rparr>"
  have x: "x \<in> set ?d" "fst x \<noteq> tmp" using assms(3,5,6) sweep_keeps by auto
  then have t: "x \<in> set (put_entry tmp y ?d)" for y by simp
  show ?thesis
  proof (cases name)
    case None
    then show ?thesis using assms(4,5) x t
      by (auto simp: write_local_copy_def Let_def split: if_splits sum.splits prod.splits)
  next
    case (Some n)
    then have nodir: "\<not> (\<exists>y \<in> set ?d. fst y = ?final \<and> is_dir (snd y))"
      and cases: "d' = put_entry ?final ?f ?d \<or> (\<exists>copies. list_local_copies sorter fails app (Some (put_entry ?final ?f ?d)) = Inr copies
          \<and> prune fails (drop (nat (min keep (int (length copies)))) copies) (put_entry ?final ?f ?d) = (e, d'))"
      using assms(4) by (auto simp: write_local_copy_def Let_def split: if_splits sum.splits prod.splits)
    have ne: "fst x \<noteq> ?final" using nodir x(1) assms(7) Some final_own by force
    then have put: "x \<in> set (put_entry ?final ?f ?d)" using x by simp
    from cases show ?thesis
    proof (elim disjE exE conjE)
      fix copies
      assume l: "list_local_copies sorter fails app (Some (put_entry ?final ?f ?d)) = Inr copies"
        and p: "prune fails (drop (nat (min keep (int (length copies)))) copies) (put_entry ?final ?f ?d) = (e, d')"
      have dist: "distinct (map fst (put_entry ?final ?f ?d))" using sweep_distinct [OF assms(2)] by simp
      have "fst x \<noteq> copy_name c" if c: "c \<in> set copies" for c
      proof
        assume eq: "fst x = copy_name c"
        obtain y where y: "(copy_name c, y) \<in> set (put_entry ?final ?f ?d)" "\<not> is_dir y" "own_name app (copy_name c)"
          using listed_copies [OF assms(1) l c] by blast
        then have "(fst x, y) \<in> set (put_entry ?final ?f ?d)" using eq by simp
        then have "snd x = y" using put dist by (metis eq_key_imp_eq_value prod.collapse)
        then show False using y eq assms(7) Some by simp
      qed
      then show ?thesis using prune_keeps [OF p put] by (auto dest: in_set_dropD)
    qed (use put in simp)
  qed
qed

definition own_file :: "string \<Rightarrow> string \<times> local_entry \<Rightarrow> bool" where
  "own_file app x \<longleftrightarrow> \<not> is_dir (snd x) \<and> own_name app (fst x)"

lemma names_outside: "fst ` set (filter P (filter (\<lambda>x. fst x \<notin> B) d)) = fst ` set (filter P d) - B"
  by force

text \<open>Keeping the first \<open>k\<close> of a sorted list of the own files' copies and removing the others by name.\<close>

lemma keep_newest:
  assumes "sorts sorter" "distinct (map fst d)" "copies = sorter (map copy_of (filter (own_file app) d))"
    and "d' = filter (\<lambda>x. fst x \<notin> copy_name ` set (drop k copies)) d"
  shows "length (filter (own_file app) d') \<le> k"
    and "x \<in> set d' \<Longrightarrow> own_file app x \<Longrightarrow> y \<in> set d \<Longrightarrow> own_file app y \<Longrightarrow> y \<notin> set d' \<Longrightarrow> mod_time (snd y) \<le> mod_time (snd x)"
    and "y \<in> set d \<Longrightarrow> own_file app y \<Longrightarrow> y \<notin> set d' \<Longrightarrow> k \<le> length (filter (own_file app) d')"
proof -
  let ?own = "filter (own_file app) d"
  have m: "mset copies = mset (map copy_of ?own)" and sorted: "sorted_wrt (\<lambda>a b. created_at b \<le> created_at a) copies"
    using assms(1) by (simp_all add: sorts_def assms(3))
  have dn: "distinct (map fst ?own)" using assms(2) by (simp add: distinct_map_filter)
  have "mset (map copy_name copies) = mset (map fst ?own)"
    using arg_cong [OF m, of "image_mset copy_name"] by (simp add: copy_of_def comp_def multiset.map_comp)
  then have dc: "distinct (map copy_name copies)" using dn by (metis mset_eq_imp_distinct_iff)
  have sc: "set copies = copy_of ` set ?own" using arg_cong [OF m, of set_mset] by simp
  have split: "map copy_name copies = map copy_name (take k copies) @ map copy_name (drop k copies)"
    by (metis append_take_drop_id map_append)
  then have disj: "copy_name ` set (take k copies) \<inter> copy_name ` set (drop k copies) = {}"
    using dc by (metis distinct_append list.set_map)
  have name_in: "x \<in> set ?own \<Longrightarrow> fst x \<in> copy_name ` set copies" for x
    unfolding sc image_image by (rule image_eqI [of _ _ x]) (simp_all add: copy_of_def)
  have kept: "fst ` set (filter (own_file app) d') = copy_name ` set (take k copies)"
  proof -
    have all: "copy_name ` set copies = copy_name ` set (take k copies) \<union> copy_name ` set (drop k copies)"
      using arg_cong [OF split, of set] by (simp only: list.set_map set_append)
    have names: "copy_name ` set copies = fst ` set ?own" by (simp add: sc copy_of_def image_image)
    have "fst ` set (filter (own_file app) d') = fst ` set ?own - copy_name ` set (drop k copies)"
      unfolding assms(4) by (rule names_outside)
    then have diff: "fst ` set (filter (own_file app) d') = copy_name ` set copies - copy_name ` set (drop k copies)"
      by (simp only: names)
    have "A = T \<union> D \<Longrightarrow> T \<inter> D = {} \<Longrightarrow> X = A - D \<Longrightarrow> X = T" for A T D X :: "string set" by blast
    from this [OF all disj diff] show ?thesis .
  qed
  have dd: "distinct (map fst (filter (own_file app) d'))" using assms(2) unfolding assms(4) by (simp add: distinct_map_filter)
  have "length (filter (own_file app) d') = length (map fst (filter (own_file app) d'))" by simp
  also have "\<dots> = card (fst ` set (filter (own_file app) d'))" using distinct_card [OF dd] by simp
  also have "\<dots> = card (set (map copy_name (take k copies)))" by (simp only: kept list.set_map)
  also have "\<dots> = length (take k copies)" using dc split by (metis distinct_append distinct_card length_map)
  finally have len: "length (filter (own_file app) d') = min (length copies) k" by simp
  then show "length (filter (own_file app) d') \<le> k" by simp
  have dropped: "\<exists>c \<in> set (drop k copies). copy_name c = fst y \<and> created_at c = mod_time (snd y)"
    if y: "y \<in> set d" "own_file app y" "y \<notin> set d'" for y
  proof -
    have "fst y \<in> copy_name ` set (drop k copies)" using y unfolding assms(4) by simp
    then obtain c where c: "c \<in> set (drop k copies)" "copy_name c = fst y" by force
    then have "c \<in> copy_of ` set ?own" using sc by (metis in_set_dropD)
    then obtain z where z: "z \<in> set ?own" "c = copy_of z" by blast
    have "fst z = fst y" using c(2) z(2) by (simp add: copy_of_def)
    moreover have "y \<in> set ?own" using y by simp
    ultimately have "z = y" using dn z(1) by (metis eq_key_imp_eq_value prod.collapse)
    then show ?thesis using c z(2) by (intro bexI [of _ c]) (simp_all add: copy_of_def)
  qed
  show "mod_time (snd y) \<le> mod_time (snd x)" if "x \<in> set d'" "own_file app x" "y \<in> set d" "own_file app y" "y \<notin> set d'"
  proof -
    from dropped [OF that(3-5)] obtain c where c: "c \<in> set (drop k copies)" "created_at c = mod_time (snd y)" by blast
    have "copy_of x \<in> set copies" using that(1,2) by (auto simp: sc assms(4))
    moreover have "copy_of x \<notin> set (drop k copies)" using that(1) by (auto simp: assms(4) copy_of_def image_iff)
    ultimately have "copy_of x \<in> set (take k copies)" by (metis append_take_drop_id Un_iff set_append)
    moreover have "\<forall>a \<in> set (take k copies). \<forall>b \<in> set (drop k copies). created_at b \<le> created_at a"
    proof -
      have "sorted_wrt (\<lambda>a b. created_at b \<le> created_at a) (take k copies @ drop k copies)"
        using sorted by (simp only: append_take_drop_id)
      then show ?thesis unfolding sorted_wrt_append by blast
    qed
    ultimately have "created_at c \<le> created_at (copy_of x)" using c(1) by blast
    then show ?thesis using c(2) by (simp add: copy_of_def)
  qed
  show "k \<le> length (filter (own_file app) d')" if "y \<in> set d" "own_file app y" "y \<notin> set d'"
    using dropped [OF that] len by (cases "k \<le> length copies") auto
qed

text \<open>What a successful write is, when every entry can be examined.\<close>

lemma write_done:
  assumes "sorts sorter" "distinct (map fst d)" "\<forall>n. \<not> fails (StatEntry n)"
    and "write_local_copy sorter fails tmp clock app capsule_id raw keep (Some d) = ((name, None), Some d')"
  obtains d0 copies where "name = Some (local_prefix app @ filename_safe capsule_id @ ''.kycap'')" "1 \<le> keep"
    "d0 = put_entry (local_prefix app @ filename_safe capsule_id @ ''.kycap'') \<lparr>is_dir = False, entry_data = raw, mod_time = clock\<rparr>
       (sweep_stale_temp fails clock d)"
    "copies = sorter (map copy_of (filter (own_file app) d0))"
    "d' = filter (\<lambda>x. fst x \<notin> copy_name ` set (drop (nat keep) copies)) d0" "distinct (map fst d0)"
proof -
  let ?d0 = "put_entry (local_prefix app @ filename_safe capsule_id @ ''.kycap'') \<lparr>is_dir = False, entry_data = raw, mod_time = clock\<rparr>
       (sweep_stale_temp fails clock d)"
  obtain copies where c: "list_local_copies sorter fails app (Some ?d0) = Inr copies" "name = Some (local_prefix app @ filename_safe capsule_id @ ''.kycap'')"
    "1 \<le> keep" "prune fails (drop (nat (min keep (int (length copies)))) copies) ?d0 = (None, d')"
    using assms(4) by (auto simp: write_local_copy_def Let_def not_less split: if_splits sum.splits prod.splits)
  have "drop (nat (min keep (int (length copies)))) copies = drop (nat keep) copies"
    using c(3) by (simp add: min_def nat_le_iff)
  with c(4) have "prune fails (drop (nat keep) copies) ?d0 = (None, d')" by simp
  from prune_done [OF this] c show thesis
    by (intro that [of ?d0 copies]) (use assms(2,3) in \<open>auto simp: list_local_copies_def own_file_def [abs_def] sweep_distinct split: if_splits\<close>)
qed

section \<open>Properties\<close>

text \<open>
  Only its own files. Whatever fails and however it ends, writing a local copy leaves every entry of
  the backup directory that is not a file named for this app, except temporary files older than an hour;
  no file is named for two apps; and when no copy was written, the app's own files are all left too.
\<close>

theorem local_copy_leaves_others:
  assumes "sorts sorter" "distinct (map fst d)" "tmp \<notin> fst ` set d"
    and "write_local_copy sorter fails tmp clock app capsule_id raw keep (Some d) = ((name, e), Some d')"
    and "x \<in> set d" "\<not> stale clock x" "is_dir (snd x) \<or> name = None \<or> (\<exists>other. other \<noteq> app \<and> own_name other (fst x)) \<or> \<not> own_name app (fst x)"
  shows "x \<in> set d'"
  using write_leaves [OF assms(1-6)] assms(7) own_name_app by blast


section \<open>Examples\<close>

definition newest_first :: "LocalCopy list \<Rightarrow> LocalCopy list" where
  "newest_first = sort_key (\<lambda>c. - created_at c)"

lemma newest_first_sorts: "sorts newest_first"
  unfolding sorts_def newest_first_def
proof (intro allI conjI)
  fix cs :: "LocalCopy list"
  have "sorted (map (\<lambda>c. - created_at c) (sort_key (\<lambda>c. - created_at c) cs))" by simp
  then show "sorted_wrt (\<lambda>a b. created_at b \<le> created_at a) (sort_key (\<lambda>c. - created_at c) cs)"
    by (simp add: sorted_wrt_map)
qed simp

text \<open>A directory with one copy of the app, written at the time \<open>t\<close>, and a file of another app.\<close>

definition old_dir :: "int \<Rightarrow> listing" where
  "old_dir t = [(''app.old.kycap'', \<lparr>is_dir = False, entry_data = [1], mod_time = t\<rparr>),
     (''app-b.old.kycap'', \<lparr>is_dir = False, entry_data = [2], mod_time = t\<rparr>)]"

lemma app_prefix: "local_prefix ''app'' = ''app.''" "local_prefix ''app-b'' = ''app-b.''"
  by (simp_all add: local_prefix_def app_name_safe_def escape_byte_def safe_byte_def)

lemma new_name: "filename_safe ''new'' = ''new''"
proof -
  have "list_all is_ascii ''new''" by (simp add: is_ascii_def)
  from runes_ascii [OF this] show ?thesis by (simp add: filename_safe_def safe_byte_def char_of_def bit_iff_odd)
qed

lemma old_dir_own:
  "own_name ''app'' ''app.old.kycap''" "own_name ''app'' ''app.new.kycap''" "\<not> own_name ''app'' ''app-b.old.kycap''"
  "own_name ''app-b'' ''app-b.old.kycap''"
  by (simp_all add: own_name_def app_prefix has_prefix_def has_suffix_def)

lemma old_dir_not_stale: "\<not> stale clock (n, e)" if "n \<in> {''app.old.kycap'', ''app-b.old.kycap''}"
  using that by (auto simp: stale_def temp_prefix_def has_prefix_def)

lemma old_dir_sweep: "sweep_stale_temp (\<lambda>_. False) clock (old_dir t) = old_dir t"
  by (simp add: sweep_stale_temp_def old_dir_def old_dir_not_stale)

lemma old_dir_put: "put_entry ''app.new.kycap'' e (old_dir t) = (''app.new.kycap'', e) # old_dir t"
  by (simp add: put_entry_def remove_entry_def old_dir_def)

text \<open>
  \<open>WriteLocalCopy\<close> keeps the newest files by modification time. When the clock was set back, the file
  just written is the oldest: it is removed at once and the call reports success with its name, although
  the comment on \<open>ErrBadKeep\<close> says a write must not prune the copy it wrote.
\<close>

lemma write_old_dir:
  "write_local_copy newest_first (\<lambda>_. False) ''.kycap-1'' clock ''app'' ''new'' [3] 1 (Some (old_dir t))
     = ((Some ''app.new.kycap'', None),
        Some (if t \<le> clock then [(''app.new.kycap'', \<lparr>is_dir = False, entry_data = [3], mod_time = clock\<rparr>), old_dir t ! 1]
              else old_dir t))"
proof -
  let ?f = "\<lparr>is_dir = False, entry_data = [3], mod_time = clock\<rparr>"
  have l: "list_local_copies newest_first (\<lambda>_. False) ''app'' (Some ((''app.new.kycap'', ?f) # old_dir t))
      = Inr (newest_first [copy_of (''app.new.kycap'', ?f), copy_of (old_dir t ! 0)])"
    by (simp add: list_local_copies_def old_dir_def old_dir_own)
  have n: "newest_first [copy_of (''app.new.kycap'', ?f), copy_of (old_dir t ! 0)]
      = (if t \<le> clock then [copy_of (''app.new.kycap'', ?f), copy_of (old_dir t ! 0)]
         else [copy_of (old_dir t ! 0), copy_of (''app.new.kycap'', ?f)])"
    by (simp add: newest_first_def copy_of_def old_dir_def)
  show ?thesis
    by (simp add: write_local_copy_def Let_def old_dir_sweep app_prefix new_name old_dir_put l n)
      (simp add: old_dir_def copy_of_def remove_entry_def)
qed

lemma fresh_copy_pruned:
  "\<exists>clock d d'. write_local_copy newest_first (\<lambda>_. False) ''.kycap-1'' clock ''app'' ''new'' [3] 1 (Some d) = ((Some ''app.new.kycap'', None), Some d')
     \<and> ''app.new.kycap'' \<notin> fst ` set d'"
  using write_old_dir [of 10 20] by (intro exI [of _ 10] exI [of _ "old_dir 20"] exI [of _ "old_dir 20"]) (simp add: old_dir_def)


lemma local_copy_leaves_others_witness:
  "(''app-b.old.kycap'', \<lparr>is_dir = False, entry_data = [2], mod_time = 10\<rparr>)
     \<in> set [(''app.new.kycap'', \<lparr>is_dir = False, entry_data = [3], mod_time = 20\<rparr>), old_dir 10 ! 1]"
proof -
  have w: "write_local_copy newest_first (\<lambda>_. False) ''.kycap-1'' 20 ''app'' ''new'' [3] 1 (Some (old_dir 10)) = ((Some ''app.new.kycap'', None),
      Some [(''app.new.kycap'', \<lparr>is_dir = False, entry_data = [3], mod_time = 20\<rparr>), old_dir 10 ! 1])"
    using write_old_dir [of 20 10] by simp
  show ?thesis
    by (rule local_copy_leaves_others [OF newest_first_sorts _ _ w])
      (simp_all add: old_dir_def old_dir_not_stale old_dir_own)
qed

end
