(* ===== verification/AuditText.thy ===== *)
theory AuditText
  imports Prelude GoStrings
begin

text \<open>
  Bounded, printable excerpts of text from outside: the loop that \<open>AuditSafe\<close> of \<open>recoveryclient/client.go\<close>
  and \<open>printable\<close> of \<open>scim/types.go\<close> share. \<open>unicode.IsPrint\<close> is an argument.
\<close>

fun excerpt_loop :: "nat \<Rightarrow> (nat \<Rightarrow> bool) \<Rightarrow> string \<Rightarrow> nat list \<Rightarrow> string" where
  "excerpt_loop limit is_print b [] = b"
| "excerpt_loop limit is_print b (r # rs) =
     (if limit \<le> length b then b @ ''...''
      else excerpt_loop limit is_print
        (if r = 10 \<or> r = 9 then b @ '' '' else if is_print r then b @ encode_rune r else b) rs)"

definition audit_text_limit :: nat where
  "audit_text_limit = 200"

definition audit_safe :: "(nat \<Rightarrow> bool) \<Rightarrow> string \<Rightarrow> string" where
  "audit_safe is_print s = excerpt_loop audit_text_limit is_print [] (map fst (runes s))"

section \<open>Lemmas\<close>

lemma encode_rune_length: "length (encode_rune r) \<le> 4"
  by (simp add: encode_rune_def Let_def)

lemma excerpt_loop_length: "length b \<le> limit + 3 \<Longrightarrow> length (excerpt_loop limit P b rs) \<le> limit + 6"
proof (induction rs arbitrary: b)
  case (Cons r rs)
  show ?case
  proof (cases "limit \<le> length b")
    case False
    have "length (if r = 10 \<or> r = 9 then b @ '' '' else if P r then b @ encode_rune r else b) \<le> limit + 3"
      using False encode_rune_length [of r] by auto
    from Cons.IH [OF this] False show ?thesis by simp
  qed (use Cons.prems in simp)
qed simp

text \<open>The runes an excerpt can hold.\<close>

definition plain_rune :: "(nat \<Rightarrow> bool) \<Rightarrow> nat \<Rightarrow> bool" where
  "plain_rune P r \<longleftrightarrow> P r \<or> r = 32 \<or> r = 46"

lemma ascii_rune_texts: "'' '' = encode_rune 32" "''...'' = concat (map encode_rune [46, 46, 46])"
  by (simp_all add: encode_rune_def char_of_def bit_iff_odd)

lemma excerpt_loop_texts:
  "list_all (plain_rune P) ws \<Longrightarrow> \<exists>us. excerpt_loop limit P (concat (map encode_rune ws)) rs = concat (map encode_rune us) \<and> list_all (plain_rune P) us"
proof (induction rs arbitrary: ws)
  case Nil
  then show ?case by auto
next
  case (Cons r rs)
  let ?b = "concat (map encode_rune ws)"
  show ?case
  proof (cases "limit \<le> length ?b")
    case True
    then have "excerpt_loop limit P ?b (r # rs) = concat (map encode_rune (ws @ [46, 46, 46]))"
      by (simp only: excerpt_loop.simps if_True ascii_rune_texts(2) map_append concat_append)
    with Cons.prems show ?thesis by (intro exI [of _ "ws @ [46, 46, 46]"]) (simp add: plain_rune_def)
  next
    case False
    let ?w = "if r = 10 \<or> r = 9 then [32] else if P r then [r] else []"
    have "excerpt_loop limit P ?b (r # rs) = excerpt_loop limit P (concat (map encode_rune (ws @ ?w))) rs"
      using False by (auto simp: ascii_rune_texts(1))
    moreover have "plain_rune P 32" "P r \<Longrightarrow> plain_rune P r" by (simp_all add: plain_rune_def)
    then have "list_all (plain_rune P) (ws @ ?w)" using Cons.prems by simp
    ultimately show ?thesis using Cons.IH by metis
  qed
qed

lemma excerpt_plain:
  assumes "\<And>r. P r \<Longrightarrow> valid_rune r"
  shows "list_all (\<lambda>(r, w). plain_rune P r \<and> w = encode_rune r) (runes (excerpt_loop limit P [] rs))"
proof -
  obtain us where us: "excerpt_loop limit P [] rs = concat (map encode_rune us)" "list_all (plain_rune P) us"
    using excerpt_loop_texts [of P "[]" limit rs] by auto
  have "list_all valid_rune us"
    using us(2) assms by (auto simp: list_all_iff plain_rune_def valid_rune_def)
  then have "runes (excerpt_loop limit P [] rs) = map (\<lambda>r. (r, encode_rune r)) us" unfolding us(1) by (rule runes_encode)
  with us(2) show ?thesis by (simp add: list_all_iff)
qed

end
