(* ===== verification/RecoveryWire.thy ===== *)
theory RecoveryWire
  imports RecoveryPin AuditText Hashes
begin

text \<open>
  \<open>recoveryclient/client.go\<close>: which addresses a capsule may be sent to, which URLs are accepted, and the
  two calls on KyRecovery, the claim of a pairing and the deposit. Parsing of URLs and addresses, name
  lookup, JSON texts and what a server answers are the record \<open>Wire\<close>; the predicates of \<open>net.IP\<close> are
  written out.
\<close>

section \<open>Addresses\<close>

text \<open>A \<open>net.IP\<close>: 4 or 16 bytes, any other length is no address; \<open>nil\<close> is the empty list.\<close>

type_synonym ip = "u8 list"

definition to4 :: "ip \<Rightarrow> ip option" where
  "to4 x = (if length x = 4 then Some x
     else if length x = 16 \<and> take 12 x = replicate 10 0 @ [0xFF, 0xFF] then Some (drop 12 x) else None)"

definition ip4 :: "ip \<Rightarrow> (u8 \<Rightarrow> u8 \<Rightarrow> u8 \<Rightarrow> bool) \<Rightarrow> (u8 \<Rightarrow> u8 \<Rightarrow> bool) \<Rightarrow> bool" where
  "ip4 x on4 on16 =
     (case to4 x of Some v \<Rightarrow> on4 (v ! 0) (v ! 1) (v ! 2) | None \<Rightarrow> length x = 16 \<and> on16 (x ! 0) (x ! 1))"

definition is_unspecified :: "ip \<Rightarrow> bool" where
  "is_unspecified x \<longleftrightarrow> to4 x = Some [0, 0, 0, 0] \<or> x = replicate 16 0"

definition is_loopback :: "ip \<Rightarrow> bool" where
  "is_loopback x \<longleftrightarrow> (case to4 x of Some v \<Rightarrow> v ! 0 = 127 | None \<Rightarrow> x = replicate 15 0 @ [1])"

definition is_private :: "ip \<Rightarrow> bool" where
  "is_private x = ip4 x (\<lambda>a b c. a = 10 \<or> (a = 172 \<and> b AND 0xF0 = 16) \<or> (a = 192 \<and> b = 168)) (\<lambda>a b. a AND 0xFE = 0xFC)"

definition is_multicast :: "ip \<Rightarrow> bool" where
  "is_multicast x = ip4 x (\<lambda>a b c. a AND 0xF0 = 0xE0) (\<lambda>a b. a = 0xFF)"

definition is_link_local_multicast :: "ip \<Rightarrow> bool" where
  "is_link_local_multicast x = ip4 x (\<lambda>a b c. a = 224 \<and> b = 0 \<and> c = 0) (\<lambda>a b. a = 0xFF \<and> b AND 0x0F = 2)"

definition is_link_local_unicast :: "ip \<Rightarrow> bool" where
  "is_link_local_unicast x = ip4 x (\<lambda>a b c. a = 169 \<and> b = 254) (\<lambda>a b. a = 0xFE \<and> b AND 0xC0 = 0x80)"

text \<open>\<open>IPNet.Contains\<close>: an IPv4 address in either form is compared as four bytes.\<close>

definition net_mask :: "nat \<Rightarrow> u8" where
  "net_mask bits = (if 8 \<le> bits then 0xFF else push_bit (8 - bits) 0xFF)"

fun masked_eq :: "nat \<Rightarrow> u8 list \<Rightarrow> u8 list \<Rightarrow> bool" where
  "masked_eq bits [] ys \<longleftrightarrow> ys = []"
| "masked_eq bits (x # xs) [] \<longleftrightarrow> False"
| "masked_eq bits (x # xs) (y # ys) \<longleftrightarrow>
     x AND net_mask bits = y AND net_mask bits \<and> masked_eq (bits - 8) xs ys"

definition in_net :: "ip \<times> nat \<Rightarrow> ip \<Rightarrow> bool" where
  "in_net net x = masked_eq (snd net) (fst net) (case to4 x of Some v \<Rightarrow> v | None \<Rightarrow> x)"

definition reserved_ranges :: "(ip \<times> nat) list" where
  "reserved_ranges = [([0, 0, 0, 0], 8), ([192, 0, 0, 0], 24), ([198, 18, 0, 0], 15), ([240, 0, 0, 0], 4),
     ([0, 0x64, 0xFF, 0x9B] @ replicate 12 0, 96), ([0xFE, 0xC0] @ replicate 14 0, 10)]"

definition cgnat_range :: "ip \<times> nat" where
  "cgnat_range = ([100, 64, 0, 0], 10)"

definition is_public_ip :: "ip \<Rightarrow> bool" where
  "is_public_ip x \<longleftrightarrow>
     (if x = [] \<or> is_loopback x \<or> is_private x \<or> is_link_local_unicast x \<or> is_link_local_multicast x
         \<or> is_unspecified x \<or> is_multicast x \<or> in_net cgnat_range x
      then False else \<not> list_ex (\<lambda>n. in_net n x) reserved_ranges)"

definition allowed_ip :: "ip \<Rightarrow> bool \<Rightarrow> bool" where
  "allowed_ip x allow_private \<longleftrightarrow>
     (if \<not> allow_private then is_public_ip x
      else if x = [] \<or> is_loopback x \<or> is_link_local_unicast x \<or> is_link_local_multicast x \<or> is_unspecified x \<or> is_multicast x
      then False else \<not> list_ex (\<lambda>n. in_net n x) reserved_ranges)"

section \<open>The world outside\<close>

record url_parts =
  url_scheme :: string
  url_host :: string
  url_user :: bool
  url_query :: string
  url_force_query :: bool
  url_fragment :: string

record http_request =
  req_url :: string
  req_headers :: "(string \<times> string) list"
  req_body :: bytes

datatype http_answer = NoAnswer | Redirects | Answer int bytes

record ClaimReply =
  claim_token :: string
  claim_public_key :: string
  claim_threshold :: int
  claim_shares :: int

record Receipt =
  receipt_capsule :: string
  receipt_digest :: string
  receipt_size :: int

text \<open>
  \<open>serve\<close> is what the host at an address answers to a request; \<open>Redirects\<close> is an answer that names another
  location. \<open>claim_text\<close> is the JSON of a claim: code, service and app.
\<close>

record Wire =
  parse_url :: "string \<Rightarrow> url_parts option"
  parse_ip :: "string \<Rightarrow> ip option"
  lookup_ip :: "string \<Rightarrow> ip list option"
  serve :: "ip \<Rightarrow> http_request \<Rightarrow> http_answer"
  claim_text :: "string \<Rightarrow> string \<Rightarrow> string \<Rightarrow> bytes"
  read_claim :: "bytes \<Rightarrow> ClaimReply option"
  read_receipt :: "bytes \<Rightarrow> Receipt option"
  is_print :: "nat \<Rightarrow> bool"

datatype wire_error =
    NotHttps | HasQuery | PrivateDestination | UnroutableAddress | LookupFailed | RequestFailed | RedirectRefused
  | ClaimRejected int string | ClaimUnreadable | ClaimNoToken | ClaimKeyText | ClaimKey recoverykey_error | ClaimTopology
  | DepositRejected int string | ReceiptUnreadable | DigestMismatch | SizeMismatch | NoCapsuleID

section \<open>Dialling\<close>

text \<open>The transport's \<open>DialContext\<close>: the address to connect to, the first that is allowed.\<close>

fun pick_address :: "bool \<Rightarrow> bool \<Rightarrow> ip list \<Rightarrow> wire_error + ip" where
  "pick_address allow_private seen [] =
     (if \<not> allow_private \<and> seen then Inl PrivateDestination else Inl UnroutableAddress)"
| "pick_address allow_private seen (x # xs) =
     (if allowed_ip x allow_private then Inr x else pick_address allow_private (seen \<or> allowed_ip x True) xs)"

definition dial :: "Wire \<Rightarrow> bool \<Rightarrow> string \<Rightarrow> wire_error + ip" where
  "dial W allow_private host =
     (case lookup_ip W host of None \<Rightarrow> Inl LookupFailed | Some ips \<Rightarrow> pick_address allow_private False ips)"

text \<open>One exchange, and what was sent to whom; redirects are refused.\<close>

definition exchange :: "Wire \<Rightarrow> bool \<Rightarrow> http_request \<Rightarrow> (wire_error + int \<times> bytes) \<times> (ip \<times> http_request) option" where
  "exchange W allow_private rq =
     (case parse_url W (req_url rq) of
        None \<Rightarrow> (Inl RequestFailed, None)
      | Some u \<Rightarrow>
          (case dial W allow_private (url_host u) of
             Inl e \<Rightarrow> (Inl e, None)
           | Inr x \<Rightarrow>
               ((case serve W x rq of
                   NoAnswer \<Rightarrow> Inl RequestFailed
                 | Redirects \<Rightarrow> Inl RedirectRefused
                 | Answer status body \<Rightarrow> Inr (status, body)), Some (x, rq))))"

section \<open>URLs\<close>

definition validate_url :: "Wire \<Rightarrow> string \<Rightarrow> bool \<Rightarrow> wire_error option" where
  "validate_url W raw allow_private =
     (case parse_url W (trim_space raw) of
        None \<Rightarrow> Some NotHttps
      | Some u \<Rightarrow>
          if url_scheme u \<noteq> ''https'' \<or> url_host u = [] \<or> url_user u then Some NotHttps
          else if url_query u \<noteq> [] \<or> url_fragment u \<noteq> [] \<or> url_force_query u then Some HasQuery
          else (case parse_ip W (url_host u) of
             None \<Rightarrow> None
           | Some x \<Rightarrow>
               if allowed_ip x allow_private then None
               else if \<not> allow_private \<and> allowed_ip x True then Some PrivateDestination
               else Some UnroutableAddress))"

definition trim_slashes :: "string \<Rightarrow> string" where
  "trim_slashes s = rev (dropWhile (\<lambda>c. c = CHR ''/'') (rev s))"

definition endpoint :: "Wire \<Rightarrow> string \<Rightarrow> string \<Rightarrow> bool \<Rightarrow> wire_error + string" where
  "endpoint W server path allow_private =
     (let u = trim_slashes server @ path
      in case validate_url W u allow_private of Some e \<Rightarrow> Inl e | None \<Rightarrow> Inr u)"

definition remote_message :: "Wire \<Rightarrow> bytes \<Rightarrow> string" where
  "remote_message W body = audit_safe (is_print W) (string_of (take 4096 body))"

section \<open>Claims and deposits\<close>

record 'pk PairingResult =
  api_token :: string
  paired_key :: "'pk RecoveryKey"

definition claim_pairing ::
  "('sk, 'pk, 'ctx) Hpke \<Rightarrow> Wire \<Rightarrow> bool \<Rightarrow> string \<Rightarrow> string \<Rightarrow> string \<Rightarrow> string
    \<Rightarrow> (wire_error + 'pk PairingResult) \<times> (ip \<times> http_request) option" where
  "claim_pairing H W allow_private server code service app =
     (case endpoint W server ''/api/pairing/claim'' allow_private of
        Inl e \<Rightarrow> (Inl e, None)
      | Inr u \<Rightarrow>
          (case exchange W allow_private \<lparr>req_url = u, req_headers = [(''Content-Type'', ''application/json'')],
                                          req_body = claim_text W (trim_space code) service app\<rparr> of
             (Inl e, sent) \<Rightarrow> (Inl e, sent)
           | (Inr (status, body), sent) \<Rightarrow>
               ((if status \<noteq> 200 then Inl (ClaimRejected status (remote_message W body))
                 else case read_claim W (take 65536 body) of
                   None \<Rightarrow> Inl ClaimUnreadable
                 | Some c \<Rightarrow>
                     if claim_token c = [] then Inl ClaimNoToken
                     else case b64_decode b64_std True (claim_public_key c) of
                       None \<Rightarrow> Inl ClaimKeyText
                     | Some pk_bytes \<Rightarrow>
                         (case parse_public_key H pk_bytes of
                            Inl e \<Rightarrow> Inl (ClaimKey e)
                          | Inr pk \<Rightarrow>
                              if \<not> valid_topology (claim_threshold c) (claim_shares c) then Inl ClaimTopology
                              else Inr \<lparr>api_token = claim_token c,
                                        paired_key = \<lparr>recovery_public = pk, recovery_threshold = claim_threshold c,
                                                      recovery_total = claim_shares c\<rparr>\<rparr>)), sent)))"

definition deposit ::
  "Wire \<Rightarrow> bool \<Rightarrow> string \<Rightarrow> string \<Rightarrow> bytes \<Rightarrow> (wire_error + Receipt) \<times> (ip \<times> http_request) option" where
  "deposit W allow_private server token container =
     (case endpoint W server ''/api/backup/deposit'' allow_private of
        Inl e \<Rightarrow> (Inl e, None)
      | Inr u \<Rightarrow>
          (case exchange W allow_private
             \<lparr>req_url = u, req_headers = [(''Authorization'', ''Bearer '' @ token), (''Content-Type'', ''application/octet-stream'')],
              req_body = container\<rparr> of
             (Inl e, sent) \<Rightarrow> (Inl e, sent)
           | (Inr (status, body), sent) \<Rightarrow>
               ((if status \<noteq> 200 \<and> status \<noteq> 201 then Inl (DepositRejected status (remote_message W body))
                 else case read_receipt W (take 65536 body) of
                   None \<Rightarrow> Inl ReceiptUnreadable
                 | Some r \<Rightarrow>
                     if receipt_digest r \<noteq> hex_encode (sha256 container) then Inl DigestMismatch
                     else if receipt_size r \<noteq> int (length container) then Inl SizeMismatch
                     else if receipt_capsule r = [] then Inl NoCapsuleID
                     else Inr r), sent)))"

section \<open>Lemmas: addresses\<close>

lemma unat_high: "unat (a AND NOT (mask n) :: u8) = 2 ^ n * (unat a div 2 ^ n)"
proof -
  have a: "unat a mod 256 = unat a" using unsigned_less [of a] by simp
  have "a AND NOT (mask n) = push_bit n (drop_bit n a)" by (simp add: bit_eq_iff bit_simps) (auto simp: bit_imp_le_length)
  also have "unat \<dots> = 2 ^ n * (unat a div 2 ^ n) mod 256"
    unfolding unsigned_push_bit_eq unsigned_drop_bit_eq by (simp add: drop_bit_eq_div [where ?'a = nat] take_bit_eq_mod [where ?'a = nat] push_bit_eq_mult [where ?'a = nat] mult.commute a)
  also have "\<dots> = 2 ^ n * (unat a div 2 ^ n)"
  proof (rule mod_less)
    have "2 ^ n * (unat a div 2 ^ n) \<le> unat a" by simp
    also have "\<dots> < 256" using unsigned_less [of a] by simp
    finally show "2 ^ n * (unat a div 2 ^ n) < 256" .
  qed
  finally show ?thesis .
qed

lemma u8_masks: "(0xF0 :: u8) = NOT (mask 4)" "(0xFE :: u8) = NOT (mask 1)" "(0xC0 :: u8) = NOT (mask 6)" "(0xFF :: u8) = -1" 
  by code_simp+

lemma net_masks [simp]:
  "net_mask 0 = 0" "net_mask 2 = 0xC0" "net_mask 4 = 0xF0" "net_mask 7 = 0xFE" "8 \<le> bits \<Longrightarrow> net_mask bits = -1"
  by (simp_all add: net_mask_def u8_masks(4)) (code_simp+)

lemma masked_eq_length: "masked_eq bits xs ys \<Longrightarrow> length xs = length ys"
  by (induction bits xs ys rule: masked_eq.induct) auto

text \<open>Masks that keep the high bits, as ranges.\<close>

lemma high_bits:
  "a AND 0xF0 = k \<longleftrightarrow> 16 * (unat a div 16) = unat (k :: u8)"
  "a AND 0xFE = k \<longleftrightarrow> 2 * (unat a div 2) = unat k"
  "a AND 0xC0 = k \<longleftrightarrow> 64 * (unat a div 64) = unat k"
  unfolding u8_masks(1-3) word_unat_eq_iff unat_high by simp_all

lemma block_range: "(0::nat) < m \<Longrightarrow> m * (n div m) = m * k \<longleftrightarrow> m * k \<le> n \<and> n < m * k + m"
proof
  assume m: "0 < m" and e: "m * (n div m) = m * k"
  have "n = m * (n div m) + n mod m" "n mod m < m" using m by simp_all
  with e show "m * k \<le> n \<and> n < m * k + m" by linarith
next
  assume "0 < m" "m * k \<le> n \<and> n < m * k + m"
  then have "n div m = k" by (intro div_nat_eqI) (simp_all add: mult.commute)
  then show "m * (n div m) = m * k" by simp
qed

lemma div_ranges:
  fixes n :: nat
  shows "16 * (n div 16) = 224 \<longleftrightarrow> 224 \<le> n \<and> n < 240" "16 * (n div 16) = 240 \<longleftrightarrow> 240 \<le> n \<and> n < 256"
    "16 * (n div 16) = 16 \<longleftrightarrow> 16 \<le> n \<and> n < 32" "2 * (n div 2) = 18 \<longleftrightarrow> 18 \<le> n \<and> n < 20"
    "64 * (n div 64) = 64 \<longleftrightarrow> 64 \<le> n \<and> n < 128"
  using block_range [of 16 n 14] block_range [of 16 n 15] block_range [of 16 n 1] block_range [of 2 n 9] block_range [of 64 n 1]
  by (simp_all only: zero_less_numeral simp_thms mult_numeral_1_right numeral_times_numeral mult_1_right arith_simps)

lemma u8_is: "n < 256 \<Longrightarrow> (a = (of_nat n :: u8)) = (unat a = n)"
  by (auto simp: unat_of_nat)

lemmas u8_values = u8_is [of 0] u8_is [of 10] u8_is [of 100] u8_is [of 127] u8_is [of 168] u8_is [of 169] u8_is [of 172] u8_is [of 192]
  u8_is [of 198] u8_is [of 254]

text \<open>An IPv4 address is treated alike in its short and its mapped form.\<close>

definition mapped :: "ip \<Rightarrow> ip" where
  "mapped v = replicate 10 0 @ [0xFF, 0xFF] @ v"

lemma to4_v4 [simp]: "to4 [a, b, c, d] = Some [a, b, c, d]" "length v = 4 \<Longrightarrow> to4 (mapped v) = Some v"
  by (simp_all add: to4_def mapped_def eval_nat_numeral)

lemma allowed_mapped: "length v = 4 \<Longrightarrow> allowed_ip (mapped v) p = allowed_ip v p"
proof -
  assume v: "length v = 4"
  then have t: "to4 (mapped v) = to4 v" by (simp add: to4_def [of v])
  have ne: "mapped v \<noteq> []" "v \<noteq> []" using v by (auto simp: mapped_def)
  have "mapped v ! 10 = -1" "replicate 16 0 ! 10 = (0 :: u8)" by (simp_all add: mapped_def nth_append u8_masks(4))
  then have z: "mapped v \<noteq> replicate 16 0" "v \<noteq> replicate 16 0"
    using v by (auto dest: arg_cong [of _ _ length])
  have s: "to4 v = Some v" using v by (simp add: to4_def)
  show ?thesis
    using ne z by (simp add: allowed_ip_def is_public_ip_def is_loopback_def is_private_def is_link_local_unicast_def
        is_link_local_multicast_def is_unspecified_def is_multicast_def ip4_def in_net_def t s)
qed

lemma allowed_never:
  assumes "allowed_ip x p"
  shows "allowed_ip x True" "\<not> is_loopback x" "\<not> is_link_local_unicast x" "\<not> is_multicast x" "\<not> is_unspecified x"
    "n \<in> set reserved_ranges \<Longrightarrow> \<not> in_net n x"
  using assms by (auto simp: allowed_ip_def is_public_ip_def list_ex_iff split: if_splits)

lemma pick_allowed: "pick_address p seen xs = Inr x \<Longrightarrow> allowed_ip x p \<and> x \<in> set xs"
  by (induction p seen xs rule: pick_address.induct) (auto split: if_splits)

lemma exchange_sent: "exchange W p rq = (r, Some (x, rq')) \<Longrightarrow> rq' = rq \<and> allowed_ip x p"
  by (auto simp: exchange_def dial_def split: option.splits sum.splits dest: pick_allowed)

text \<open>
  Public addresses of IPv4, by their bytes: outside "this network", 10/8, loopback, carrier-grade NAT,
  link-local, 172.16/12, 192.0.0/24, 192.168/16, 198.18/15, and everything from 224 on.
\<close>

definition public_v4 :: "nat \<Rightarrow> nat \<Rightarrow> nat \<Rightarrow> bool" where
  "public_v4 a b c \<longleftrightarrow> a \<notin> {0, 10, 127} \<and> a < 224 \<and> \<not> (a = 100 \<and> 64 \<le> b \<and> b < 128) \<and> \<not> (a = 169 \<and> b = 254)
     \<and> \<not> (a = 172 \<and> 16 \<le> b \<and> b < 32) \<and> \<not> (a = 192 \<and> b = 168) \<and> \<not> (a = 192 \<and> b = 0 \<and> c = 0) \<and> \<not> (a = 198 \<and> 18 \<le> b \<and> b < 20)"

lemma public_v4_alt:
  "\<not> (a = 127 \<or> a = 10 \<or> (a = 172 \<and> 16 \<le> b \<and> b < 32) \<or> (a = 192 \<and> b = 168)
      \<or> (a = 169 \<and> b = 254) \<or> (a = 224 \<and> b = 0 \<and> c = 0) \<or> (a = 0 \<and> b = 0 \<and> c = 0 \<and> d) \<or> (224 \<le> a \<and> a < 240)
      \<or> (a = 100 \<and> 64 \<le> b \<and> b < 128)
      \<or> a = 0 \<or> (a = 192 \<and> b = 0 \<and> c = 0) \<or> (a = 198 \<and> 18 \<le> b \<and> b < 20) \<or> 240 \<le> a) \<longleftrightarrow> public_v4 a b c"
proof (cases "a < 224")
  case True
  then have "\<not> 224 \<le> a" "\<not> 240 \<le> a" "a \<noteq> 224" by simp_all
  then show ?thesis using True unfolding public_v4_def insert_iff empty_iff by argo
next
  case False
  then have "(224 \<le> a \<and> a < 240) \<or> 240 \<le> a" by linarith
  then show ?thesis using False unfolding public_v4_def by argo
qed

lemma v4_nets:
  "in_net cgnat_range [a, b, c, d] \<longleftrightarrow> a = 100 \<and> b AND 0xC0 = 64"
  "in_net ([0, 0, 0, 0], 8) [a, b, c, d] \<longleftrightarrow> a = 0"
  "in_net ([192, 0, 0, 0], 24) [a, b, c, d] \<longleftrightarrow> a = 192 \<and> b = 0 \<and> c = 0"
  "in_net ([198, 18, 0, 0], 15) [a, b, c, d] \<longleftrightarrow> a = 198 \<and> b AND 0xFE = 18"
  "in_net ([240, 0, 0, 0], 4) [a, b, c, d] \<longleftrightarrow> a AND 0xF0 = 0xF0"
  by (simp_all add: cgnat_range_def in_net_def)

lemma allowed_v4: "allowed_ip [a, b, c, d] False \<longleftrightarrow> public_v4 (unat a) (unat b) (unat c)"
proof -
  have r: "unat a < 256" "unat b < 256" using unsigned_less [of a] unsigned_less [of b] by simp_all
  have f0: "a AND 0xF0 = 0xE0 \<longleftrightarrow> 224 \<le> unat a \<and> unat a < 240" "a AND 0xF0 = 0xF0 \<longleftrightarrow> 240 \<le> unat a"
    "b AND 0xF0 = 16 \<longleftrightarrow> 16 \<le> unat b \<and> unat b < 32" "b AND 0xFE = 18 \<longleftrightarrow> 18 \<le> unat b \<and> unat b < 20"
    "b AND 0xC0 = 64 \<longleftrightarrow> 64 \<le> unat b \<and> unat b < 128"
    unfolding high_bits using div_ranges [of "unat a"] div_ranges [of "unat b"] r by simp_all
  have v6: "\<not> in_net (n, k) [a, b, c, d]" if "length n = 16" for n k
    using masked_eq_length [of k n "[a, b, c, d]"] that by (auto simp: in_net_def)
  have short: "[a, b, c, d] \<noteq> replicate 16 0" by (auto dest: arg_cong [of _ _ length])
  have "list_ex (\<lambda>n. in_net n [a, b, c, d]) reserved_ranges
      \<longleftrightarrow> a = 0 \<or> (a = 192 \<and> b = 0 \<and> c = 0) \<or> (a = 198 \<and> 18 \<le> unat b \<and> unat b < 20) \<or> 240 \<le> unat a"
    using v6 by (simp add: reserved_ranges_def v4_nets f0)
  then have "allowed_ip [a, b, c, d] False \<longleftrightarrow> \<not> (a = 127 \<or> a = 10 \<or> (a = 172 \<and> 16 \<le> unat b \<and> unat b < 32) \<or> (a = 192 \<and> b = 168)
      \<or> (a = 169 \<and> b = 254) \<or> (a = 224 \<and> b = 0 \<and> c = 0) \<or> (a = 0 \<and> b = 0 \<and> c = 0 \<and> d = 0) \<or> (224 \<le> unat a \<and> unat a < 240)
      \<or> (a = 100 \<and> 64 \<le> unat b \<and> unat b < 128)
      \<or> a = 0 \<or> (a = 192 \<and> b = 0 \<and> c = 0) \<or> (a = 198 \<and> 18 \<le> unat b \<and> unat b < 20) \<or> 240 \<le> unat a)"
    by (simp add: allowed_ip_def is_public_ip_def is_loopback_def is_private_def is_link_local_unicast_def
        is_link_local_multicast_def is_unspecified_def is_multicast_def ip4_def f0 v4_nets(1) short)
  moreover note u8_values [of a, simplified] u8_values [of b, simplified] u8_values [of c, simplified] u8_is [of 224 a, simplified]
  ultimately show ?thesis unfolding public_v4_alt [symmetric, where d = "d = 0"] by (simp only:)
qed

section \<open>Lemmas: calls\<close>

lemma endpoint_ok:
  assumes "endpoint W server path p = Inr u"
  shows "u = trim_slashes server @ path" "validate_url W u p = None"
    "\<exists>parts. parse_url W (trim_space u) = Some parts \<and> url_scheme parts = ''https'' \<and> url_host parts \<noteq> [] \<and> \<not> url_user parts
       \<and> url_query parts = [] \<and> url_fragment parts = [] \<and> (\<forall>x. parse_ip W (url_host parts) = Some x \<longrightarrow> allowed_ip x p)"
  using assms by (auto simp: endpoint_def validate_url_def Let_def split: option.splits if_splits)

section \<open>Properties\<close>

text \<open>
  C35: The address rule on IPv4. Without the opt-in exactly the public addresses are allowed: no "this"
  network, private, carrier-grade NAT, loopback, link-local, benchmarking, multicast or reserved one, and
  an address in its IPv6-mapped form gets the verdict of its short form.
\<close>

theorem public_ipv4_exactly:
  "allowed_ip [a, b, c, d] False = public_v4 (unat a) (unat b) (unat c)
    \<and> allowed_ip (mapped [a, b, c, d]) p = allowed_ip [a, b, c, d] p"
  using allowed_v4 allowed_mapped by simp

text \<open>
  C31: A deposit. The container goes to an allowed address only, whatever the name resolves to, over HTTPS
  without credentials, query or fragment in the URL; and it counts only when the receipt names the SHA-256
  of the bytes sent, their number and a capsule.
\<close>

theorem deposit_is_checked:
  assumes "deposit W p server token container = (r, Some (x, rq))"
  shows "allowed_ip x p \<and> \<not> is_loopback x \<and> \<not> is_link_local_unicast x \<and> req_body rq = container
    \<and> (\<exists>u. parse_url W (trim_space (req_url rq)) = Some u \<and> url_scheme u = ''https'' \<and> \<not> url_user u \<and> url_query u = [] \<and> url_fragment u = [])
    \<and> (\<forall>rc. r = Inr rc \<longrightarrow> receipt_digest rc = hex_encode (sha256 container) \<and> receipt_size rc = int (length container) \<and> receipt_capsule rc \<noteq> [])"
proof -
  obtain u where u: "endpoint W server ''/api/backup/deposit'' p = Inr u"
    using assms by (auto simp: deposit_def split: sum.splits)
  let ?rq = "\<lparr>req_url = u, req_headers = [(''Authorization'', ''Bearer '' @ token), (''Content-Type'', ''application/octet-stream'')], req_body = container\<rparr>"
  obtain e where e: "exchange W p ?rq = (e, Some (x, rq))"
    using assms u by (auto simp: deposit_def split: sum.splits prod.splits)
  from exchange_sent [OF e] have rq: "rq = ?rq" "allowed_ip x p" by simp_all
  have "receipt_digest rc = hex_encode (sha256 container) \<and> receipt_size rc = int (length container) \<and> receipt_capsule rc \<noteq> []" if "r = Inr rc" for rc
    using assms u e that by (auto simp: deposit_def split: sum.splits prod.splits option.splits if_splits)
  moreover obtain parts where "parse_url W (trim_space u) = Some parts \<and> url_scheme parts = ''https'' \<and> \<not> url_user parts
      \<and> url_query parts = [] \<and> url_fragment parts = []"
    using endpoint_ok(3) [OF u] by blast
  ultimately show ?thesis using allowed_never(2,3) [OF rq(2)] rq by simp
qed

section \<open>Examples\<close>

text \<open>A KyRecovery at 203.0.113.7 that stores what it is sent.\<close>

definition sample_wire :: "bytes \<Rightarrow> Wire" where
  "sample_wire container = \<lparr>
     parse_url = (\<lambda>_. Some \<lparr>url_scheme = ''https'', url_host = ''h'', url_user = False, url_query = [], url_force_query = False, url_fragment = []\<rparr>),
     parse_ip = (\<lambda>_. None), lookup_ip = (\<lambda>_. Some [[203, 0, 113, 7]]), serve = (\<lambda>_ _. Answer 201 []),
     claim_text = (\<lambda>_ _ _. []), read_claim = (\<lambda>_. None),
     read_receipt = (\<lambda>_. Some \<lparr>receipt_capsule = ''cap'', receipt_digest = hex_encode (sha256 container), receipt_size = int (length container)\<rparr>),
     is_print = (\<lambda>r. 32 \<le> r \<and> r < 127)\<rparr>"

lemma sample_address: "allowed_ip [203, 0, 113, 7] False"
  unfolding allowed_v4 by (simp add: public_v4_def)

lemma sample_deposit:
  "\<exists>rq. deposit (sample_wire [1, 2]) False ''https://h'' ''token'' [1, 2]
     = (Inr \<lparr>receipt_capsule = ''cap'', receipt_digest = hex_encode (sha256 [1, 2]), receipt_size = 2\<rparr>, Some ([203, 0, 113, 7], rq))"
  by (simp add: deposit_def endpoint_def validate_url_def exchange_def dial_def sample_wire_def sample_address Let_def)

lemma deposit_is_checked_witness:
  "\<exists>rq. req_body rq = [1, 2] \<and> snd (deposit (sample_wire [1, 2]) False ''https://h'' ''token'' [1, 2]) = Some ([203, 0, 113, 7], rq)"
  using sample_deposit deposit_is_checked by fastforce

end
