(* ===== verification/RecoveryRun.thy ===== *)
theory RecoveryRun
  imports CapsuleRestore RecoveryPairing RecoveryLocal RecoveryWire
begin

text \<open>
  \<open>recoveryclient\<close>, the runs: \<open>payload.go\<close> is \<open>seal_payload\<close>, \<open>run.go\<close> is \<open>run_backup\<close> and \<open>outcome\<close>,
  \<open>restore.go\<close> is \<open>restore\<close> and \<open>read_shares\<close>, \<open>drill.go\<close> is \<open>drill\<close>. They are composed of the pinned key, the
  pairing, the local directory, the deposit and the capsule of the theories they import. What the
  operating system decides, its clock, randomness and temporary names, is the record \<open>Env\<close>.
\<close>

section \<open>Payloads\<close>

record BackupFile =
  backup_path :: string
  backup_data :: bytes
  backup_mode :: int

record 'j Payload =
  payload_service :: string
  payload_version :: string
  payload_files :: "BackupFile list"
  payload_deps :: "'j option"
  payload_recipe :: "'j option"

record Env =
  euid :: nat
  clock :: int
  seal_rnd :: bytes
  temp_file :: string
  call_fails :: "local_call \<Rightarrow> bool"
  sorter :: "LocalCopy list \<Rightarrow> LocalCopy list"

definition to_capsule_files :: "BackupFile list \<Rightarrow> Capsule.File list" where
  "to_capsule_files fs = map (\<lambda>f. \<lparr>Path = backup_path f, Content = backup_data f, Mode = word_of_int (backup_mode f)\<rparr>) fs"

datatype run_error =
    InProgress | AttemptUnmarked setting_error | RunPairing pairing_error | NoDestination | RunBadKeep | CollectFailed
  | OtherService | SealRefused capsule_error | LocalCopyFailed local_error | DepositFailed wire_error | OtherCapsule
  | ReceiptUnrecorded setting_error

definition seal_payload ::
  "('sk, 'pk, 'ctx) Hpke \<Rightarrow> 'j Formats \<Rightarrow> Env \<Rightarrow> 'j Payload \<Rightarrow> 'pk RecoveryKey \<Rightarrow> run_error + bytes \<times> 'j Manifest" where
  "seal_payload H F E p key =
     (if public_key (recovery_public key) = None then Inl (RunPairing (PinError NotPaired))
      else case seal H F (clock E) (seal_rnd E) (payload_service p) (payload_version p) (to_capsule_files (payload_files p))
             (payload_deps p) (payload_recipe p) (recovery_threshold key) (recovery_total key) (recovery_public key) of
           Inl e \<Rightarrow> Inl (SealRefused e)
         | Inr r \<Rightarrow> Inr r)"

section \<open>Running a backup\<close>

record RunConfig =
  data_dir :: string
  app_name :: string
  backup_dir :: string
  keep :: int
  run_sealer :: Sealer

record 'j RunResult =
  run_manifest :: "'j Manifest option"
  run_size :: nat
  local_path :: "string option"
  local_error :: "local_error option"
  run_receipt :: "Receipt option"

definition no_result :: "'j RunResult" where
  "no_result = \<lparr>run_manifest = None, run_size = 0, local_path = None, local_error = None, run_receipt = None\<rparr>"

text \<open>
  After sealing: the local copy, then the deposit. \<open>depositor\<close> is the client's \<open>Deposit\<close>, \<open>emit_receipt\<close> the
  JSON of a receipt. The state is the settings and the backup directory.
\<close>

definition distribute ::
  "('sk, 'pk, 'ctx) Hpke \<Rightarrow> 's Settings \<Rightarrow> (string \<Rightarrow> string \<Rightarrow> bytes \<Rightarrow> wire_error + Receipt) \<Rightarrow> (Receipt \<Rightarrow> string)
    \<Rightarrow> Env \<Rightarrow> RunConfig \<Rightarrow> bool \<Rightarrow> bytes \<Rightarrow> 'j Manifest \<Rightarrow> Disk \<Rightarrow> 's \<Rightarrow> listing option
    \<Rightarrow> (run_error option \<times> 'j RunResult) \<times> 's \<times> listing option" where
  "distribute H S depositor emit_receipt E cfg paired raw m d s dir =
     (let ((path, lerr), dir') =
            (if backup_dir cfg = [] then ((None, None), dir)
             else write_local_copy (sorter E) (call_fails E) (temp_file E) (clock E) (app_name cfg) (CapsuleID m) raw (keep cfg) dir);
          res = \<lparr>run_manifest = Some m, run_size = length raw, local_path = map_option (join_path (backup_dir cfg)) path, local_error = lerr, run_receipt = None\<rparr>
      in if \<not> paired then ((map_option LocalCopyFailed lerr, res), s, dir')
         else case load_pairing H S (run_sealer cfg) (euid E) (data_dir cfg) d s of
           Inl e \<Rightarrow> ((Some (RunPairing e), res), s, dir')
         | Inr p \<Rightarrow>
             (case depositor (pairing_url p) (pairing_token p) raw of
                Inl e \<Rightarrow> ((Some (DepositFailed e), res), s, dir')
              | Inr r \<Rightarrow>
                  if receipt_capsule r \<noteq> CapsuleID m then ((Some OtherCapsule, res), s, dir')
                  else let res = res\<lparr>run_receipt := Some r\<rparr>
                  in case set_setting S s setting_last_deposit (emit_receipt r) of
                       (Some e, s') \<Rightarrow> ((Some (ReceiptUnrecorded e), res), s', dir')
                     | (None, s') \<Rightarrow> ((None, res), s', dir')))"

text \<open>\<open>Run\<close>; \<open>busy\<close> says that another run of the process holds the lock, \<open>collect\<close> produces the payload.\<close>

definition run_backup ::
  "('sk, 'pk, 'ctx) Hpke \<Rightarrow> 'j Formats \<Rightarrow> 's Settings \<Rightarrow> (string \<Rightarrow> string \<Rightarrow> bytes \<Rightarrow> wire_error + Receipt) \<Rightarrow> (Receipt \<Rightarrow> string)
    \<Rightarrow> Env \<Rightarrow> bool \<Rightarrow> RunConfig \<Rightarrow> 'j Payload option \<Rightarrow> Disk \<Rightarrow> 's \<Rightarrow> listing option
    \<Rightarrow> (run_error option \<times> 'j RunResult) \<times> 's \<times> listing option" where
  "run_backup H F S depositor emit_receipt E busy cfg collect d s dir =
     (if busy then ((Some InProgress, no_result), s, dir)
      else case mark_attempt S (clock E) s of
        (Some e, s1) \<Rightarrow> ((Some (AttemptUnmarked e), no_result), s1, dir)
      | (None, s1) \<Rightarrow>
          (case load_recovery_key H S (euid E) (data_dir cfg) d s1 of
             Inl e \<Rightarrow> ((Some (RunPairing (pairing_key_error S s1 e)), no_result), s1, dir)
           | Inr key \<Rightarrow>
               let paired = has_pairing S s1
               in if \<not> paired \<and> backup_dir cfg = [] then ((Some NoDestination, no_result), s1, dir)
                  else if backup_dir cfg \<noteq> [] \<and> keep cfg < 1 then ((Some RunBadKeep, no_result), s1, dir)
                  else case collect of
                    None \<Rightarrow> ((Some CollectFailed, no_result), s1, dir)
                  | Some p \<Rightarrow>
                      if payload_service p \<noteq> app_name cfg then ((Some OtherService, no_result), s1, dir)
                      else case seal_payload H F E p key of
                        Inl e \<Rightarrow> ((Some e, no_result), s1, dir)
                      | Inr (raw, m) \<Rightarrow> distribute H S depositor emit_receipt E cfg paired raw m d s1 dir))"

section \<open>The audit record of a run\<close>

datatype detail = TextDetail string | IntDetail int | FlagDetail

definition outcome ::
  "(nat \<Rightarrow> bool) \<Rightarrow> (run_error \<Rightarrow> string) \<Rightarrow> 'j RunResult \<Rightarrow> run_error option \<Rightarrow> string \<times> string \<times> (string \<times> detail) list" where
  "outcome printable message res err =
     (let text = (\<lambda>s. TextDetail (audit_safe printable s));
          details =
            [(''capsule_id'', text (case run_manifest res of None \<Rightarrow> [] | Some m \<Rightarrow> CapsuleID m)), (''size_bytes'', IntDetail (int (run_size res)))]
            @ (case local_path res of None \<Rightarrow> [] | Some p \<Rightarrow> [(''local_path'', text p)])
            @ (case local_error res of None \<Rightarrow> [] | Some e \<Rightarrow> [(''local_error'', text (audit_safe printable (message (LocalCopyFailed e))))])
            @ (case run_receipt res of None \<Rightarrow> [] | Some r \<Rightarrow> [(''digest'', text (receipt_digest r)), (''deposited'', FlagDetail)])
      in case err of
           None \<Rightarrow> (''admin.backup_run'', ''success'', details)
         | Some (ReceiptUnrecorded e) \<Rightarrow>
             (''admin.backup_run'', ''success'', details @ [(''receipt_unrecorded'', text (message (ReceiptUnrecorded e)))])
         | Some e \<Rightarrow> (''admin.backup_run'', ''failure'', details @ [(''error'', text (message e))]))"

section \<open>Restoring\<close>

datatype restore_error =
    CapsuleUnreadable | RestoreCapsule capsule_error | CapsuleOfOther string | ShareUnreadable nat shamir_error | SharesRefused recoverykey_error

fun parse_shares :: "nat \<Rightarrow> string list \<Rightarrow> restore_error + Share list" where
  "parse_shares i [] = Inr []"
| "parse_shares i (s # ss) =
     (case parse_share s of
        Inl e \<Rightarrow> Inl (ShareUnreadable (Suc i) e)
      | Inr sh \<Rightarrow> bindE (parse_shares (Suc i) ss) (\<lambda>shs. Inr (sh # shs)))"

text \<open>\<open>raw\<close> is what reading the capsule's file gave.\<close>

definition restore ::
  "('sk, 'pk, 'ctx) Hpke \<Rightarrow> 'j Formats \<Rightarrow> (string \<Rightarrow> bool) \<Rightarrow> bytes option \<Rightarrow> string \<Rightarrow> string list \<Rightarrow> target
    \<Rightarrow> (restore_error + 'j Manifest \<times> Capsule.File list) \<times> target" where
  "restore H F fails raw expect_service share_strings target =
     (case raw of
        None \<Rightarrow> (Inl CapsuleUnreadable, target)
      | Some raw \<Rightarrow>
          (case read_unverified_manifest F raw of
             Inl e \<Rightarrow> (Inl (RestoreCapsule e), target)
           | Inr peek \<Rightarrow>
               if ServiceName peek \<noteq> expect_service then (Inl (CapsuleOfOther (ServiceName peek)), target)
               else case parse_shares 0 share_strings of
                 Inl e \<Rightarrow> (Inl e, target)
               | Inr shares \<Rightarrow>
                   (case combine_key H shares of
                      Inl e \<Rightarrow> (Inl (SharesRefused e), target)
                    | Inr priv \<Rightarrow>
                        (case open_capsule H F fails raw priv target of
                           (Inl e, target') \<Rightarrow> (Inl (RestoreCapsule e), target')
                         | (Inr r, target') \<Rightarrow> (Inr r, target')))))"

text \<open>
  The shares on a reader, one on each line that is not blank, and whether reading ended in an error: the
  scanner gives up on a line of a mebibyte, \<open>broken\<close> is an error of the reader itself.
\<close>

fun scan_shares :: "bool \<Rightarrow> string list \<Rightarrow> string list \<times> bool" where
  "scan_shares broken [] = ([], broken)"
| "scan_shares broken (l # ls) =
     (if 2 ^ 20 \<le> length l then ([], True)
      else case scan_shares broken ls of (shares, err) \<Rightarrow>
        ((if trim_space l = [] then shares else trim_space l # shares), err))"

definition read_shares :: "bool \<Rightarrow> string \<Rightarrow> string list \<times> bool" where
  "read_shares broken input = scan_shares broken (split_on (CHR 0x0A) input)"

section \<open>Drills\<close>

datatype drill_fault = SealFault run_error | ScratchFault | ModeFault | UnpackFault capsule_error

record Check =
  check_name :: string
  check_passed :: bool
  check_message :: string

record DrillResult =
  drill_passed :: bool
  drill_checks :: "Check list"
  drill_error_message :: string
  drill_size :: nat

datatype drill_error = NoScratchRoot | Cancelled | NoThrowawayKey

text \<open>What can fail on the scratch directory, and what the environment decides.\<close>

record DrillEnv =
  drill_env :: Env
  drill_rnd :: bytes
  cancelled :: bool
  scratch_made :: bool
  scratch_moded :: bool
  scratch_removed :: bool
  scratch_name :: string
  write_refused :: "string \<Rightarrow> bool"

definition drill_prefix :: string where
  "drill_prefix = ''recoveryclient-drill-''"

definition sweep_stale_drills :: "(local_call \<Rightarrow> bool) \<Rightarrow> int \<Rightarrow> listing \<Rightarrow> listing" where
  "sweep_stale_drills fails at_time d =
     (if fails ReadDirectory then d
      else filter (\<lambda>e. \<not> (is_dir (snd e) \<and> has_prefix (fst e) drill_prefix \<and> \<not> fails (StatEntry (fst e))
                         \<and> stale_temp < at_time - mod_time (snd e) \<and> \<not> fails (RemoveEntry (fst e)))) d)"

definition finish_drill :: "nat \<Rightarrow> Check list \<Rightarrow> DrillResult" where
  "finish_drill sz checks =
     \<lparr>drill_passed = (checks \<noteq> [] \<and> list_all check_passed checks), drill_checks = checks,
      drill_error_message = (case filter (\<lambda>c. \<not> check_passed c) checks of [] \<Rightarrow> [] | c # _ \<Rightarrow> check_name c @ '': '' @ check_message c),
      drill_size = sz\<rparr>"

text \<open>
  \<open>Drill\<close> on the entries of the scratch root; \<open>checks\<close> are the product's, given the directory's tree and the
  opened manifest. \<open>message\<close> are the texts of errors, \<open>sealed_text\<close> and \<open>unpacked_text\<close> the messages of the
  checks that pass.
\<close>

definition drill ::
  "('sk, 'pk, 'ctx) Hpke \<Rightarrow> 'j Formats \<Rightarrow> DrillEnv \<Rightarrow> (drill_fault \<Rightarrow> string) \<Rightarrow> string \<Rightarrow> string
    \<Rightarrow> string \<Rightarrow> 'j Payload \<Rightarrow> (target \<Rightarrow> 'j Manifest \<Rightarrow> Check list) option \<Rightarrow> listing
    \<Rightarrow> (drill_error + DrillResult) \<times> listing" where
  "drill H F D message sealed_text unpacked_text scratch_root p checks root =
     (if scratch_root = [] then (Inl NoScratchRoot, root)
      else let E = drill_env D; root = sweep_stale_drills (call_fails E) (clock E) root
      in if cancelled D then (Inl Cancelled, root)
         else case generate_key H (drill_rnd D) of
           Inl _ \<Rightarrow> (Inl NoThrowawayKey, root)
         | Inr throwaway \<Rightarrow>
             let key = \<lparr>recovery_public = public_of H throwaway, recovery_threshold = 2, recovery_total = 3\<rparr>;
                 check = (\<lambda>n ok msg. \<lparr>check_name = n, check_passed = ok, check_message = msg\<rparr>);
                 left = (if scratch_removed D then root else put_entry (scratch_name D) \<lparr>is_dir = True, entry_data = [], mod_time = clock E\<rparr> root)
             in case seal_payload H F E p key of
                  Inl e \<Rightarrow> (Inr (finish_drill 0 [check ''Seal'' False (message (SealFault e))]), root)
                | Inr (raw, m) \<Rightarrow>
                    let sealed = check ''Seal'' True sealed_text; finish = finish_drill (length raw)
                    in if \<not> scratch_made D then (Inr (finish [sealed, check ''Sandbox'' False (message ScratchFault)]), root)
                       else if \<not> scratch_moded D then (Inr (finish [sealed, check ''Sandbox'' False (message ModeFault)]), left)
                       else case open_capsule H F (write_refused D) raw throwaway (Present Map.empty) of
                         (Inl e, _) \<Rightarrow> (Inr (finish [sealed, check ''Directory Unpack'' False (message (UnpackFault e))]), left)
                       | (Inr (opened, got), tree) \<Rightarrow>
                           if CapsuleID opened \<noteq> CapsuleID m
                           then (Inr (finish [sealed, check ''Directory Unpack'' False ''opened manifest does not name the sealed capsule'']), left)
                           else (Inr (finish ([sealed, check ''Directory Unpack'' True unpacked_text]
                                    @ (case checks of None \<Rightarrow> [] | Some f \<Rightarrow> f tree opened))), left))"

end
