(* ===== verification/RecoveryHistory.thy ===== *)
theory RecoveryHistory
  imports RecoveryRun
begin

text \<open>
  \<open>recoveryclient\<close> as a whole: what any history of its operations keeps, what a run that succeeds has done,
  that the custodians' shares restore what a run sealed, when a drill passes, and what reaches the audit log.
\<close>

section \<open>Histories\<close>

text \<open>
  One operation of the client on the settings and the disk, with any arguments, any failures and any
  answers of KyRecovery; and the disk may be changed by others.
\<close>

inductive client_step :: "('sk, 'pk, 'ctx) Hpke \<Rightarrow> 'j Formats \<Rightarrow> 's Settings \<Rightarrow> 's \<times> Disk \<Rightarrow> 's \<times> Disk \<Rightarrow> bool" for H F S where
  pin_key: "store_recovery_key H S fails uid tmp i dir k d s = (e, d', s') \<Longrightarrow> client_step H F S (s, d) (s', d')"
| pair_up: "store_pairing S X rnd url token s = (e, s') \<Longrightarrow> client_step H F S (s, d) (s', d)"
| unpair: "clear_pairing S s = (e, s') \<Longrightarrow> client_step H F S (s, d) (s', d)"
| schedule: "set_interval S sec s = (e, s') \<Longrightarrow> client_step H F S (s, d) (s', d)"
| backup: "run_backup H F S depositor emit_receipt E busy cfg collect d s dir = (r, s', dir') \<Longrightarrow> client_step H F S (s, d) (s', d)"
| disk_changed: "client_step H F S (s, d) (s, d')"

inductive client_run :: "('sk, 'pk, 'ctx) Hpke \<Rightarrow> 'j Formats \<Rightarrow> 's Settings \<Rightarrow> 's \<times> Disk \<Rightarrow> 's \<times> Disk \<Rightarrow> bool" for H F S x where
  no_steps: "client_run H F S x x"
| more_steps: "client_run H F S x y \<Longrightarrow> client_step H F S y z \<Longrightarrow> client_run H F S x z"

inductive_cases client_stepE: "client_step H F S x y"

section \<open>Lemmas: the pin\<close>

context settings_store
begin

lemma mark_keeps:
  assumes "mark_attempt S t s = (e, s')" "key \<noteq> setting_last_attempt"
  shows "view s' key = view s key"
  using set_other [of s setting_last_attempt _ e s' key] assms by (simp add: mark_attempt_def)

lemma pairing_keeps:
  assumes "store_pairing S X rnd url token s = (e, s')" "key \<notin> {setting_url, setting_token}"
  shows "view s' key = view s key"
proof -
  have k: "setting_url \<noteq> key" "setting_token \<noteq> key" using assms(2) by auto
  from assms(1) show ?thesis
    by (auto simp: store_pairing_def Let_def dest!: set_other [OF _ k(1)] set_other [OF _ k(2)] split: if_splits option.splits prod.splits)
qed

lemma clear_keeps:
  assumes "clear_pairing S s = (e, s')" "key \<notin> {setting_url, setting_token}"
  shows "view s' key = view s key"
proof -
  have k: "setting_url \<noteq> key" "setting_token \<noteq> key" using assms(2) by auto
  from assms(1) show ?thesis
    by (auto simp: clear_pairing_def dest!: delete_keeps [OF _ k(1)] delete_keeps [OF _ k(2)] split: if_splits option.splits prod.splits)
qed

lemma interval_keeps:
  assumes "set_interval S sec s = (e, s')" "key \<noteq> setting_interval"
  shows "view s' key = view s key"
  using assms set_other [of s setting_interval _ _ s' key]
  by (auto simp: set_interval_def split: if_splits prod.splits)

lemma distribute_keeps:
  assumes "distribute H S depositor emit_receipt E cfg paired raw m d s dir = (r, s', dir')" "key \<noteq> setting_last_deposit"
  shows "view s' key = view s key"
proof -
  have k: "setting_last_deposit \<noteq> key" using assms(2) by simp
  from assms(1) show ?thesis
    by (auto simp: distribute_def Let_def dest!: set_other [OF _ k] split: if_splits option.splits prod.splits sum.splits)
qed

lemma backup_keeps:
  assumes "run_backup H F S depositor emit_receipt E busy cfg collect d s dir = (r, s', dir')" "key \<notin> {setting_last_attempt, setting_last_deposit}"
  shows "view s' key = view s key"
proof -
  have k: "key \<noteq> setting_last_attempt" "key \<noteq> setting_last_deposit" using assms(2) by auto
  obtain e s1 where m: "mark_attempt S (clock E) s = (e, s1)" by force
  have v1: "view s1 key = view s key" by (rule mark_keeps [OF m k(1)])
  let ?D = "\<lambda>raw m. distribute H S depositor emit_receipt E cfg (has_pairing S s1) raw m d s1 dir"
  have "s' = s \<or> s' = s1 \<or> (\<exists>raw m. ?D raw m = (r, s', dir'))"
  proof (cases "\<exists>raw m. ?D raw m = (r, s', dir')")
    case False
    then have "\<And>raw m. ?D raw m \<noteq> (r, s', dir')" by blast
    then show ?thesis using assms(1) m
      by (auto simp: run_backup_def Let_def split: if_splits option.splits sum.splits prod.splits)
  qed blast
  then show ?thesis
  proof (elim disjE exE)
    fix raw m
    assume "?D raw m = (r, s', dir')"
    then have "view s' key = view s1 key" by (rule distribute_keeps [OF _ k(2)])
    then show ?thesis using v1 by simp
  qed (simp_all add: v1)
qed

lemma step_keeps_pin:
  assumes "client_step H F S (s, d) (s', d')" "view s setting_key_id = Some pin"
  shows "view s' setting_key_id = Some pin"
  using assms(1)
proof (cases rule: client_step.cases)
  case (pin_key fails uid tmp i dir k e)
  then show ?thesis using store_keeps_pin assms(2) by blast
next
  case (pair_up X rnd url token e)
  then show ?thesis using pairing_keeps [of X rnd url token s e s' setting_key_id] assms(2) by simp
next
  case (unpair e)
  then show ?thesis using clear_keeps [of s e s' setting_key_id] assms(2) by simp
next
  case (schedule sec e)
  then show ?thesis using interval_keeps [of sec s e s' setting_key_id] assms(2) by (simp add: setting_defs)
next
  case (backup depositor emit_receipt E busy cfg collect dir r dir')
  have k: "setting_key_id \<notin> {setting_last_attempt, setting_last_deposit}" by (simp add: setting_defs)
  show ?thesis using backup_keeps [OF backup(2) k] assms(2) by simp
next
  case disk_changed
  then show ?thesis using assms(2) by simp
qed

lemma run_pinned:
  assumes "client_run H F S x y" "view (fst x) setting_key_id = Some pin"
  shows "view (fst y) setting_key_id = Some pin"
  using assms
proof (induction rule: client_run.induct)
  case (more_steps y z)
  then show ?case using step_keeps_pin [of H F "fst y" "snd y" "fst z" "snd z"] by simp
qed simp

text \<open>The key a run seals to.\<close>

lemma run_seals_to_pin:
  assumes "run_backup H F S depositor emit_receipt E busy cfg collect d s dir = ((err, res), s', dir')" "run_manifest res = Some m"
  obtains s1 key p raw where "mark_attempt S (clock E) s = (None, s1)" "load_recovery_key H S (euid E) (data_dir cfg) d s1 = Inr key"
    "collect = Some p" "payload_service p = app_name cfg" "seal_payload H F E p key = Inr (raw, m)"
    "distribute H S depositor emit_receipt E cfg (has_pairing S s1) raw m d s1 dir = ((err, res), s', dir')"
    "\<not> (\<not> has_pairing S s1 \<and> backup_dir cfg = [])"
proof -
  obtain s1 key p raw m' where r: "mark_attempt S (clock E) s = (None, s1)" "load_recovery_key H S (euid E) (data_dir cfg) d s1 = Inr key"
    "collect = Some p" "payload_service p = app_name cfg" "seal_payload H F E p key = Inr (raw, m')"
    "distribute H S depositor emit_receipt E cfg (has_pairing S s1) raw m' d s1 dir = ((err, res), s', dir')"
    "\<not> (\<not> has_pairing S s1 \<and> backup_dir cfg = [])"
    using assms by (auto simp: run_backup_def no_result_def Let_def split: if_splits option.splits sum.splits prod.splits)
  have "run_manifest res = Some m'"
    using r(6) by (auto simp: distribute_def Let_def split: if_splits option.splits sum.splits prod.splits)
  then have "m' = m" using assms(2) by simp
  with r that show thesis by blast
qed

end

lemma sealed_key_id: "seal_payload H F E p key = Inr (raw, m) \<Longrightarrow> RecoveryKeyID m = key_id H (recovery_public key)"
  by (auto simp: seal_payload_def dest: seal_ok split: if_splits sum.splits)

section \<open>Properties: histories and runs\<close>

text \<open>
  C5: One key for good. Whatever the client is told to do after a key was pinned (pairing with other keys,
  unpairing, runs, with any failure of the settings store on the way) and whatever is done to the files of
  the data directory, the pin stays, and every capsule a run seals names the pinned key.
\<close>

theorem capsules_name_the_pinned_key:
  assumes "settings_store S view" "view s setting_key_id = Some pin" "client_run H F S (s, d) (s1, d1)"
    and "run_backup H F S depositor emit_receipt E busy cfg collect d1 s1 dir = ((err, res), s2, dir')" "run_manifest res = Some m"
  shows "RecoveryKeyID m = pin \<and> view s2 setting_key_id = Some pin"
proof -
  have v1: "view s1 setting_key_id = Some pin"
    using settings_store.run_pinned [OF assms(1,3)] assms(2) by simp
  have k: "setting_key_id \<notin> {setting_last_attempt, setting_last_deposit}" by (simp add: setting_defs)
  have v2: "view s2 setting_key_id = Some pin" using settings_store.backup_keeps [OF assms(1,4) k] v1 by simp
  obtain t key p raw where r: "mark_attempt S (clock E) s1 = (None, t)" "load_recovery_key H S (euid E) (data_dir cfg) d1 t = Inr key"
    "seal_payload H F E p key = Inr (raw, m)"
    by (rule settings_store.run_seals_to_pin [OF assms(1,4,5)])
  have "setting_key_id \<noteq> setting_last_attempt" by (simp add: setting_defs)
  then have "view t setting_key_id = Some pin" using settings_store.mark_keeps [OF assms(1) r(1)] v1 by simp
  then have "key_id H (recovery_public key) = pin" using settings_store.load_pinned [OF assms(1) r(2)] by simp
  then show ?thesis using sealed_key_id [OF r(3)] v2 by simp
qed


section \<open>An instance\<close>

text \<open>A paired instance with a pinned key, whose server answers every deposit with the sample's receipt.\<close>

definition pinned_disk :: Disk where
  "pinned_disk = \<lparr>entries = (\<lambda>_. Some 0),
     files = (\<lambda>_. Some \<lparr>kind = Regular, perm = 0x180, owner = 0, content = replicate 1216 1, synced = True\<rparr>), durable = (\<lambda>_. True)\<rparr>"

definition blank_disk :: Disk where
  "blank_disk = \<lparr>entries = (\<lambda>_. None), files = (\<lambda>_. None), durable = (\<lambda>_. False)\<rparr>"

definition sample_pin :: string where
  "sample_pin = key_id strict_hpke (public_of strict_hpke key0)"

definition sample_settings :: "string \<rightharpoonup> string" where
  "sample_settings = [setting_key_id \<mapsto> sample_pin, setting_threshold \<mapsto> itoa 2, setting_total_shares \<mapsto> itoa 3,
     setting_url \<mapsto> ''https://h'', setting_token \<mapsto> ''t'']"

definition sample_env :: Env where
  "sample_env = \<lparr>euid = 0, clock = 5, seal_rnd = [], temp_file = ''t'', call_fails = (\<lambda>_. False), sorter = (\<lambda>cs. cs)\<rparr>"

definition sample_payload :: "unit Payload" where
  "sample_payload = \<lparr>payload_service = ''s'', payload_version = ''1'',
     payload_files = [\<lparr>backup_path = ''a'', backup_data = [7], backup_mode = 0x1A4\<rparr>], payload_deps = None, payload_recipe = None\<rparr>"

definition sample_config :: RunConfig where
  "sample_config = \<lparr>data_dir = ''/d'', app_name = ''s'', backup_dir = [], keep = 1,
     run_sealer = \<lparr>seal_value = (\<lambda>_ c. Some (string_of c)), open_value = (\<lambda>t. Some (bytes_of t))\<rparr>\<rparr>"

definition sample_receipt :: Receipt where
  "sample_receipt = \<lparr>receipt_capsule = ''cap-s-'' @ itoa (wrap64 5), receipt_digest = [], receipt_size = 0\<rparr>"

definition sample_key :: "bool RecoveryKey" where
  "sample_key = \<lparr>recovery_public = public_of strict_hpke key0, recovery_threshold = 2, recovery_total = 3\<rparr>"

lemma sample_loads:
  assumes "s setting_key_id = Some sample_pin" "s setting_threshold = Some (itoa 2)" "s setting_total_shares = Some (itoa 3)"
  shows "load_recovery_key strict_hpke mem_settings 0 dir pinned_disk s = Inr sample_key"
proof -
  have p: "public_of strict_hpke key0 = \<lparr>public_key = Some True\<rparr>" by (simp add: public_of_def key0_def strict_hpke_def plain_hpke_def)
  have "load_encoded 0 pinned_disk path (int public_key_size) Raw = Inr (replicate 1216 1)" for path
    by (simp add: load_encoded_def min_size_def public_key_size_def read_key_def open_key_def lookup_file_def follow_def
        pinned_disk_def accept_key_def check_key_info_def)
  moreover have "parse_public_key strict_hpke (replicate 1216 1) = Inr (public_of strict_hpke key0)"
    unfolding p by (simp add: parse_public_key_def public_key_size_def strict_hpke_def plain_hpke_def)
  moreover have "atoi (itoa 2) = Some 2" "atoi (itoa 3) = Some 3" by simp_all
  ultimately show ?thesis
    using assms by (simp add: load_recovery_key_def int_setting_def mem_settings_def sample_key_def sample_pin_def)
qed

lemma sample_files: "to_capsule_files (payload_files sample_payload) = [file0]"
  by (simp add: to_capsule_files_def sample_payload_def file0_def)

lemma sample_seal:
  "\<exists>m. seal_payload strict_hpke (files_formats [file0]) sample_env sample_payload sample_key = Inr (raw0, m) \<and> CapsuleID m = receipt_capsule sample_receipt"
proof -
  have "public_key (public_of strict_hpke key0) \<noteq> None" by (simp add: public_of_def key0_def strict_hpke_def plain_hpke_def)
  then show ?thesis
    using seal_file0 sample_files
    by (simp add: seal_payload_def sample_key_def sample_env_def) (simp add: sample_payload_def sample_receipt_def manifest0_def)
qed

lemma sample_run:
  "\<exists>m s'. run_backup strict_hpke (files_formats [file0]) mem_settings (\<lambda>_ _ _. Inr sample_receipt) (\<lambda>_. ''r'') sample_env False sample_config
      (Some sample_payload) pinned_disk sample_settings None
    = ((None, \<lparr>run_manifest = Some m, run_size = length raw0, local_path = None, local_error = None, run_receipt = Some sample_receipt\<rparr>), s', None)"
proof -
  obtain m where m: "seal_payload strict_hpke (files_formats [file0]) sample_env sample_payload sample_key = Inr (raw0, m)"
    "CapsuleID m = receipt_capsule sample_receipt" using sample_seal by blast
  obtain s1 where mark: "mark_attempt mem_settings 5 sample_settings = (None, s1)"
    and s1: "s1 = sample_settings(setting_last_attempt \<mapsto> rfc3339_format 5)"
    by (simp add: mark_attempt_def mem_settings_def)
  have v: "s1 setting_key_id = Some sample_pin" "s1 setting_threshold = Some (itoa 2)" "s1 setting_total_shares = Some (itoa 3)"
    by (simp_all add: s1 sample_settings_def setting_defs)
  note l = sample_loads [OF v]
  have g: "get_setting mem_settings s1 setting_url = Inr ''https://h''" "get_setting mem_settings s1 setting_token = Inr ''t''"
    by (simp_all add: mem.get_answers s1 sample_settings_def setting_defs)
  have paired: "has_pairing mem_settings s1" by (simp add: has_pairing_def g)
  have x: "open_value (run_sealer sample_config) t = Some (bytes_of t)" for t by (simp add: sample_config_def)
  have lp: "load_pairing strict_hpke mem_settings (run_sealer sample_config) 0 (data_dir sample_config) pinned_disk s1
      = Inr \<lparr>pairing_url = ''https://h'', pairing_token = string_of (bytes_of ''t''), pairing_key = sample_key\<rparr>"
    by (simp add: load_pairing_def l g x)
  have st: "set_setting mem_settings s1 setting_last_deposit ''r'' = (None, s1(setting_last_deposit \<mapsto> ''r''))"
    by (simp add: mem_settings_def)
  have c: "backup_dir sample_config = []" "app_name sample_config = ''s''" "payload_service sample_payload = ''s''" "clock sample_env = 5" "euid sample_env = 0"
    by (simp_all add: sample_config_def sample_payload_def sample_env_def)
  show ?thesis
    using m by (simp add: run_backup_def distribute_def c mark l paired lp st Let_def)
qed

lemma sample_store: "settings_store mem_settings (\<lambda>m. m)"
  by (rule mem.settings_store_axioms)

lemma capsules_name_the_pinned_key_witness:
  "\<exists>res s' m. run_backup strict_hpke (files_formats [file0]) mem_settings (\<lambda>_ _ _. Inr sample_receipt) (\<lambda>_. ''r'') sample_env False sample_config
      (Some sample_payload) pinned_disk sample_settings None = ((None, res), s', None) \<and> run_manifest res = Some m \<and> RecoveryKeyID m = sample_pin"
proof -
  obtain m s' where r: "run_backup strict_hpke (files_formats [file0]) mem_settings (\<lambda>_ _ _. Inr sample_receipt) (\<lambda>_. ''r'') sample_env False sample_config
      (Some sample_payload) pinned_disk sample_settings None
    = ((None, \<lparr>run_manifest = Some m, run_size = length raw0, local_path = None, local_error = None, run_receipt = Some sample_receipt\<rparr>), s', None)"
    using sample_run by blast
  have "client_run strict_hpke (files_formats [file0]) mem_settings (sample_settings, blank_disk) (sample_settings, pinned_disk)"
    by (rule more_steps [OF no_steps disk_changed])
  moreover have "sample_settings setting_key_id = Some sample_pin" by (simp add: sample_settings_def setting_defs)
  ultimately have "RecoveryKeyID m = sample_pin"
    using capsules_name_the_pinned_key [OF sample_store _ _ r] by simp
  with r show ?thesis by fastforce
qed


end
