(* ===== verification/RecoveryCustodians.thy ===== *)
theory RecoveryCustodians
  imports RecoveryHistory
begin

text \<open>
  \<open>recoveryclient\<close>, what its runs are for: the custodians' shares, read from their lines, restore on disk what
  a run sealed (\<open>restore.go\<close>); a drill passes exactly when the product's checks do (\<open>drill.go\<close>); and what
  a run writes to the audit log is bounded (\<open>Outcome\<close> of \<open>run.go\<close>).
\<close>

section \<open>Lemmas: shares on lines\<close>

lemma utoa_short: "n < 1000 \<Longrightarrow> length (utoa n) \<le> 3"
proof -
  assume n: "n < 1000"
  have one: "m < 10 \<Longrightarrow> length (utoa m) = 1" for m by (subst utoa.simps) simp
  have two: "m < 100 \<Longrightarrow> length (utoa m) \<le> 2" for m using one [of "m div 10"] by (subst utoa.simps) (auto simp: one)
  show ?thesis using two [of "n div 10"] n by (subst utoa.simps) auto
qed

lemma itoa_short: "0 \<le> i \<Longrightarrow> i < 1000 \<Longrightarrow> length (itoa i) \<le> 3"
  unfolding itoa_def using utoa_short [of "nat i"] by auto

lemma share_string_length:
  assumes "share_wf s"
  shows "length (share_string s) \<le> 2 * length (Value s) + 50"
proof -
  have "uint (Index s) < 256" using uint_lt2p [of "Index s"] by simp
  then have "uint (Index s) < 1000" by (rule less_trans) simp
  then have "length (itoa (Threshold s)) \<le> 3" "length (itoa (uint (Index s))) \<le> 3"
    using assms by (auto simp: share_wf_def intro: itoa_short)
  then show ?thesis
    using assms by (simp add: share_string_def share_body_def share_checksum_def share_version_def Let_def share_wf_def set_id_bytes_def length_sha256)
qed

lemma share_string_line: "share_wf s \<Longrightarrow> CHR 0x0A \<notin> set (share_string s)"
proof
  assume w: "share_wf s" and "CHR 0x0A \<in> set (share_string s)"
  moreover have "CHR 0x0A \<notin> set (hex_encode bs)" for bs :: bytes
  proof -
    have "list_all is_lower_hex (hex_encode bs)" by (induction bs) simp_all
    then show ?thesis by (auto simp: list_all_iff is_lower_hex_def Let_def)
  qed
  moreover have "0 \<le> i \<Longrightarrow> CHR 0x0A \<notin> set (itoa i)" for i
    using itoa_digits [of i] by (auto simp: list_all_iff is_digit_def)
  ultimately show False
    by (auto simp: share_string_def share_body_def share_checksum_def share_version_def Let_def share_wf_def)
qed

lemma split_share_value:
  assumes "split secret threshold n rnd = Inr shares" "s \<in> set shares"
  shows "share_wf s \<and> length (Value s) = length secret"
proof
  show "share_wf s" using split_shares_wf [OF assms(1)] assms(2) by (simp add: list_all_iff)
  obtain css where "length css = length secret" "shares = map (share_at threshold (take set_id_bytes rnd) css) [0..<nat n]"
    using assms(1) by (rule split_values)
  then show "length (Value s) = length secret" using assms(2) by auto
qed

text \<open>Shares typed one on a line are read back.\<close>

abbreviation on_lines :: "Share list \<Rightarrow> string" where
  "on_lines shares \<equiv> concat (map (\<lambda>s. share_string s @ [CHR 0x0A]) shares)"

lemma read_lines:
  "\<forall>s \<in> set shares. share_wf s \<and> length (share_string s) < 2 ^ 20 \<Longrightarrow> read_shares False (on_lines shares) = (map share_string shares, False)"
proof (induction shares)
  case (Cons s ss)
  then have s: "share_wf s" "length (share_string s) < 2 ^ 20" by simp_all
  have "split_on (CHR 0x0A) (on_lines (s # ss)) = share_string s # split_on (CHR 0x0A) (on_lines ss)"
    using split_on_append [OF share_string_line [OF s(1)]] by simp
  moreover have "share_string s \<noteq> []" by (simp add: share_string_def Let_def)
  ultimately show ?case
    using Cons trim_share_string [OF s(1)] by (simp add: read_shares_def)
qed (simp add: read_shares_def trim_space_def trim_both_def)

lemma parse_typed: "\<forall>s \<in> set shares. share_wf s \<Longrightarrow> parse_shares i (map share_string shares) = Inr shares"
  using parse_share_of_string [of _ "[]" "[]"] by (induction shares arbitrary: i) simp_all

section \<open>Lemmas: restoring and drilling\<close>

lemma decrypt_reads: "decrypt_payload H F raw k = Inr (m, payload) \<Longrightarrow> read_unverified_manifest F raw = Inr m"
  using decrypt_ok [of H F raw k m payload] by (auto simp: read_unverified_manifest_def)

lemma restored:
  assumes "read_shares False typed = (lines, False)" "parse_shares 0 lines = Inr shares" "combine_key H shares = Inr k"
    and "open_capsule H F fails raw k target = (Inr (m', got), target')" "decrypt_payload H F raw k = Inr (m0, payload)"
    and "ServiceName m0 = service"
  shows "restore H F fails (Some raw) service (fst (read_shares False typed)) target = (Inr (m', got), target')"
  using assms decrypt_reads [OF assms(5)] by (simp add: restore_def)

lemma sealed_payloadD:
  assumes "seal_payload H F E p key = Inr (raw, m)"
  shows "seal H F (clock E) (seal_rnd E) (payload_service p) (payload_version p) (to_capsule_files (payload_files p))
    (payload_deps p) (payload_recipe p) (recovery_threshold key) (recovery_total key) (recovery_public key) = Inr (raw, m)"
  using assms by (auto simp: seal_payload_def split: if_splits sum.splits)

section \<open>Properties: the custodians and the drills\<close>

text \<open>
  C4: The point of it all. A key is generated and split into custodian shares; a payload is sealed under its public
  half. Then any \<open>threshold\<close> distinct shares, typed one on a line, restore into an empty or absent directory
  exactly the payload's files, each with its contents, its normalised path and its clamped mode, within the
  limits of a capsule.
\<close>

theorem custodians_restore_a_run:
  assumes "hpke_ok H" "formats_ok F" "generate_key H rnd = Inr k" "split_key k threshold n rnd' = Inr shares"
    and "set sub \<subseteq> set shares" "distinct sub" "threshold \<le> int (length sub)"
    and "seal_payload H F E p key = Inr (raw, m)" "recovery_public key = public_of H k" "coerced (payload_service p) = payload_service p"
    and "members = map normal_file (to_capsule_files (payload_files p))" "within_limits F raw (to_capsule_files (payload_files p))"
    and "empty_target target" "apart (Path ` set members)" "\<forall>f \<in> set members. \<not> fails (Path f)"
  shows "\<exists>m' t. restore H F fails (Some raw) (payload_service p) (fst (read_shares False (on_lines sub))) target = (Inr (m', members), Present t)
    \<and> tree_holds members t"
proof -
  have g: "genuine H k" using constructors_genuine(1) [OF assms(3)] .
  have sp: "split (seed k) threshold n rnd' = Inr shares" using assms(4) by (auto simp: split_key_def split: if_splits sum.splits)
  have each: "share_wf s \<and> length (Value s) = seed_bytes" if "s \<in> set sub" for s
    using split_share_value [OF sp] that assms(5) g by (auto simp: genuine_def)
  have "length (share_string s) < 2 ^ 20" if "s \<in> set sub" for s
    using share_string_length [of s] each [OF that] by (simp add: seed_bytes_def)
  then have typed: "read_shares False (on_lines sub) = (map share_string sub, False)" using each by (intro read_lines) blast
  have parsed: "parse_shares 0 (map share_string sub) = Inr sub" using each by (intro parse_typed) blast
  have key: "combine_key H sub = Inr k"
    using combine_of_split [OF sp assms(5-7)] genuine_from_seed [OF g] by (simp add: combine_key_def)
  note s = sealed_payloadD [OF assms(8), unfolded assms(9)]
  have "int (length raw) \<le> max_container_bytes" using assms(12) by (simp add: within_limits_def)
  then obtain payload d r where dec: "decrypt_payload H F raw k = Inr ((coerced_manifest m)\<lparr>Dependencies := d, VerificationRecipe := r\<rparr>, payload)"
    using decrypt_sealed [OF assms(1,2) g s] by (metis not_less)
  have "ServiceName m = payload_service p" using seal_ok [OF s] by blast
  then have svc: "ServiceName ((coerced_manifest m)\<lparr>Dependencies := d, VerificationRecipe := r\<rparr>) = payload_service p"
    using assms(10) by (simp add: coerced_manifest_def)
  obtain m' t where o: "open_capsule H F fails raw k target = (Inr (m', members), Present t)" "tree_holds members t"
    using open_on_disk [OF assms(1,2) g s assms(12,13)] assms(14,15) unfolding assms(11) by blast
  show ?thesis using restored [OF typed parsed key o(1) dec svc] o(2) by blast
qed

text \<open>
  C32: What a drill says. Given a scratch directory that can be made, a payload that seals within the limits and
  whose capsule's id survives JSON, the drill unpacks exactly the payload's files and passes if and only if
  every check of the product passes on them.
\<close>

theorem drill_passes_iff:
  assumes "hpke_ok H" "formats_ok F" "generate_key H (drill_rnd D) = Inr k"
    and "seal_payload H F (drill_env D) p \<lparr>recovery_public = public_of H k, recovery_threshold = 2, recovery_total = 3\<rparr> = Inr (raw, m)"
    and "coerced (CapsuleID m) = CapsuleID m"
    and "members = map normal_file (to_capsule_files (payload_files p))" "within_limits F raw (to_capsule_files (payload_files p))"
    and "apart (Path ` set members)" "\<forall>f \<in> set members. \<not> write_refused D (Path f)"
    and "scratch_root \<noteq> []" "\<not> cancelled D" "scratch_made D" "scratch_moded D"
  shows "\<exists>t opened r root'. drill H F D message sealed_text unpacked_text scratch_root p (Some checks) root = (Inr r, root')
    \<and> tree_holds members t \<and> CapsuleID opened = CapsuleID m
    \<and> (drill_passed r \<longleftrightarrow> list_all check_passed (checks (Present t) opened))"
proof -
  have g: "genuine H k" using constructors_genuine(1) [OF assms(3)] .
  have s: "seal H F (clock (drill_env D)) (seal_rnd (drill_env D)) (payload_service p) (payload_version p)
      (to_capsule_files (payload_files p)) (payload_deps p) (payload_recipe p) 2 3 (public_of H k) = Inr (raw, m)"
    using sealed_payloadD [OF assms(4)] by simp
  obtain d r t where o: "open_capsule H F (write_refused D) raw k (Present Map.empty)
      = (Inr ((coerced_manifest m)\<lparr>Dependencies := d, VerificationRecipe := r, Files := Files m\<rparr>, members), Present t)" "tree_holds members t"
    using open_on_disk [OF assms(1,2) g s assms(7), of "Present Map.empty" "write_refused D"] assms(8,9) unfolding assms(6)
    by (auto simp: empty_target_def)
  let ?m = "(coerced_manifest m)\<lparr>Dependencies := d, VerificationRecipe := r, Files := Files m\<rparr>"
  have id: "CapsuleID ?m = CapsuleID m" using assms(5) by (simp add: coerced_manifest_def)
  show ?thesis
    using assms(3,4,10-13) o id by (intro exI [of _ t] exI [of _ ?m]) (simp add: drill_def finish_drill_def Let_def)
qed

text \<open>
  What a drill leaves. Whatever happens in it, the entries of the scratch root that are not drill
  directories stay as they are; and if its own directory could be removed, no entry is there that was not.
\<close>

theorem drill_leaves_the_root:
  assumes "has_prefix (scratch_name D) drill_prefix"
    and "drill H F D message sealed_text unpacked_text scratch_root p checks root = (res, root')"
  shows "filter (\<lambda>e. \<not> has_prefix (fst e) drill_prefix) root' = filter (\<lambda>e. \<not> has_prefix (fst e) drill_prefix) root
    \<and> (scratch_removed D \<longrightarrow> set root' \<subseteq> set root)"
proof -
  let ?other = "\<lambda>e. \<not> has_prefix (fst e) drill_prefix"
  let ?swept = "sweep_stale_drills (call_fails (drill_env D)) (clock (drill_env D)) root"
  let ?put = "put_entry (scratch_name D) \<lparr>is_dir = True, entry_data = [], mod_time = clock (drill_env D)\<rparr> ?swept"
  have swept: "filter ?other ?swept = filter ?other root" "set ?swept \<subseteq> set root"
    by (auto simp: sweep_stale_drills_def intro: filter_cong)
  have put: "filter ?other ?put = filter ?other ?swept"
    using assms(1) by (auto simp: put_entry_def remove_entry_def intro: filter_cong)
  have "root' = root \<or> root' = ?swept \<or> (\<not> scratch_removed D \<and> root' = ?put)"
    using assms(2) by (auto simp: drill_def Let_def split: if_splits sum.splits prod.splits option.splits)
  then show ?thesis using swept put by auto
qed

text \<open>
  The audit record of a run. Its action is \<open>admin.backup_run\<close>; it is a success exactly when the run had no
  error, or only failed to record a receipt; every text in it is at most 206 bytes, whatever a server,
  a path or an error message put into it.
\<close>

theorem outcome_is_bounded:
  "case outcome printable message res err of (action, result, details) \<Rightarrow>
     action = ''admin.backup_run'' \<and> (result = ''success'' \<or> result = ''failure'')
     \<and> (result = ''success'' \<longleftrightarrow> err = None \<or> (\<exists>e. err = Some (ReceiptUnrecorded e)))
     \<and> list_all (\<lambda>(key, d). case d of TextDetail s \<Rightarrow> length s \<le> 206 | _ \<Rightarrow> True) details"
proof -
  have b: "length (audit_safe printable s) \<le> 206" for s
    using excerpt_loop_length [of "[]" audit_text_limit printable "map fst (runes s)"] by (simp add: audit_safe_def audit_text_limit_def)
  show ?thesis
    by (auto simp: outcome_def Let_def b split: option.splits run_error.splits)
qed

section \<open>Witnesses\<close>

lemma sample_key_generated: "generate_key strict_hpke (replicate 32 7) = Inr key0"
  by (simp add: generate_key_def from_seed_def strict_hpke_def plain_hpke_def seed_bytes_def key0_def)

lemma sample_apart: "apart (Path ` set (map normal_file [file0]))"
  by (simp add: apart_def normal_file0)

lemma custodians_restore_a_run_witness:
  "\<exists>shares raw m' t. split_key key0 2 3 (replicate 48 9) = Inr shares
     \<and> restore strict_hpke (files_formats [file0]) (\<lambda>_. False) (Some raw) ''s'' (fst (read_shares False (on_lines (drop 1 shares)))) Absent
       = (Inr (m', map normal_file [file0]), Present t) \<and> tree_holds (map normal_file [file0]) t"
proof -
  have "split_ready (seed key0) 2 3" by (simp add: key0_def split_ready_def max_secret_bytes_def)
  then obtain shares where s: "split (seed key0) 2 3 (replicate 48 9) = Inr shares" "int (length shares) = 3"
    using split_produces [of "seed key0" 2 3 "replicate 48 9"] by (auto simp: set_id_bytes_def key0_def)
  then have sk: "split_key key0 2 3 (replicate 48 9) = Inr shares" by (simp add: split_key_def key0_def)
  have d: "set (drop 1 shares) \<subseteq> set shares" "distinct (drop 1 shares)" "2 \<le> int (length (drop 1 shares))"
    using s(2) split_distinct [OF s(1)] by (auto dest: in_set_dropD)
  obtain m where m: "seal_payload strict_hpke (files_formats [file0]) sample_env sample_payload sample_key = Inr (raw0, m)"
    using sample_seal by blast
  have key: "recovery_public sample_key = public_of strict_hpke key0" by (simp add: sample_key_def)
  have svc: "payload_service sample_payload = ''s''" by (simp add: sample_payload_def)
  have asc: "coerced (payload_service sample_payload) = payload_service sample_payload"
    unfolding svc by (rule coerced_ascii) (simp add: is_ascii_def)
  have w: "within_limits (files_formats [file0]) raw0 (to_capsule_files (payload_files sample_payload))"
    unfolding sample_files by (rule within0)
  show ?thesis
    using custodians_restore_a_run [OF strict_hpke_ok formats0_ok sample_key_generated sk d m key asc refl w, of Absent "\<lambda>_. False"] sample_apart sk
    unfolding sample_files svc by (auto simp: empty_target_def)
qed

lemma drill_passes_iff_witness:
  "\<exists>r root'. drill strict_hpke (files_formats [file0])
       \<lparr>drill_env = sample_env, drill_rnd = replicate 32 7, cancelled = False, scratch_made = True, scratch_moded = True,
        scratch_removed = True, scratch_name = ''recoveryclient-drill-1'', write_refused = (\<lambda>_. False)\<rparr>
       (\<lambda>_. []) [] [] ''/d'' sample_payload (Some (\<lambda>_ _. [\<lparr>check_name = ''c'', check_passed = False, check_message = []\<rparr>])) []
     = (Inr r, root') \<and> \<not> drill_passed r"
proof -
  let ?D = "\<lparr>drill_env = sample_env, drill_rnd = replicate 32 7, cancelled = False, scratch_made = True, scratch_moded = True,
        scratch_removed = True, scratch_name = ''recoveryclient-drill-1'', write_refused = (\<lambda>_. False)\<rparr>"
  obtain m where m: "seal_payload strict_hpke (files_formats [file0]) sample_env sample_payload sample_key = Inr (raw0, m)"
    "CapsuleID m = receipt_capsule sample_receipt" using sample_seal by blast
  have e: "drill_env ?D = sample_env" "drill_rnd ?D = replicate 32 7" by simp_all
  have "list_all is_ascii (itoa (wrap64 5))" by (rule ascii_itoa) (simp add: wrap64_def)
  then have id: "coerced (CapsuleID m) = CapsuleID m"
    unfolding m(2) by (intro coerced_ascii) (simp add: sample_receipt_def is_ascii_def)
  have w: "within_limits (files_formats [file0]) raw0 (to_capsule_files (payload_files sample_payload))"
    unfolding sample_files by (rule within0)
  have g: "generate_key strict_hpke (drill_rnd ?D) = Inr key0" unfolding e by (rule sample_key_generated)
  have s: "seal_payload strict_hpke (files_formats [file0]) (drill_env ?D) sample_payload
      \<lparr>recovery_public = public_of strict_hpke key0, recovery_threshold = 2, recovery_total = 3\<rparr> = Inr (raw0, m)"
    using m(1) unfolding e sample_key_def .
  show ?thesis
    using drill_passes_iff [OF strict_hpke_ok formats0_ok g s id refl w, of "''/d''" "\<lambda>_. []" "[]" "[]"
        "\<lambda>_ _. [\<lparr>check_name = ''c'', check_passed = False, check_message = []\<rparr>]" "[]"] sample_apart
    unfolding sample_files by auto
qed

end
