(* ===== verification/Scim.thy ===== *)
theory Scim
  imports Prelude Codec GoStrings GoTime GoUrl SafePath AuditText
begin

text \<open>
  \<open>scim\<close>: the client of a SCIM 2.0 server, \<open>types.go\<close> and \<open>client.go\<close>. Parsing of the base URL, the JSON texts,
  HTTP dates, Unicode's tables and what a server answers are the record \<open>World\<close>; the URL of a request, its
  headers, the filter, and what is made of an answer are defined here. Values returned beside an error are
  not modelled.
\<close>

section \<open>Types\<close>

record Name =
  name_formatted :: string
  name_given :: string
  name_family :: string

record MultiValue =
  mv_value :: string
  mv_type :: string
  mv_display :: string
  mv_primary :: bool

record Meta =
  meta_type :: string
  meta_created :: "int option"
  meta_modified :: "int option"
  meta_location :: string
  meta_version :: string

record User =
  user_schemas :: "string list"
  user_id :: string
  external_id :: string
  user_name :: string
  display_name :: string
  user_names :: "Name option"
  user_emails :: "MultiValue list"
  user_roles :: "MultiValue list"
  user_active :: bool
  user_meta :: "Meta option"

record 'v PatchOperation =
  patch_op :: string
  patch_path :: string
  patch_value :: "'v option"

definition user_schema :: string where
  "user_schema = ''urn:ietf:params:scim:schemas:core:2.0:User''"

definition patch_op_schema :: string where
  "patch_op_schema = ''urn:ietf:params:scim:api:messages:2.0:PatchOp''"

definition zero_user :: User where
  "zero_user = \<lparr>user_schemas = [], user_id = [], external_id = [], user_name = [], display_name = [], user_names = None,
     user_emails = [], user_roles = [], user_active = False, user_meta = None\<rparr>"

section \<open>Errors\<close>

datatype sentinel =
    ErrNotFound | ErrConflict | ErrUnauthorized | ErrThrottled | ErrAmbiguous | ErrMalformedResponse | ErrInsecureURL | ErrNoToken

record RemoteError =
  err_status :: int
  err_scim_type :: string
  err_detail :: string
  err_retry_after :: int

datatype scim_error =
    Sentinel sentinel | Remote RemoteError | BadAttribute | NotAnId | NoOperations | MarshalFailed | TransportFailed | Redirected

definition error_text :: "RemoteError \<Rightarrow> string" where
  "error_text e = ''scim: status '' @ itoa (err_status e)
     @ (if err_scim_type e = [] then [] else '' '' @ err_scim_type e)
     @ (if err_detail e = [] then [] else '': '' @ err_detail e)"

text \<open>\<open>errors.Is\<close> on the error of a response.\<close>

definition error_is :: "RemoteError \<Rightarrow> sentinel \<Rightarrow> bool" where
  "error_is e t =
     (case t of
        ErrNotFound \<Rightarrow> err_status e = 404
      | ErrConflict \<Rightarrow> err_status e = 409
      | ErrUnauthorized \<Rightarrow> err_status e = 401 \<or> err_status e = 403
      | ErrThrottled \<Rightarrow> err_status e = 429 \<or> err_status e = 503
      | _ \<Rightarrow> False)"

definition detail_limit :: nat where
  "detail_limit = 200"

definition printable :: "(nat \<Rightarrow> bool) \<Rightarrow> string \<Rightarrow> string" where
  "printable is_print s = excerpt_loop detail_limit is_print [] (map fst (runes s))"

section \<open>The server\<close>

text \<open>A parsed base URL: \<open>base_authority\<close> is its host and port as written, \<open>base_path\<close> its escaped path.\<close>

record base_url =
  base_scheme :: string
  base_host :: string
  base_authority :: string
  base_path :: string
  base_user :: bool
  base_query :: string
  base_force_query :: bool
  base_fragment :: string

record scim_request =
  rq_method :: string
  rq_url :: string
  rq_headers :: "(string \<times> string) list"
  rq_body :: "bytes option"

text \<open>An answer: its status, its \<open>Retry-After\<close> header and its body, which may also fail to be read.\<close>

datatype scim_answer = NoAnswer | Redirects | BodyFails | Answer int string bytes

record 'v World =
  parse_base :: "string \<Rightarrow> base_url option"
  serve :: "scim_request \<Rightarrow> scim_answer"
  emit_user :: "User \<Rightarrow> bytes"
  emit_patch :: "string list \<Rightarrow> 'v PatchOperation list \<Rightarrow> bytes option"
  valid_json :: "bytes \<Rightarrow> bool"
  read_user :: "bytes \<Rightarrow> User option"
  read_list :: "bytes \<Rightarrow> (int \<times> User list) option"
  read_error :: "bytes \<Rightarrow> (string \<times> string) option"
  parse_http_time :: "string \<Rightarrow> int option"
  is_print :: "nat \<Rightarrow> bool"
  equal_fold :: "string \<Rightarrow> string \<Rightarrow> bool"

record Client =
  base_text :: string
  token :: string

section \<open>URLs\<close>

text \<open>
  \<open>JoinPath\<close> and \<open>String\<close>: the elements that are not empty, joined and cleaned below a leading slash. The
  segments the client joins never end in a slash.
\<close>

definition join_url :: "string \<Rightarrow> string list \<Rightarrow> string" where
  "join_url p segments = clean (join_with (CHR ''/'') ((if is_abs p then p else CHR ''/'' # p) # filter (\<lambda>s. s \<noteq> []) segments))"

definition filter_query :: "string \<Rightarrow> string" where
  "filter_query flt = query_escape ''filter'' @ ''='' @ query_escape flt"

definition endpoint :: "'v World \<Rightarrow> Client \<Rightarrow> string \<Rightarrow> string list \<Rightarrow> scim_error + string" where
  "endpoint W C flt segments =
     (case parse_base W (base_text C) of
        None \<Rightarrow> Inl (Sentinel ErrInsecureURL)
      | Some b \<Rightarrow>
          if base_scheme b \<noteq> ''https'' \<or> base_host b = [] \<or> base_user b \<or> base_query b \<noteq> [] \<or> base_force_query b \<or> base_fragment b \<noteq> []
          then Inl (Sentinel ErrInsecureURL)
          else if token C = [] then Inl (Sentinel ErrNoToken)
          else Inr (''https://'' @ base_authority b @ join_url (base_path b) segments
                    @ (if flt = [] then [] else ''?'' @ filter_query flt)))"

definition user_url :: "'v World \<Rightarrow> Client \<Rightarrow> string \<Rightarrow> scim_error + string" where
  "user_url W C i =
     (if i = [] \<or> i = ''.'' \<or> i = ''..'' then Inl NotAnId else endpoint W C [] [''Users'', path_escape i])"

section \<open>Requests\<close>

definition max_body :: nat where
  "max_body = 2 ^ 20"

definition max_retry_after :: int where
  "max_retry_after = 3600 * second"

definition retry_after :: "'v World \<Rightarrow> int \<Rightarrow> string \<Rightarrow> int" where
  "retry_after W clock h =
     (case parse_int 64 h of
        Some secs \<Rightarrow> if secs > max_retry_after div second then max_retry_after else max 0 (min (wrap64 (secs * second)) max_retry_after)
      | None \<Rightarrow>
          (case parse_http_time W h of
             None \<Rightarrow> 0
           | Some t \<Rightarrow> max 0 (min (sat64 (t - clock)) max_retry_after)))"

text \<open>\<open>strings.ReplaceAll\<close> of a text that is not empty; \<open>endpoint\<close> refuses an empty token.\<close>

function replace_all :: "string \<Rightarrow> string \<Rightarrow> string \<Rightarrow> string" where
  "replace_all old new [] = []"
| "replace_all old new (c # s) =
     (if old \<noteq> [] \<and> has_prefix (c # s) old then new @ replace_all old new (drop (length old) (c # s))
      else c # replace_all old new s)"
  by pat_completeness auto

termination
  by (relation "measure (\<lambda>(old, new, s). length s)") auto

definition redact :: "'v World \<Rightarrow> Client \<Rightarrow> string \<Rightarrow> string" where
  "redact W C s = printable (is_print W) (replace_all (token C) ''[token]'' s)"

definition remote_error :: "'v World \<Rightarrow> Client \<Rightarrow> int \<Rightarrow> int \<Rightarrow> string \<Rightarrow> bytes \<Rightarrow> RemoteError" where
  "remote_error W C clock status retry raw =
     (let (st, dt) = (case read_error W raw of None \<Rightarrow> ([], []) | Some (st, dt) \<Rightarrow> (redact W C st, redact W C dt))
      in \<lparr>err_status = status, err_scim_type = st, err_detail = dt, err_retry_after = retry_after W clock retry\<rparr>)"

definition request :: "Client \<Rightarrow> string \<Rightarrow> string \<Rightarrow> bytes option \<Rightarrow> scim_request" where
  "request C method target body =
     \<lparr>rq_method = method, rq_url = target,
      rq_headers = (if body = None then [] else [(''Content-Type'', ''application/scim+json'')])
        @ [(''Accept'', ''application/scim+json, application/json''), (''Authorization'', ''Bearer '' @ token C)],
      rq_body = body\<rparr>"

text \<open>\<open>do\<close> up to the decoding of the body; \<open>clock\<close> is the time the answer is read.\<close>

definition exchange :: "'v World \<Rightarrow> Client \<Rightarrow> int \<Rightarrow> scim_request \<Rightarrow> scim_error + bytes" where
  "exchange W C clock rq =
     (case serve W rq of
        NoAnswer \<Rightarrow> Inl TransportFailed
      | Redirects \<Rightarrow> Inl Redirected
      | BodyFails \<Rightarrow> Inl (Sentinel ErrMalformedResponse)
      | Answer status retry body \<Rightarrow>
          (let raw = take (max_body + 1) body
           in if 400 \<le> status then Inl (Remote (remote_error W C clock status retry raw))
              else if status \<noteq> 200 \<and> status \<noteq> 201 \<and> status \<noteq> 204 then Inl (Sentinel ErrMalformedResponse)
              else if max_body < length raw then Inl (Sentinel ErrMalformedResponse)
              else Inr raw))"

definition blank :: "bytes \<Rightarrow> bool" where
  "blank raw \<longleftrightarrow> trim_space (string_of raw) = []"

text \<open>The decoding: an empty body leaves the zero value.\<close>

definition decoded :: "'a \<Rightarrow> (bytes \<Rightarrow> 'a option) \<Rightarrow> scim_error + bytes \<Rightarrow> scim_error + 'a" where
  "decoded zero rd r = bindE r (\<lambda>raw. if blank raw then Inr zero else ofOption (Sentinel ErrMalformedResponse) (rd raw))"

section \<open>Operations\<close>

definition ping :: "'v World \<Rightarrow> Client \<Rightarrow> int \<Rightarrow> scim_error option" where
  "ping W C clock =
     (case bindE (endpoint W C [] [''ServiceProviderConfig'']) (\<lambda>u.
        decoded [] (\<lambda>raw. if valid_json W raw then Some (trim_space (string_of raw)) else None) (exchange W C clock (request C ''GET'' u None))) of
        Inl e \<Rightarrow> Some e
      | Inr probe \<Rightarrow> if probe = [] \<or> hd probe \<noteq> CHR ''{'' then Some (Sentinel ErrMalformedResponse) else None)"

definition outbound :: "User \<Rightarrow> User" where
  "outbound u = u\<lparr>user_id := [], user_meta := None, user_schemas := (if user_schemas u = [] then [user_schema] else user_schemas u)\<rparr>"

definition create_user :: "'v World \<Rightarrow> Client \<Rightarrow> int \<Rightarrow> User \<Rightarrow> scim_error + User" where
  "create_user W C clock user =
     bindE (endpoint W C [] [''Users'']) (\<lambda>u.
     bindE (decoded zero_user (read_user W) (exchange W C clock (request C ''POST'' u (Some (emit_user W (outbound user)))))) (\<lambda>out.
       if user_id out = [] then Inl (Sentinel ErrMalformedResponse) else Inr out))"

definition get_user :: "'v World \<Rightarrow> Client \<Rightarrow> int \<Rightarrow> string \<Rightarrow> scim_error + User" where
  "get_user W C clock i =
     bindE (user_url W C i) (\<lambda>u. decoded zero_user (read_user W) (exchange W C clock (request C ''GET'' u None)))"

text \<open>The filter: a backslash goes before every backslash and quote of the value.\<close>

definition quoted :: "string \<Rightarrow> string" where
  "quoted v = concat (map (\<lambda>c. if c = CHR 0x5C \<or> c = CHR 0x22 then [CHR 0x5C, c] else [c]) v)"

definition filter_text :: "string \<Rightarrow> string \<Rightarrow> string" where
  "filter_text attribute v = attribute @ '' eq '' @ [CHR 0x22] @ quoted v @ [CHR 0x22]"

definition find_user :: "'v World \<Rightarrow> Client \<Rightarrow> int \<Rightarrow> string \<Rightarrow> string \<Rightarrow> scim_error + User" where
  "find_user W C clock attribute v =
     (if attribute \<noteq> ''externalId'' \<and> attribute \<noteq> ''userName'' then Inl BadAttribute
      else bindE (endpoint W C (filter_text attribute v) [''Users'']) (\<lambda>u.
           bindE (decoded (0, []) (read_list W) (exchange W C clock (request C ''GET'' u None))) (\<lambda>(all_results, resources).
             case resources of
               [] \<Rightarrow> Inl (Sentinel ErrNotFound)
             | found # others \<Rightarrow>
                 if others \<noteq> [] \<or> 1 < all_results then Inl (Sentinel ErrAmbiguous)
                 else if (attribute = ''externalId'' \<and> external_id found \<noteq> v) \<or> (attribute = ''userName'' \<and> \<not> equal_fold W (user_name found) v)
                 then Inl (Sentinel ErrMalformedResponse)
                 else Inr found)))"

definition replace_user :: "'v World \<Rightarrow> Client \<Rightarrow> int \<Rightarrow> string \<Rightarrow> User \<Rightarrow> scim_error + User" where
  "replace_user W C clock i user =
     bindE (user_url W C i) (\<lambda>u.
       decoded zero_user (read_user W) (exchange W C clock (request C ''PUT'' u (Some (emit_user W (outbound user))))))"

definition patch_user :: "'v World \<Rightarrow> Client \<Rightarrow> int \<Rightarrow> string \<Rightarrow> 'v PatchOperation list \<Rightarrow> scim_error + User" where
  "patch_user W C clock i ops =
     (if ops = [] then Inl NoOperations
      else bindE (user_url W C i) (\<lambda>u.
           bindE (ofOption MarshalFailed (emit_patch W [patch_op_schema] ops)) (\<lambda>body.
             decoded zero_user (read_user W) (exchange W C clock (request C ''PATCH'' u (Some body))))))"

definition delete_user :: "'v World \<Rightarrow> Client \<Rightarrow> int \<Rightarrow> string \<Rightarrow> scim_error option" where
  "delete_user W C clock i =
     (case bindE (user_url W C i) (\<lambda>u. exchange W C clock (request C ''DELETE'' u None)) of Inl e \<Rightarrow> Some e | Inr _ \<Rightarrow> None)"

end
