(* ===== verification/ScimClient.thy ===== *)
theory ScimClient
  imports Scim
begin

text \<open>
  What the SCIM client promises: which resource a call addresses, what a filter asks, when a call counts as
  done, how a refusal is classified, and what may reach a log.
\<close>

section \<open>Lemmas: URLs\<close>

lemma split_on_snoc: "split_on c (a @ c # b) = split_on c a @ split_on c b"
  by (induction a) (auto simp: neq_Nil_conv)

lemma join_snoc: "ps \<noteq> [] \<Longrightarrow> join_with c (ps @ [q]) = join_with c ps @ c # q"
  by (induction c ps rule: join_with.induct) auto

text \<open>A plain last segment is appended to the URL of what comes before it.\<close>

lemma join_url_snoc:
  assumes "plain a" "plain b"
  shows "join_url p [a, b] = join_url p [a] @ CHR ''/'' # b"
proof -
  let ?p = "if is_abs p then p else CHR ''/'' # p"
  have ab: "a \<noteq> []" "b \<noteq> []" "CHR ''/'' \<notin> set a" "CHR ''/'' \<notin> set b" using assms by (simp_all add: plain_def)
  have abs: "is_abs (?p @ CHR ''/'' # s)" for s by (simp add: is_abs_def)
  let ?out = "foldl (clean_step True) [] (split_on (CHR ''/'') ?p)"
  have one: "clean_parts (?p @ CHR ''/'' # a) = ?out @ [a]"
    using fold_plain [of "[a]" True ?out] assms(1) abs [of a]
    by (simp add: clean_parts_def split_on_snoc split_on_none [OF ab(3)] del: clean_step.simps)
  have two: "clean_parts (?p @ CHR ''/'' # a @ CHR ''/'' # b) = (?out @ [a]) @ [b]"
    using fold_plain [of "[a, b]" True ?out] assms abs [of "a @ CHR ''/'' # b"]
    by (simp add: clean_parts_def split_on_snoc split_on_none [OF ab(3)] split_on_none [OF ab(4)] del: clean_step.simps)
  have "join_url p [a] = CHR ''/'' # join_with (CHR ''/'') (?out @ [a])"
    using ab(1) one abs [of a] by (simp add: join_url_def clean_def)
  moreover have "join_url p [a, b] = CHR ''/'' # join_with (CHR ''/'') ((?out @ [a]) @ [b])"
    using ab(1,2) two abs [of "a @ CHR ''/'' # b"] by (simp add: join_url_def clean_def)
  moreover have "join_with (CHR ''/'') ((?out @ [a]) @ [b]) = join_with (CHR ''/'') (?out @ [a]) @ CHR ''/'' # b"
    by (rule join_snoc) simp
  ultimately show ?thesis by (simp only: append_Cons)
qed

lemma path_escape_Nil: "path_escape s = [] \<longleftrightarrow> s = []"
  by (cases s) (simp_all add: path_escape_def percent_def)

lemma path_escape_dots: "path_escape s = ''.'' \<longleftrightarrow> s = ''.''" "path_escape s = ''..'' \<longleftrightarrow> s = ''..''"
proof -
  have dot: "path_safe CHR ''.''" by (simp add: path_safe_def unreserved_def)
  have hd: "path_escape (c # t) = CHR ''.'' # r \<longleftrightarrow> c = CHR ''.'' \<and> path_escape t = r" for c t r
    using dot by (auto simp: path_escape_def percent_def)
  show "path_escape s = ''.'' \<longleftrightarrow> s = ''.''" by (cases s) (auto simp: hd path_escape_Nil, simp add: path_escape_def)
  show "path_escape s = ''..'' \<longleftrightarrow> s = ''..''"
  proof (cases s)
    case (Cons c t)
    then show ?thesis by (cases t) (auto simp: hd path_escape_Nil, simp add: path_escape_def)
  qed (simp add: path_escape_def)
qed

lemma escaped_plain: "i \<noteq> [] \<Longrightarrow> i \<noteq> ''.'' \<Longrightarrow> i \<noteq> ''..'' \<Longrightarrow> plain (path_escape i)"
  using path_escape_safe(2) [of i] by (simp add: plain_def path_escape_Nil path_escape_dots)

text \<open>\<open>url.PathUnescape\<close>, what the server applies to the segment.\<close>

fun path_unescape :: "string \<Rightarrow> string option" where
  "path_unescape [] = Some []"
| "path_unescape (c # s) =
     (if c = CHR ''%'' then
        (case s of
           a # b # r \<Rightarrow>
             (case (hex_val a, hex_val b, path_unescape r) of
                (Some x, Some y, Some t) \<Rightarrow> Some (char_of (16 * x + y) # t)
              | _ \<Rightarrow> None)
         | _ \<Rightarrow> None)
      else map_option ((#) c) (path_unescape s))"

lemma path_unescape_escape: "path_unescape (path_escape s) = Some s"
proof (induction s)
  case (Cons c s)
  have "path_escape (c # s) = (if path_safe c then [c] else percent c) @ path_escape s" by (simp add: path_escape_def)
  moreover have "\<not> path_safe CHR ''%''" by (simp add: path_safe_def)
  ultimately show ?case using Cons by (auto simp: percent_def)
qed (simp add: path_escape_def)

lemma user_url_ok:
  assumes "user_url W C i = Inr u"
  shows "\<exists>b. parse_base W (base_text C) = Some b \<and> base_scheme b = ''https'' \<and> base_host b \<noteq> [] \<and> token C \<noteq> []
    \<and> u = ''https://'' @ base_authority b @ join_url (base_path b) [''Users''] @ ''/'' @ path_escape i
    \<and> path_unescape (path_escape i) = Some i \<and> plain (path_escape i) \<and> CHR ''?'' \<notin> set (path_escape i) \<and> CHR 0x23 \<notin> set (path_escape i)"
proof -
  have i: "i \<noteq> []" "i \<noteq> ''.''" "i \<noteq> ''..''" and e: "endpoint W C [] [''Users'', path_escape i] = Inr u"
    using assms by (auto simp: user_url_def split: if_splits)
  have "plain ''Users''" by (simp add: plain_def)
  from e obtain b where "parse_base W (base_text C) = Some b" "base_scheme b = ''https''" "base_host b \<noteq> []" "token C \<noteq> []"
    "u = ''https://'' @ base_authority b @ join_url (base_path b) [''Users'', path_escape i]"
    by (auto simp: endpoint_def split: option.splits if_splits)
  then show ?thesis
    using join_url_snoc [OF \<open>plain ''Users''\<close> escaped_plain [OF i]] escaped_plain [OF i] path_escape_safe [of i]
    by (simp add: path_unescape_escape)
qed

section \<open>Lemmas: exchanges\<close>

definition done_status :: "int \<Rightarrow> bool" where
  "done_status s \<longleftrightarrow> s \<in> {200, 201, 204}"

lemma exchange_done:
  assumes "exchange W C clock rq = Inr raw"
  obtains status retry where "serve W rq = Answer status retry raw" "done_status status" "length raw \<le> max_body"
proof -
  obtain status retry body where a: "serve W rq = Answer status retry body" and s: "done_status status"
    and raw: "raw = take (max_body + 1) body" "length raw \<le> max_body"
    using assms by (auto simp: exchange_def done_status_def Let_def split: scim_answer.splits if_splits)
  then have "raw = body" by (simp add: min_def split: if_splits)
  with a s raw(2) show thesis by (intro that) auto
qed

lemma decoded_done:
  assumes "decoded zero rd (exchange W C clock rq) = Inr v"
  obtains status retry raw where "serve W rq = Answer status retry raw" "done_status status" "length raw \<le> max_body"
    "if blank raw then v = zero else rd raw = Some v"
proof -
  obtain raw where e: "exchange W C clock rq = Inr raw" and v: "if blank raw then v = zero else rd raw = Some v"
    using assms by (auto simp: decoded_def result_simps split: if_splits)
  from exchange_done [OF e] v show thesis by (metis that)
qed

text \<open>The status line decides, whatever the body says.\<close>

fun class_of_status :: "int \<Rightarrow> sentinel option" where
  "class_of_status s =
     (if s = 404 then Some ErrNotFound else if s = 409 then Some ErrConflict
      else if s \<in> {401, 403} then Some ErrUnauthorized else if s \<in> {429, 503} then Some ErrThrottled else None)"

lemma error_class: "error_is e t \<longleftrightarrow> class_of_status (err_status e) = Some t"
  by (cases t) (auto simp: error_is_def)

lemma printable_length: "length (printable P s) \<le> detail_limit + 6"
  unfolding printable_def by (rule excerpt_loop_length) simp

lemma redacted_length: "length (redact W C s) \<le> detail_limit + 6"
  unfolding redact_def by (rule printable_length)

lemma refused:
  assumes "serve W rq = Answer status retry body" "400 \<le> status"
  shows "exchange W C clock rq = Inl (Remote (remote_error W C clock status retry (take (max_body + 1) body)))"
  using assms by (simp add: exchange_def Let_def)

lemma remote_error_parts:
  "err_status (remote_error W C clock status retry raw) = status"
  "err_retry_after (remote_error W C clock status retry raw) = retry_after W clock retry"
  "length (err_detail (remote_error W C clock status retry raw)) \<le> detail_limit + 6"
  "length (err_scim_type (remote_error W C clock status retry raw)) \<le> detail_limit + 6"
  by (auto simp: remote_error_def Let_def redacted_length split: option.splits)

section \<open>Lemmas: filters\<close>

text \<open>How a server reads a quoted value: up to the first quote that no backslash precedes.\<close>

fun read_quoted :: "string \<Rightarrow> (string \<times> string) option" where
  "read_quoted [] = None"
| "read_quoted (c # s) =
     (if c = CHR 0x22 then Some ([], s)
      else if c = CHR 0x5C then (case s of [] \<Rightarrow> None | d # r \<Rightarrow> map_option (\<lambda>(v, rest). (d # v, rest)) (read_quoted r))
      else map_option (\<lambda>(v, rest). (c # v, rest)) (read_quoted s))"

lemma read_quoted_quoted: "read_quoted (quoted v @ CHR 0x22 # rest) = Some (v, rest)"
proof (induction v)
  case (Cons c v)
  have "quoted (c # v) = (if c = CHR 0x5C \<or> c = CHR 0x22 then [CHR 0x5C, c] else [c]) @ quoted v" by (simp add: quoted_def)
  with Cons show ?case by auto
qed (simp add: quoted_def)

section \<open>Properties\<close>

text \<open>
  C24: A deletion that is reported done. The base URL was HTTPS, the server answered 200, 201 or 204 to one
  DELETE with the bearer token, and its path is the collection's with exactly one segment below it, which
  reads back as the id: no id turns the call on the collection or on another resource.
\<close>

theorem delete_addresses_one_user:
  assumes "delete_user W C clock i = None"
  shows "\<exists>b status retry body. parse_base W (base_text C) = Some b \<and> base_scheme b = ''https''
    \<and> serve W (request C ''DELETE'' (''https://'' @ base_authority b @ join_url (base_path b) [''Users''] @ ''/'' @ path_escape i) None)
      = Answer status retry body
    \<and> status \<in> {200, 201, 204}
    \<and> plain (path_escape i) \<and> path_unescape (path_escape i) = Some i \<and> CHR ''?'' \<notin> set (path_escape i) \<and> CHR 0x23 \<notin> set (path_escape i)"
proof -
  obtain u raw where u: "user_url W C i = Inr u" and x: "exchange W C clock (request C ''DELETE'' u None) = Inr raw"
    using assms by (auto simp: delete_user_def result_simps split: sum.splits)
  from exchange_done [OF x] obtain status retry where "serve W (request C ''DELETE'' u None) = Answer status retry raw" "done_status status"
    by blast
  with user_url_ok [OF u] show ?thesis unfolding done_status_def by blast
qed

text \<open>
  C25: A user that is found. The server answered with a list of one user that does not claim more, and that user
  carries the value that was looked for; a server that ignores the filter never makes an unrelated user
  the result.
\<close>

theorem found_user_matches:
  assumes "find_user W C clock attribute v = Inr u"
  shows "(attribute = ''externalId'' \<and> external_id u = v \<or> attribute = ''userName'' \<and> equal_fold W (user_name u) v)
    \<and> (\<exists>rq status retry body n. serve W rq = Answer status retry body \<and> status \<in> {200, 201, 204}
         \<and> read_list W body = Some (n, [u]) \<and> n \<le> 1)"
proof -
  have a: "attribute = ''externalId'' \<or> attribute = ''userName''" using assms by (auto simp: find_user_def split: if_splits)
  obtain t where t: "endpoint W C (filter_text attribute v) [''Users''] = Inr t"
    using assms a by (auto simp: find_user_def result_simps)
  obtain n us where x: "decoded (0, []) (read_list W) (exchange W C clock (request C ''GET'' t None)) = Inr (n, us)"
    using assms a t by (auto simp: find_user_def result_simps)
  have f: "us = [u]" "\<not> 1 < n" "(attribute = ''externalId'' \<and> external_id u \<noteq> v) \<or> (attribute = ''userName'' \<and> \<not> equal_fold W (user_name u) v) \<Longrightarrow> False"
    using assms a t x by (cases us; auto simp: find_user_def split: if_splits)+
  from decoded_done [OF x] obtain status retry raw where s: "serve W (request C ''GET'' t None) = Answer status retry raw" "done_status status"
    "if blank raw then (n, us) = (0, []) else read_list W raw = Some (n, us)" by blast
  then have "read_list W raw = Some (n, [u])" using f(1) by (auto split: if_splits)
  moreover have "status \<in> {200, 201, 204}" using s(2) by (simp add: done_status_def)
  ultimately show ?thesis using a f(2,3) s(1) by (meson not_less)
qed


text \<open>
  A refusal is classified by its status line. To any answer of 400 and above whose body can be read, every
  operation's error is the sentinel of that status and no other, its texts are at most 206 bytes, and its
  hint to wait lies between nothing and an hour.
\<close>

theorem refusal_is_classified:
  assumes "user_url W C i = Inr u" "serve W (request C ''DELETE'' u None) = Answer status retry body" "400 \<le> status"
  shows "\<exists>e. delete_user W C clock i = Some (Remote e) \<and> err_status e = status
    \<and> {t. error_is e t} = set_option (class_of_status status)
    \<and> length (err_detail e) \<le> 206 \<and> length (err_scim_type e) \<le> 206
    \<and> 0 \<le> err_retry_after e \<and> err_retry_after e \<le> 3600 * second"
proof -
  let ?e = "remote_error W C clock status retry (take (max_body + 1) body)"
  have "delete_user W C clock i = Some (Remote ?e)" using refused [OF assms(2,3)] assms(1) by (simp add: delete_user_def)
  moreover have "0 \<le> retry_after W clock retry \<and> retry_after W clock retry \<le> 3600 * second"
    by (auto simp: retry_after_def max_retry_after_def second_def split: option.splits)
  ultimately show ?thesis
    using remote_error_parts [of W C clock status retry "take (max_body + 1) body"]
    by (intro exI [of _ ?e]) (simp add: error_class detail_limit_def set_eq_iff del: class_of_status.simps)
qed

text \<open>
  A user that is created has an id of the server's, and what was sent for it has neither an id nor metadata
  and names a schema; a conflict, which is a 409, is never a creation.
\<close>

theorem created_user_is_minted:
  assumes "create_user W C clock user = Inr u"
  shows "user_id u \<noteq> [] \<and> (\<exists>target sent status retry body.
      serve W (request C ''POST'' target (Some (emit_user W sent))) = Answer status retry body \<and> status \<in> {200, 201, 204}
      \<and> read_user W body = Some u \<and> user_id sent = [] \<and> user_meta sent = None \<and> user_schemas sent \<noteq> []
      \<and> user_name sent = user_name user \<and> user_active sent = user_active user)"
proof -
  obtain t where x: "decoded zero_user (read_user W) (exchange W C clock (request C ''POST'' t (Some (emit_user W (outbound user))))) = Inr u"
    and i: "user_id u \<noteq> []"
    using assms by (auto simp: create_user_def result_simps split: if_splits)
  from decoded_done [OF x] obtain status retry raw where
    s: "serve W (request C ''POST'' t (Some (emit_user W (outbound user)))) = Answer status retry raw" "done_status status"
    "if blank raw then u = zero_user else read_user W raw = Some u" by blast
  have "read_user W raw = Some u" using s(3) i by (auto simp: zero_user_def split: if_splits)
  moreover have "user_id (outbound user) = []" "user_meta (outbound user) = None" "user_schemas (outbound user) \<noteq> []"
    "user_name (outbound user) = user_name user" "user_active (outbound user) = user_active user"
    by (simp_all add: outbound_def)
  ultimately show ?thesis using i s(1,2) unfolding done_status_def by blast
qed

section \<open>Witnesses\<close>

definition sample_world :: "int \<Rightarrow> bytes \<Rightarrow> unit World" where
  "sample_world status body = \<lparr>
     parse_base = (\<lambda>_. Some \<lparr>base_scheme = ''https'', base_host = ''h'', base_authority = ''h'', base_path = ''/scim/v2'', base_user = False,
       base_query = [], base_force_query = False, base_fragment = []\<rparr>),
     serve = (\<lambda>rq. Answer status [] body), emit_user = (\<lambda>_. [1]), emit_patch = (\<lambda>_ _. Some [1]), valid_json = (\<lambda>_. True),
     read_user = (\<lambda>_. Some (zero_user\<lparr>user_id := ''7''\<rparr>)), read_list = (\<lambda>_. Some (1, [zero_user\<lparr>external_id := ''e''\<rparr>])),
     read_error = (\<lambda>_. None), parse_http_time = (\<lambda>_. None), is_print = (\<lambda>r. 32 \<le> r \<and> r < 127), equal_fold = (=)\<rparr>"

definition sample_client :: Client where
  "sample_client = \<lparr>base_text = ''https://h/scim/v2'', token = ''ab''\<rparr>"

lemma sample_endpoint: "\<exists>u. endpoint (sample_world status body) sample_client flt segments = Inr u"
  by (simp add: endpoint_def sample_world_def sample_client_def)

lemma sample_user_url: "\<exists>u. user_url (sample_world status body) sample_client ''7'' = Inr u"
  using sample_endpoint by (simp add: user_url_def)

lemma sample_serve: "serve (sample_world status body) rq = Answer status [] body"
  by (simp add: sample_world_def)

lemma sample_exchange: "exchange (sample_world 200 [0x7B]) sample_client clock rq = Inr [0x7B]"
  by (simp add: exchange_def sample_serve max_body_def)

lemma sample_blank: "\<not> blank [0x7B]"
proof -
  have "trim_space [CHR 0x7B] = [CHR 0x7B]" by (rule trim_space_id) (simp_all add: is_ascii_def is_space_def)
  moreover have "string_of [0x7B] = [CHR 0x7B]" by (simp add: string_of_def char_of_def bit_iff_odd)
  ultimately show ?thesis by (simp add: blank_def)
qed

lemma delete_addresses_one_user_witness:
  "delete_user (sample_world 204 []) sample_client 0 ''7'' = None \<and> (\<exists>status. status \<in> {200, 201, 204 :: int})"
proof -
  obtain u where "user_url (sample_world 204 []) sample_client ''7'' = Inr u" using sample_user_url by blast
  then have d: "delete_user (sample_world 204 []) sample_client 0 ''7'' = None"
    by (simp add: delete_user_def exchange_def sample_serve)
  then show ?thesis using delete_addresses_one_user [OF d] by blast
qed

lemma found_user_matches_witness:
  "find_user (sample_world 200 [0x7B]) sample_client 0 ''externalId'' ''e'' = Inr (zero_user\<lparr>external_id := ''e''\<rparr>)
    \<and> external_id (zero_user\<lparr>external_id := ''e''\<rparr>) = ''e''"
proof -
  have rl: "read_list (sample_world 200 [0x7B]) b = Some (1, [zero_user\<lparr>external_id := ''e''\<rparr>])" for b by (simp add: sample_world_def)
  obtain u where "endpoint (sample_world 200 [0x7B]) sample_client (filter_text ''externalId'' ''e'') [''Users''] = Inr u"
    using sample_endpoint by blast
  then have f: "find_user (sample_world 200 [0x7B]) sample_client 0 ''externalId'' ''e'' = Inr (zero_user\<lparr>external_id := ''e''\<rparr>)"
    by (simp add: find_user_def decoded_def sample_exchange sample_blank rl)
  then show ?thesis using found_user_matches [OF f] by simp
qed

lemma refusal_is_classified_witness:
  "\<exists>e. delete_user (sample_world 404 []) sample_client 0 ''7'' = Some (Remote e) \<and> {t. error_is e t} = {ErrNotFound}"
proof -
  obtain u where u: "user_url (sample_world 404 []) sample_client ''7'' = Inr u" using sample_user_url by blast
  show ?thesis using refusal_is_classified [OF u sample_serve, of 0] by auto
qed

lemma created_user_is_minted_witness:
  "create_user (sample_world 200 [0x7B]) sample_client 0 zero_user = Inr (zero_user\<lparr>user_id := ''7''\<rparr>) \<and> user_id (zero_user\<lparr>user_id := ''7''\<rparr>) \<noteq> []"
proof -
  have ru: "read_user (sample_world 200 [0x7B]) b = Some (zero_user\<lparr>user_id := ''7''\<rparr>)" for b by (simp add: sample_world_def)
  obtain u where "endpoint (sample_world 200 [0x7B]) sample_client [] [''Users''] = Inr u" using sample_endpoint by blast
  then have c: "create_user (sample_world 200 [0x7B]) sample_client 0 zero_user = Inr (zero_user\<lparr>user_id := ''7''\<rparr>)"
    by (simp add: create_user_def decoded_def sample_exchange sample_blank ru)
  then show ?thesis using created_user_is_minted [OF c] by blast
qed

section \<open>Surprises\<close>

text \<open>A fetch that is answered by a 200 without a body is a user with no id and no error.\<close>

lemma empty_answer_is_a_user: "get_user (sample_world 200 []) sample_client 0 ''7'' = Inr zero_user"
proof -
  obtain u where "user_url (sample_world 200 []) sample_client ''7'' = Inr u" using sample_user_url by blast
  moreover have "blank []" by (simp add: blank_def trim_space_def trim_both_def string_of_def)
  ultimately show ?thesis by (simp add: get_user_def decoded_def exchange_def sample_serve)
qed

text \<open>A list that claims matches and holds none is reported as no match.\<close>

lemma claimed_matches_are_not_found:
  "find_user ((sample_world 200 [0x7B])\<lparr>read_list := (\<lambda>_. Some (5, []))\<rparr>) sample_client 0 ''externalId'' ''e'' = Inl (Sentinel ErrNotFound)"
proof -
  let ?W = "(sample_world 200 [0x7B])\<lparr>read_list := (\<lambda>_. Some (5, []))\<rparr>"
  have "\<exists>u. endpoint ?W sample_client (filter_text ''externalId'' ''e'') [''Users''] = Inr u"
    by (simp add: endpoint_def sample_world_def sample_client_def)
  moreover have "exchange ?W sample_client 0 rq = Inr [0x7B]" for rq
    by (simp add: exchange_def sample_serve max_body_def)
  ultimately show ?thesis by (auto simp: find_user_def decoded_def sample_blank)
qed

text \<open>A token with an unprintable character inside is not redacted, and then becomes the token.\<close>

lemma redacted_token_reappears: "redact (sample_world 401 []) sample_client [CHR ''a'', CHR 0x01, CHR ''b''] = token sample_client"
proof -
  have "replace_all ''ab'' ''[token]'' [CHR ''a'', CHR 0x01, CHR ''b''] = [CHR ''a'', CHR 0x01, CHR ''b'']"
    by (simp add: has_prefix_def)
  moreover have "list_all is_ascii [CHR ''a'', CHR 0x01, CHR ''b'']" by (simp add: is_ascii_def)
  ultimately show ?thesis
    by (simp add: redact_def printable_def runes_ascii detail_limit_def sample_world_def sample_client_def char_of_def bit_iff_odd)
qed

end
