(* ===== verification/Offsite.thy ===== *)
theory Offsite
  imports Prelude Codec GoStrings SafePath
begin

text \<open>
  \<open>offsite\<close>: copies of opaque objects on other machines. Here the names of objects (\<open>cleanName\<close>, \<open>cleanPrefix\<close>,
  \<open>stagingName\<close> of \<open>offsite.go\<close>, \<open>cleanSMBName\<close> of \<open>smb.go\<close>) and the configuration of a target: \<open>Parse\<close> and \<open>Key\<close>
  of \<open>offsite.go\<close>, \<open>ParseSMBEndpoint\<close> of \<open>smb.go\<close>. Parsing and printing of URLs are arguments.
\<close>

section \<open>Object names\<close>

datatype offsite_error =
    NotRelative | UnsafeComponent | SmbCharacters | SmbDevice | NegativeTimeout | InvalidURL | HasQuery | PasswordInURL
  | BadFileURL | FileCredentials | BadS3URL | S3Credentials | BadS3Endpoint | NoSftpHost | SftpUsersDisagree | SftpCredentials
  | SmbUserinfo | SmbIncomplete | SmbHost | SmbShare | UnsupportedScheme string

definition ping_name :: string where
  "ping_name = ''.ky-offsite-ping''"

definition staging_prefix :: string where
  "staging_prefix = ''.ky-offsite-tmp-''"

definition safe_component :: "string \<Rightarrow> bool" where
  "safe_component p \<longleftrightarrow> p \<noteq> [] \<and> p \<noteq> ''.'' \<and> p \<noteq> ''..'' \<and> \<not> has_prefix p staging_prefix"

definition clean_name :: "string \<Rightarrow> offsite_error + string" where
  "clean_name name =
     (if name = [] \<or> CHR 0x5C \<in> set name \<or> CHR 0x00 \<in> set name \<or> has_prefix name ''/'' then Inl NotRelative
      else if \<not> list_all safe_component (split_on (CHR ''/'') name) then Inl UnsafeComponent
      else Inr name)"

text \<open>\<open>strings.Trim\<close> for single characters.\<close>

definition trim_chars :: "char set \<Rightarrow> string \<Rightarrow> string" where
  "trim_chars cs s = trim_both (\<lambda>c. c \<in> cs) s"

definition clean_prefix :: "string \<Rightarrow> offsite_error + string" where
  "clean_prefix p = (let p = trim_chars {CHR ''/''} p in if p = [] then Inr [] else clean_name p)"

text \<open>\<open>path.Join\<close> and \<open>path.Dir\<close>.\<close>

definition path_joins :: "string list \<Rightarrow> string" where
  "path_joins elems = (case filter (\<lambda>s. s \<noteq> []) elems of [] \<Rightarrow> [] | ps \<Rightarrow> clean (join_with (CHR ''/'') ps))"

abbreviation path_join :: "string \<Rightarrow> string \<Rightarrow> string" where
  "path_join a b \<equiv> path_joins [a, b]"

definition path_dir :: "string \<Rightarrow> string" where
  "path_dir p = clean (rev (dropWhile (\<lambda>c. c \<noteq> CHR ''/'') (rev p)))"

text \<open>\<open>random\<close> is what the system's randomness gives.\<close>

definition staging_name :: "bytes \<Rightarrow> string \<Rightarrow> string" where
  "staging_name random final = path_join (path_dir final) (staging_prefix @ hex_encode random)"

section \<open>Names on SMB servers\<close>

definition smb_char :: "char \<Rightarrow> bool" where
  "smb_char c \<longleftrightarrow> (let n = of_char c :: nat in (97 \<le> n \<and> n \<le> 122) \<or> (48 \<le> n \<and> n \<le> 57)) \<or> c \<in> {CHR ''.'', CHR ''_'', CHR ''-''}"

definition stem :: "string \<Rightarrow> string" where
  "stem p = (case cut_at (CHR ''.'') p of None \<Rightarrow> p | Some (a, _) \<Rightarrow> a)"

definition device_name :: "string \<Rightarrow> bool" where
  "device_name s \<longleftrightarrow> s \<in> {''con'', ''prn'', ''aux'', ''nul''}
     \<or> (length s = 4 \<and> (has_prefix s ''com'' \<or> has_prefix s ''lpt'') \<and> s ! 3 \<in> set ''123456789'')"

fun smb_components :: "string list \<Rightarrow> offsite_error option" where
  "smb_components [] = None"
| "smb_components (p # ps) =
     (if last p = CHR ''.'' \<or> \<not> list_all smb_char p then Some SmbCharacters
      else if device_name (stem p) then Some SmbDevice
      else smb_components ps)"

definition clean_smb_name :: "string \<Rightarrow> offsite_error + string" where
  "clean_smb_name name =
     bindE (clean_name name) (\<lambda>n. case smb_components (split_on (CHR ''/'') n) of Some e \<Rightarrow> Inl e | None \<Rightarrow> Inr n)"

section \<open>SMB endpoints\<close>

text \<open>\<open>net.SplitHostPort\<close> succeeds.\<close>

definition has_port :: "string \<Rightarrow> bool" where
  "has_port s \<longleftrightarrow> CHR '':'' \<in> set s \<and>
     (if hd s = CHR ''['' then
        (case cut_at (CHR '']'') s of
           None \<Rightarrow> False
         | Some (_, rest) \<Rightarrow> rest \<noteq> [] \<and> hd rest = CHR '':'' \<and> CHR '':'' \<notin> set (tl rest) \<and> CHR '']'' \<notin> set rest \<and> CHR ''['' \<notin> set (tl s))
      else length (filter (\<lambda>c. c = CHR '':'') s) = 1 \<and> CHR ''['' \<notin> set s \<and> CHR '']'' \<notin> set s)"

definition join_host_port :: "string \<Rightarrow> string \<Rightarrow> string" where
  "join_host_port host port = (if CHR '':'' \<in> set host then ''['' @ host @ '']:'' @ port else host @ '':'' @ port)"

definition parse_smb_endpoint :: "string \<Rightarrow> string \<Rightarrow> string \<Rightarrow> offsite_error + string \<times> string \<times> string" where
  "parse_smb_endpoint text share dir =
     (let addr = map (\<lambda>c. if c = CHR 0x5C then CHR ''/'' else c) text;
          addr = (if 6 \<le> length addr \<and> map ascii_lower (take 6 addr) = ''smb://'' then drop 6 addr else addr);
          addr = dropWhile (\<lambda>c. c = CHR ''/'') addr
      in if CHR ''@'' \<in> set addr then Inl SmbUserinfo
         else let (addr, share, dir) =
                (case cut_at (CHR ''/'') addr of
                   None \<Rightarrow> (addr, share, dir)
                 | Some (host, rest) \<Rightarrow>
                     let rest = trim_chars {CHR ''/''} rest;
                         (first, below) = (case cut_at (CHR ''/'') rest of None \<Rightarrow> (rest, []) | Some r \<Rightarrow> r)
                     in (host, if share = [] then first else share, if dir = [] then below else dir))
              in if addr = [] then Inl SmbHost
                 else let addr = (if has_port addr then addr else join_host_port (trim_chars {CHR ''['', CHR '']''} addr) ''445'')
                 in if share = [] \<or> CHR ''/'' \<in> set share \<or> CHR 0x5C \<in> set share \<or> CHR 0x00 \<in> set share \<or> share = ''.'' \<or> share = ''..''
                    then Inl SmbShare
                    else bindE (clean_prefix dir) (\<lambda>d. Inr (addr, share, d)))"

section \<open>Configuration\<close>

record Config =
  config_url :: string
  access_key :: string
  secret :: string
  host_key :: string
  s3_endpoint :: string
  s3_region :: string
  config_timeout :: int

text \<open>A parsed URL; of the user information the name and whether a password is set. \<open>url_host\<close> has the port.\<close>

record parsed_url =
  url_scheme :: string
  url_user :: "(string \<times> bool) option"
  url_host :: string
  url_hostname :: string
  url_port :: string
  url_path :: string
  url_query :: string
  url_fragment :: string

record S3 =
  bucket :: string
  s3_prefix :: string
  s3_zone :: string
  s3_access_key :: string
  s3_secret :: string
  s3_server :: "parsed_url option"

record Sftp =
  sftp_addr :: string
  sftp_user :: string
  sftp_secret :: string
  sftp_dir :: string
  sftp_host_key :: string

record Smb =
  smb_addr :: string
  smb_share :: string
  smb_user :: string
  smb_secret :: string
  smb_dir :: string

datatype target = LocalTarget string | S3Target S3 | SftpTarget Sftp | SmbTarget Smb

definition default_region :: string where
  "default_region = ''us-east-1''"

definition new_s3_target :: "(string \<Rightarrow> parsed_url option) \<Rightarrow> string \<Rightarrow> string \<Rightarrow> Config \<Rightarrow> offsite_error + target" where
  "new_s3_target parse_url bkt prefix c =
     (let region = (if s3_region c = [] then default_region else s3_region c);
          made = (\<lambda>server. S3Target \<lparr>bucket = bkt, s3_prefix = prefix, s3_zone = region, s3_access_key = access_key c, s3_secret = secret c, s3_server = server\<rparr>)
      in if s3_endpoint c = [] then Inr (made None)
         else case parse_url (s3_endpoint c) of
           None \<Rightarrow> Inl BadS3Endpoint
         | Some u \<Rightarrow>
             if (url_scheme u \<noteq> ''http'' \<and> url_scheme u \<noteq> ''https'') \<or> url_host u = [] \<or> url_user u \<noteq> None \<or> url_query u \<noteq> [] \<or> url_fragment u \<noteq> []
             then Inl BadS3Endpoint else Inr (made (Some u)))"

definition parse_target :: "(string \<Rightarrow> parsed_url option) \<Rightarrow> Config \<Rightarrow> offsite_error + target" where
  "parse_target parse_url c =
     (if config_timeout c < 0 then Inl NegativeTimeout
      else case parse_url (config_url c) of
        None \<Rightarrow> Inl InvalidURL
      | Some u \<Rightarrow>
          let scheme = map ascii_lower (url_scheme u)
          in if url_query u \<noteq> [] \<or> url_fragment u \<noteq> [] then Inl HasQuery
             else if (case url_user u of None \<Rightarrow> False | Some (_, password) \<Rightarrow> password) then Inl PasswordInURL
             else if scheme = ''file'' then
               (if url_host u \<noteq> [] \<or> \<not> is_abs (url_path u) then Inl BadFileURL
                else if url_user u \<noteq> None \<or> access_key c \<noteq> [] \<or> secret c \<noteq> [] \<or> host_key c \<noteq> [] then Inl FileCredentials
                else Inr (LocalTarget (url_path u)))
             else if scheme = ''s3'' then
               (if url_user u \<noteq> None \<or> url_host u = [] then Inl BadS3URL
                else if access_key c = [] \<or> secret c = [] then Inl S3Credentials
                else bindE (clean_prefix (url_path u)) (\<lambda>prefix. new_s3_target parse_url (url_host u) prefix c))
             else if scheme = ''sftp'' then
               (if url_hostname u = [] then Inl NoSftpHost
                else if (case url_user u of None \<Rightarrow> False | Some (name, _) \<Rightarrow> access_key c \<noteq> [] \<and> access_key c \<noteq> name) then Inl SftpUsersDisagree
                else let user = (case url_user u of None \<Rightarrow> access_key c | Some (name, _) \<Rightarrow> name)
                in if user = [] \<or> secret c = [] then Inl SftpCredentials
                   else bindE (clean_prefix (url_path u)) (\<lambda>dir.
                     Inr (SftpTarget \<lparr>sftp_addr = (if url_port u = [] then join_host_port (url_hostname u) ''22'' else url_host u),
                                      sftp_user = user, sftp_secret = secret c, sftp_dir = dir, sftp_host_key = host_key c\<rparr>)))
             else if scheme = ''smb'' then
               (if url_user u \<noteq> None then Inl SmbUserinfo
                else bindE (parse_smb_endpoint (url_host u @ url_path u) [] []) (\<lambda>(addr, share, dir).
                  if addr = [] \<or> share = [] \<or> access_key c = [] \<or> secret c = [] then Inl SmbIncomplete
                  else Inr (SmbTarget \<lparr>smb_addr = addr, smb_share = share, smb_user = access_key c, smb_secret = secret c, smb_dir = dir\<rparr>)))
             else Inl (UnsupportedScheme (url_scheme u)))"

text \<open>The identity of a target, without credentials; \<open>emit_url\<close> is \<open>URL.String\<close> and \<open>lo\<close> Unicode's lower-case table.\<close>

definition without_credentials :: "(nat \<Rightarrow> nat) \<Rightarrow> parsed_url \<Rightarrow> parsed_url" where
  "without_credentials lo u = u\<lparr>url_user := None, url_query := [], url_fragment := [], url_scheme := map ascii_lower (url_scheme u),
     url_host := to_lower lo (url_host u)\<rparr>"

definition target_key :: "(nat \<Rightarrow> nat) \<Rightarrow> (string \<Rightarrow> parsed_url option) \<Rightarrow> (parsed_url \<Rightarrow> string) \<Rightarrow> Config \<Rightarrow> string" where
  "target_key lo parse_url emit_url c =
     (case parse_url (config_url c) of
        None \<Rightarrow> []
      | Some u \<Rightarrow>
          if url_scheme u = [] then []
          else let base = emit_url (without_credentials lo u)
          in if map ascii_lower (url_scheme u) \<noteq> ''s3'' then base
             else case parse_url (s3_endpoint c) of
               None \<Rightarrow> []
             | Some e \<Rightarrow> base @ ''|'' @ emit_url (without_credentials lo e) @ ''|'' @ (if s3_region c = [] then default_region else s3_region c))"

end
