(* ===== verification/OffsiteNames.thy ===== *)
theory OffsiteNames
  imports Offsite
begin

text \<open>
  What the grammar of object names promises: an accepted name stays below its directory, staging names are never
  object names, and two names accepted for SMB are never the same file to Windows.
\<close>

section \<open>Lemmas\<close>

lemma clean_nameD:
  assumes "clean_name name = Inr n"
  shows "n = name" "list_all safe_component (split_on (CHR ''/'') n)" "CHR 0x00 \<notin> set n" "CHR 0x5C \<notin> set n" "\<not> is_abs n" "n \<noteq> []"
  using assms by (auto simp: clean_name_def is_abs_def has_prefix_def neq_Nil_conv split: if_splits)

lemma component_plain: "safe_component p \<Longrightarrow> CHR ''/'' \<notin> set p \<Longrightarrow> plain p"
  by (simp add: safe_component_def plain_def)

abbreviation parts :: "string \<Rightarrow> string list" where
  "parts n \<equiv> split_on (CHR ''/'') n"

lemma clean_name_plain: "clean_name name = Inr n \<Longrightarrow> list_all plain (parts n)"
  using clean_nameD(2) [of name n] split_on_sep [of _ "CHR ''/''" n] by (auto simp: list_all_iff intro: component_plain)

lemma join_parts_clean: "list_all plain ps \<Longrightarrow> ps \<noteq> [] \<Longrightarrow> clean (join_with (CHR ''/'') ps) = join_with (CHR ''/'') ps"
  using clean_plain by blast

lemma join_with_append: "ps \<noteq> [] \<Longrightarrow> qs \<noteq> [] \<Longrightarrow> join_with c (ps @ qs) = join_with c ps @ c # join_with c qs"
  by (induction c ps rule: join_with.induct) (auto simp: neq_Nil_conv)

text \<open>Where an object lives below a directory.\<close>

definition below :: "string \<Rightarrow> string \<Rightarrow> string" where
  "below d n = (if d = [] then n else d @ ''/'' @ n)"

lemma parts_append: "parts (a @ CHR ''/'' # b) = parts a @ parts b"
  by (induction a) (auto simp: neq_Nil_conv)

lemma parts_below: "parts (below d n) = (if d = [] then [] else parts d) @ parts n"
  using parts_append [of d n] by (simp add: below_def)

lemma below_inj: "below d m = below d n \<longleftrightarrow> m = n"
  by (simp add: below_def)

text \<open>A prefix of a target is empty or an accepted name.\<close>

definition good_prefix :: "string \<Rightarrow> bool" where
  "good_prefix d \<longleftrightarrow> d = [] \<or> clean_name d = Inr d"

lemma clean_prefix_good: "clean_prefix p = Inr d \<Longrightarrow> good_prefix d"
  using clean_nameD(1) by (auto simp: clean_prefix_def good_prefix_def Let_def split: if_splits)

lemma below_plain: "good_prefix d \<Longrightarrow> clean_name n = Inr n \<Longrightarrow> list_all plain (parts (below d n))"
  using clean_name_plain [of d d] clean_name_plain [of n n] by (auto simp: good_prefix_def parts_below)

lemma path_join_below:
  assumes "good_prefix d" "clean_name n = Inr n"
  shows "path_join d n = below d n"
proof -
  have n: "n \<noteq> []" using clean_nameD(6) [OF assms(2)] .
  have "path_join d n = clean (below d n)" using n by (simp add: path_joins_def below_def)
  also have "\<dots> = below d n"
    using join_parts_clean [OF below_plain [OF assms]] by simp
  finally show ?thesis .
qed

lemma list_all_butlast: "list_all P xs \<Longrightarrow> list_all P (butlast xs)"
  by (induction xs) auto

lemma before_slash:
  "rev (dropWhile (\<lambda>c. c \<noteq> CHR ''/'') (rev (join_with (CHR ''/'') (ps @ [q])))) = (if ps = [] then [] else join_with (CHR ''/'') ps @ ''/'')"
  if "CHR ''/'' \<notin> set q"
proof (cases "ps = []")
  case False
  then have "join_with (CHR ''/'') (ps @ [q]) = join_with (CHR ''/'') ps @ CHR ''/'' # q" using join_with_append [of ps "[q]"] by simp
  then show ?thesis using that False by (simp add: dropWhile_append)
next
  case True
  have "\<forall>x \<in> set (rev q). x \<noteq> CHR ''/''" using that by auto
  then show ?thesis using True by (simp add: dropWhile_eq_Nil_conv)
qed

text \<open>The staging file is beside the final one.\<close>

lemma staging_parts:
  assumes "list_all plain (parts p)"
  shows "parts (staging_name random p) = butlast (parts p) @ [staging_prefix @ hex_encode random]"
proof -
  let ?t = "staging_prefix @ hex_encode random"
  obtain ps q where pq: "parts p = ps @ [q]" by (metis append_butlast_last_id split_on_not_Nil)
  have p: "p = join_with (CHR ''/'') (ps @ [q])" using join_split [of "CHR ''/''" p] pq by simp
  have plain: "list_all plain ps" "CHR ''/'' \<notin> set q" using assms pq by (simp_all add: plain_def)
  have hex: "CHR ''/'' \<notin> set (hex_encode random)"
  proof -
    have "list_all is_lower_hex (hex_encode random)" by (induction random) simp_all
    then show ?thesis by (auto simp: list_all_iff is_lower_hex_def Let_def)
  qed
  have t: "plain ?t" using hex by (simp add: plain_def staging_prefix_def)
  show ?thesis
  proof (cases "ps = []")
    case True
    then have "path_dir p = ''.''"
    proof -
      have "rev (dropWhile (\<lambda>c. c \<noteq> CHR ''/'') (rev p)) = []" using before_slash [OF plain(2), of "[]"] p True by (simp only: append_Nil) simp
      then show ?thesis by (simp only: path_dir_def) (simp add: clean_def clean_parts_def is_abs_def)
    qed
    moreover have "clean (''./'' @ ?t) = ?t"
    proof -
      have "clean_parts (''./'' @ ?t) = foldl (clean_step False) [] ([''.''] @ [?t])"
        using parts_append [of "''.''" ?t] t by (simp add: clean_parts_def is_abs_def split_on_none plain_def del: clean_step.simps)
      also have "\<dots> = [?t]" using t by (simp add: plain_def)
      finally show ?thesis using t by (simp add: clean_def is_abs_def Let_def plain_def)
    qed
    moreover have "?t \<noteq> []" using t by (simp add: plain_def)
    ultimately have "staging_name random p = ?t" by (simp add: staging_name_def path_joins_def)
    then show ?thesis using t True pq by (simp add: split_on_none plain_def)
  next
    case False
    have ne: "hd ps \<noteq> []" "CHR ''/'' \<notin> set (hd ps)" using False plain(1) by (cases ps; auto simp: plain_def)+
    have abs: "\<not> is_abs (join_with (CHR ''/'') ps @ s)" for s
      using join_hd [OF False ne(1), of "CHR ''/''"] ne by (auto simp: is_abs_def) (metis list.set_sel(1))
    have "clean (join_with (CHR ''/'') ps @ ''/'') = join_with (CHR ''/'') ps"
    proof -
      have "clean_parts (join_with (CHR ''/'') ps @ ''/'') = foldl (clean_step False) [] (ps @ [[]])"
        using parts_append [of "join_with (CHR ''/'') ps" "[]"] split_join [OF False, of "CHR ''/''"] plain(1) abs [of "''/''"]
        by (simp add: clean_parts_def list_all_iff plain_def del: clean_step.simps)
      also have "\<dots> = ps" using fold_plain [OF plain(1), of False "[]"] by simp
      finally have "clean_parts (join_with (CHR ''/'') ps @ ''/'') = ps" .
      then show ?thesis using abs [of "''/''"] join_hd [OF False ne(1), of "CHR ''/''"] by (simp add: clean_def Let_def)
    qed
    then have d: "path_dir p = join_with (CHR ''/'') ps" using before_slash [OF plain(2), of ps] p False by (simp add: path_dir_def)
    have "clean (join_with (CHR ''/'') (ps @ [?t])) = join_with (CHR ''/'') (ps @ [?t])"
      using plain(1) t by (intro join_parts_clean) auto
    moreover have "join_with (CHR ''/'') ps \<noteq> []" "?t \<noteq> []" using join_hd [OF False ne(1)] t by (auto simp: plain_def)
    ultimately have "staging_name random p = join_with (CHR ''/'') (ps @ [?t])"
      using join_with_append [OF False, of "[?t]" "CHR ''/''"] by (simp add: staging_name_def d path_joins_def)
    then show ?thesis using split_join [of "ps @ [?t]" "CHR ''/''"] plain(1) t pq by (simp add: list_all_iff plain_def)
  qed
qed

lemma staging_no_object:
  assumes "good_prefix d" "clean_name n = Inr n" "clean_name m = Inr m"
  shows "staging_name random (below d n) \<noteq> below d m"
proof
  assume e: "staging_name random (below d n) = below d m"
  have "last (parts (staging_name random (below d n))) = staging_prefix @ hex_encode random"
    using staging_parts [OF below_plain [OF assms(1,2)], of random] by simp
  moreover have "last (parts (below d m)) \<in> set (parts m)" by (simp add: parts_below)
  ultimately have "staging_prefix @ hex_encode random \<in> set (parts m)" unfolding e by simp
  then have "safe_component (staging_prefix @ hex_encode random)" using clean_nameD(2) [OF assms(3)] by (simp add: list_all_iff)
  then show False by (simp add: safe_component_def)
qed

section \<open>Lemmas: SMB\<close>

text \<open>
  The name Windows makes of a component: cut at a colon, where an alternate stream begins, without trailing
  dots and spaces, in one case.
\<close>

definition windows_component :: "string \<Rightarrow> string" where
  "windows_component p = map ascii_lower (rev (dropWhile (\<lambda>c. c = CHR ''.'' \<or> c = CHR '' '') (rev (takeWhile (\<lambda>c. c \<noteq> CHR '':'') p))))"

definition windows_name :: "string \<Rightarrow> string list" where
  "windows_name n = map windows_component (parts n)"

lemma smb_componentsD: "smb_components ps = None \<Longrightarrow> p \<in> set ps \<Longrightarrow> last p \<noteq> CHR ''.'' \<and> list_all smb_char p \<and> \<not> device_name (stem p)"
  by (induction ps rule: smb_components.induct) (auto split: if_splits)

lemma smb_char_plain: "smb_char c \<Longrightarrow> ascii_lower c = c \<and> c \<noteq> CHR '':'' \<and> c \<noteq> CHR '' '' \<and> c \<noteq> CHR ''~''"
  by (auto simp: smb_char_def ascii_lower_def Let_def)

lemma windows_fixed:
  assumes "list_all smb_char p" "p \<noteq> []" "last p \<noteq> CHR ''.''"
  shows "windows_component p = p"
proof -
  have c: "ascii_lower c = c \<and> c \<noteq> CHR '':'' \<and> c \<noteq> CHR '' ''" if "c \<in> set p" for c
    using that assms(1) smb_char_plain by (auto simp: list_all_iff)
  then have "takeWhile (\<lambda>c. c \<noteq> CHR '':'') p = p" by (auto simp: takeWhile_eq_all_conv)
  moreover have "dropWhile (\<lambda>c. c = CHR ''.'' \<or> c = CHR '' '') (rev p) = rev p"
    using assms(2,3) c [of "last p"] by (cases p rule: rev_cases) auto
  moreover have "map ascii_lower p = p" using c by (simp add: map_idI)
  ultimately show ?thesis by (simp only: windows_component_def rev_rev_ident)
qed

section \<open>Properties\<close>

text \<open>
  C30: Two names that are accepted for an SMB server are the same file to Windows only when they are the same
  name, no component of them names a device or holds the tilde of a short name.
\<close>

theorem smb_names_cannot_alias:
  assumes "clean_smb_name m = Inr m'" "clean_smb_name n = Inr n'" "windows_name m' = windows_name n'"
  shows "m = n \<and> list_all (\<lambda>p. \<not> device_name (stem p) \<and> CHR ''~'' \<notin> set p) (parts m)"
proof -
  have fixed: "x' = x \<and> windows_name x = parts x \<and> list_all (\<lambda>p. \<not> device_name (stem p) \<and> CHR ''~'' \<notin> set p) (parts x)"
    if x: "clean_smb_name x = Inr x'" for x x'
  proof -
    have cn: "clean_name x = Inr x'" and sc: "smb_components (parts x') = None"
      using x by (auto simp: clean_smb_name_def result_simps split: option.splits)
    have e: "x' = x" using clean_nameD(1) [OF cn] .
    have ne: "\<forall>p \<in> set (parts x). p \<noteq> []" using clean_nameD(2) [OF cn] e by (auto simp: list_all_iff safe_component_def)
    have p: "last p \<noteq> CHR ''.'' \<and> list_all smb_char p \<and> \<not> device_name (stem p)" if "p \<in> set (parts x)" for p
      using smb_componentsD [OF sc] that e by blast
    then have "windows_name x = parts x" using ne windows_fixed by (simp add: windows_name_def map_idI)
    moreover have "CHR ''~'' \<notin> set p" if "p \<in> set (parts x)" for p
      using p [OF that] smb_char_plain by (auto simp: list_all_iff)
    ultimately show ?thesis using e p by (simp add: list_all_iff)
  qed
  have "parts m = parts n" using fixed [OF assms(1)] fixed [OF assms(2)] assms(3) by simp
  then have "m = n" using split_on_inj by metis
  with fixed [OF assms(1)] show ?thesis by simp
qed

lemma smb_names_cannot_alias_witness:
  "clean_smb_name ''a/b.kycap'' = Inr ''a/b.kycap'' \<and> list_all (\<lambda>p. \<not> device_name (stem p) \<and> CHR ''~'' \<notin> set p) (parts ''a/b.kycap'')"
proof -
  have n: "clean_smb_name ''a/b.kycap'' = Inr ''a/b.kycap''"
    by (simp add: clean_smb_name_def clean_name_def safe_component_def has_prefix_def staging_prefix_def smb_char_def device_name_def stem_def cut_at_def Let_def)
  then show ?thesis using smb_names_cannot_alias [OF n n refl] by blast
qed

end
