(* ===== verification/OffsiteStore.thy ===== *)
theory OffsiteStore
  imports OffsiteNames
begin

text \<open>
  The three targets that are file systems: \<open>local.go\<close>, \<open>sftp.go\<close> and \<open>smb.go\<close>. A target is a map from paths to
  contents; directories are there when they could be made. A \<open>Put\<close> gives its error and every state the
  store passes through, since a reader or a crash may see any of them. What the SSH, SFTP and SMB
  libraries and the system do is which call fails, \<open>failing\<close>; deadlines are not modelled.
\<close>

section \<open>Calls\<close>

type_synonym store = "string \<rightharpoonup> bytes"

datatype call =
    CheckContext | Connect | MakeDir | OpenRoot | MakeParent | ReadRandom | StatFinal | OpenTemp | CopyData | SyncTemp | CloseTemp
  | RenameTemp | RemoveTemp | OpenFinal | WriteProbe | CloseProbe | RemoveProbe

datatype put_error = BadName offsite_error | CallFailed call | ObjectExists

text \<open>
  What one operation meets: the calls that fail, the random bytes, and for SMB an object another client puts
  in place between the look and the rename.
\<close>

record Env =
  failing :: "call \<Rightarrow> bool"
  random :: bytes
  intruder :: "bytes option"

text \<open>What a reader gives, and whether it ends in an error.\<close>

record source =
  src_data :: bytes
  src_broken :: bool

definition first_failing :: "Env \<Rightarrow> call list \<Rightarrow> call option" where
  "first_failing E cs = (case filter (failing E) cs of [] \<Rightarrow> None | c # _ \<Rightarrow> Some c)"

text \<open>The states while the temporary file is written, and its removal.\<close>

definition writing :: "string \<Rightarrow> bytes \<Rightarrow> store \<Rightarrow> store list" where
  "writing tmp data s = map (\<lambda>k. s(tmp \<mapsto> take k data)) [0..<Suc (length data)]"

definition removed :: "Env \<Rightarrow> string \<Rightarrow> store \<Rightarrow> store" where
  "removed E tmp s = (if failing E RemoveTemp then s else s(tmp := None))"

text \<open>
  From the temporary file on: it is made new, written, closed and renamed over \<open>final\<close>; when a step fails it
  is removed. \<open>steps\<close> are the calls between the copy and the rename.
\<close>

definition stage :: "Env \<Rightarrow> call list \<Rightarrow> string \<Rightarrow> string \<Rightarrow> source \<Rightarrow> store \<Rightarrow> put_error option \<times> store list" where
  "stage E steps tmp final src s =
     (if failing E OpenTemp \<or> s tmp \<noteq> None then (Some (CallFailed OpenTemp), [s])
      else let w = s # writing tmp (src_data src) s; s2 = s(tmp \<mapsto> src_data src)
      in if src_broken src then (Some (CallFailed CopyData), w @ [removed E tmp s2])
         else case first_failing E (CopyData # steps @ [RenameTemp]) of
           Some c \<Rightarrow> (Some (CallFailed c), w @ [removed E tmp s2])
         | None \<Rightarrow> (None, w @ [s2(tmp := None, final \<mapsto> src_data src)]))"

section \<open>A local directory\<close>

definition local_put :: "Env \<Rightarrow> string \<Rightarrow> source \<Rightarrow> store \<Rightarrow> put_error option \<times> store list" where
  "local_put E name src s =
     (case clean_name name of
        Inl e \<Rightarrow> (Some (BadName e), [s])
      | Inr n \<Rightarrow>
          (case first_failing E ([CheckContext, MakeDir, OpenRoot] @ (if path_dir n = ''.'' then [] else [MakeParent]) @ [ReadRandom]) of
             Some c \<Rightarrow> (Some (CallFailed c), [s])
           | None \<Rightarrow> stage E [SyncTemp, CloseTemp] (staging_name (random E) n) n src s))"

text \<open>A \<open>Get\<close> gives the contents, or the error; an object that is not there is \<open>Inr None\<close>, \<open>os.ErrNotExist\<close>.\<close>

definition local_get :: "Env \<Rightarrow> string \<Rightarrow> store \<Rightarrow> put_error + bytes option" where
  "local_get E name s =
     (case clean_name name of
        Inl e \<Rightarrow> Inl (BadName e)
      | Inr n \<Rightarrow> (case first_failing E [CheckContext, OpenRoot, OpenFinal] of Some c \<Rightarrow> Inl (CallFailed c) | None \<Rightarrow> Inr (s n)))"

definition ping_data :: bytes where
  "ping_data = bytes_of ''ping''"

definition local_test :: "Env \<Rightarrow> store \<Rightarrow> put_error option \<times> store list" where
  "local_test E s =
     (case local_put E ping_name \<lparr>src_data = ping_data, src_broken = False\<rparr> s of
        (Some e, tr) \<Rightarrow> (Some e, tr)
      | (None, tr) \<Rightarrow>
          if failing E OpenRoot then (Some (CallFailed OpenRoot), tr)
          else if failing E RemoveProbe then (Some (CallFailed RemoveProbe), tr)
          else (None, tr @ [(last tr)(ping_name := None)]))"

section \<open>SFTP\<close>

text \<open>
  The callback that decides whether the server is the pinned one, before any credential is offered;
  \<open>fingerprint\<close> is what the server presents.
\<close>

datatype host_verdict = HostAccepted | UnknownHostKey string | HostKeyMismatch

definition check_host_key :: "Sftp \<Rightarrow> string \<Rightarrow> host_verdict" where
  "check_host_key t fingerprint =
     (if sftp_host_key t = [] then UnknownHostKey fingerprint
      else if fingerprint \<noteq> sftp_host_key t then HostKeyMismatch
      else HostAccepted)"

text \<open>How the client authenticates: a secret that is PEM is a key or nothing, never a password.\<close>

datatype auth_method = PublicKeyAuth string | PasswordAuth string

definition sftp_auth :: "(string \<Rightarrow> bool) \<Rightarrow> (string \<Rightarrow> bool) \<Rightarrow> Sftp \<Rightarrow> auth_method option" where
  "sftp_auth is_pem parses t =
     (if is_pem (sftp_secret t) then (if parses (sftp_secret t) then Some (PublicKeyAuth (sftp_secret t)) else None)
      else Some (PasswordAuth (sftp_secret t)))"

definition sftp_dial :: "(string \<Rightarrow> bool) \<Rightarrow> (string \<Rightarrow> bool) \<Rightarrow> Env \<Rightarrow> Sftp \<Rightarrow> string \<Rightarrow> (host_verdict option, auth_method) sum" where
  "sftp_dial is_pem parses E t fingerprint =
     (case sftp_auth is_pem parses t of
        None \<Rightarrow> Inl None
      | Some a \<Rightarrow>
          if failing E Connect then Inl None
          else case check_host_key t fingerprint of HostAccepted \<Rightarrow> Inr a | v \<Rightarrow> Inl (Some v))"

definition sftp_put :: "string \<Rightarrow> Env \<Rightarrow> string \<Rightarrow> source \<Rightarrow> store \<Rightarrow> put_error option \<times> store list" where
  "sftp_put dir E name src s =
     (case clean_name name of
        Inl e \<Rightarrow> (Some (BadName e), [s])
      | Inr n \<Rightarrow>
          (case first_failing E ([Connect] @ (if dir = [] then [] else [MakeDir]) @ [ReadRandom, MakeParent]) of
             Some c \<Rightarrow> (Some (CallFailed c), [s])
           | None \<Rightarrow> let final = path_join dir n in stage E [CloseTemp] (staging_name (random E) final) final src s))"

definition sftp_get :: "string \<Rightarrow> Env \<Rightarrow> string \<Rightarrow> store \<Rightarrow> put_error + bytes option" where
  "sftp_get dir E name s =
     (case clean_name name of
        Inl e \<Rightarrow> Inl (BadName e)
      | Inr n \<Rightarrow> (case first_failing E [Connect, OpenFinal] of Some c \<Rightarrow> Inl (CallFailed c) | None \<Rightarrow> Inr (s (path_join dir n))))"

text \<open>The probe is written in place, also over an object of its name; a failure removes what it left.\<close>

definition sftp_test :: "string \<Rightarrow> Env \<Rightarrow> store \<Rightarrow> put_error option \<times> store list" where
  "sftp_test dir E s =
     (case first_failing E ([Connect] @ (if dir = [] then [] else [MakeDir]) @ [OpenFinal]) of
        Some c \<Rightarrow> (Some (CallFailed c), [s])
      | None \<Rightarrow>
          let probe = path_join dir ping_name; s1 = s(probe \<mapsto> []); s2 = s(probe \<mapsto> ping_data);
              gone = (\<lambda>s. if failing E RemoveProbe then s else s(probe := None))
          in if failing E WriteProbe then (Some (CallFailed WriteProbe), [s, s1, gone s1])
             else if failing E CloseProbe then (Some (CallFailed CloseProbe), [s, s1, s2, gone s2])
             else if failing E RemoveProbe then (Some (CallFailed RemoveProbe), [s, s1, s2])
             else (None, [s, s1, s2, gone s2]))"

section \<open>SMB\<close>

text \<open>The user and domain of the NTLM session: the access key cut at a backslash.\<close>

definition smb_identity :: "Smb \<Rightarrow> string \<times> string" where
  "smb_identity t =
     (case cut_at (CHR 0x5C) (smb_user t) of
        None \<Rightarrow> ([], smb_user t)
      | Some (domain, user) \<Rightarrow> if user = [] then ([], domain) else (domain, user))"

text \<open>Dialling, negotiating and mounting the share; messages must be signed. What is sent is the identity.\<close>

definition smb_mount :: "Env \<Rightarrow> Smb \<Rightarrow> call + string \<times> string \<times> string" where
  "smb_mount E t = (if failing E Connect then Inl Connect else Inr (fst (smb_identity t), snd (smb_identity t), smb_share t))"

text \<open>A rename does not replace: what is in place at that moment stays, and the temporary file goes.\<close>

definition smb_put :: "string \<Rightarrow> Env \<Rightarrow> string \<Rightarrow> source \<Rightarrow> store \<Rightarrow> put_error option \<times> store list" where
  "smb_put dir E name src s =
     (case clean_smb_name name of
        Inl e \<Rightarrow> (Some (BadName e), [s])
      | Inr n \<Rightarrow>
          let final = path_join dir n
          in case first_failing E ([Connect] @ (if path_dir final = ''.'' then [] else [MakeParent]) @ [StatFinal]) of
            Some c \<Rightarrow> (Some (CallFailed c), [s])
          | None \<Rightarrow>
              if s final \<noteq> None then (Some ObjectExists, [s])
              else if failing E ReadRandom then (Some (CallFailed ReadRandom), [s])
              else let tmp = staging_name (random E) final
              in case intruder E of
                None \<Rightarrow> stage E [CloseTemp] tmp final src s
              | Some b \<Rightarrow>
                  let E' = E\<lparr>failing := (\<lambda>c. failing E c \<or> c = RenameTemp)\<rparr>
                  in case stage E' [CloseTemp] tmp final src (s(final \<mapsto> b)) of
                    (e, tr) \<Rightarrow> (if e = Some (CallFailed RenameTemp) then Some ObjectExists else e, s # tr))"

definition smb_get :: "string \<Rightarrow> Env \<Rightarrow> string \<Rightarrow> store \<Rightarrow> put_error + bytes option" where
  "smb_get dir E name s =
     (case clean_smb_name name of
        Inl e \<Rightarrow> Inl (BadName e)
      | Inr n \<Rightarrow> (case first_failing E [Connect, OpenFinal] of Some c \<Rightarrow> Inl (CallFailed c) | None \<Rightarrow> Inr (s (path_join dir n))))"

definition smb_test :: "string \<Rightarrow> Env \<Rightarrow> store \<Rightarrow> put_error option \<times> store list" where
  "smb_test dir E s =
     (case first_failing E ([Connect] @ (if dir = [] then [] else [MakeDir]) @ [OpenFinal]) of
        Some c \<Rightarrow> (Some (CallFailed c), [s])
      | None \<Rightarrow>
          let probe = path_join dir ping_name; s1 = s(probe \<mapsto> ping_data)
          in if failing E WriteProbe then (Some (CallFailed WriteProbe), [s, s(probe \<mapsto> [])])
             else if failing E RemoveProbe then (Some (CallFailed RemoveProbe), [s, s1]) else (None, [s, s1, s1(probe := None)]))"

section \<open>The contract of a target\<close>

text \<open>
  What every target promises its callers, with the path an object lives at: a \<open>Put\<close> that succeeds leaves the
  data, one that fails leaves what was there, and in between there is nothing else to see; no other object
  is touched. \<open>ours\<close> says that nobody else writes during the call.
\<close>

locale object_store =
  fixes put :: "Env \<Rightarrow> string \<Rightarrow> source \<Rightarrow> store \<Rightarrow> put_error option \<times> store list"
    and get :: "Env \<Rightarrow> string \<Rightarrow> store \<Rightarrow> put_error + bytes option"
    and place :: "string \<Rightarrow> string" and admitted :: "string \<Rightarrow> bool"
  assumes put_done: "put E n src s = (None, tr) \<Longrightarrow> admitted n \<and> tr \<noteq> [] \<and> last tr (place n) = Some (src_data src) \<and> \<not> src_broken src"
    and put_failed: "put E n src s = (Some x, tr) \<Longrightarrow> intruder E = None \<Longrightarrow> admitted n \<Longrightarrow> tr \<noteq> [] \<and> last tr (place n) = s (place n)"
    and put_atomic: "put E n src s = (e, tr) \<Longrightarrow> intruder E = None \<Longrightarrow> admitted n \<Longrightarrow> t \<in> set tr \<Longrightarrow> t (place n) = s (place n) \<or> t (place n) = Some (src_data src)"
    and put_refused: "put E n src s = (e, tr) \<Longrightarrow> \<not> admitted n \<Longrightarrow> tr = [s]"
    and put_others: "put E n src s = (e, tr) \<Longrightarrow> admitted m \<Longrightarrow> m \<noteq> n \<Longrightarrow> t \<in> set tr \<Longrightarrow> t (place m) = s (place m)"
    and get_reads: "admitted n \<Longrightarrow> get E n s = Inr v \<Longrightarrow> v = s (place n)"

text \<open>A history of puts, each from where the one before left the store.\<close>

fun puts :: "(Env \<Rightarrow> string \<Rightarrow> source \<Rightarrow> store \<Rightarrow> put_error option \<times> store list) \<Rightarrow> (Env \<times> string \<times> source) list \<Rightarrow> store \<Rightarrow> store" where
  "puts put [] s = s"
| "puts put ((E, n, src) # ops) s = puts put ops (last (snd (put E n src s)))"

text \<open>What the puts of a name that succeeded leave, in order.\<close>

fun delivered :: "(Env \<Rightarrow> string \<Rightarrow> source \<Rightarrow> store \<Rightarrow> put_error option \<times> store list) \<Rightarrow> string \<Rightarrow> (Env \<times> string \<times> source) list \<Rightarrow> store \<Rightarrow> bytes list" where
  "delivered put m [] s = []"
| "delivered put m ((E, n, src) # ops) s =
     (let (e, tr) = put E n src s
      in (if n = m \<and> e = None then [src_data src] else []) @ delivered put m ops (last tr))"

context object_store
begin

text \<open>After any history, an object is what the last successful put of its name brought.\<close>

lemma history:
  assumes "\<forall>(E, n, src) \<in> set ops. intruder E = None" "admitted m"
  shows "puts put ops s (place m) = (case rev (delivered put m ops s) of [] \<Rightarrow> s (place m) | b # _ \<Rightarrow> Some b)"
  using assms(1)
proof (induction ops arbitrary: s)
  case (Cons op ops)
  obtain E n src where op: "op = (E, n, src)" by (cases op)
  obtain e tr where p: "put E n src s = (e, tr)" by force
  have i: "intruder E = None" using Cons.prems op by auto
  have tr: "tr \<noteq> []"
    using put_done [of E n src s tr] put_failed [OF _ i, of n src s _ tr] put_refused [OF p] p by (cases e; cases "admitted n") auto
  have here: "last tr (place m) = (if n = m \<and> e = None then Some (src_data src) else s (place m))"
  proof (cases "n = m")
    case True
    then show ?thesis
      using put_done [of E n src s tr] put_failed [OF _ i, of n src s _ tr] p assms(2) by (cases e) auto
  next
    case False
    have "last tr \<in> set tr" using tr by simp
    then show ?thesis using put_others [OF p assms(2)] False by auto
  qed
  have "\<forall>(E, n, src) \<in> set ops. intruder E = None" using Cons.prems by auto
  note IH = Cons.IH [OF this, of "last tr"]
  show ?case
    using IH here p by (auto simp: op split: list.splits)
qed simp

end

section \<open>The targets keep it\<close>

lemma first_failing_None: "first_failing E cs = None \<longleftrightarrow> (\<forall>c \<in> set cs. \<not> failing E c)"
proof (cases "filter (failing E) cs")
  case (Cons c ds)
  then have "c \<in> set (filter (failing E) cs)" by simp
  then have "c \<in> set cs \<and> failing E c" by simp
  with Cons show ?thesis by (auto simp: first_failing_def)
qed (simp add: first_failing_def filter_empty_conv)

text \<open>Staging touches its two files only, and the final one only at once.\<close>

lemma stage_states:
  assumes "stage E steps tmp final src s = (e, tr)" "tmp \<noteq> final"
  shows "tr \<noteq> [] \<and> (\<forall>t \<in> set tr. (t final = s final \<or> t final = Some (src_data src)) \<and> (\<forall>q. q \<noteq> tmp \<longrightarrow> q \<noteq> final \<longrightarrow> t q = s q))
    \<and> (case e of None \<Rightarrow> last tr final = Some (src_data src) \<and> \<not> src_broken src | Some _ \<Rightarrow> last tr final = s final)"
  using assms
  by (auto simp: stage_def writing_def removed_def Let_def split: if_splits option.splits)

lemma stage_failed:
  assumes "stage E steps tmp final src s = (e, tr)" "tmp \<noteq> final" "failing E RenameTemp"
  shows "e \<noteq> None \<and> (\<forall>t \<in> set tr. t final = s final)"
proof -
  have "first_failing E (CopyData # steps @ [RenameTemp]) \<noteq> None" using assms(3) by (auto simp: first_failing_None)
  then show ?thesis using assms(1,2)
    by (auto simp: stage_def writing_def removed_def Let_def split: if_splits option.splits)
qed

text \<open>What the three targets share: they refuse, or they fail before anything is touched, or they stage.\<close>

definition staged :: "(string \<Rightarrow> offsite_error + string) \<Rightarrow> string \<Rightarrow> (Env \<Rightarrow> string \<Rightarrow> source \<Rightarrow> store \<Rightarrow> put_error option \<times> store list) \<Rightarrow> bool" where
  "staged names d put \<longleftrightarrow> (\<forall>E n src s e tr. put E n src s = (e, tr) \<longrightarrow>
     (tr = [s] \<and> e \<noteq> None)
     \<or> (\<exists>k. names n = Inr k \<and> clean_name k = Inr k \<and>
          ((\<exists>steps. stage E steps (staging_name (random E) (below d k)) (below d k) src s = (e, tr))
           \<or> (intruder E \<noteq> None \<and> e \<noteq> None \<and> (\<forall>t \<in> set tr. \<forall>m. clean_name m = Inr m \<longrightarrow> m \<noteq> k \<longrightarrow> t (below d m) = s (below d m))))))"

lemma staged_cases:
  assumes "staged names d put" "put E n src s = (e, tr)" "good_prefix d" "\<And>x y. names x = Inr y \<Longrightarrow> y = x"
  shows "(tr = [s] \<and> e \<noteq> None)
    \<or> (names n = Inr n \<and> clean_name n = Inr n \<and>
       (tr \<noteq> [] \<and> (\<forall>t \<in> set tr. (t (below d n) = s (below d n) \<or> t (below d n) = Some (src_data src))
                       \<and> (\<forall>m. clean_name m = Inr m \<longrightarrow> m \<noteq> n \<longrightarrow> t (below d m) = s (below d m)))
          \<and> (case e of None \<Rightarrow> last tr (below d n) = Some (src_data src) \<and> \<not> src_broken src | Some _ \<Rightarrow> last tr (below d n) = s (below d n))
        \<or> (intruder E \<noteq> None \<and> e \<noteq> None \<and> (\<forall>t \<in> set tr. \<forall>m. clean_name m = Inr m \<longrightarrow> m \<noteq> n \<longrightarrow> t (below d m) = s (below d m)))))"
proof -
  consider "tr = [s] \<and> e \<noteq> None"
    | k steps where "names n = Inr k" "clean_name k = Inr k" "stage E steps (staging_name (random E) (below d k)) (below d k) src s = (e, tr)"
    | k where "names n = Inr k" "clean_name k = Inr k" "intruder E \<noteq> None" "e \<noteq> None"
        "\<forall>t \<in> set tr. \<forall>m. clean_name m = Inr m \<longrightarrow> m \<noteq> k \<longrightarrow> t (below d m) = s (below d m)"
    using assms(1,2) unfolding staged_def by blast
  then show ?thesis
  proof cases
    case 2
    then have k: "k = n" using assms(4) by blast
    have away: "staging_name (random E) (below d n) \<noteq> below d m" if "clean_name m = Inr m" for m
      using staging_no_object [OF assms(3)] 2(2) that k by blast
    have st: "tr \<noteq> [] \<and> (\<forall>t \<in> set tr. (t (below d n) = s (below d n) \<or> t (below d n) = Some (src_data src))
        \<and> (\<forall>q. q \<noteq> staging_name (random E) (below d n) \<longrightarrow> q \<noteq> below d n \<longrightarrow> t q = s q))
      \<and> (case e of None \<Rightarrow> last tr (below d n) = Some (src_data src) \<and> \<not> src_broken src | Some _ \<Rightarrow> last tr (below d n) = s (below d n))"
      using stage_states [OF 2(3)] away [OF 2(2)] unfolding k by blast
    have "t (below d m) = s (below d m)" if "t \<in> set tr" "clean_name m = Inr m" "m \<noteq> n" for t m
      using st that away [OF that(2)] below_inj [of d m n] by metis
    with st 2(1,2) k show ?thesis by blast
  next
    case 3
    then show ?thesis using assms(4) by blast
  qed blast
qed

lemma staged_store:
  assumes "staged names d put" "good_prefix d" "\<And>x y. names x = Inr y \<Longrightarrow> y = x \<and> clean_name x = Inr x"
    and refused: "\<And>E n src s. (\<nexists>k. names n = Inr k) \<Longrightarrow> snd (put E n src s) = [s]"
    and reads: "\<And>E n s v. names n = Inr n \<Longrightarrow> get E n s = Inr v \<Longrightarrow> v = s (below d n)"
  shows "object_store put get (below d) (\<lambda>n. names n = Inr n)"
proof
  note c = staged_cases [OF assms(1) _ assms(2)] 
  have id: "\<And>x y. names x = Inr y \<Longrightarrow> y = x" using assms(3) by blast
  note c = c [OF _ id]
  fix E n src s e tr t m v x
  show "put E n src s = (None, tr) \<Longrightarrow> names n = Inr n \<and> tr \<noteq> [] \<and> last tr (below d n) = Some (src_data src) \<and> \<not> src_broken src"
    using c [of E n src s None tr] by auto
  show "put E n src s = (Some x, tr) \<Longrightarrow> intruder E = None \<Longrightarrow> names n = Inr n \<Longrightarrow> tr \<noteq> [] \<and> last tr (below d n) = s (below d n)"
    using c [of E n src s "Some x" tr] by auto
next
  have id: "\<And>x y. names x = Inr y \<Longrightarrow> y = x" using assms(3) by blast
  note c = staged_cases [OF assms(1) _ assms(2) id]
  fix E n src s e tr t m v x
  show "put E n src s = (e, tr) \<Longrightarrow> intruder E = None \<Longrightarrow> names n = Inr n \<Longrightarrow> t \<in> set tr
      \<Longrightarrow> t (below d n) = s (below d n) \<or> t (below d n) = Some (src_data src)"
    using c [of E n src s e tr] by auto
  show "put E n src s = (e, tr) \<Longrightarrow> names n \<noteq> Inr n \<Longrightarrow> tr = [s]"
    using refused [of n E src s] id by (metis snd_conv)
  show "put E n src s = (e, tr) \<Longrightarrow> names m = Inr m \<Longrightarrow> m \<noteq> n \<Longrightarrow> t \<in> set tr \<Longrightarrow> t (below d m) = s (below d m)"
    using c [of E n src s e tr] assms(3) [of m m] by auto
  show "names n = Inr n \<Longrightarrow> get E n s = Inr v \<Longrightarrow> v = s (below d n)" by (rule reads)
qed

lemma local_staged: "staged clean_name [] local_put"
proof -
  have "clean_name k = Inr k" if "clean_name n = Inr k" for n k using clean_nameD(1) [OF that] that by simp
  then show ?thesis
    unfolding staged_def by (auto simp: local_put_def below_def split: sum.splits option.splits)
qed

lemma sftp_staged: "good_prefix d \<Longrightarrow> staged clean_name d (sftp_put d)"
proof -
  assume d: "good_prefix d"
  have k: "clean_name k = Inr k" if "clean_name n = Inr k" for n k using clean_nameD(1) [OF that] that by simp
  then have "path_join d k = below d k" if "clean_name n = Inr k" for n k using path_join_below [OF d] that by blast
  then show ?thesis using k
    unfolding staged_def by (auto simp: sftp_put_def Let_def split: sum.splits option.splits)
qed

lemma clean_smb_nameD: "clean_smb_name n = Inr k \<Longrightarrow> k = n \<and> clean_name n = Inr n"
  using clean_nameD(1) by (auto simp: clean_smb_name_def result_simps split: option.splits)

lemma smb_staged:
  assumes d: "good_prefix d"
  shows "staged clean_smb_name d (smb_put d)"
  unfolding staged_def
proof (intro allI impI)
  fix E n src s e tr
  assume p: "smb_put d E n src s = (e, tr)"
  show "(tr = [s] \<and> e \<noteq> None)
     \<or> (\<exists>k. clean_smb_name n = Inr k \<and> clean_name k = Inr k \<and>
          ((\<exists>steps. stage E steps (staging_name (random E) (below d k)) (below d k) src s = (e, tr))
           \<or> (intruder E \<noteq> None \<and> e \<noteq> None \<and> (\<forall>t \<in> set tr. \<forall>m. clean_name m = Inr m \<longrightarrow> m \<noteq> k \<longrightarrow> t (below d m) = s (below d m)))))"
  proof (cases "clean_smb_name n")
    case (Inr k)
    then have k: "k = n" "clean_name n = Inr n" using clean_smb_nameD by blast+
    have join: "path_join d n = below d n" by (rule path_join_below [OF d k(2)])
    have away: "staging_name (random E) (below d n) \<noteq> below d m" if "clean_name m = Inr m" for m
      using staging_no_object [OF d k(2) that] .
    show ?thesis
    proof (cases "intruder E")
      case None
      then show ?thesis using p Inr k join by (auto simp: smb_put_def Let_def split: option.splits if_splits)
    next
      case (Some b)
      let ?E = "E\<lparr>failing := (\<lambda>c. failing E c \<or> c = RenameTemp)\<rparr>" and ?s = "s(below d n \<mapsto> b)"
      obtain e' tr' where st: "stage ?E [CloseTemp] (staging_name (random E) (below d n)) (below d n) src ?s = (e', tr')" by force
      have f: "e' \<noteq> None" using stage_failed [OF st] away [OF k(2)] by simp
      have o: "t (below d m) = s (below d m)" if "t \<in> set tr'" "clean_name m = Inr m" "m \<noteq> n" for t m
        using stage_states [OF st] away [OF k(2)] away [OF that(2)] that below_inj [of d m n] by auto
      have "(tr = [s] \<and> e \<noteq> None) \<or> (tr = s # tr' \<and> e \<noteq> None)"
        using p Inr k join Some st f by (auto simp: smb_put_def Let_def split: option.splits if_splits)
      then show ?thesis using Inr k Some o by auto
    qed
  qed (use p in \<open>auto simp: smb_put_def\<close>)
qed

lemma local_store: "object_store local_put local_get (below []) (\<lambda>n. clean_name n = Inr n)"
proof (rule staged_store [OF local_staged])
  show "good_prefix []" by (simp add: good_prefix_def)
  show "\<And>x y. clean_name x = Inr y \<Longrightarrow> y = x \<and> clean_name x = Inr x" using clean_nameD(1) by blast
  show "\<And>E n src s. \<nexists>k. clean_name n = Inr k \<Longrightarrow> snd (local_put E n src s) = [s]" by (auto simp: local_put_def split: sum.splits)
  show "\<And>E n s v. clean_name n = Inr n \<Longrightarrow> local_get E n s = Inr v \<Longrightarrow> v = s (below [] n)"
    by (auto simp: local_get_def below_def split: option.splits)
qed

lemma sftp_store: "good_prefix d \<Longrightarrow> object_store (sftp_put d) (sftp_get d) (below d) (\<lambda>n. clean_name n = Inr n)"
proof (rule staged_store [OF sftp_staged])
  assume d: "good_prefix d"
  show "good_prefix d" "good_prefix d" by (rule d)+
  show "\<And>x y. clean_name x = Inr y \<Longrightarrow> y = x \<and> clean_name x = Inr x" using clean_nameD(1) by blast
  show "\<And>E n src s. \<nexists>k. clean_name n = Inr k \<Longrightarrow> snd (sftp_put d E n src s) = [s]" by (auto simp: sftp_put_def split: sum.splits)
  show "\<And>E n s v. clean_name n = Inr n \<Longrightarrow> sftp_get d E n s = Inr v \<Longrightarrow> v = s (below d n)"
    using path_join_below [OF d] by (auto simp: sftp_get_def split: option.splits)
qed

lemma smb_store: "good_prefix d \<Longrightarrow> object_store (smb_put d) (smb_get d) (below d) (\<lambda>n. clean_smb_name n = Inr n)"
proof (rule staged_store [OF smb_staged])
  assume d: "good_prefix d"
  show "good_prefix d" "good_prefix d" by (rule d)+
  show "\<And>x y. clean_smb_name x = Inr y \<Longrightarrow> y = x \<and> clean_name x = Inr x" using clean_smb_nameD by blast
  show "\<And>E n src s. \<nexists>k. clean_smb_name n = Inr k \<Longrightarrow> snd (smb_put d E n src s) = [s]" by (auto simp: smb_put_def split: sum.splits)
  show "\<And>E n s v. clean_smb_name n = Inr n \<Longrightarrow> smb_get d E n s = Inr v \<Longrightarrow> v = s (below d n)"
    using path_join_below [OF d] clean_smb_nameD by (fastforce simp: smb_get_def split: option.splits)
qed

interpretation local_dir: object_store local_put local_get "below []" "\<lambda>n. clean_name n = Inr n"
  by (rule local_store)

interpretation sftp_root: object_store "sftp_put []" "sftp_get []" "below []" "\<lambda>n. clean_name n = Inr n"
  by (rule sftp_store) (simp add: good_prefix_def)

interpretation smb_root: object_store "smb_put []" "smb_get []" "below []" "\<lambda>n. clean_smb_name n = Inr n"
  by (rule smb_store) (simp add: good_prefix_def)

section \<open>The targets that are configured\<close>

text \<open>The names a target takes, and for one that is a file system its \<open>Put\<close> and the directory below its root.\<close>

definition target_name :: "target \<Rightarrow> string \<Rightarrow> offsite_error + string" where
  "target_name T = (case T of SmbTarget _ \<Rightarrow> clean_smb_name | _ \<Rightarrow> clean_name)"

definition file_target :: "target \<Rightarrow> ((Env \<Rightarrow> string \<Rightarrow> source \<Rightarrow> store \<Rightarrow> put_error option \<times> store list) \<times> string) option" where
  "file_target T =
     (case T of
        LocalTarget _ \<Rightarrow> Some (local_put, [])
      | S3Target _ \<Rightarrow> None
      | SftpTarget t \<Rightarrow> Some (sftp_put (sftp_dir t), sftp_dir t)
      | SmbTarget t \<Rightarrow> Some (smb_put (smb_dir t), smb_dir t))"

lemma parsed_dir:
  assumes "parse_target pu c = Inr T" "file_target T = Some (put, d)"
  shows "good_prefix d"
proof -
  have "parse_smb_endpoint t sh dr = Inr (a, b, d') \<Longrightarrow> good_prefix d'" for t sh dr a b d'
    by (auto simp: parse_smb_endpoint_def Let_def result_simps dest: clean_prefix_good split: if_splits option.splits prod.splits)
  then show ?thesis using assms
    by (auto simp: parse_target_def new_s3_target_def file_target_def Let_def result_simps good_prefix_def [of "[]"] dest: clean_prefix_good
        split: if_splits option.splits prod.splits)
qed

lemma parsed_store:
  assumes "parse_target pu c = Inr T" "file_target T = Some (put, d)"
  obtains get where "object_store put get (below d) (\<lambda>n. target_name T n = Inr n)"
proof (cases T)
  case LocalTarget
  then show thesis using that local_store assms(2) by (simp add: file_target_def target_name_def)
next
  case (SftpTarget t)
  then show thesis using that sftp_store parsed_dir [OF assms] assms(2) by (auto simp: file_target_def target_name_def)
next
  case (SmbTarget t)
  then show thesis using that smb_store parsed_dir [OF assms] assms(2) by (auto simp: file_target_def target_name_def)
qed (use assms(2) in \<open>simp add: file_target_def\<close>)

section \<open>Properties\<close>


text \<open>
  C27: No torn object. In every state an upload passes through, so also if it is cut off there, the object is as
  it was or has all of the data, and every other object is as it was.
\<close>

theorem uploads_are_atomic:
  assumes "parse_target pu c = Inr T" "file_target T = Some (put, d)"
    and "intruder E = None" "target_name T n = Inr n" "target_name T m = Inr m" "m \<noteq> n" "t \<in> set (snd (put E n src s))"
  shows "(t (below d n) = s (below d n) \<or> t (below d n) = Some (src_data src)) \<and> t (below d m) = s (below d m)"
proof -
  obtain get where o: "object_store put get (below d) (\<lambda>n. target_name T n = Inr n)" by (rule parsed_store [OF assms(1,2)])
  have p: "put E n src s = (fst (put E n src s), snd (put E n src s))" by simp
  show ?thesis using object_store.put_atomic [OF o p assms(3,4,7)] object_store.put_others [OF o p assms(5,6,7)] by blast
qed


text \<open>
  SFTP speaks to the pinned server only. A session is opened only when a fingerprint is pinned and the server
  presents it; without a pin the operator is told the fingerprint; a secret that is a private key is never
  offered as a password.
\<close>

theorem sftp_session_is_pinned:
  "case sftp_dial is_pem parses E t fingerprint of
     Inr a \<Rightarrow> sftp_host_key t \<noteq> [] \<and> fingerprint = sftp_host_key t
       \<and> a = (if is_pem (sftp_secret t) then PublicKeyAuth (sftp_secret t) else PasswordAuth (sftp_secret t))
   | Inl (Some v) \<Rightarrow> v = (if sftp_host_key t = [] then UnknownHostKey fingerprint else HostKeyMismatch)
   | Inl None \<Rightarrow> failing E Connect \<or> (is_pem (sftp_secret t) \<and> \<not> parses (sftp_secret t))"
  by (auto simp: sftp_dial_def sftp_auth_def check_host_key_def split: if_splits)

section \<open>Witnesses and a surprise\<close>

definition quiet :: Env where
  "quiet = \<lparr>failing = (\<lambda>_. False), random = [1], intruder = None\<rparr>"

lemma quiet_simps [simp]: "failing quiet c = False" "random quiet = [1]" "intruder quiet = None" "first_failing quiet cs = None"
  by (simp_all add: quiet_def first_failing_def)

lemma smb_ab: "clean_smb_name ''a'' = Inr ''a''" "clean_smb_name ''b'' = Inr ''b''" "clean_name ''a'' = Inr ''a''"
  by (simp_all add: clean_smb_name_def clean_name_def safe_component_def has_prefix_def staging_prefix_def smb_char_def device_name_def stem_def
      cut_at_def Let_def)

lemma good_root: "good_prefix []"
  by (simp add: good_prefix_def)

text \<open>The target \<open>file:///d\<close>.\<close>

definition file_url :: "string \<Rightarrow> parsed_url option" where
  "file_url _ = Some \<lparr>url_scheme = ''file'', url_user = None, url_host = [], url_hostname = [], url_port = [], url_path = ''/d'', url_query = [],
     url_fragment = []\<rparr>"

definition file_config :: Config where
  "file_config = \<lparr>config_url = ''file:///d'', access_key = [], secret = [], host_key = [], s3_endpoint = [], s3_region = [], config_timeout = 0\<rparr>"

lemma file_parsed: "parse_target file_url file_config = Inr (LocalTarget ''/d'')" "file_target (LocalTarget ''/d'') = Some (local_put, [])"
  by (simp_all add: parse_target_def file_url_def file_config_def is_abs_def file_target_def ascii_lower_def Let_def char_of_def bit_iff_odd)

lemma local_names: "target_name (LocalTarget ''/d'') ''a'' = Inr ''a''" "target_name (LocalTarget ''/d'') ''b'' = Inr ''b''"
  by (simp_all add: target_name_def clean_name_def safe_component_def has_prefix_def staging_prefix_def)


lemma uploads_are_atomic_witness:
  "(\<lambda>t. t (below [] ''a'')) ` set (snd (local_put quiet ''a'' \<lparr>src_data = [7, 8], src_broken = False\<rparr> [''a'' \<mapsto> [9]])) \<subseteq> {Some [9], Some [7, 8]}"
proof (rule image_subsetI)
  fix t
  assume t: "t \<in> set (snd (local_put quiet ''a'' \<lparr>src_data = [7, 8], src_broken = False\<rparr> [''a'' \<mapsto> [9]]))"
  have ab: "''b'' \<noteq> ''a''" by simp
  have "t (below [] ''a'') = [''a'' \<mapsto> [9]] (below [] ''a'') \<or> t (below [] ''a'') = Some [7, 8]"
    using uploads_are_atomic [OF file_parsed quiet_simps(3) local_names ab t] by simp
  then show "t (below [] ''a'') \<in> {Some [9], Some [7, 8]}" by (simp add: below_def)
qed


text \<open>
  The name of the probe is an object name like any other: testing an SMB target, whose uploads never replace,
  overwrites such an object and removes it.
\<close>

lemma probe_destroys_object:
  "clean_smb_name ping_name = Inr ping_name \<and> smb_put [] quiet ping_name src [ping_name \<mapsto> b] = (Some ObjectExists, [[ping_name \<mapsto> b]])
    \<and> fst (smb_test [] quiet [ping_name \<mapsto> b]) = None \<and> last (snd (smb_test [] quiet [ping_name \<mapsto> b])) ping_name = None"
proof -
  have p: "parts ping_name = [ping_name]" by (rule split_on_none) (simp add: ping_name_def)
  have c: "safe_component ping_name" by (simp add: safe_component_def has_prefix_def staging_prefix_def ping_name_def)
  have d: "clean_name ping_name = Inr ping_name"
    unfolding clean_name_def p using c by (simp add: has_prefix_def) (simp add: ping_name_def)
  have "list_all smb_char ping_name" by (simp add: ping_name_def smb_char_def)
  moreover have "stem ping_name = []" by (simp add: stem_def cut_at_def ping_name_def)
  moreover have "last ping_name \<noteq> CHR ''.''" by (simp add: ping_name_def)
  ultimately have n: "clean_smb_name ping_name = Inr ping_name"
    using d p by (simp add: clean_smb_name_def device_name_def)
  then have j: "path_join [] ping_name = ping_name"
    using path_join_below [OF good_root, of ping_name] clean_smb_nameD by (auto simp: below_def)
  show ?thesis using n j by (simp add: smb_put_def smb_test_def Let_def)
qed

end
