(* ===== verification/OffsiteS3.thy ===== *)
theory OffsiteS3
  imports OffsiteNames Hashes GoTime GoUrl
begin

text \<open>
  \<open>s3.go\<close>: objects on S3 over signed HTTP requests. The answers of the server are an argument; SHA-256 and HMAC
  are those of \<open>Hashes\<close>, the dates those of \<open>GoTime\<close>. Deadlines and the closing of bodies are not modelled.
\<close>

section \<open>URLs\<close>

text \<open>\<open>URL.EscapedPath\<close> of a path set as text.\<close>

definition path_keeps :: "char \<Rightarrow> bool" where
  "path_keeps c \<longleftrightarrow> unreserved c \<or> c \<in> set ''$&+,/:;=@''"

definition escaped_path :: "string \<Rightarrow> string" where
  "escaped_path p = concat (map (\<lambda>c. if path_keeps c then [c] else percent c) p)"

definition s3_scheme :: "S3 \<Rightarrow> string" where
  "s3_scheme t = (case s3_server t of None \<Rightarrow> ''https'' | Some u \<Rightarrow> url_scheme u)"

definition s3_host :: "S3 \<Rightarrow> string" where
  "s3_host t = (case s3_server t of None \<Rightarrow> bucket t @ ''.s3.'' @ s3_zone t @ ''.amazonaws.com'' | Some u \<Rightarrow> url_host u)"

definition object_path :: "S3 \<Rightarrow> string \<Rightarrow> string" where
  "object_path t name =
     (let object = path_join (s3_prefix t) name
      in case s3_server t of
           None \<Rightarrow> ''/'' @ object
         | Some u \<Rightarrow> (let p = path_joins [url_path u, bucket t, object] in if has_prefix p ''/'' then p else ''/'' @ p))"

definition object_url :: "S3 \<Rightarrow> string \<Rightarrow> string" where
  "object_url t name = s3_scheme t @ ''://'' @ s3_host t @ escaped_path (object_path t name)"

section \<open>Signatures\<close>

definition line_feed :: char where
  "line_feed = CHR 0x0A"

definition signature_key :: "string \<Rightarrow> string \<Rightarrow> string \<Rightarrow> bytes" where
  "signature_key sec date region =
     hmac_sha256 (hmac_sha256 (hmac_sha256 (hmac_sha256 (bytes_of (''AWS4'' @ sec)) (bytes_of date)) (bytes_of region)) (bytes_of ''s3''))
       (bytes_of ''aws4_request'')"

text \<open>\<open>Format("20060102")\<close> and \<open>Format("20060102T150405Z")\<close> of a time in UTC.\<close>

definition utc_day :: "int \<Rightarrow> string" where
  "utc_day t =
     (let n = nat ((unix t + int epoch_day * 86400) div 86400)
      in case civil n of (y, m, d) \<Rightarrow> pad4 y @ pad2 m @ pad2 d)"

definition amz_date :: "int \<Rightarrow> string" where
  "amz_date t =
     (let r = nat ((unix t + int epoch_day * 86400) mod 86400)
      in utc_day t @ ''T'' @ pad2 (r div 3600) @ pad2 (r div 60 mod 60) @ pad2 (r mod 60) @ ''Z'')"

definition signed_headers :: string where
  "signed_headers = ''host;x-amz-content-sha256;x-amz-date''"

definition canonical_request :: "string \<Rightarrow> string \<Rightarrow> string \<Rightarrow> string \<Rightarrow> string \<Rightarrow> string" where
  "canonical_request method epath host payload_hash date =
     method @ [line_feed] @ epath @ [line_feed, line_feed]
     @ (''host:'' @ host @ [line_feed] @ ''x-amz-content-sha256:'' @ payload_hash @ [line_feed] @ ''x-amz-date:'' @ date @ [line_feed])
     @ [line_feed] @ signed_headers @ [line_feed] @ payload_hash"

definition credential_scope :: "S3 \<Rightarrow> int \<Rightarrow> string" where
  "credential_scope t clock = utc_day clock @ ''/'' @ s3_zone t @ ''/s3/aws4_request''"

definition to_sign :: "S3 \<Rightarrow> int \<Rightarrow> string \<Rightarrow> string" where
  "to_sign t clock canonical =
     ''AWS4-HMAC-SHA256'' @ [line_feed] @ amz_date clock @ [line_feed] @ credential_scope t clock @ [line_feed] @ hex_encode (sha256 (bytes_of canonical))"

definition s3_signature :: "S3 \<Rightarrow> int \<Rightarrow> string \<Rightarrow> string" where
  "s3_signature t clock canonical =
     hex_encode (hmac_sha256 (signature_key (s3_secret t) (utc_day clock) (s3_zone t)) (bytes_of (to_sign t clock canonical)))"

record s3_request =
  s3_method :: string
  s3_url :: string
  s3_headers :: "(string \<times> string) list"
  s3_body :: "bytes option"

text \<open>The text whose hash is signed for an object.\<close>

definition signed_text :: "S3 \<Rightarrow> int \<Rightarrow> string \<Rightarrow> string \<Rightarrow> string \<Rightarrow> string" where
  "signed_text t clock method name payload_hash =
     canonical_request method (escaped_path (object_path t name)) (s3_host t) payload_hash (amz_date clock)"

definition s3_request_for :: "S3 \<Rightarrow> int \<Rightarrow> string \<Rightarrow> string \<Rightarrow> bytes option \<Rightarrow> string \<Rightarrow> s3_request" where
  "s3_request_for t clock method name body payload_hash =
     (let canonical = signed_text t clock method name payload_hash
      in \<lparr>s3_method = method, s3_url = object_url t name,
          s3_headers = [(''x-amz-date'', amz_date clock), (''x-amz-content-sha256'', payload_hash),
            (''Authorization'', ''AWS4-HMAC-SHA256 Credential='' @ s3_access_key t @ ''/'' @ credential_scope t clock
               @ '', SignedHeaders='' @ signed_headers @ '', Signature='' @ s3_signature t clock canonical)],
          s3_body = body\<rparr>)"

section \<open>Operations\<close>

text \<open>An answer is a status and a body; a redirect is an answer like any other, it is never followed.\<close>

datatype s3_error = S3BadName offsite_error | SourceBroken | NoResponse | Refused int string

type_synonym s3_server = "s3_request \<Rightarrow> (int \<times> bytes) option"

definition response_text :: "bytes \<Rightarrow> string" where
  "response_text body = trim_space (string_of (take 8192 body))"

text \<open>\<open>data\<close> is what the reader gives, \<open>None\<close> when reading or rewinding it fails.\<close>

definition s3_put :: "S3 \<Rightarrow> s3_server \<Rightarrow> int \<Rightarrow> string \<Rightarrow> bytes option \<Rightarrow> s3_error option" where
  "s3_put t serve clock name data =
     (case clean_name name of
        Inl e \<Rightarrow> Some (S3BadName e)
      | Inr n \<Rightarrow>
          (case data of
             None \<Rightarrow> Some SourceBroken
           | Some b \<Rightarrow>
               (case serve (s3_request_for t clock ''PUT'' n (Some b) (hex_encode (sha256 b))) of
                  None \<Rightarrow> Some NoResponse
                | Some (status, body) \<Rightarrow>
                    if status \<noteq> 200 \<and> status \<noteq> 201 \<and> status \<noteq> 204 then Some (Refused status (response_text body)) else None)))"

definition unsigned_payload :: string where
  "unsigned_payload = ''UNSIGNED-PAYLOAD''"

text \<open>\<open>Inr None\<close> is \<open>os.ErrNotExist\<close>.\<close>

definition s3_get :: "S3 \<Rightarrow> s3_server \<Rightarrow> int \<Rightarrow> string \<Rightarrow> s3_error + bytes option" where
  "s3_get t serve clock name =
     (case clean_name name of
        Inl e \<Rightarrow> Inl (S3BadName e)
      | Inr n \<Rightarrow>
          (case serve (s3_request_for t clock ''GET'' n None unsigned_payload) of
             None \<Rightarrow> Inl NoResponse
           | Some (status, body) \<Rightarrow>
               if status = 404 then Inr None
               else if status \<noteq> 200 then Inl (Refused status (response_text body))
               else Inr (Some body)))"

definition s3_test :: "S3 \<Rightarrow> s3_server \<Rightarrow> int \<Rightarrow> s3_error option" where
  "s3_test t serve clock = s3_put t serve clock ping_name (Some (bytes_of ''ping''))"

section \<open>Lemmas: paths\<close>

text \<open>The canonical path of Signature Version 4: everything but the unreserved characters and slashes is escaped.\<close>

definition sigv4_path :: "string \<Rightarrow> string" where
  "sigv4_path p = concat (map (\<lambda>c. if unreserved c \<or> c = CHR ''/'' then [c] else percent c) p)"

lemma escaped_Cons: "escaped_path (c # p) = (if path_keeps c then [c] else percent c) @ escaped_path p"
  "sigv4_path (c # p) = (if unreserved c \<or> c = CHR ''/'' then [c] else percent c) @ sigv4_path p"
  by (simp_all add: escaped_path_def sigv4_path_def)

lemma path_keeps_iff: "path_keeps c \<longleftrightarrow> (unreserved c \<or> c = CHR ''/'') \<or> c \<in> set ''$&+,:;=@''"
  by (auto simp: path_keeps_def)

lemma special_escaped: "c \<in> set ''$&+,:;=@'' \<Longrightarrow> \<not> unreserved c \<and> c \<noteq> CHR ''/'' \<and> c \<noteq> CHR ''%''"
  by (auto simp: unreserved_def)

text \<open>An escaped path is read back by unescaping; two paths have one escaped form only when they are the same.\<close>

fun unescape :: "string \<Rightarrow> string" where
  "unescape (c # a # b # r) =
     (if c = CHR ''%'' then (case (hex_val a, hex_val b) of (Some x, Some y) \<Rightarrow> char_of (16 * x + y) # unescape r | _ \<Rightarrow> [])
      else c # unescape (a # b # r))"
| "unescape s = s"

lemma unescape_keep: "c \<noteq> CHR ''%'' \<Longrightarrow> unescape (c # s) = c # unescape s"
  by (cases s; cases "tl s") auto

lemma unescape_escaped: "unescape (escaped_path p) = p"
proof (induction p)
  case (Cons c p)
  have keep: "path_keeps c \<Longrightarrow> c \<noteq> CHR ''%''" by (auto simp: path_keeps_def)
  show ?case
  proof (cases "path_keeps c")
    case True
    then show ?thesis using keep Cons by (simp add: escaped_Cons unescape_keep)
  next
    case False
    then show ?thesis using Cons by (simp add: escaped_Cons percent_def)
  qed
qed (simp add: escaped_path_def)

lemma escaped_inj: "escaped_path p = escaped_path q \<longleftrightarrow> p = q"
  using unescape_escaped by metis

lemma line_feed_not_escaped: "line_feed \<notin> set (escaped_path p)"
proof -
  have "\<not> unreserved line_feed" "line_feed \<noteq> CHR ''%''" "\<not> path_keeps line_feed"
    by (simp_all add: path_keeps_def unreserved_def line_feed_def Let_def)
  moreover have "upper_hex (of_char c div 16) \<noteq> line_feed" "upper_hex (of_char c mod 16) \<noteq> line_feed" for c :: char
    using calculation(1) upper_hex_unreserved [of "of_char c div 16"] upper_hex_unreserved [of "of_char c mod 16"] by auto
  then have "line_feed \<noteq> upper_hex (of_char c div 16)" "line_feed \<noteq> upper_hex (of_char c mod 16)" for c :: char by (metis, metis)
  ultimately have "c = line_feed \<Longrightarrow> \<not> path_keeps c" "line_feed \<notin> set (percent c)" for c
    by (simp_all add: percent_def)
  then have "line_feed \<notin> set (if path_keeps c then [c] else percent c)" for c by (metis empty_iff empty_set set_ConsD)
  then show ?thesis unfolding escaped_path_def set_concat set_map by blast
qed

text \<open>Go's escaped path is the standard's exactly without the characters Go leaves alone.\<close>

lemma escaped_standard_iff:
  "escaped_path p = sigv4_path p \<longleftrightarrow> set p \<inter> set ''$&+,:;=@'' = {}"
proof (induction p)
  case (Cons c p)
  show ?case
  proof (cases "c \<in> set ''$&+,:;=@''")
    case True
    then have "escaped_path (c # p) = c # escaped_path p" "sigv4_path (c # p) = percent c @ sigv4_path p"
      using special_escaped [OF True] by (simp_all only: escaped_Cons path_keeps_iff) auto
    moreover have "c \<noteq> CHR ''%''" using special_escaped [OF True] by blast
    ultimately have "escaped_path (c # p) \<noteq> sigv4_path (c # p)" by (simp add: percent_def)
    then show ?thesis using True by (meson disjoint_iff list.set_intros(1))
  next
    case False
    then have "path_keeps c \<longleftrightarrow> unreserved c \<or> c = CHR ''/''" by (simp only: path_keeps_iff simp_thms)
    then have "escaped_path (c # p) = sigv4_path (c # p) \<longleftrightarrow> escaped_path p = sigv4_path p" by (simp add: escaped_Cons)
    then show ?thesis using Cons False by (simp only: list.set Int_insert_left if_False)
  qed
qed (simp add: escaped_path_def sigv4_path_def)

text \<open>Where an object of an AWS target is.\<close>

lemma aws_object_path:
  assumes "s3_server t = None" "good_prefix (s3_prefix t)" "clean_name n = Inr n"
  shows "object_path t n = ''/'' @ below (s3_prefix t) n"
  using path_join_below [OF assms(2,3)] assms(1) by (simp add: object_path_def Let_def)

lemma new_s3_keeps:
  "new_s3_target pu bkt prefix c = Inr T \<Longrightarrow> \<exists>t. T = S3Target t \<and> s3_prefix t = prefix \<and> s3_secret t = secret c"
  by (auto simp: new_s3_target_def Let_def split: if_splits option.splits)

lemma parsed_s3:
  assumes "parse_target pu c = Inr (S3Target t)"
  shows "good_prefix (s3_prefix t)"
proof -
  have "\<exists>bkt path prefix. clean_prefix path = Inr prefix \<and> new_s3_target pu bkt prefix c = Inr (S3Target t)"
    using assms unfolding parse_target_def Let_def
    by (simp add: result_simps split: if_splits option.splits prod.splits; blast)
  then show ?thesis using new_s3_keeps clean_prefix_good by fastforce
qed

section \<open>Properties\<close>

text \<open>
  Objects do not share URLs. On a configured AWS target two names that are accepted have one URL only when
  they are the same name, and every URL is below the target's prefix: nothing in a name climbs out of it.
\<close>

theorem s3_objects_have_own_urls:
  assumes "parse_target pu c = Inr (S3Target t)" "s3_server t = None" "clean_name m = Inr m" "clean_name n = Inr n"
  shows "(object_url t m = object_url t n \<longleftrightarrow> m = n)
    \<and> object_url t n = ''https://'' @ s3_host t @ escaped_path (''/'' @ below (s3_prefix t) n)
    \<and> list_all plain (parts (below (s3_prefix t) n))"
proof -
  have g: "good_prefix (s3_prefix t)" by (rule parsed_s3 [OF assms(1)])
  have u: "object_url t x = ''https://'' @ s3_host t @ escaped_path (''/'' @ below (s3_prefix t) x)" if "clean_name x = Inr x" for x
    using aws_object_path [OF assms(2) g that] assms(2) by (simp add: object_url_def s3_scheme_def)
  have "object_url t m = object_url t n \<longleftrightarrow> m = n"
    unfolding u [OF assms(3)] u [OF assms(4)] by (simp add: escaped_inj below_inj)
  then show ?thesis using u [OF assms(4)] below_plain [OF g assms(4)] by blast
qed


text \<open>
  An upload that is reported done. The server answered 200, 201 or 204 to one PUT of exactly the data on the
  object's URL, with the SHA-256 of the data under the signature; a redirect or any other answer is an error.
\<close>

theorem s3_upload_is_answered:
  assumes "s3_put t serve clock name data = None"
  shows "\<exists>b status body rq. data = Some b \<and> clean_name name = Inr name \<and> serve rq = Some (status, body) \<and> status \<in> {200, 201, 204}
    \<and> s3_method rq = ''PUT'' \<and> s3_url rq = object_url t name \<and> s3_body rq = Some b
    \<and> (''x-amz-content-sha256'', hex_encode (sha256 b)) \<in> set (s3_headers rq)"
proof -
  obtain n where n: "clean_name name = Inr n" using assms by (auto simp: s3_put_def split: sum.splits)
  then have e: "n = name" using clean_nameD(1) by blast
  obtain b where b: "data = Some b" using assms n by (auto simp: s3_put_def split: option.splits)
  let ?rq = "s3_request_for t clock ''PUT'' name (Some b) (hex_encode (sha256 b))"
  obtain status body where a: "serve ?rq = Some (status, body)" "status \<in> {200, 201, 204}"
    using assms n b e by (auto simp: s3_put_def split: option.splits if_splits)
  have "s3_method ?rq = ''PUT'' \<and> s3_url ?rq = object_url t name \<and> s3_body ?rq = Some b
    \<and> (''x-amz-content-sha256'', hex_encode (sha256 b)) \<in> set (s3_headers ?rq)"
    by (simp add: s3_request_for_def Let_def)
  with n b e a show ?thesis by blast
qed

text \<open>
  The signature covers the request: two canonical requests that are the same text are the same method, path,
  host, payload and time.
\<close>

lemma canonical_request_inj:
  assumes "canonical_request m p h s d = canonical_request m' p' h' s' d'"
    and "line_feed \<notin> set m" "line_feed \<notin> set p" "line_feed \<notin> set h" "line_feed \<notin> set s" "line_feed \<notin> set d"
    and "line_feed \<notin> set m'" "line_feed \<notin> set p'" "line_feed \<notin> set h'" "line_feed \<notin> set s'" "line_feed \<notin> set d'"
  shows "m = m' \<and> p = p' \<and> h = h' \<and> s = s' \<and> d = d'"
proof -
  have lines: "split_on line_feed (canonical_request m p h s d)
      = [m, p, [], ''host:'' @ h, ''x-amz-content-sha256:'' @ s, ''x-amz-date:'' @ d, [], signed_headers, s]"
    if "line_feed \<notin> set m" "line_feed \<notin> set p" "line_feed \<notin> set h" "line_feed \<notin> set s" "line_feed \<notin> set d" for m p h s d
  proof -
    have "canonical_request m p h s d
        = join_with line_feed [m, p, [], ''host:'' @ h, ''x-amz-content-sha256:'' @ s, ''x-amz-date:'' @ d, [], signed_headers, s]"
      by (simp add: canonical_request_def)
    moreover have "line_feed \<notin> set signed_headers" "line_feed \<notin> set (''host:'' @ h)" "line_feed \<notin> set (''x-amz-content-sha256:'' @ s)" "line_feed \<notin> set (''x-amz-date:'' @ d)"
      using that by (simp_all add: signed_headers_def line_feed_def)
    moreover have "\<forall>q \<in> set [m, p, [], ''host:'' @ h, ''x-amz-content-sha256:'' @ s, ''x-amz-date:'' @ d, [], signed_headers, s]. line_feed \<notin> set q"
      using that calculation(2-5) by (simp only: list.set ball_simps) simp
    ultimately show ?thesis by (simp only: split_join list.distinct not_False_eq_True)
  qed
  show ?thesis using lines [OF assms(2-6), unfolded assms(1) lines [OF assms(7-11)]]
    by (simp only: list.inject same_append_eq simp_thms)
qed

section \<open>Witnesses\<close>

definition bucket_url :: "string \<Rightarrow> parsed_url option" where
  "bucket_url s = Some \<lparr>url_scheme = ''s3'', url_user = None, url_host = ''b'', url_hostname = ''b'', url_port = [], url_path = ''/'',
     url_query = [], url_fragment = []\<rparr>"

definition bucket_config :: Config where
  "bucket_config = \<lparr>config_url = ''s3://b/'', access_key = ''k'', secret = ''s'', host_key = [], s3_endpoint = [], s3_region = [], config_timeout = 0\<rparr>"

definition bucket_target :: S3 where
  "bucket_target = \<lparr>bucket = ''b'', s3_prefix = [], s3_zone = ''us-east-1'', s3_access_key = ''k'', s3_secret = ''s'', s3_server = None\<rparr>"

lemma bucket_parsed: "parse_target bucket_url bucket_config = Inr (S3Target bucket_target)"
  by (simp add: parse_target_def bucket_url_def bucket_config_def bucket_target_def new_s3_target_def clean_prefix_def default_region_def trim_chars_def trim_both_def
      ascii_lower_def Let_def char_of_def bit_iff_odd result_simps)

lemma bucket_names: "clean_name ''a'' = Inr ''a''" "clean_name ''b'' = Inr ''b''"
  by (simp_all add: clean_name_def safe_component_def has_prefix_def staging_prefix_def)

lemma s3_objects_have_own_urls_witness: "object_url bucket_target ''a'' \<noteq> object_url bucket_target ''b''"
proof -
  have "s3_server bucket_target = None" by (simp add: bucket_target_def)
  from s3_objects_have_own_urls [OF bucket_parsed this bucket_names]
  have "object_url bucket_target ''a'' = object_url bucket_target ''b'' \<longleftrightarrow> ''a'' = (''b'' :: string)" by (rule conjunct1)
  moreover have "''a'' \<noteq> (''b'' :: string)" by simp
  ultimately show ?thesis by (simp only: not_False_eq_True)
qed

lemma s3_upload_is_answered_witness:
  "\<exists>rq :: s3_request. s3_method rq = ''PUT'' \<and> s3_url rq = object_url bucket_target ''a'' \<and> s3_body rq = Some [1, 2]"
proof -
  have "s3_put bucket_target (\<lambda>_. Some (201, [])) 0 ''a'' (Some [1, 2]) = None" by (simp add: s3_put_def bucket_names)
  from s3_upload_is_answered [OF this] show ?thesis
  proof (elim exE conjE)
    fix b and rq :: s3_request
    assume "Some [1, 2] = Some b" "s3_method rq = ''PUT''" "s3_url rq = object_url bucket_target ''a''" "s3_body rq = Some b"
    then show ?thesis by - (rule exI [of _ rq], simp)
  qed
qed

end
