(* ===== verification/GuardTest.thy ===== *)
theory GuardTest
  imports Prelude GoStrings SafePath
begin

text \<open>
  \<open>recoveryclient/guardtest/guardtest.go\<close>: the check a product runs on its own source tree, that nothing but the
  functions it names opens a capsule, combines shares or rebuilds the recovery key. The tree and the parsed
  files are given; of the syntax there are identifiers, selectors and nodes with children, which is all the
  check looks at.
\<close>

section \<open>The tree\<close>

datatype expr = Ident string | Selector expr string | Node "expr list"

record import_spec =
  import_literal :: string
  import_alias :: "string option"

text \<open>A function or method with its body, if it has one; any other declaration.\<close>

datatype decl = FuncDecl string "expr option" | GenDecl expr

record go_file =
  file_imports :: "import_spec list"
  file_decls :: "decl list"

text \<open>A directory with whether it can be listed; a file with its syntax, if it can be read and parsed.\<close>

datatype fs_node = DirEntry string bool "fs_node list" | FileEntry string "go_file option"

definition node_name :: "fs_node \<Rightarrow> string" where
  "node_name n = (case n of DirEntry x _ _ \<Rightarrow> x | FileEntry x _ \<Rightarrow> x)"

section \<open>The check\<close>

definition forbidden :: "string \<rightharpoonup> string list" where
  "forbidden = [''capsule'' \<mapsto> [''Open''], ''recoverykey'' \<mapsto> [''Combine'', ''FromSeed''], ''recoveryclient'' \<mapsto> [''Restore'']]"

definition import_prefix :: string where
  "import_prefix = ''github.com/Busnes-app/ky-primitives/''"

definition min_files :: nat where
  "min_files = 10"

definition has_suffix :: "string \<Rightarrow> string \<Rightarrow> bool" where
  "has_suffix s t \<longleftrightarrow> length t \<le> length s \<and> drop (length s - length t) s = t"

definition skipped_dir :: "string \<Rightarrow> bool" where
  "skipped_dir name \<longleftrightarrow> has_prefix name ''.'' \<or> name = ''node_modules'' \<or> name = ''vendor'' \<or> name = ''testdata''"

definition go_source :: "string \<Rightarrow> bool" where
  "go_source name \<longleftrightarrow> has_suffix name ''.go'' \<and> \<not> has_suffix name ''_test.go''"

datatype guard_error = DotImport string string | Decrypts string string string "string option"

datatype guard_fatal = RelativeRoot | WalkFailed | TooFewFiles nat

definition rel_path :: "string list \<Rightarrow> string" where
  "rel_path ps = (if ps = [] then ''.'' else join_with (CHR ''/'') ps)"

definition import_path :: "import_spec \<Rightarrow> string" where
  "import_path i = trim_both (\<lambda>c. c = CHR 0x22) (import_literal i)"

text \<open>The watched package an import names, and the name the file knows it by.\<close>

definition watched :: "import_spec \<Rightarrow> string option" where
  "watched i =
     (let p = import_path i; key = last (split_on (CHR ''/'') p)
      in if has_prefix p import_prefix \<and> forbidden key \<noteq> None then Some key else None)"

definition local_name :: "import_spec \<Rightarrow> string \<Rightarrow> string" where
  "local_name i key = (case import_alias i of None \<Rightarrow> key | Some a \<Rightarrow> a)"

type_synonym aliases = "(string \<times> string) list"

fun scan_imports :: "string \<Rightarrow> import_spec list \<Rightarrow> aliases \<Rightarrow> aliases \<times> guard_error list" where
  "scan_imports rel [] al = (al, [])"
| "scan_imports rel (i # is) al =
     (case watched i of
        None \<Rightarrow> scan_imports rel is al
      | Some key \<Rightarrow>
          if local_name i key = ''.'' then (case scan_imports rel is al of (a, es) \<Rightarrow> (a, DotImport rel (import_path i) # es))
          else scan_imports rel is ((local_name i key, key) # al))"

text \<open>\<open>ast.Inspect\<close>: the selectors on a plain identifier, in the order of the walk.\<close>

fun selectors :: "expr \<Rightarrow> (string \<times> string) list" where
  "selectors (Ident x) = []"
| "selectors (Selector e s) = (case e of Ident x \<Rightarrow> [(x, s)] | _ \<Rightarrow> []) @ selectors e"
| "selectors (Node es) = concat (map selectors es)"

definition check_selector :: "(string \<Rightarrow> string list) \<Rightarrow> string \<Rightarrow> aliases \<Rightarrow> string \<Rightarrow> string \<times> string \<Rightarrow> guard_error list" where
  "check_selector allowed rel al enclosing sel =
     (case sel of (x, s) \<Rightarrow>
        case map_of al x of
          None \<Rightarrow> []
        | Some key \<Rightarrow>
            if s \<notin> set (case forbidden key of None \<Rightarrow> [] | Some ss \<Rightarrow> ss) then []
            else if enclosing \<noteq> [] \<and> enclosing \<in> set (allowed rel) then []
            else [Decrypts rel key s (if enclosing = [] then None else Some enclosing)])"

definition check_decl :: "(string \<Rightarrow> string list) \<Rightarrow> string \<Rightarrow> aliases \<Rightarrow> decl \<Rightarrow> guard_error list" where
  "check_decl allowed rel al d =
     (case d of
        FuncDecl _ None \<Rightarrow> []
      | FuncDecl name (Some body) \<Rightarrow> concat (map (check_selector allowed rel al name) (selectors body))
      | GenDecl e \<Rightarrow> concat (map (check_selector allowed rel al []) (selectors e)))"

definition check_file :: "(string \<Rightarrow> string list) \<Rightarrow> string \<Rightarrow> go_file \<Rightarrow> guard_error list" where
  "check_file allowed rel f =
     (case scan_imports rel (file_imports f) [] of
        (al, es) \<Rightarrow> if al = [] then es else es @ concat (map (check_decl allowed rel al) (file_decls f)))"

text \<open>\<open>filepath.WalkDir\<close> with the callback: whether it went through, the files seen and the errors so far.\<close>

fun walk :: "(string \<Rightarrow> string list) \<Rightarrow> bool \<Rightarrow> string list \<Rightarrow> fs_node \<Rightarrow> nat \<times> guard_error list \<Rightarrow> bool \<times> nat \<times> guard_error list"
  and walk_all :: "(string \<Rightarrow> string list) \<Rightarrow> string list \<Rightarrow> fs_node list \<Rightarrow> nat \<times> guard_error list \<Rightarrow> bool \<times> nat \<times> guard_error list" where
  "walk allowed is_root ps (DirEntry name readable ns) st =
     (if \<not> is_root \<and> skipped_dir name then (True, st)
      else if \<not> readable then (False, st)
      else walk_all allowed ps ns st)"
| "walk allowed is_root ps (FileEntry name source) st =
     (if \<not> go_source name then (True, st)
      else case source of
        None \<Rightarrow> (False, Suc (fst st), snd st)
      | Some f \<Rightarrow> (True, Suc (fst st), snd st @ check_file allowed (rel_path ps) f))"
| "walk_all allowed ps [] st = (True, st)"
| "walk_all allowed ps (n # ns) st =
     (let r = walk allowed False (ps @ [node_name n]) n st in if fst r then walk_all allowed ps ns (snd r) else r)"

text \<open>The errors reported and what stopped the test.\<close>

definition no_decrypt_outside :: "string \<Rightarrow> fs_node \<Rightarrow> (string \<Rightarrow> string list) \<Rightarrow> guard_error list \<times> guard_fatal option" where
  "no_decrypt_outside root tree allowed =
     (if \<not> is_abs root then ([], Some RelativeRoot)
      else case walk allowed True [] tree (0, []) of
        (ok, seen, es) \<Rightarrow>
          (es, if \<not> ok then Some WalkFailed else if seen < min_files then Some (TooFewFiles seen) else None))"

section \<open>What is looked at\<close>

text \<open>A node of the tree that no skipped directory hides, with its path below the root.\<close>

inductive walks_to :: "fs_node \<Rightarrow> string list \<Rightarrow> fs_node \<Rightarrow> bool" where
  here: "walks_to n [] n"
| beneath: "walks_to (DirEntry x r ns) (node_name m # ps) k"
    if "m \<in> set ns" "case m of DirEntry y _ _ \<Rightarrow> \<not> skipped_dir y | FileEntry _ _ \<Rightarrow> True" "walks_to m ps k"

inductive_cases walks_to_fileE: "walks_to (FileEntry x src) ps k"
inductive_cases walks_to_dirE: "walks_to (DirEntry x r ns) ps k"

definition legible :: "fs_node \<Rightarrow> bool" where
  "legible n = (case n of DirEntry _ r _ \<Rightarrow> r | FileEntry x src \<Rightarrow> go_source x \<longrightarrow> src \<noteq> None)"

text \<open>An expression within another.\<close>

inductive within :: "expr \<Rightarrow> expr \<Rightarrow> bool" where
  itself: "within e e"
| operand: "within e f \<Longrightarrow> within e (Selector f s)"
| child: "f \<in> set fs \<Longrightarrow> within e f \<Longrightarrow> within e (Node fs)"

inductive_cases within_identE: "within e (Ident x)"
inductive_cases within_selectorE: "within e (Selector f s)"
inductive_cases within_nodeE: "within e (Node fs)"

text \<open>The package a name stands for in a file: the last watched import under that name.\<close>

definition stands_for :: "go_file \<Rightarrow> string \<rightharpoonup> string" where
  "stands_for f =
     map_of (rev (map (\<lambda>i. (local_name i (the (watched i)), the (watched i)))
       (filter (\<lambda>i. watched i \<noteq> None \<and> local_name i (the (watched i)) \<noteq> ''.'') (file_imports f))))"

definition decl_code :: "decl \<Rightarrow> expr option" where
  "decl_code d = (case d of FuncDecl _ b \<Rightarrow> b | GenDecl e \<Rightarrow> Some e)"

definition decl_name :: "decl \<Rightarrow> string" where
  "decl_name d = (case d of FuncDecl n _ \<Rightarrow> n | GenDecl _ \<Rightarrow> [])"

text \<open>
  A file keeps to its allowance: it imports no watched package with a dot, and where the code of a declaration
  has a forbidden selector of a watched package, the declaration is a function that is allowed it.
\<close>

definition keeps_allowance :: "string list \<Rightarrow> go_file \<Rightarrow> bool" where
  "keeps_allowance names f \<longleftrightarrow>
     (\<forall>i \<in> set (file_imports f). \<forall>key. watched i = Some key \<longrightarrow> local_name i key \<noteq> ''.'')
     \<and> (\<forall>d \<in> set (file_decls f). \<forall>e x s key ss. decl_code d = Some e \<longrightarrow> within (Selector (Ident x) s) e \<longrightarrow>
          stands_for f x = Some key \<longrightarrow> forbidden key = Some ss \<longrightarrow> s \<in> set ss \<longrightarrow> decl_name d \<noteq> [] \<and> decl_name d \<in> set names)"

section \<open>Lemmas\<close>

lemma selectors_within: "(x, s) \<in> set (selectors e) \<longleftrightarrow> within (Selector (Ident x) s) e"
proof (induction e rule: selectors.induct)
  case (1 y)
  show ?case by (auto elim: within_identE)
next
  case (2 e t)
  have "within (Selector (Ident x) s) (Selector e t) \<longleftrightarrow> (e = Ident x \<and> s = t) \<or> within (Selector (Ident x) s) e"
    by (auto elim: within_selectorE intro: within.intros)
  moreover have "(x, s) \<in> set (case e of Ident y \<Rightarrow> [(y, t)] | _ \<Rightarrow> []) \<longleftrightarrow> e = Ident x \<and> s = t" by (cases e) auto
  ultimately show ?case using 2 by simp
next
  case (3 es)
  have "within (Selector (Ident x) s) (Node es) \<longleftrightarrow> (\<exists>f \<in> set es. within (Selector (Ident x) s) f)"
    by (auto elim: within_nodeE intro: within.intros)
  then show ?case using 3 by auto
qed

lemma scan_aliases:
  "fst (scan_imports rel is al) = rev (map (\<lambda>i. (local_name i (the (watched i)), the (watched i)))
     (filter (\<lambda>i. watched i \<noteq> None \<and> local_name i (the (watched i)) \<noteq> ''.'') is)) @ al"
  by (induction "is" arbitrary: al) (auto simp: case_prod_beta split: option.splits)

lemma scan_errors:
  "snd (scan_imports rel is al) = [] \<longleftrightarrow> (\<forall>i \<in> set is. \<forall>key. watched i = Some key \<longrightarrow> local_name i key \<noteq> ''.'')"
  by (induction "is" arbitrary: al) (auto split: option.splits prod.splits)

lemma check_selector_silent:
  "check_selector allowed rel al n (x, s) = [] \<longleftrightarrow>
     (\<forall>key ss. map_of al x = Some key \<longrightarrow> forbidden key = Some ss \<longrightarrow> s \<in> set ss \<longrightarrow> n \<noteq> [] \<and> n \<in> set (allowed rel))"
  by (cases "map_of al x"; cases "forbidden (the (map_of al x))") (auto simp: check_selector_def)

lemma check_decl_silent:
  "check_decl allowed rel al d = [] \<longleftrightarrow>
     (\<forall>e x s key ss. decl_code d = Some e \<longrightarrow> within (Selector (Ident x) s) e \<longrightarrow> map_of al x = Some key \<longrightarrow> forbidden key = Some ss
        \<longrightarrow> s \<in> set ss \<longrightarrow> decl_name d \<noteq> [] \<and> decl_name d \<in> set (allowed rel))"
proof -
  have all: "concat (map (check_selector allowed rel al n) (selectors e)) = [] \<longleftrightarrow>
      (\<forall>x s. within (Selector (Ident x) s) e \<longrightarrow> check_selector allowed rel al n (x, s) = [])" for n e
    using selectors_within by auto
  show ?thesis
  proof (cases d)
    case (FuncDecl n b)
    then show ?thesis by (cases b) (simp_all only: check_decl_def decl_code_def decl_name_def decl.case option.case option.inject option.distinct
        all check_selector_silent simp_thms, blast)
  next
    case (GenDecl e)
    then show ?thesis by (simp only: check_decl_def decl_code_def decl_name_def decl.case option.inject all check_selector_silent) blast
  qed
qed

lemma check_file_silent: "check_file allowed rel f = [] \<longleftrightarrow> keeps_allowance (allowed rel) f"
proof -
  obtain al es where a: "scan_imports rel (file_imports f) [] = (al, es)" by force
  have m: "map_of al = stands_for f" using scan_aliases [of rel "file_imports f" "[]"] a by (simp add: stands_for_def)
  have e: "es = [] \<longleftrightarrow> (\<forall>i \<in> set (file_imports f). \<forall>key. watched i = Some key \<longrightarrow> local_name i key \<noteq> ''.'')"
    using scan_errors [of rel "file_imports f" "[]"] a by simp
  have "check_file allowed rel f = [] \<longleftrightarrow> es = [] \<and> (al = [] \<or> (\<forall>d \<in> set (file_decls f). check_decl allowed rel al d = []))"
    using a by (auto simp: check_file_def)
  also have "\<dots> \<longleftrightarrow> es = [] \<and> (\<forall>d \<in> set (file_decls f). check_decl allowed rel al d = [])"
    by (auto simp: check_decl_silent)
  finally show ?thesis unfolding keeps_allowance_def e check_decl_silent m .
qed

text \<open>The nodes the walk looks at, in its order.\<close>

fun visited :: "bool \<Rightarrow> string list \<Rightarrow> fs_node \<Rightarrow> (string list \<times> fs_node) list" where
  "visited is_root ps (DirEntry x r ns) =
     (if \<not> is_root \<and> skipped_dir x then [] else (ps, DirEntry x r ns) # concat (map (\<lambda>m. visited False (ps @ [node_name m]) m) ns))"
| "visited is_root ps (FileEntry x src) = [(ps, FileEntry x src)]"

definition is_go_file :: "string list \<times> fs_node \<Rightarrow> bool" where
  "is_go_file k = (case snd k of DirEntry _ _ _ \<Rightarrow> False | FileEntry x _ \<Rightarrow> go_source x)"

definition report :: "(string \<Rightarrow> string list) \<Rightarrow> string list \<times> fs_node \<Rightarrow> guard_error list" where
  "report allowed k =
     (case snd k of FileEntry x (Some f) \<Rightarrow> if go_source x then check_file allowed (rel_path (fst k)) f else [] | _ \<Rightarrow> [])"

lemma walk_visited:
  "fst (walk allowed is_root ps n st) = list_all (legible \<circ> snd) (visited is_root ps n)
     \<and> (fst (walk allowed is_root ps n st) \<longrightarrow> snd (walk allowed is_root ps n st)
         = (fst st + length (filter is_go_file (visited is_root ps n)), snd st @ concat (map (report allowed) (visited is_root ps n))))"
  "(let vs = concat (map (\<lambda>m. visited False (ps @ [node_name m]) m) ns)
    in fst (walk_all allowed ps ns st) = list_all (legible \<circ> snd) vs
     \<and> (fst (walk_all allowed ps ns st) \<longrightarrow> snd (walk_all allowed ps ns st)
         = (fst st + length (filter is_go_file vs), snd st @ concat (map (report allowed) vs))))"
proof (induction allowed is_root ps n st and allowed ps ns st rule: walk_walk_all.induct)
  case (1 allowed is_root ps name readable ns st)
  then show ?case by (auto simp: legible_def is_go_file_def report_def Let_def)
next
  case (2 allowed is_root ps name source st)
  then show ?case by (auto simp: legible_def is_go_file_def report_def split: option.splits)
next
  case (4 allowed ps n ns st)
  then show ?case by (auto simp: Let_def)
qed (simp add: Let_def)

lemma visited_walks_to:
  "is_root \<or> (case n of DirEntry y _ _ \<Rightarrow> \<not> skipped_dir y | FileEntry _ _ \<Rightarrow> True)
    \<Longrightarrow> (p, k) \<in> set (visited is_root ps n) \<longleftrightarrow> (\<exists>q. p = ps @ q \<and> walks_to n q k)"
proof (induction is_root ps n arbitrary: p k rule: visited.induct)
  case (1 is_root ps x r ns)
  let ?shown = "\<lambda>m. case m of DirEntry y _ _ \<Rightarrow> \<not> skipped_dir y | FileEntry _ _ \<Rightarrow> True"
  have hidden: "\<not> ?shown m \<Longrightarrow> visited False qs m = []" for m qs by (cases m) auto
  have below: "(p, k) \<in> set (visited False (ps @ [node_name m]) m) \<longleftrightarrow> ?shown m \<and> (\<exists>q. p = ps @ node_name m # q \<and> walks_to m q k)"
    if "m \<in> set ns" for m
    using 1 that hidden by (cases "?shown m") auto
  have "walks_to (DirEntry x r ns) q k \<longleftrightarrow> (q = [] \<and> k = DirEntry x r ns) \<or> (\<exists>m \<in> set ns. ?shown m \<and> (\<exists>q'. q = node_name m # q' \<and> walks_to m q' k))" for q
    by (auto elim: walks_to_dirE intro: walks_to.intros)
  moreover have "(p, k) \<in> set (visited is_root ps (DirEntry x r ns)) \<longleftrightarrow> (p = ps \<and> k = DirEntry x r ns) \<or> (\<exists>m \<in> set ns. (p, k) \<in> set (visited False (ps @ [node_name m]) m))"
    using 1(2) by auto
  ultimately show ?case using below by auto
next
  case (2 is_root ps x src)
  have "walks_to (FileEntry x src) q k \<longleftrightarrow> q = [] \<and> k = FileEntry x src" for q by (auto elim: walks_to_fileE intro: walks_to.intros)
  then show ?case by auto
qed

definition go_files :: "fs_node \<Rightarrow> (string list \<times> fs_node) list" where
  "go_files tree = filter is_go_file (visited True [] tree)"

lemma go_files_iff: "(ps, FileEntry x src) \<in> set (go_files tree) \<longleftrightarrow> walks_to tree ps (FileEntry x src) \<and> go_source x"
  using visited_walks_to [of True tree] by (auto simp: go_files_def is_go_file_def)

section \<open>Properties\<close>


section \<open>Examples\<close>

definition empty_file :: go_file where
  "empty_file = \<lparr>file_imports = [], file_decls = []\<rparr>"

text \<open>A file that opens capsules in one function, with the import written in one of Go's two kinds of quotes.\<close>

definition opening_file :: "char \<Rightarrow> go_file" where
  "opening_file quote =
     \<lparr>file_imports = [\<lparr>import_literal = [quote] @ (import_prefix @ ''capsule'') @ [quote], import_alias = Some ''caps''\<rparr>],
      file_decls = [FuncDecl ''restore'' (Some (Node [Selector (Ident ''caps'') ''Open'']))]\<rparr>"

definition demo_tree :: "char \<Rightarrow> fs_node" where
  "demo_tree quote = DirEntry ''r'' True (FileEntry ''x.go'' (Some (opening_file quote)) # replicate 9 (FileEntry ''p.go'' (Some empty_file)))"

lemma demo_names: "go_source ''x.go''" "go_source ''p.go''" "is_abs ''/r''" "rel_path [''x.go''] = ''x.go''"
  by (simp_all add: go_source_def has_suffix_def is_abs_def rel_path_def)

lemma empty_file_silent: "check_file allowed rel empty_file = []"
  by (simp add: check_file_def empty_file_def)

lemma demo_verdict:
  assumes "check_file allowed ''x.go'' (opening_file quote) = es"
  shows "no_decrypt_outside ''/r'' (demo_tree quote) allowed = (es, None)"
  using assms by (simp add: no_decrypt_outside_def demo_tree_def demo_names node_name_def empty_file_silent min_files_def numeral_eq_Suc)

lemma capsule_path: "has_prefix (import_prefix @ ''capsule'') import_prefix" "last (split_on (CHR ''/'') (import_prefix @ ''capsule'')) = ''capsule''"
proof -
  let ?ps = "[''github.com'', ''Busnes-app'', ''ky-primitives'', ''capsule'']"
  have "import_prefix @ ''capsule'' = join_with (CHR ''/'') ?ps" by (simp add: import_prefix_def)
  moreover have "split_on (CHR ''/'') (join_with (CHR ''/'') ?ps) = ?ps" by (rule split_join) simp_all
  ultimately show "last (split_on (CHR ''/'') (import_prefix @ ''capsule'')) = ''capsule''"
    by (simp only: last.simps list.distinct if_False if_True simp_thms)
qed simp

lemma quoted_import:
  "watched \<lparr>import_literal = [CHR 0x22] @ (import_prefix @ ''capsule'') @ [CHR 0x22], import_alias = a\<rparr> = Some ''capsule''"
proof -
  have "trim_both (\<lambda>c. c = CHR 0x22) ([CHR 0x22] @ (import_prefix @ ''capsule'') @ [CHR 0x22]) = import_prefix @ ''capsule''"
    by (rule trim_both_pad) (simp_all add: import_prefix_def)
  then have "import_path \<lparr>import_literal = [CHR 0x22] @ (import_prefix @ ''capsule'') @ [CHR 0x22], import_alias = a\<rparr> = import_prefix @ ''capsule''"
    by (simp only: import_path_def import_spec.simps)
  then show ?thesis using capsule_path by (simp only: watched_def Let_def) (simp add: forbidden_def)
qed

lemma opening_checked:
  "check_file allowed ''x.go'' (opening_file (CHR 0x22))
     = (if ''restore'' \<in> set (allowed ''x.go'') then [] else [Decrypts ''x.go'' ''capsule'' ''Open'' (Some ''restore'')])"
proof -
  let ?i = "\<lparr>import_literal = [CHR 0x22] @ (import_prefix @ ''capsule'') @ [CHR 0x22], import_alias = Some ''caps''\<rparr>"
  have "scan_imports ''x.go'' [?i] [] = ([(''caps'', ''capsule'')], [])"
    by (simp only: scan_imports.simps quoted_import option.case local_name_def import_spec.simps) simp
  then show ?thesis
    by (simp only: check_file_def opening_file_def go_file.simps prod.case)
      (simp add: check_decl_def check_selector_def forbidden_def)
qed


text \<open>
  The check strips only double quotes from an import path. An import in backquotes, as legal, is not recognised,
  and what the file does with the package is not looked at.
\<close>

lemma raw_import_escapes: "no_decrypt_outside ''/r'' (demo_tree (CHR 0x60)) (\<lambda>_. []) = ([], None)"
proof (rule demo_verdict)
  let ?i = "\<lparr>import_literal = [CHR 0x60] @ (import_prefix @ ''capsule'') @ [CHR 0x60], import_alias = Some ''caps''\<rparr>"
  have "import_path ?i = [CHR 0x60] @ (import_prefix @ ''capsule'') @ [CHR 0x60]"
    unfolding import_path_def import_spec.simps by (rule trim_both_id) simp_all
  then have "\<not> has_prefix (import_path ?i) import_prefix" by (simp only: has_prefix_def) (simp add: import_prefix_def)
  then have "scan_imports ''x.go'' [?i] [] = ([], [])" by (simp add: watched_def Let_def)
  then show "check_file (\<lambda>_. []) ''x.go'' (opening_file (CHR 0x60)) = []"
    by (simp only: check_file_def opening_file_def go_file.simps prod.case simp_thms if_True)
qed

end
