(* ===== verification/RecoverySnapshot.thy ===== *)
theory RecoverySnapshot
  imports Prelude
begin

text \<open>
  \<open>recoveryclient/snapshot.go\<close>: a consistent copy of a live SQLite database, made by the database itself. What
  \<open>VACUUM INTO\<close> does to the files is an argument; of a file there are its mode and its contents.
\<close>

section \<open>Files\<close>

record Copy =
  copy_mode :: nat
  copy_data :: bytes

type_synonym copies = "string \<rightharpoonup> Copy"

text \<open>What the system and the driver do: which calls fail, and the effect of the statement on the files.\<close>

record Sqlite =
  stat_broken :: bool
  vacuum_into :: "string \<Rightarrow> copies \<Rightarrow> bool \<times> copies"
  chmod_broken :: bool
  restat_broken :: bool

datatype snapshot_error = NoDatabase | SnapshotExists | StatBroken | VacuumFailed | ModeFailed | NotWritten | SnapshotEmpty

section \<open>The snapshot\<close>

definition snapshot_mode :: nat where
  "snapshot_mode = 384"

definition sqlite_snapshot :: "Sqlite option \<Rightarrow> string \<Rightarrow> copies \<Rightarrow> snapshot_error option \<times> copies" where
  "sqlite_snapshot db dest fs =
     (case db of
        None \<Rightarrow> (Some NoDatabase, fs)
      | Some D \<Rightarrow>
          if stat_broken D then (Some StatBroken, fs)
          else if fs dest \<noteq> None then (Some SnapshotExists, fs)
          else case vacuum_into D dest fs of
            (False, fs) \<Rightarrow> (Some VacuumFailed, fs)
          | (True, fs) \<Rightarrow>
              (case fs dest of
                 None \<Rightarrow> (Some ModeFailed, fs)
               | Some f \<Rightarrow>
                   if chmod_broken D then (Some ModeFailed, fs)
                   else let fs = fs(dest \<mapsto> f\<lparr>copy_mode := snapshot_mode\<rparr>)
                   in if restat_broken D then (Some NotWritten, fs)
                      else if length (copy_data f) = 0 then (Some SnapshotEmpty, fs)
                      else (None, fs)))"

section \<open>What holds\<close>

text \<open>The statement writes its target and nothing else.\<close>

definition vacuum_writes_target :: "Sqlite \<Rightarrow> bool" where
  "vacuum_writes_target D \<longleftrightarrow> (\<forall>dest fs p. p \<noteq> dest \<longrightarrow> snd (vacuum_into D dest fs) p = fs p)"

text \<open>
  A snapshot that is reported done is a new file, readable and writable by its owner alone, and not empty; whatever
  was at the target before is never touched, nor is any other file.
\<close>

theorem snapshot_is_new_and_private:
  assumes "vacuum_writes_target D" "sqlite_snapshot (Some D) dest fs = (e, fs')"
  shows "(e = None \<longrightarrow> fs dest = None \<and> (\<exists>f. fs' dest = Some f \<and> copy_mode f = snapshot_mode \<and> copy_data f \<noteq> []
      \<and> map_option copy_data (snd (vacuum_into D dest fs) dest) = Some (copy_data f)))
    \<and> (fs dest \<noteq> None \<longrightarrow> e \<noteq> None \<and> fs' = fs) \<and> (\<forall>p. p \<noteq> dest \<longrightarrow> fs' p = fs p)"
proof -
  obtain ok g where v: "vacuum_into D dest fs = (ok, g)" by force
  have others: "p \<noteq> dest \<Longrightarrow> g p = fs p" for p using assms(1) v by (metis vacuum_writes_target_def snd_conv)
  show ?thesis
    using assms(2) v others by (auto simp: sqlite_snapshot_def Let_def split: if_splits bool.splits option.splits)
qed

text \<open>A driver that copies three bytes, readable by everybody until the mode is set.\<close>

definition copying_driver :: Sqlite where
  "copying_driver = \<lparr>stat_broken = False, vacuum_into = (\<lambda>dest fs. (True, fs(dest \<mapsto> \<lparr>copy_mode = 420, copy_data = [1, 2, 3]\<rparr>))),
     chmod_broken = False, restat_broken = False\<rparr>"

lemma snapshot_is_new_and_private_witness:
  "snd (sqlite_snapshot (Some copying_driver) ''b'' [''a'' \<mapsto> \<lparr>copy_mode = 384, copy_data = [9]\<rparr>]) ''a'' = Some \<lparr>copy_mode = 384, copy_data = [9]\<rparr>"
proof -
  let ?fs = "[''a'' \<mapsto> \<lparr>copy_mode = 384, copy_data = [9]\<rparr>] :: copies"
  have w: "vacuum_writes_target copying_driver" by (simp add: vacuum_writes_target_def copying_driver_def)
  have "sqlite_snapshot (Some copying_driver) ''b'' ?fs
      = (fst (sqlite_snapshot (Some copying_driver) ''b'' ?fs), snd (sqlite_snapshot (Some copying_driver) ''b'' ?fs))" by simp
  from snapshot_is_new_and_private [OF w this] show ?thesis by simp
qed

end
